(* ===== verification/Prelude.thy ===== *)
theory Prelude
  imports Main "HOL-Library.Word" "HOL-Library.Sublist"
begin

text \<open>
  What the components share: C strings and NULL pointers, the functions of the C library
  the sources call on them (with the results of the "C" locale), and the lemmas about them.

  A C string is the list of its bytes before the terminating NUL; a pointer that may be
  NULL is an option. Reading \<open>s[i]\<close> gives a byte for an index inside the string, NUL at the
  terminator, and is undefined behaviour past it (\<open>None\<close>). Functions that can dereference
  NULL or read past a buffer return an option, and \<open>None\<close> is that undefined behaviour.
\<close>

named_theorems cstring_simps \<open>evaluation of the C string functions\<close>

type_synonym cstring = string

section \<open>Reading C strings\<close>

definition NUL :: char where
  "NUL = CHR 0x00"

definition cget :: "cstring \<Rightarrow> nat \<Rightarrow> char option" where
  "cget s i = (if i < length s then Some (s ! i) else if i = length s then Some NUL else None)"

text \<open>\<open>strstr\<close>: the index of the first occurrence, \<open>None\<close> for NULL.\<close>

fun strstr :: "cstring \<Rightarrow> cstring \<Rightarrow> nat option" where
  "strstr [] n = (if n = [] then Some 0 else None)"
| "strstr (c # cs) n = (if prefix n (c # cs) then Some 0 else map_option Suc (strstr cs n))"

text \<open>\<open>strchr\<close> and \<open>strrchr\<close>: the index of the first and the last occurrence of a byte.\<close>

fun strchr :: "cstring \<Rightarrow> char \<Rightarrow> nat option" where
  "strchr [] d = None"
| "strchr (c # cs) d = (if c = d then Some 0 else map_option Suc (strchr cs d))"

fun strrchr :: "cstring \<Rightarrow> char \<Rightarrow> nat option" where
  "strrchr [] d = None"
| "strrchr (c # cs) d =
     (case strrchr cs d of Some i \<Rightarrow> Some (Suc i) | None \<Rightarrow> if c = d then Some 0 else None)"

text \<open>
  \<open>strcmp\<close>, \<open>strncmp\<close> and \<open>memcmp\<close> promise only the sign of their result; it is -1, 0 or 1
  here. \<open>memcmp\<close> is called on blocks of the same length.
\<close>

fun strcmp :: "cstring \<Rightarrow> cstring \<Rightarrow> int" where
  "strcmp [] [] = 0"
| "strcmp [] (d # ds) = -1"
| "strcmp (c # cs) [] = 1"
| "strcmp (c # cs) (d # ds) =
     (if c = d then strcmp cs ds else if (of_char c :: nat) < of_char d then -1 else 1)"

definition strncmp :: "cstring \<Rightarrow> cstring \<Rightarrow> nat \<Rightarrow> int" where
  "strncmp a b n = strcmp (take n a) (take n b)"

fun memcmp :: "char list \<Rightarrow> char list \<Rightarrow> int" where
  "memcmp (c # cs) (d # ds) =
     (if c = d then memcmp cs ds else if (of_char c :: nat) < of_char d then -1 else 1)"
| "memcmp _ _ = 0"

section \<open>Character classes of the C locale\<close>

definition isdigit :: "char \<Rightarrow> bool" where
  "isdigit c \<longleftrightarrow> 48 \<le> (of_char c :: nat) \<and> (of_char c :: nat) \<le> 57"

definition isprint :: "char \<Rightarrow> bool" where
  "isprint c \<longleftrightarrow> 32 \<le> (of_char c :: nat) \<and> (of_char c :: nat) \<le> 126"

definition isspace :: "char \<Rightarrow> bool" where
  "isspace c \<longleftrightarrow> (of_char c :: nat) = 32 \<or> (9 \<le> (of_char c :: nat) \<and> (of_char c :: nat) \<le> 13)"

definition isxdigit :: "char \<Rightarrow> bool" where
  "isxdigit c \<longleftrightarrow> isdigit c \<or> (65 \<le> (of_char c :: nat) \<and> (of_char c :: nat) \<le> 70)
     \<or> (97 \<le> (of_char c :: nat) \<and> (of_char c :: nat) \<le> 102)"

definition tolower :: "char \<Rightarrow> char" where
  "tolower c = (if 65 \<le> (of_char c :: nat) \<and> (of_char c :: nat) \<le> 90
                then char_of ((of_char c :: nat) + 32) else c)"

definition digit_val :: "char \<Rightarrow> int" where
  "digit_val c = int (of_char c) - 48"

section \<open>Numbers in strings\<close>

fun show_nat :: "nat \<Rightarrow> cstring" where
  "show_nat n = (if n < 10 then [char_of (48 + n)] else show_nat (n div 10) @ [char_of (48 + n mod 10)])"

declare show_nat.simps [simp del]

text \<open>\<open>printf\<close>'s \<open>%d\<close>.\<close>

definition show_int :: "int \<Rightarrow> cstring" where
  "show_int i = (if i < 0 then CHR ''-'' # show_nat (nat (- i)) else show_nat (nat i))"

text \<open>\<open>printf\<close>'s \<open>%lX\<close>.\<close>

definition hexDigit :: "nat \<Rightarrow> char" where
  "hexDigit n = ''0123456789ABCDEF'' ! n"

fun show_hex :: "nat \<Rightarrow> cstring" where
  "show_hex n = (if n < 16 then [hexDigit n] else show_hex (n div 16) @ [hexDigit (n mod 16)])"

declare show_hex.simps [simp del]

text \<open>The digits \<open>strtol\<close> and \<open>atoi\<close> read, and the value they accumulate.\<close>

fun read_digits :: "nat \<Rightarrow> cstring \<Rightarrow> nat \<times> cstring" where
  "read_digits acc [] = (acc, [])"
| "read_digits acc (c # cs) =
     (if isdigit c then read_digits (10 * acc + nat (digit_val c)) cs else (acc, c # cs))"

text \<open>
  \<open>strtol (s, \<dots>, 10)\<close>: leading blanks, an optional sign, digits; the value and the
  unread rest. When there is no digit the rest is the whole string. The value is not
  clamped at \<open>LONG_MAX\<close>.
\<close>

definition strtol :: "cstring \<Rightarrow> int \<times> cstring" where
  "strtol s =
     (let t = dropWhile isspace s;
          neg = (t \<noteq> [] \<and> hd t = CHR ''-'');
          u = (if t \<noteq> [] \<and> (hd t = CHR ''-'' \<or> hd t = CHR ''+'') then tl t else t)
      in if u \<noteq> [] \<and> isdigit (hd u)
         then (case read_digits 0 u of (v, r) \<Rightarrow> (if neg then - int v else int v, r))
         else (0, s))"

definition atoi :: "cstring \<Rightarrow> int" where
  "atoi s = fst (strtol s)"

section \<open>Allocating printf\<close>

text \<open>
  \<open>vsnprintf_wrap\<close> and \<open>snprintf_wrap\<close> (src/src/common/doio.c): the formatted text, but NULL
  when it is empty, because the buffer is only allocated for a positive length. \<open>mem\<close> says
  whether \<open>malloc\<close> succeeds; the argument is the text the format expands to.
\<close>

definition vsnprintf_wrap :: "bool \<Rightarrow> cstring \<Rightarrow> cstring option" where
  "vsnprintf_wrap mem text = (let plen = int (length text) in
     if plen > 0 then (if mem then Some text else None) else None)"

definition snprintf_wrap :: "bool \<Rightarrow> cstring \<Rightarrow> cstring option" where
  "snprintf_wrap mem text = vsnprintf_wrap mem text"

text \<open>\<open>fileexists\<close>: whether the file can be opened for reading.\<close>

definition fileexists :: "(cstring \<Rightarrow> bool) \<Rightarrow> cstring \<Rightarrow> int" where
  "fileexists can_open file = (if can_open file then 1 else 0)"

section \<open>Lemmas\<close>

lemma cget_inside [cstring_simps]: "i < length s \<Longrightarrow> cget s i = Some (s ! i)"
  by (simp add: cget_def)

lemma cget_end [cstring_simps]: "cget s (length s) = Some NUL"
  by (simp add: cget_def)

lemma strcmp_eq_0 [simp]: "strcmp a b = 0 \<longleftrightarrow> a = b"
  by (induction a b rule: strcmp.induct) auto

lemma memcmp_eq_0 [simp]: "length a = length b \<Longrightarrow> memcmp a b = 0 \<longleftrightarrow> a = b"
  by (induction a b rule: memcmp.induct) auto

lemma strncmp_eq_0 [simp]: "strncmp a b n = 0 \<longleftrightarrow> take n a = take n b"
  by (simp add: strncmp_def)

lemma strstr_empty [simp]: "strstr s [] = Some 0"
  by (cases s) auto

lemma strstr_None: "strstr s n = None \<longleftrightarrow> \<not> sublist n s"
proof (induction s)
  case Nil
  then show ?case by auto
next
  case (Cons c s)
  then show ?case by (auto simp: sublist_Cons_right)
qed

lemma strstr_SomeD:
  assumes "strstr s n = Some i"
  shows "i + length n \<le> length s" and "prefix n (drop i s)" and "\<And>j. j < i \<Longrightarrow> \<not> prefix n (drop j s)"
proof -
  have "i + length n \<le> length s \<and> prefix n (drop i s) \<and> (\<forall>j<i. \<not> prefix n (drop j s))"
    using assms
  proof (induction s arbitrary: i)
    case Nil
    then show ?case by (auto split: if_splits)
  next
    case (Cons c s)
    show ?case
    proof (cases "prefix n (c # s)")
      case True
      with Cons.prems show ?thesis by (auto dest: prefix_length_le)
    next
      case False
      with Cons.prems obtain k where k: "strstr s n = Some k" and "i = Suc k" by auto
      moreover from Cons.IH [OF k] have "\<forall>j<Suc k. \<not> prefix n (drop j (c # s))"
        using False by (auto simp: less_Suc_eq_0_disj)
      ultimately show ?thesis using Cons.IH [OF k] by auto
    qed
  qed
  then show "i + length n \<le> length s" and "prefix n (drop i s)"
    and "\<And>j. j < i \<Longrightarrow> \<not> prefix n (drop j s)" by auto
qed

lemma strchr_None: "strchr s d = None \<longleftrightarrow> d \<notin> set s"
  by (induction s) auto

lemma strchr_append: "d \<notin> set s \<Longrightarrow> strchr (s @ d # t) d = Some (length s)"
  by (induction s) auto

lemma strchr_SomeD:
  "strchr s d = Some i \<Longrightarrow> i < length s \<and> s ! i = d \<and> d \<notin> set (take i s)"
  by (induction s arbitrary: i) (auto split: if_splits)

lemma strrchr_None: "strrchr s d = None \<longleftrightarrow> d \<notin> set s"
  by (induction s) (auto split: option.splits)

lemma strrchr_SomeD:
  "strrchr s d = Some i \<Longrightarrow> i < length s \<and> s ! i = d \<and> d \<notin> set (drop (Suc i) s)"
proof (induction s arbitrary: i)
  case (Cons c s)
  then show ?case
    by (auto split: option.splits if_splits simp: strrchr_None)
qed simp

lemma snprintf_wrap_Some [cstring_simps]: "text \<noteq> [] \<Longrightarrow> snprintf_wrap True text = Some text"
  by (simp add: snprintf_wrap_def vsnprintf_wrap_def)

lemma snprintf_wrap_empty: "snprintf_wrap mem [] = None"
  by (simp add: snprintf_wrap_def vsnprintf_wrap_def)

section \<open>Printed numbers read back\<close>

lemma digit_printed: "(n :: nat) < 10 \<Longrightarrow> isdigit (char_of (48 + n)) \<and> digit_val (char_of (48 + n)) = int n"
  by (simp add: isdigit_def digit_val_def)

lemma read_digits_append:
  "list_all isdigit s \<Longrightarrow> read_digits a (s @ t) = read_digits (fst (read_digits a s)) t"
  by (induction a s rule: read_digits.induct) auto

lemma show_nat_digits: "list_all isdigit (show_nat n)"
proof (induction n rule: show_nat.induct)
  case (1 n)
  then show ?case by (subst show_nat.simps) (auto simp: digit_printed)
qed

lemma read_digits_show: "fst (read_digits 0 (show_nat n)) = n"
proof (induction n rule: show_nat.induct)
  case (1 n)
  show ?case
  proof (cases "n < 10")
    case True
    then show ?thesis by (subst show_nat.simps) (simp add: digit_printed)
  next
    case False
    with 1 read_digits_append [OF show_nat_digits, of 0 "n div 10" "[char_of (48 + n mod 10)]"] show ?thesis
      by (subst show_nat.simps) (simp add: digit_printed)
  qed
qed

lemma show_nat_inject [simp]: "show_nat m = show_nat n \<longleftrightarrow> m = n"
  using read_digits_show by metis

lemma show_nat_nonempty [simp]: "show_nat n \<noteq> []"
  by (subst show_nat.simps) simp

end
