(* ===== verification/CList.thy ===== *)
theory CList
  imports Prelude
begin

text \<open>
  The NULL-terminated pointer arrays of src/src/common/list.c, which carry the namespaces
  of a policy, the policies of a verification and the attributes of a response.

  A block of memory is the list of its cells, a cell holding a pointer or NULL (\<open>None\<close>); a
  block may be longer than the list in it. The scan for the terminator runs over the cells
  and is undefined behaviour past the block. The abstract list of a block is \<open>contents\<close>.
\<close>

type_synonym 'a cells = "'a option list"

section \<open>The code\<close>

text \<open>The loop \<open>while (vect[i++]) ;\<close>: the index after the terminator.\<close>

function scan :: "'a cells \<Rightarrow> nat \<Rightarrow> nat option" where
  "scan v i = (if i < length v then (case v ! i of None \<Rightarrow> Some (Suc i) | Some _ \<Rightarrow> scan v (Suc i))
               else None)"
  by auto
termination by (relation "measure (\<lambda>(v, i). length v - i)") auto

declare scan.simps [simp del]

text \<open>
  \<open>listadd\<close>: the outer \<open>None\<close> is a read past the block; the inner one is NULL. \<open>mem\<close> says
  whether \<open>malloc\<close> succeeds.
\<close>

definition listadd :: "bool \<Rightarrow> 'a cells option \<Rightarrow> 'a option \<Rightarrow> 'a cells option option" where
  "listadd mem vect data =
     (case data of None \<Rightarrow> Some vect
      | Some d \<Rightarrow>
         (case (case vect of Some v \<Rightarrow> scan v 0 | None \<Rightarrow> Some 1) of None \<Rightarrow> None
          | Some i \<Rightarrow>
             if mem then
               (case vect of
                  Some v \<Rightarrow> Some (Some (take (i - 1) v @ [Some d, None]))
                | None \<Rightarrow> Some (Some [Some d, None]))
             else Some None))"

text \<open>
  \<open>listfree\<close>: the arguments \<open>f\<close> is called on, in order; \<open>None\<close> when the loop leaves the block.
\<close>

function listfree_from :: "'a cells \<Rightarrow> nat \<Rightarrow> 'a list option" where
  "listfree_from v i = (if i < length v then
       (case v ! i of None \<Rightarrow> Some [] | Some d \<Rightarrow> map_option ((#) d) (listfree_from v (Suc i)))
     else None)"
  by auto
termination by (relation "measure (\<lambda>(v, i). length v - i)") auto

declare listfree_from.simps [simp del]

definition listfree :: "'a cells option \<Rightarrow> 'a list option" where
  "listfree vect = (case vect of None \<Rightarrow> Some [] | Some v \<Rightarrow> listfree_from v 0)"

section \<open>The abstract list\<close>

definition terminated :: "'a cells option \<Rightarrow> bool" where
  "terminated vect \<longleftrightarrow> (case vect of None \<Rightarrow> True | Some v \<Rightarrow> None \<in> set v)"

fun cells_contents :: "'a cells \<Rightarrow> 'a list" where
  "cells_contents (Some d # v) = d # cells_contents v"
| "cells_contents _ = []"

definition contents :: "'a cells option \<Rightarrow> 'a list" where
  "contents vect = (case vect of None \<Rightarrow> [] | Some v \<Rightarrow> cells_contents v)"

text \<open>A block from a list, with nothing after the terminator.\<close>

definition block_of :: "'a list \<Rightarrow> 'a cells" where
  "block_of xs = map Some xs @ [None]"

lemma cells_contents_map [simp]: "cells_contents (map Some xs @ None # r) = xs"
  by (induction xs) auto

lemma terminated_split:
  assumes "None \<in> set v"
  obtains xs r where "v = map Some xs @ None # r"
proof -
  from assms obtain ys r where v: "v = ys @ None # r" and ys: "None \<notin> set ys"
    by (meson split_list_first)
  from ys have "ys = map Some (map the ys)" by (induction ys) auto
  with v that show ?thesis by blast
qed

lemma scan_terminated:
  "i \<le> length xs \<Longrightarrow> scan (map Some xs @ None # r) i = Some (Suc (length xs))"
proof (induction "length xs - i" arbitrary: i)
  case 0
  then show ?case by (subst scan.simps) (simp add: nth_append)
next
  case (Suc n)
  then have "i < length xs" and "scan (map Some xs @ None # r) (Suc i) = Some (Suc (length xs))" by auto
  then show ?case by (subst scan.simps) (simp add: nth_append)
qed

lemma listfree_terminated:
  "i \<le> length xs \<Longrightarrow> listfree_from (map Some xs @ None # r) i = Some (drop i xs)"
proof (induction "length xs - i" arbitrary: i)
  case 0
  then show ?case by (subst listfree_from.simps) (simp add: nth_append)
next
  case (Suc n)
  then have "i < length xs" and "listfree_from (map Some xs @ None # r) (Suc i) = Some (drop (Suc i) xs)"
    by auto
  then show ?case by (subst listfree_from.simps) (simp add: nth_append Cons_nth_drop_Suc)
qed

section \<open>The interface the callers rely on\<close>

text \<open>
  What a caller that only appends needs: adding to a good list never fails, keeps it good
  and appends to its contents.
\<close>

locale append_list =
  fixes add :: "'v \<Rightarrow> 'a \<Rightarrow> 'v option"
    and good :: "'v \<Rightarrow> bool"
    and conts :: "'v \<Rightarrow> 'a list"
  assumes add_total: "good v \<Longrightarrow> \<exists>w. add v d = Some w"
    and add_good: "good v \<Longrightarrow> add v d = Some w \<Longrightarrow> good w"
    and add_conts: "good v \<Longrightarrow> add v d = Some w \<Longrightarrow> conts w = conts v @ [d]"
begin

fun add_all :: "'v \<Rightarrow> 'a list \<Rightarrow> 'v option" where
  "add_all v [] = Some v"
| "add_all v (d # ds) = (case add v d of None \<Rightarrow> None | Some w \<Rightarrow> add_all w ds)"

lemma add_all_ok: "good v \<Longrightarrow> \<exists>w. add_all v ds = Some w \<and> good w \<and> conts w = conts v @ ds"
proof (induction ds arbitrary: v)
  case (Cons d ds)
  from add_total [OF Cons.prems] obtain w where w: "add v d = Some w" by blast
  from Cons.IH [OF add_good [OF Cons.prems w]] add_conts [OF Cons.prems w] w show ?case by auto
qed simp

end

lemma listadd_Some:
  assumes "terminated vect"
  shows "\<exists>w. listadd True vect (Some d) = Some (Some w) \<and> terminated (Some w) \<and>
             contents (Some w) = contents vect @ [d]"
proof (cases vect)
  case None
  then show ?thesis by (simp add: listadd_def terminated_def contents_def)
next
  case (Some v)
  with assms obtain xs r where v: "v = map Some xs @ None # r"
    by (auto simp: terminated_def elim: terminated_split)
  have "map Some xs @ [Some d, None] = map Some (xs @ [d]) @ [None]" by simp
  then have "cells_contents (map Some xs @ [Some d, None]) = xs @ [d]"
    by (simp only: cells_contents_map)
  with Some v show ?thesis
    by (simp add: listadd_def terminated_def contents_def scan_terminated)
qed

interpretation cl: append_list
  "\<lambda>v d. listadd True v (Some d)" terminated contents
proof
  show "\<exists>w. listadd True v (Some d) = Some w" if "terminated v" for v and d :: 'a
    using listadd_Some [OF that] by blast
  show "terminated w" if "terminated v" "listadd True v (Some d) = Some w" for v w and d :: 'a
    using listadd_Some [OF that(1), of d] that(2) by force
  show "contents w = contents v @ [d]"
    if "terminated v" "listadd True v (Some d) = Some w" for v w and d :: 'a
    using listadd_Some [OF that(1), of d] that(2) by force
qed

text \<open>
  Building a list. Starting from NULL, adding any sequence of pointers with listadd
  never reads outside a block, and listfree then hands exactly these pointers, in the order
  they were added, to the destructor.
\<close>

theorem listadd_listfree_roundtrip:
  "(case cl.add_all None ds of None \<Rightarrow> None | Some v \<Rightarrow> listfree v) = Some ds"
proof -
  obtain w where w: "cl.add_all None ds = Some w" "terminated w" "contents w = ds"
    using cl.add_all_ok [of None ds] by (auto simp: terminated_def contents_def)
  have "listfree w = Some (contents w)"
  proof (cases w)
    case (Some v)
    with w(2) obtain xs r where "v = map Some xs @ None # r"
      by (auto simp: terminated_def elim: terminated_split)
    with Some show ?thesis by (simp add: listfree_def contents_def listfree_terminated)
  qed (simp add: listfree_def contents_def)
  with w show ?thesis by simp
qed

section \<open>Reading a cell\<close>

text \<open>\<open>vect[i]\<close>: \<open>None\<close> past the block, \<open>Some None\<close> for a NULL cell.\<close>

definition cell :: "'a cells \<Rightarrow> nat \<Rightarrow> 'a option option" where
  "cell v i = (if i < length v then Some (v ! i) else None)"

lemma cell_Some [simp]: "cell v i = Some x \<longleftrightarrow> i < length v \<and> v ! i = x"
  by (simp add: cell_def)

lemma cell_block_of: "i \<le> length xs \<Longrightarrow> cell (block_of xs) i = Some (if i < length xs then Some (xs ! i) else None)"
  by (simp add: cell_def block_of_def nth_append)

lemma cell_block_past [simp]: "length xs < i \<Longrightarrow> cell (block_of xs) i = None"
  by (simp add: cell_def block_of_def)

end
