(* ===== verification/Normalize.thy ===== *)
theory Normalize
  imports Prelude
begin

text \<open>
  The normalisation of distinguished names (src/src/common/normalize.c): the aliases
  \<open>/USERID=\<close>, \<open>/emailAddress=\<close> and \<open>/E=\<close> are rewritten to \<open>/UID=\<close> and \<open>/Email=\<close>, so that two
  spellings of one name compare equal.

  \<open>change\<close> is the loop of the source, with the search that restarts at \<open>strlen (to)\<close> and not
  after the replacement; \<open>rewrite\<close> is the specification, one left-to-right pass over the
  original string.
\<close>

section \<open>The code\<close>

text \<open>
  One iteration cuts the string at the match, prints the three parts into a new string and
  searches again. \<open>None\<close> is a loop that does not end or a search that starts outside the
  string. Allocation succeeds.
\<close>

definition change_step :: "cstring \<Rightarrow> cstring \<Rightarrow> cstring \<Rightarrow> nat \<Rightarrow> cstring" where
  "change_step copy from to p =
     (let cut = take p copy;
          tmp = snprintf_wrap True (cut @ to @ drop (p + length from) copy)
      in case tmp of Some t \<Rightarrow> t | None \<Rightarrow> cut)"

definition search_from :: "cstring \<Rightarrow> nat \<Rightarrow> cstring \<Rightarrow> nat option" where
  "search_from copy k from = map_option (\<lambda>i. i + k) (strstr (drop k copy) from)"

partial_function (option) change_loop :: "cstring \<Rightarrow> cstring \<Rightarrow> cstring \<Rightarrow> nat option \<Rightarrow> cstring option" where
  "change_loop copy from to pos =
     (if pos = None then Some copy
      else if length to \<le> length (change_step copy from to (the pos))
      then change_loop (change_step copy from to (the pos)) from to
             (search_from (change_step copy from to (the pos)) (length to) from)
      else None)"

definition change :: "cstring \<Rightarrow> cstring \<Rightarrow> cstring \<Rightarrow> cstring option" where
  "change str from to = change_loop str from to (strstr str from)"

definition normalize :: "cstring \<Rightarrow> cstring option" where
  "normalize str =
     Option.bind (change str ''/USERID='' ''/UID='') (\<lambda>tmp.
     Option.bind (change tmp ''/emailAddress='' ''/Email='') (\<lambda>tmp2.
     change tmp2 ''/E='' ''/Email=''))"

section \<open>The specification\<close>

text \<open>An attribute tag: a slash and no other slash.\<close>

definition attr_tag :: "cstring \<Rightarrow> bool" where
  "attr_tag t \<longleftrightarrow> (\<exists>u. t = CHR ''/'' # u \<and> CHR ''/'' \<notin> set u)"

fun match_rule :: "(cstring \<times> cstring) list \<Rightarrow> cstring \<Rightarrow> (cstring \<times> cstring) option" where
  "match_rule [] s = None"
| "match_rule ((f, t) # rs) s = (if prefix f s then Some (f, t) else match_rule rs s)"

text \<open>One pass: at each position the first rule that matches is applied.\<close>

function rewrite :: "(cstring \<times> cstring) list \<Rightarrow> cstring \<Rightarrow> cstring" where
  "rewrite rs [] = []"
| "rewrite rs (c # s) =
     (case match_rule rs (c # s) of
        None \<Rightarrow> c # rewrite rs s
      | Some (f, t) \<Rightarrow> if f = [] then c # rewrite rs s else t @ rewrite rs (drop (length f) (c # s)))"
  by pat_completeness auto
termination by (relation "measure (\<lambda>(rs, s). length s)") auto

definition alias_rules :: "(cstring \<times> cstring) list" where
  "alias_rules = [(''/USERID='', ''/UID=''), (''/emailAddress='', ''/Email=''), (''/E='', ''/Email='')]"

definition canon :: "cstring \<Rightarrow> cstring" where
  "canon = rewrite alias_rules"

section \<open>Tags and prefixes\<close>

lemma attr_tag_Cons [simp]: "attr_tag (c # u) \<longleftrightarrow> c = CHR ''/'' \<and> CHR ''/'' \<notin> set u"
  by (auto simp: attr_tag_def)

lemma attr_tag_Nil [simp]: "\<not> attr_tag []"
  by (simp add: attr_tag_def)

lemma attr_tagE:
  assumes "attr_tag t" obtains u where "t = CHR ''/'' # u" "CHR ''/'' \<notin> set u"
  using assms by (auto simp: attr_tag_def)

lemma prefix_append_incomparable:
  "\<not> prefix f t \<Longrightarrow> \<not> prefix t f \<Longrightarrow> \<not> prefix f (t @ r)"
  by (auto simp: prefix_append)

text \<open>Inside a tag, after its slash, no other tag starts.\<close>

lemma no_tag_inside:
  assumes "attr_tag f" "attr_tag t" "0 < j" "j < length t"
  shows "\<not> prefix f (drop j (t @ r))"
proof -
  from assms(1) obtain u where f: "f = CHR ''/'' # u" by (auto elim: attr_tagE)
  have "drop j (t @ r) = t ! j # drop (Suc j) (t @ r)"
    using assms(4) by (simp add: Cons_nth_drop_Suc [symmetric] nth_append del: drop_append)
  moreover have "t ! j \<noteq> CHR ''/''"
    using assms(2-4) nth_mem by (fastforce elim!: attr_tagE simp: nth_Cons split: nat.splits)
  ultimately show ?thesis using f by simp
qed

text \<open>A tag that starts before a slash at position \<open>n\<close> ends before it.\<close>

lemma tag_ends_before_slash:
  assumes "attr_tag f" "prefix f (w @ CHR ''/'' # r)" "w \<noteq> []"
  shows "prefix f w"
proof -
  from assms(2) have "prefix f w \<or> (\<exists>v. f = w @ v \<and> prefix v (CHR ''/'' # r))"
    by (auto simp: prefix_append)
  moreover have False if "f = w @ v" "prefix v (CHR ''/'' # r)" "v \<noteq> []" for v
  proof -
    from that(2,3) obtain v' where "v = CHR ''/'' # v'" by (cases v) auto
    with assms(1,3) that(1) show False by (cases w) auto
  qed
  ultimately show ?thesis by fastforce
qed

section \<open>The loop is the single pass\<close>

text \<open>No occurrence of \<open>f\<close> starts before position \<open>n\<close>.\<close>

definition clean :: "cstring \<Rightarrow> cstring \<Rightarrow> nat \<Rightarrow> bool" where
  "clean f s n \<longleftrightarrow> (\<forall>j<n. \<not> prefix f (drop j s))"

lemma strstr_skip:
  assumes "\<And>j. j < k \<Longrightarrow> \<not> prefix f (drop j s)" "k \<le> length s" "f \<noteq> []"
  shows "strstr s f = map_option (\<lambda>i. i + k) (strstr (drop k s) f)"
  using assms
proof (induction s arbitrary: k)
  case (Cons c s)
  show ?case
  proof (cases k)
    case (Suc m)
    have "\<And>j. j < m \<Longrightarrow> \<not> prefix f (drop j s)" using Cons.prems(1) Suc by fastforce
    with Cons.IH [of m] Cons.prems Suc have
      "strstr s f = map_option (\<lambda>i. i + m) (strstr (drop m s) f)" by simp
    moreover have "\<not> prefix f (c # s)" using Cons.prems(1) [of 0] Suc by simp
    ultimately show ?thesis using Suc by (simp add: option.map_comp comp_def)
  qed (simp add: option.map_ident)
qed simp

lemma search_from_clean:
  assumes "clean f s n" "k \<le> n" "n \<le> length s" "f \<noteq> []"
  shows "search_from s k f = search_from s n f"
proof -
  have "\<not> prefix f (drop j (drop k s))" if "j < n - k" for j
    using assms(1,2) that by (auto simp: clean_def)
  then have "strstr (drop k s) f = map_option (\<lambda>i. i + (n - k)) (strstr (drop (n - k) (drop k s)) f)"
    using assms by (intro strstr_skip) auto
  with assms(2) show ?thesis by (simp add: search_from_def option.map_comp comp_def)
qed

lemma rewrite_no_match: "strstr s f = None \<Longrightarrow> f \<noteq> [] \<Longrightarrow> rewrite [(f, t)] s = s"
  by (induction s) (auto split: if_splits)

lemma rewrite_first_match:
  "strstr s f = Some i \<Longrightarrow> f \<noteq> [] \<Longrightarrow>
   rewrite [(f, t)] s = take i s @ t @ rewrite [(f, t)] (drop (i + length f) s)"
proof (induction s arbitrary: i)
  case (Cons c s)
  then show ?case by (cases "prefix f (c # s)") (auto split: if_splits)
qed (simp split: if_splits)

lemma drop_within: "j \<le> length w \<Longrightarrow> drop j (w @ v) = drop j w @ v"
  by simp

lemma clean_change_step:
  assumes tags: "attr_tag f" "attr_tag t" and inc: "\<not> prefix f t" "\<not> prefix t f"
    and cl: "clean f (pre @ suf) (length pre)" and i: "strstr suf f = Some i"
  shows "clean f (pre @ take i suf @ t @ rest) (length pre + i + length t)"
  unfolding clean_def
proof (intro allI impI)
  fix j
  let ?w = "pre @ take i suf"
  assume j: "j < length pre + i + length t"
  note first = strstr_SomeD [OF i]
  have len: "length ?w = length pre + i" using first(1) by simp
  show "\<not> prefix f (drop j (pre @ take i suf @ t @ rest))"
  proof (cases "j < length pre + i")
    case True
    obtain u where t: "t = CHR ''/'' # u" using tags(2) by (auto elim: attr_tagE)
    have nn: "drop j ?w \<noteq> []" using True len by (metis drop_eq_Nil not_le)
    have "\<not> prefix f (drop j (pre @ suf))"
    proof (cases "j < length pre")
      case True
      with cl show ?thesis by (simp add: clean_def)
    next
      case False
      then have "j - length pre < i" using True by simp
      from first(3) [OF this] False show ?thesis by simp
    qed
    moreover have "drop j (pre @ suf) = drop j ?w @ drop i suf"
    proof -
      have "j \<le> length ?w" using True len by linarith
      from drop_within [OF this, of "drop i suf"] show ?thesis
        by (simp only: append.assoc append_take_drop_id)
    qed
    ultimately have "\<not> prefix f (drop j ?w)" using prefix_prefix [of f "drop j ?w" "drop i suf"] by argo
    moreover have "drop j (pre @ take i suf @ t @ rest) = drop j ?w @ CHR ''/'' # u @ rest"
      using drop_within [of j ?w "t @ rest"] True len t by simp
    ultimately show ?thesis using tag_ends_before_slash [OF tags(1) _ nn] by metis
  next
    case False
    then have d: "drop j (pre @ take i suf @ t @ rest) = drop (j - (length pre + i)) (t @ rest)"
      using first(1) by (simp add: drop_append [symmetric] min_absorb2)
    show ?thesis
    proof (cases "j = length pre + i")
      case True
      then show ?thesis using d prefix_append_incomparable [OF inc] by simp
    next
      case False
      with \<open>\<not> j < length pre + i\<close> j show ?thesis unfolding d
        by (intro no_tag_inside tags) auto
    qed
  qed
qed

text \<open>A rewriting rule between tags of which neither begins the other.\<close>

locale tag_rewriting =
  fixes frm tgt :: cstring
  assumes tag_from: "attr_tag frm" and tag_to: "attr_tag tgt"
    and incomparable: "\<not> prefix frm tgt" "\<not> prefix tgt frm"
begin

lemma frm_nonempty: "frm \<noteq> []"
  using tag_from by auto

lemma step_eq:
  "strstr suf frm = Some i \<Longrightarrow>
   change_step (pre @ suf) frm tgt (length pre + i) =
   pre @ take i suf @ tgt @ drop (i + length frm) suf"
  using tag_to strstr_SomeD(1) [of suf frm i]
  by (cases tgt) (auto simp: change_step_def Let_def snprintf_wrap_def vsnprintf_wrap_def add.assoc)

lemma loop_correct:
  "clean frm (pre @ suf) (length pre) \<Longrightarrow>
   change_loop (pre @ suf) frm tgt (search_from (pre @ suf) (length pre) frm) =
   Some (pre @ rewrite [(frm, tgt)] suf)"
proof (induction "length suf" arbitrary: pre suf rule: less_induct)
  case less
  have search: "search_from (pre @ suf) (length pre) frm = map_option (\<lambda>i. i + length pre) (strstr suf frm)"
    by (simp add: search_from_def)
  show ?case
  proof (cases "strstr suf frm")
    case None
    then show ?thesis
      using frm_nonempty by (simp add: search change_loop.simps rewrite_no_match)
  next
    case (Some i)
    let ?pre = "pre @ take i suf @ tgt" and ?suf = "drop (i + length frm) suf"
    have i: "i + length frm \<le> length suf" using strstr_SomeD(1) [OF Some] .
    have step: "change_step (pre @ suf) frm tgt (i + length pre) = ?pre @ ?suf"
      using step_eq [OF Some] by (simp add: add.commute)
    have cl: "clean frm (?pre @ ?suf) (length ?pre)"
    proof -
      have "length ?pre = length pre + i + length tgt" using i by simp
      with clean_change_step [OF tag_from tag_to incomparable less.prems Some, of ?suf]
      show ?thesis by (simp only: append.assoc)
    qed
    have "search_from (?pre @ ?suf) (length tgt) frm = search_from (?pre @ ?suf) (length ?pre) frm"
      by (rule search_from_clean [OF cl]) (use frm_nonempty in auto)
    moreover have "change_loop (?pre @ ?suf) frm tgt (search_from (?pre @ ?suf) (length ?pre) frm) =
        Some (?pre @ rewrite [(frm, tgt)] ?suf)"
      by (rule less.hyps [OF _ cl]) (use i frm_nonempty in \<open>cases frm; auto\<close>)
    ultimately show ?thesis
      using rewrite_first_match [OF Some frm_nonempty, of tgt] step Some
      by (subst change_loop.simps) (simp add: search)
  qed
qed

theorem change_rewrite: "change s frm tgt = Some (rewrite [(frm, tgt)] s)"
  using loop_correct [of "[]" s] by (simp add: clean_def search_from_def change_def option.map_ident)

end

interpretation userid: tag_rewriting "''/USERID=''" "''/UID=''"
  by unfold_locales (simp_all)

interpretation email: tag_rewriting "''/emailAddress=''" "''/Email=''"
  by unfold_locales (simp_all)

interpretation e: tag_rewriting "''/E=''" "''/Email=''"
  by unfold_locales (simp_all)

section \<open>Composing the passes\<close>

text \<open>A pass changes nothing of a string before its first slash.\<close>

definition tag_rules :: "(cstring \<times> cstring) list \<Rightarrow> bool" where
  "tag_rules rs \<longleftrightarrow> (\<forall>(f, t) \<in> set rs. attr_tag f \<and> attr_tag t)"

lemma match_rule_head: "tag_rules rs \<Longrightarrow> c \<noteq> CHR ''/'' \<Longrightarrow> match_rule rs (c # s) = None"
  by (induction rs) (auto simp: tag_rules_def elim!: attr_tagE)

lemma match_rule_SomeD: "match_rule rs s = Some (f, t) \<Longrightarrow> (f, t) \<in> set rs \<and> prefix f s"
  by (induction rs) (auto split: if_splits)

lemma prefix_word_rewrite:
  assumes "tag_rules rs"
  shows "CHR ''/'' \<notin> set u \<Longrightarrow> prefix u (rewrite rs s) = prefix u s"
proof (induction u arbitrary: s)
  case (Cons d u)
  show ?case
  proof (cases s)
    case s: (Cons c s')
    show ?thesis
    proof (cases "match_rule rs (c # s')")
      case None
      with s Cons show ?thesis by auto
    next
      case (Some ft)
      obtain f t where ft: "ft = (f, t)" by force
      with match_rule_SomeD [of rs "c # s'" f t] Some assms
      have "attr_tag f" "attr_tag t" "prefix f (c # s')" by (auto simp: tag_rules_def)
      then have "c = CHR ''/''" "f \<noteq> []" "hd (rewrite rs s) = CHR ''/''" "rewrite rs s \<noteq> []"
        using s Some ft by (auto elim!: attr_tagE)
      with s Cons.prems show ?thesis by (cases "rewrite rs s") auto
    qed
  qed simp
qed simp

text \<open>A rule appended to the list acts as one more pass, when it cannot see the earlier ones' output.\<close>

definition blind_to :: "cstring \<Rightarrow> (cstring \<times> cstring) list \<Rightarrow> bool" where
  "blind_to f rs \<longleftrightarrow> (\<forall>(f', t') \<in> set rs. \<not> prefix f t' \<and> \<not> prefix t' f)"

lemma match_rule_append:
  "match_rule (rs @ rs') s = (case match_rule rs s of Some r \<Rightarrow> Some r | None \<Rightarrow> match_rule rs' s)"
  by (induction rs) auto

lemma rewrite_skip: "attr_tag f \<Longrightarrow> CHR ''/'' \<notin> set u \<Longrightarrow> rewrite [(f, t)] (u @ s) = u @ rewrite [(f, t)] s"
  by (induction u) (auto elim!: attr_tagE)

lemma rewrite_skip_tag:
  assumes "attr_tag f" "attr_tag t'" "\<not> prefix f t'" "\<not> prefix t' f"
  shows "rewrite [(f, t)] (t' @ s) = t' @ rewrite [(f, t)] s"
proof -
  from assms(2) obtain u where u: "t' = CHR ''/'' # u" "CHR ''/'' \<notin> set u" by (rule attr_tagE)
  have "\<not> prefix f (CHR ''/'' # u @ s)" using prefix_append_incomparable [OF assms(3,4), of s] u by simp
  with u rewrite_skip [OF assms(1) u(2)] show ?thesis by simp
qed

lemma rewrite_rewrite:
  assumes rs: "tag_rules rs" and f: "attr_tag f" and blind: "blind_to f rs"
  shows "rewrite [(f, t)] (rewrite rs s) = rewrite (rs @ [(f, t)]) s"
proof (induction s rule: length_induct)
  case (1 s)
  show ?case
  proof (cases s)
    case s: (Cons c s')
    show ?thesis
    proof (cases "match_rule rs (c # s')")
      case (Some ft)
      obtain f' t' where ft: "ft = (f', t')" by force
      with match_rule_SomeD [of rs "c # s'" f' t'] Some rs blind
      have *: "attr_tag f'" "attr_tag t'" "\<not> prefix f t'" "\<not> prefix t' f"
        by (auto simp: tag_rules_def blind_to_def)
      then have "length (drop (length f') s) < length s" "f' \<noteq> []" using s by (auto elim!: attr_tagE)
      with 1 * Some ft s show ?thesis
        using rewrite_skip_tag [OF f *(2-4)] by (simp add: match_rule_append)
    next
      case None
      obtain u where u: "f = CHR ''/'' # u" "CHR ''/'' \<notin> set u" using f by (rule attr_tagE)
      have pre: "prefix f (c # rewrite rs s') = prefix f (c # s')"
        using u prefix_word_rewrite [OF rs u(2)] by auto
      show ?thesis
      proof (cases "prefix f (c # s')")
        case True
        then obtain r where r: "s' = u @ r" and c: "c = CHR ''/''" using u by (auto simp: prefix_def)
        have "rewrite rs (u @ r) = u @ rewrite rs r"
          using u(2) by (induction u) (auto simp: match_rule_head [OF rs])
        moreover have "rewrite [(f, t)] (rewrite rs r) = rewrite (rs @ [(f, t)]) r"
          using 1 s r by auto
        ultimately show ?thesis using True None s r c u by (simp add: match_rule_append)
      next
        case False
        have "rewrite [(f, t)] (rewrite rs s') = rewrite (rs @ [(f, t)]) s'" using 1 s by auto
        then show ?thesis using None False pre s by (simp add: match_rule_append)
      qed
    qed
  qed simp
qed

lemma normalize_canon: "normalize s = Some (canon s)"
proof -
  have "rewrite [(''/emailAddress='', ''/Email='')] (rewrite [(''/USERID='', ''/UID='')] s) =
        rewrite [(''/USERID='', ''/UID=''), (''/emailAddress='', ''/Email='')] s"
    using rewrite_rewrite [of "[(''/USERID='', ''/UID='')]"] by (simp add: tag_rules_def blind_to_def)
  moreover have "rewrite [(''/E='', ''/Email='')] (rewrite [(''/USERID='', ''/UID=''), (''/emailAddress='', ''/Email='')] s) =
        canon s"
    using rewrite_rewrite [of "[(''/USERID='', ''/UID=''), (''/emailAddress='', ''/Email='')]" "''/E=''"]
    by (simp add: tag_rules_def blind_to_def canon_def alias_rules_def)
  ultimately show ?thesis
    unfolding normalize_def
    by (simp only: userid.change_rewrite email.change_rewrite e.change_rewrite bind.bind_lunit)
qed

lemma match_rule_None: "match_rule rs s = None \<longleftrightarrow> (\<forall>(f, t) \<in> set rs. \<not> prefix f s)"
  by (induction rs) (auto split: if_splits)

lemma prefix_tag_rewrite:
  assumes "tag_rules rs" "attr_tag f"
  shows "prefix f (c # rewrite rs s) = prefix f (c # s)"
proof -
  from assms(2) obtain u where u: "f = CHR ''/'' # u" "CHR ''/'' \<notin> set u" by (rule attr_tagE)
  with prefix_word_rewrite [OF assms(1) u(2)] show ?thesis by auto
qed

text \<open>When no tag can appear in a replacement, no tag is left in the result.\<close>

lemma rewrite_no_tags:
  assumes rs: "tag_rules rs" and blind: "\<forall>(f, t) \<in> set rs. blind_to f rs" and f: "(f, t) \<in> set rs"
  shows "\<not> prefix f (drop j (rewrite rs s))"
proof (induction s arbitrary: j rule: length_induct)
  case (1 s)
  have tf: "attr_tag f" using rs f by (auto simp: tag_rules_def)
  show ?case
  proof (cases s)
    case Nil
    with tf show ?thesis by auto
  next
    case s: (Cons c s')
    show ?thesis
    proof (cases "match_rule rs (c # s')")
      case (Some ft)
      obtain f' t' where ft: "ft = (f', t')" by force
      with match_rule_SomeD [of rs "c # s'" f' t'] Some rs blind f
      have t': "attr_tag f'" "attr_tag t'" and inc: "\<not> prefix f t'" "\<not> prefix t' f"
        by (fastforce simp: tag_rules_def blind_to_def)+
      let ?r = "rewrite rs (drop (length f') s)"
      have rw: "rewrite rs s = t' @ ?r" using Some ft s t' by auto
      have shorter: "length (drop (length f') s) < length s" using s t' by (cases f') auto
      consider "j = 0" | "0 < j" "j < length t'" | "length t' \<le> j" by linarith
      then show ?thesis
      proof cases
        case 1
        then show ?thesis using rw prefix_append_incomparable [OF inc] by simp
      next
        case 2
        then show ?thesis using rw no_tag_inside [OF tf t'(2)] by simp
      next
        case 3
        then show ?thesis using rw 1 shorter by simp
      qed
    next
      case None
      then have "rewrite rs s = c # rewrite rs s'" and "\<not> prefix f (c # s')"
        using s f match_rule_None [of rs "c # s'"] by auto
      with 1 s prefix_tag_rewrite [OF rs tf] show ?thesis by (cases j) auto
    qed
  qed
qed

lemma rewrite_no_match_id:
  "\<forall>j. \<forall>(f, t) \<in> set rs. \<not> prefix f (drop j s) \<Longrightarrow> rewrite rs s = s"
proof (induction s)
  case (Cons c s)
  have "match_rule rs (c # s) = None" using Cons.prems [THEN spec, of 0] by (auto simp: match_rule_None)
  moreover have "rewrite rs s = s"
    by (rule Cons.IH) (use Cons.prems in \<open>metis drop_Suc_Cons\<close>)
  ultimately show ?case by simp
qed simp

lemma alias_rules_ok: "tag_rules alias_rules" "\<forall>(f, t) \<in> set alias_rules. blind_to f alias_rules"
  by (simp_all add: tag_rules_def blind_to_def alias_rules_def)

lemma canon_no_alias: "(f, t) \<in> set alias_rules \<Longrightarrow> \<not> prefix f (drop j (canon s))"
  unfolding canon_def by (rule rewrite_no_tags [OF alias_rules_ok])

lemma canon_canon [simp]: "canon (canon s) = canon s"
  using rewrite_no_match_id [of alias_rules "canon s"] canon_no_alias by (fastforce simp: canon_def)

text \<open>
  C23: normalize always returns, and its three loops together are one left-to-right pass over
  the original name that replaces each alias tag it meets, with no interference between the
  three rules and no effect of the search restarting at strlen (to).
\<close>

theorem normalize_single_pass: "normalize s = Some (canon s)"
  by (rule normalize_canon)

text \<open>
  The result of normalize contains none of the three alias tags, at any position, and
  normalizing it again changes nothing.
\<close>

theorem normalize_idempotent_no_alias:
  "\<exists>r. normalize s = Some r \<and> normalize r = Some r \<and>
       list_all (\<lambda>f. strstr r f = None) [''/USERID='', ''/emailAddress='', ''/E='']"
proof -
  have "\<not> sublist f (canon s)" if "(f, t) \<in> set alias_rules" for f t
  proof
    assume "sublist f (canon s)"
    then obtain a b where "canon s = a @ f @ b" by (auto simp: sublist_def)
    then have "prefix f (drop (length a) (canon s))" by simp
    with canon_no_alias [OF that] show False by blast
  qed
  then show ?thesis
    by (simp add: normalize_canon strstr_None alias_rules_def)
qed

end
