(* ===== verification/X509Model.thy ===== *)
theory X509Model
  imports Prelude
begin

text \<open>
  The certificates the code reads through OpenSSL. The types hold what the sources access
  (a name's entries, the extensions, the flags and path lengths written by the checks). What
  OpenSSL computes (the table of object identifiers, the comparison and the printing of
  names, the name hash, regular expressions, the issuer check) is a parameter: the record
  \<open>ossl\<close> that the definitions take as an argument.

  An object identifier is its dotted text, so \<open>OBJ_txt2obj (s, 1)\<close> is the text itself.
\<close>

type_synonym oid = cstring
type_synonym bytes = "char list"

record name_entry =
  ne_object :: oid
  ne_value :: bytes
  ne_set :: int

type_synonym xname = "name_entry list"

record x509_extension =
  ext_object :: oid
  ext_critical :: bool
  ext_data :: bytes

text \<open>An ASN.1 time: its tag (UTCTime 23, GeneralizedTime 24) and its characters.\<close>

record asn1_time =
  at_type :: int
  at_data :: cstring

definition V_ASN1_UTCTIME :: int where "V_ASN1_UTCTIME = 23"
definition V_ASN1_GENERALIZEDTIME :: int where "V_ASN1_GENERALIZEDTIME = 24"

text \<open>A public or private key: its algorithm and the numbers that identify it.\<close>

record pkey =
  pk_type :: int
  pk_modulus :: "nat option"
  pk_bits :: int

definition EVP_PKEY_RSA :: int where "EVP_PKEY_RSA = 6"

record x509 =
  x_subject :: xname
  x_issuer :: xname
  x_serial :: int
  x_notBefore :: asn1_time
  x_notAfter :: asn1_time
  x_pubkey :: "pkey option"
  x_exts :: "x509_extension list"
  x_ex_flags :: "64 word"
  x_ex_pathlen :: int
  x_ex_pcpathlen :: int

section \<open>Constants of OpenSSL\<close>

definition NID_undef :: int where "NID_undef = 0"
definition NID_commonName :: int where "NID_commonName = 13"
definition NID_netscape_cert_type :: int where "NID_netscape_cert_type = 71"
definition NID_subject_key_identifier :: int where "NID_subject_key_identifier = 82"
definition NID_key_usage :: int where "NID_key_usage = 83"
definition NID_basic_constraints :: int where "NID_basic_constraints = 87"
definition NID_authority_key_identifier :: int where "NID_authority_key_identifier = 90"
definition NID_ext_key_usage :: int where "NID_ext_key_usage = 126"

lemmas nid_defs = NID_undef_def NID_commonName_def NID_netscape_cert_type_def
  NID_subject_key_identifier_def NID_key_usage_def NID_basic_constraints_def
  NID_authority_key_identifier_def NID_ext_key_usage_def

text \<open>\<open>OBJ_nid2obj (NID_commonName)\<close>.\<close>

definition oid_commonName :: oid where "oid_commonName = ''2.5.4.3''"

definition EXFLAG_CA :: "64 word" where "EXFLAG_CA = 0x10"
definition EXFLAG_PROXY :: "64 word" where "EXFLAG_PROXY = 0x400"

text \<open>\<open>OBJ_cmp\<close> is zero exactly on equal identifiers.\<close>

definition OBJ_cmp :: "oid \<Rightarrow> oid \<Rightarrow> int" where
  "OBJ_cmp a b = strcmp a b"

text \<open>
  \<open>ASN1_INTEGER_get\<close>: eight bytes of magnitude at most, wrapped to a signed \<open>long\<close>; longer
  numbers give 0xFFFFFFFF.
\<close>

definition ASN1_INTEGER_get :: "int \<Rightarrow> int" where
  "ASN1_INTEGER_get n = (if \<bar>n\<bar> < 2 ^ 64 then sint (word_of_int n :: 64 word) else 0xFFFFFFFF)"

section \<open>The parameter\<close>

text \<open>
  \<open>o_obj2nid\<close> is the table of \<open>OBJ_obj2nid\<close> (0 for an identifier nobody registered), the
  printing of a name may fail for memory, \<open>o_regex p s\<close> is \<open>None\<close> when \<open>p\<close> does not compile
  and otherwise whether it matches \<open>s\<close>, and \<open>o_check_issued issuer cert\<close> is the code of
  \<open>X509_check_issued\<close> (0 for \<open>X509_V_OK\<close>).
\<close>

record ossl =
  o_obj2nid :: "oid \<Rightarrow> int"
  o_name_cmp :: "xname \<Rightarrow> xname \<Rightarrow> int"
  o_oneline :: "xname \<Rightarrow> cstring option"
  o_name_hash :: "xname \<Rightarrow> 32 word"
  o_check_issued :: "x509 \<Rightarrow> x509 \<Rightarrow> int"
  o_regex :: "cstring \<Rightarrow> cstring \<Rightarrow> bool option"

section \<open>Access to extensions\<close>

text \<open>The index of the first element with a property, -1 when there is none.\<close>

fun first_index :: "('a \<Rightarrow> bool) \<Rightarrow> 'a list \<Rightarrow> int" where
  "first_index P [] = -1"
| "first_index P (x # xs) = (if P x then 0 else
     (let i = first_index P xs in if i = -1 then -1 else i + 1))"

text \<open>
  \<open>X509_get_ext_by_NID (x, nid, -1)\<close>. The undefined identifier is the empty one, which no
  extension has.
\<close>

definition X509_get_ext_by_NID :: "ossl \<Rightarrow> x509 \<Rightarrow> int \<Rightarrow> int" where
  "X509_get_ext_by_NID o1 x nid =
     (if nid = NID_undef then -1 else first_index (\<lambda>e. o_obj2nid o1 (ext_object e) = nid) (x_exts x))"

lemma first_index_ge: "-1 \<le> first_index P xs"
  by (induction xs) (auto simp: Let_def)

lemma first_index_none: "first_index P xs = -1 \<longleftrightarrow> \<not> list_ex P xs"
  by (induction xs) (use first_index_ge in \<open>auto simp: Let_def, smt (verit)\<close>)

lemma first_index_inside:
  "first_index P xs \<noteq> -1 \<Longrightarrow> 0 \<le> first_index P xs \<and> nat (first_index P xs) < length xs \<and>
     P (xs ! nat (first_index P xs))"
proof (induction xs)
  case (Cons x xs)
  then show ?case using first_index_ge [of P xs]
    by (auto simp: Let_def nat_add_distrib split: if_splits)
qed simp

end
