(* ===== verification/ProxyName.thy ===== *)
theory ProxyName
  imports X509Model
begin

text \<open>
  The recognition of proxy certificates (src/src/sslutils/sslutils.c): the comparison of
  names without their set numbers, the classification of a certificate as a proxy, the
  issuer check that tolerates proxies, the critical extensions, and the construction of a
  proxy's name.
\<close>

section \<open>Comparison of names\<close>

definition PROXYCERTINFO_V3 :: cstring where "PROXYCERTINFO_V3 = ''1.3.6.1.4.1.3536.1.222''"
definition PROXYCERTINFO_V4 :: cstring where "PROXYCERTINFO_V4 = ''1.3.6.1.5.5.7.1.14''"

definition my_txt2nid :: "ossl \<Rightarrow> cstring \<Rightarrow> int" where
  "my_txt2nid o1 name = o_obj2nid o1 name"

text \<open>The two loops, with \<open>i + 1\<close> entries left to compare.\<close>

fun cmp_values :: "xname \<Rightarrow> xname \<Rightarrow> nat \<Rightarrow> int" where
  "cmp_values a b 0 = 0"
| "cmp_values a b (Suc i) =
     (let na = a ! i; nb = b ! i; j = int (length (ne_value na)) - int (length (ne_value nb))
      in if j \<noteq> 0 then j
         else (let j = memcmp (ne_value na) (ne_value nb) in if j \<noteq> 0 then j else cmp_values a b i))"

fun cmp_objects :: "xname \<Rightarrow> xname \<Rightarrow> nat \<Rightarrow> int" where
  "cmp_objects a b 0 = 0"
| "cmp_objects a b (Suc i) =
     (let j = OBJ_cmp (ne_object (a ! i)) (ne_object (b ! i)) in if j \<noteq> 0 then j else cmp_objects a b i)"

definition X509_NAME_cmp_no_set :: "xname \<Rightarrow> xname \<Rightarrow> int" where
  "X509_NAME_cmp_no_set a b =
     (if length a \<noteq> length b then int (length a) - int (length b)
      else (let j = cmp_values a b (length a)
            in if j \<noteq> 0 then j else cmp_objects a b (length a)))"

text \<open>What a name is without its set numbers.\<close>

definition name_key :: "xname \<Rightarrow> (oid \<times> bytes) list" where
  "name_key n = map (\<lambda>e. (ne_object e, ne_value e)) n"

text \<open>A comparison that decides equality of some view of its arguments.\<close>

locale comparison =
  fixes cmp :: "'n \<Rightarrow> 'n \<Rightarrow> int" and view :: "'n \<Rightarrow> 'k"
  assumes cmp_view: "cmp a b = 0 \<longleftrightarrow> view a = view b"
begin

lemma cmp_refl [simp]: "cmp a a = 0"
  by (simp add: cmp_view)

lemma cmp_sym: "cmp a b = 0 \<longleftrightarrow> cmp b a = 0"
  by (auto simp: cmp_view)

lemma cmp_trans: "cmp a b = 0 \<Longrightarrow> cmp b c = 0 \<Longrightarrow> cmp a c = 0"
  by (simp add: cmp_view)

lemma cmp_subst: "cmp a b = 0 \<Longrightarrow> cmp a c = 0 \<longleftrightarrow> cmp b c = 0"
  by (simp add: cmp_view)

end

lemma cmp_values_0: "cmp_values a b n = 0 \<longleftrightarrow> (\<forall>i<n. ne_value (a ! i) = ne_value (b ! i))"
  by (induction n) (auto simp: Let_def less_Suc_eq)

lemma cmp_objects_0: "cmp_objects a b n = 0 \<longleftrightarrow> (\<forall>i<n. ne_object (a ! i) = ne_object (b ! i))"
  by (induction n) (auto simp: Let_def less_Suc_eq OBJ_cmp_def)

lemma cmp_no_set_key: "X509_NAME_cmp_no_set a b = 0 \<longleftrightarrow> name_key a = name_key b"
  unfolding X509_NAME_cmp_no_set_def name_key_def
  by (auto simp: Let_def cmp_values_0 cmp_objects_0 list_eq_iff_nth_eq)

interpretation nameeq: comparison X509_NAME_cmp_no_set name_key
  by unfold_locales (rule cmp_no_set_key)

lemma name_key_simps [simp]:
  "name_key [] = []" "name_key (e # n) = (ne_object e, ne_value e) # name_key n"
  "name_key (n @ m) = name_key n @ name_key m" "length (name_key n) = length n"
  by (simp_all add: name_key_def)

lemma name_key_empty [simp]: "name_key n = [] \<longleftrightarrow> n = []"
  by (simp add: name_key_def)

section \<open>Proxy certificates\<close>

text \<open>
  \<open>X509_NAME_add_entry (name, ne, X509_NAME_entry_count (name), 0)\<close> with an entry made from an
  identifier and a value: a new relative name at the end.
\<close>

definition add_entry :: "xname \<Rightarrow> oid \<Rightarrow> bytes \<Rightarrow> xname" where
  "add_entry n obj val =
     n @ [\<lparr>ne_object = obj, ne_value = val, ne_set = (if n = [] then 0 else ne_set (last n) + 1)\<rparr>]"

text \<open>The flags \<open>proxy_check_proxy_name\<close> leaves in the certificate when its result is \<open>ret\<close>.\<close>

definition mark_proxy :: "int \<Rightarrow> x509 \<Rightarrow> x509" where
  "mark_proxy ret cert =
     (if ret > 0 then
        (let c = cert\<lparr>x_ex_flags := or (x_ex_flags cert) EXFLAG_PROXY\<rparr>
         in if ret = 1 then c\<lparr>x_ex_pcpathlen := -1\<rparr>
            else if ret = 2 then c\<lparr>x_ex_pcpathlen := 0\<rparr> else c)
      else cert)"

text \<open>
  \<open>proxy_check_proxy_name\<close>: the result, the certificate with its flags and the error queue, which
  \<open>ERR_clear_error\<close> empties. \<open>None\<close> is the access to the last entry of an empty subject. The
  decoding of the extension has no effect.
\<close>

definition proxy_check_proxy_name :: "ossl \<Rightarrow> x509 \<Rightarrow> 'e list \<Rightarrow> (int \<times> x509 \<times> 'e list) option" where
  "proxy_check_proxy_name o1 cert errs =
     (let nidv3 = my_txt2nid o1 PROXYCERTINFO_V3;
          nidv4 = my_txt2nid o1 PROXYCERTINFO_V4;
          errs = (if nidv3 = 0 \<or> nidv4 = 0 then [] else errs);
          indexv3 = X509_get_ext_by_NID o1 cert nidv3;
          indexv4 = X509_get_ext_by_NID o1 cert nidv4
      in if indexv3 \<noteq> -1 \<or> indexv4 \<noteq> -1
         then Some (1, cert\<lparr>x_ex_flags := or (x_ex_flags cert) EXFLAG_PROXY\<rparr>, errs)
         else if x_subject cert = [] then None
         else
           (let last_cn = last (x_subject cert);
                data = ne_value last_cn;
                is_cn = (OBJ_cmp (ne_object last_cn) oid_commonName = 0);
                found_proxy = (is_cn \<and> length data = 5 \<and> strncmp data ''proxy'' 5 = 0);
                found_limited_proxy = (is_cn \<and> length data = 13 \<and> strncmp data ''limited proxy'' 13 = 0);
                ret = (if found_limited_proxy then 2 else if found_proxy then 1 else 0);
                last_cn_entry = (if found_limited_proxy then ''limited proxy'' else ''proxy'');
                ret = (if (found_proxy \<or> found_limited_proxy) \<and>
                          X509_NAME_cmp_no_set (add_entry (x_issuer cert) oid_commonName last_cn_entry)
                            (x_subject cert) \<noteq> 0
                       then -1 else ret)
            in Some (ret, mark_proxy ret cert, errs)))"

definition X509_V_OK :: int where "X509_V_OK = 0"
definition X509_V_ERR_AKID_SKID_MISMATCH :: int where "X509_V_ERR_AKID_SKID_MISMATCH = 30"
definition X509_V_ERR_KEYUSAGE_NO_CERTSIGN :: int where "X509_V_ERR_KEYUSAGE_NO_CERTSIGN = 32"

text \<open>\<open>proxy_check_issued\<close>: the result, the certificate \<open>x\<close>, whose flags the check may set, and the error queue.\<close>

definition proxy_check_issued :: "ossl \<Rightarrow> x509 \<Rightarrow> x509 \<Rightarrow> 'e list \<Rightarrow> (int \<times> x509 \<times> 'e list) option" where
  "proxy_check_issued o1 x issuer errs =
     (let ret = o_check_issued o1 issuer x
      in if ret \<noteq> X509_V_OK then
           (if ret = X509_V_ERR_AKID_SKID_MISMATCH \<or> ret = X509_V_ERR_KEYUSAGE_NO_CERTSIGN then
              (case proxy_check_proxy_name o1 x errs of None \<Rightarrow> None
               | Some (r, x', errs) \<Rightarrow> Some (if r \<ge> 1 then 1 else 0, x', errs))
            else Some (0, x, errs))
         else Some (1, x, errs))"

text \<open>The loop of \<open>check_critical_extensions\<close>, over the extensions.\<close>

definition known_critical :: "int \<Rightarrow> int \<Rightarrow> bool \<Rightarrow> int \<Rightarrow> bool" where
  "known_critical nid_pci3 nid_pci4 itsaproxy nid =
     (if itsaproxy then
        \<not> (nid \<noteq> NID_basic_constraints \<and> nid \<noteq> NID_key_usage \<and> nid \<noteq> NID_ext_key_usage \<and>
           nid \<noteq> NID_netscape_cert_type \<and> nid \<noteq> NID_subject_key_identifier \<and>
           nid \<noteq> NID_authority_key_identifier \<and> nid \<noteq> nid_pci3 \<and> nid \<noteq> nid_pci4)
      else
        \<not> (nid \<noteq> NID_basic_constraints \<and> nid \<noteq> NID_key_usage \<and> nid \<noteq> NID_ext_key_usage \<and>
           nid \<noteq> NID_netscape_cert_type \<and> nid \<noteq> NID_subject_key_identifier \<and>
           nid \<noteq> NID_authority_key_identifier))"

fun critical_loop :: "ossl \<Rightarrow> int \<Rightarrow> int \<Rightarrow> bool \<Rightarrow> x509_extension list \<Rightarrow> int" where
  "critical_loop o1 nid_pci3 nid_pci4 itsaproxy [] = 1"
| "critical_loop o1 nid_pci3 nid_pci4 itsaproxy (ex # exs) =
     (if ext_critical ex \<and> \<not> known_critical nid_pci3 nid_pci4 itsaproxy (o_obj2nid o1 (ext_object ex))
      then 0 else critical_loop o1 nid_pci3 nid_pci4 itsaproxy exs)"

definition check_critical_extensions :: "ossl \<Rightarrow> x509 \<Rightarrow> int \<Rightarrow> int" where
  "check_critical_extensions o1 cert itsaproxy =
     critical_loop o1 (my_txt2nid o1 PROXYCERTINFO_V3) (my_txt2nid o1 PROXYCERTINFO_V4)
       (itsaproxy \<noteq> 0) (x_exts cert)"

text \<open>
  \<open>proxy_construct_name\<close>: the return code and the name stored. \<open>dup_ok\<close> and \<open>entry_ok\<close> say
  whether the copy and the new entry could be made. When the entry fails the name pointer is
  left to freed memory, which is \<open>None\<close> here.
\<close>

definition proxy_construct_name :: "bool \<Rightarrow> bool \<Rightarrow> x509 \<Rightarrow> cstring option \<Rightarrow> nat \<Rightarrow> int \<times> xname option" where
  "proxy_construct_name dup_ok entry_ok cert newcn len =
     (if \<not> dup_ok then (1, None)
      else (case newcn of None \<Rightarrow> (0, Some (x_subject cert))
            | Some cn \<Rightarrow>
                if \<not> entry_ok then (1, None)
                else (0, Some (add_entry (x_subject cert) oid_commonName (take len cn)))))"

section \<open>What a proxy is\<close>

text \<open>A certificate with a ProxyCertInfo extension under one of the two identifiers.\<close>

definition has_pci :: "ossl \<Rightarrow> x509 \<Rightarrow> bool" where
  "has_pci o1 cert \<longleftrightarrow> (\<exists>n \<in> {my_txt2nid o1 PROXYCERTINFO_V3, my_txt2nid o1 PROXYCERTINFO_V4}.
     n \<noteq> NID_undef \<and> (\<exists>e \<in> set (x_exts cert). o_obj2nid o1 (ext_object e) = n))"

text \<open>A subject that is the issuer's name and one more common name.\<close>

definition names_proxy :: "cstring \<Rightarrow> x509 \<Rightarrow> bool" where
  "names_proxy cn cert \<longleftrightarrow> name_key (x_subject cert) = name_key (x_issuer cert) @ [(oid_commonName, cn)]"

definition last_is_cn :: "cstring \<Rightarrow> x509 \<Rightarrow> bool" where
  "last_is_cn cn cert \<longleftrightarrow>
     x_subject cert \<noteq> [] \<and> last (name_key (x_subject cert)) = (oid_commonName, cn)"

definition proxy_kind :: "ossl \<Rightarrow> x509 \<Rightarrow> int" where
  "proxy_kind o1 cert =
     (if has_pci o1 cert \<or> names_proxy ''proxy'' cert then 1
      else if names_proxy ''limited proxy'' cert then 2
      else if last_is_cn ''proxy'' cert \<or> last_is_cn ''limited proxy'' cert then -1 else 0)"

lemma add_entry_key [simp]: "name_key (add_entry n obj val) = name_key n @ [(obj, val)]"
  by (simp add: add_entry_def)

lemma has_pci_index:
  "has_pci o1 cert \<longleftrightarrow> X509_get_ext_by_NID o1 cert (my_txt2nid o1 PROXYCERTINFO_V3) \<noteq> -1 \<or>
     X509_get_ext_by_NID o1 cert (my_txt2nid o1 PROXYCERTINFO_V4) \<noteq> -1"
  by (auto simp: has_pci_def X509_get_ext_by_NID_def first_index_none list_ex_iff)

lemma last_name_key: "n \<noteq> [] \<Longrightarrow> last (name_key n) = (ne_object (last n), ne_value (last n))"
  by (simp add: name_key_def last_map)

lemma names_proxy_last: "names_proxy cn cert \<Longrightarrow> last_is_cn cn cert"
  by (auto simp: names_proxy_def last_is_cn_def)

lemma strncmp_whole: "length d = length s \<Longrightarrow> strncmp d s (length s) = 0 \<longleftrightarrow> d = s"
  by simp

text \<open>The flags the classification leaves.\<close>

definition proxy_marked :: "ossl \<Rightarrow> x509 \<Rightarrow> x509" where
  "proxy_marked o1 cert =
     (if has_pci o1 cert then cert\<lparr>x_ex_flags := or (x_ex_flags cert) EXFLAG_PROXY\<rparr>
      else mark_proxy (proxy_kind o1 cert) cert)"

text \<open>The error queue, which is emptied when an identifier of ProxyCertInfo is not registered.\<close>

definition pci_registered :: "ossl \<Rightarrow> bool" where
  "pci_registered o1 \<longleftrightarrow> my_txt2nid o1 PROXYCERTINFO_V3 \<noteq> 0 \<and> my_txt2nid o1 PROXYCERTINFO_V4 \<noteq> 0"

definition errs_kept :: "ossl \<Rightarrow> 'e list \<Rightarrow> 'e list" where
  "errs_kept o1 errs = (if pci_registered o1 then errs else [])"

lemma proxy_check_kind:
  assumes "has_pci o1 cert \<or> x_subject cert \<noteq> []"
  shows "proxy_check_proxy_name o1 cert errs = Some (proxy_kind o1 cert, proxy_marked o1 cert, errs_kept o1 errs)"
proof (cases "has_pci o1 cert")
  case True
  then show ?thesis
    by (simp add: proxy_check_proxy_name_def proxy_marked_def proxy_kind_def has_pci_index errs_kept_def pci_registered_def Let_def)
next
  case False
  with assms have sub: "x_subject cert \<noteq> []" by simp
  let ?e = "last (x_subject cert)"
  have p: "(OBJ_cmp (ne_object ?e) oid_commonName = 0 \<and> length (ne_value ?e) = 5 \<and>
      strncmp (ne_value ?e) ''proxy'' 5 = 0) = last_is_cn ''proxy'' cert"
    using sub by (auto simp: last_is_cn_def last_name_key OBJ_cmp_def)
  have lp: "(OBJ_cmp (ne_object ?e) oid_commonName = 0 \<and> length (ne_value ?e) = 13 \<and>
      strncmp (ne_value ?e) ''limited proxy'' 13 = 0) = last_is_cn ''limited proxy'' cert"
    using sub by (auto simp: last_is_cn_def last_name_key OBJ_cmp_def)
  have eqv: "(X509_NAME_cmp_no_set (add_entry (x_issuer cert) oid_commonName cn) (x_subject cert) \<noteq> 0) =
      (\<not> names_proxy cn cert)" for cn
    by (auto simp: cmp_no_set_key names_proxy_def)
  have np: "names_proxy cn cert \<Longrightarrow> last_is_cn cn cert" for cn by (rule names_proxy_last)
  have dis: "\<not> (last_is_cn ''proxy'' cert \<and> last_is_cn ''limited proxy'' cert)"
    by (auto simp: last_is_cn_def)
  have idx: "X509_get_ext_by_NID o1 cert (my_txt2nid o1 PROXYCERTINFO_V3) = -1"
    "X509_get_ext_by_NID o1 cert (my_txt2nid o1 PROXYCERTINFO_V4) = -1"
    using False by (simp_all add: has_pci_index)
  show ?thesis
    unfolding proxy_check_proxy_name_def Let_def proxy_marked_def proxy_kind_def p lp eqv
    using idx False sub np dis by (auto simp: mark_proxy_def errs_kept_def pci_registered_def)
qed

text \<open>
  C1: proxy_check_proxy_name decides what its comment says. A certificate is a proxy (1) when
  it has a ProxyCertInfo extension or its subject is its issuer's name with CN=proxy appended,
  a limited proxy (2) when the appended name is CN=limited proxy, an error (-1) when the last
  name claims a proxy but the rest is not the issuer, and not a proxy (0) otherwise; the flags
  and the path length are set accordingly and the rest of the certificate is unchanged. The error
  queue is left as it is, but emptied when one of the two identifiers is not registered.
\<close>

theorem proxy_check_proxy_name_correct:
  assumes "has_pci o1 cert \<or> x_subject cert \<noteq> []"
  shows "proxy_check_proxy_name o1 cert errs =
     Some (proxy_kind o1 cert,
           if has_pci o1 cert then cert\<lparr>x_ex_flags := or (x_ex_flags cert) EXFLAG_PROXY\<rparr>
           else if proxy_kind o1 cert = 1 then
             cert\<lparr>x_ex_flags := or (x_ex_flags cert) EXFLAG_PROXY, x_ex_pcpathlen := -1\<rparr>
           else if proxy_kind o1 cert = 2 then
             cert\<lparr>x_ex_flags := or (x_ex_flags cert) EXFLAG_PROXY, x_ex_pcpathlen := 0\<rparr>
           else cert,
           if my_txt2nid o1 PROXYCERTINFO_V3 = 0 \<or> my_txt2nid o1 PROXYCERTINFO_V4 = 0 then [] else errs)"
  unfolding proxy_check_kind [OF assms] proxy_marked_def errs_kept_def pci_registered_def
  by (auto simp: mark_proxy_def proxy_kind_def)

definition sample_time :: asn1_time where
  "sample_time = \<lparr>at_type = 23, at_data = ''300101000000Z''\<rparr>"

definition sample_cn :: "cstring \<Rightarrow> name_entry" where
  "sample_cn v = \<lparr>ne_object = oid_commonName, ne_value = v, ne_set = 0\<rparr>"

definition sample_cert :: "xname \<Rightarrow> xname \<Rightarrow> x509_extension list \<Rightarrow> x509" where
  "sample_cert subj iss exts =
     \<lparr>x_subject = subj, x_issuer = iss, x_serial = 1, x_notBefore = sample_time,
      x_notAfter = sample_time, x_pubkey = None, x_exts = exts, x_ex_flags = 0,
      x_ex_pathlen = -1, x_ex_pcpathlen = 0\<rparr>"

definition sample_ossl :: ossl where
  "sample_ossl =
     \<lparr>o_obj2nid = (\<lambda>d. if d = ''2.5.29.19'' then 87 else if d = ''2.5.29.15'' then 83 else 0),
      o_name_cmp = X509_NAME_cmp_no_set, o_oneline = (\<lambda>n. Some (concat (map ((@) ''/CN='') (map ne_value n)))),
      o_name_hash = (\<lambda>n. of_nat (length n)), o_check_issued = (\<lambda>_ _. 0),
      o_regex = (\<lambda>p s. Some (sublist p s))\<rparr>"

lemma proxy_check_proxy_name_correct_witness:
  "proxy_check_proxy_name sample_ossl
     (sample_cert [sample_cn ''alice'', sample_cn ''limited proxy''] [sample_cn ''alice''] []) [''old''] =
   Some (2, (sample_cert [sample_cn ''alice'', sample_cn ''limited proxy''] [sample_cn ''alice''] [])
              \<lparr>x_ex_flags := EXFLAG_PROXY, x_ex_pcpathlen := 0\<rparr>, [])"
  by (subst proxy_check_proxy_name_correct)
     (simp_all add: sample_cert_def sample_cn_def proxy_kind_def has_pci_def names_proxy_def my_txt2nid_def sample_ossl_def
       PROXYCERTINFO_V3_def PROXYCERTINFO_V4_def)

section \<open>Further properties\<close>

text \<open>The classification reads the subject, the issuer and the extensions only.\<close>

lemma proxy_kind_flags [simp]:
  "proxy_kind o1 (cert\<lparr>x_ex_flags := f\<rparr>) = proxy_kind o1 cert"
  "proxy_kind o1 (cert\<lparr>x_ex_pcpathlen := l\<rparr>) = proxy_kind o1 cert"
  "has_pci o1 (cert\<lparr>x_ex_flags := f\<rparr>) = has_pci o1 cert"
  "has_pci o1 (cert\<lparr>x_ex_pcpathlen := l\<rparr>) = has_pci o1 cert"
  by (simp_all add: proxy_kind_def has_pci_def names_proxy_def last_is_cn_def)

lemma proxy_marked_fields [simp]:
  "x_subject (proxy_marked o1 c) = x_subject c" "x_issuer (proxy_marked o1 c) = x_issuer c"
  "x_exts (proxy_marked o1 c) = x_exts c" "x_notAfter (proxy_marked o1 c) = x_notAfter c"
  "proxy_kind o1 (proxy_marked o1 c) = proxy_kind o1 c"
  "has_pci o1 (proxy_marked o1 c) = has_pci o1 c"
  by (simp_all add: proxy_marked_def mark_proxy_def Let_def)

lemma proxy_kind_range: "proxy_kind o1 c \<in> {-1, 0, 1, 2}"
  by (simp add: proxy_kind_def)

text \<open>
  Delegation names. Whatever certificate delegates, the name proxy_construct_name builds
  from it with the common name proxy (or limited proxy) is recognised by
  proxy_check_proxy_name as a proxy (or a limited proxy) of exactly that certificate, and the
  name is one entry longer, so it never equals its issuer.
\<close>

theorem construct_name_recognised:
  assumes "proxy_construct_name True True ucert (Some cn) (length cn) = (0, Some name)"
    and "cn = ''proxy'' \<or> cn = ''limited proxy''"
    and "x_subject c = name" and "x_issuer c = x_subject ucert" and "\<not> has_pci o1 c"
  shows "map_option fst (proxy_check_proxy_name o1 c errs) = Some (if cn = ''proxy'' then 1 else 2) \<and>
         X509_NAME_cmp_no_set name (x_subject ucert) \<noteq> 0"
proof -
  from assms(1) have name: "name = add_entry (x_subject ucert) oid_commonName cn"
    by (simp add: proxy_construct_name_def)
  then have "x_subject c \<noteq> []" using assms(3) by (simp add: add_entry_def)
  then have "proxy_check_proxy_name o1 c errs = Some (proxy_kind o1 c, proxy_marked o1 c, errs_kept o1 errs)"
    by (intro proxy_check_kind) simp
  moreover have "names_proxy d c = (d = cn)" for d
    using assms(3,4) name by (auto simp: names_proxy_def)
  moreover have "length name \<noteq> length (x_subject ucert)" using name by (simp add: add_entry_def)
  ultimately show ?thesis
    using assms(2,5) by (auto simp: proxy_kind_def X509_NAME_cmp_no_set_def)
qed

lemma construct_name_recognised_witness:
  "map_option fst (proxy_check_proxy_name sample_ossl
      (sample_cert (add_entry [sample_cn ''alice''] oid_commonName ''limited proxy'') [sample_cn ''alice''] []) ([] :: nat list)) =
    Some 2 \<and>
   X509_NAME_cmp_no_set (add_entry [sample_cn ''alice''] oid_commonName ''limited proxy'')
     [sample_cn ''alice''] \<noteq> 0"
  using construct_name_recognised
    [of "sample_cert [sample_cn ''alice''] [] []" "''limited proxy''"
        "add_entry [sample_cn ''alice''] oid_commonName ''limited proxy''"
        "sample_cert (add_entry [sample_cn ''alice''] oid_commonName ''limited proxy'') [sample_cn ''alice''] []"
        sample_ossl "[] :: nat list"]
  by (simp add: proxy_construct_name_def sample_cert_def has_pci_def)

text \<open>
  C25: the replaced issuer check. It accepts exactly when OpenSSL's check accepts, or when the
  only complaint is the key identifier or the missing certificate-signing usage and the
  certificate is a proxy; every other complaint is kept.
\<close>

theorem proxy_check_issued_correct:
  assumes "has_pci o1 x \<or> x_subject x \<noteq> []"
  shows "map_option fst (proxy_check_issued o1 x issuer errs) =
     Some (if o_check_issued o1 issuer x = X509_V_OK \<or>
              (o_check_issued o1 issuer x \<in> {X509_V_ERR_AKID_SKID_MISMATCH, X509_V_ERR_KEYUSAGE_NO_CERTSIGN} \<and>
               proxy_kind o1 x \<in> {1, 2})
           then 1 else 0)"
  using proxy_kind_range [of o1 x]
  by (auto simp: proxy_check_issued_def proxy_check_kind [OF assms] Let_def)

lemma proxy_check_issued_correct_witness:
  "map_option fst (proxy_check_issued (sample_ossl\<lparr>o_check_issued := \<lambda>_ _. 32\<rparr>)
     (sample_cert [sample_cn ''a'', sample_cn ''proxy''] [sample_cn ''a''] [])
     (sample_cert [sample_cn ''a''] [] []) ([] :: nat list)) = Some 1"
  by (subst proxy_check_issued_correct)
     (simp_all add: sample_cert_def sample_cn_def proxy_kind_def has_pci_def names_proxy_def
       X509_V_ERR_KEYUSAGE_NO_CERTSIGN_def sample_ossl_def X509_V_OK_def)

section \<open>Critical extensions\<close>

lemma critical_loop_list_all:
  "critical_loop o1 a b p exs = (if list_all (\<lambda>e. ext_critical e \<longrightarrow> known_critical a b p (o_obj2nid o1 (ext_object e))) exs
     then 1 else 0)"
  by (induction exs) auto

definition standard_nids :: "int set" where
  "standard_nids = {NID_basic_constraints, NID_key_usage, NID_ext_key_usage, NID_netscape_cert_type,
     NID_subject_key_identifier, NID_authority_key_identifier}"

text \<open>
  Critical extensions. A certificate passes when each of its critical extensions is one of
  the six standard ones or, for a proxy, has the number of a ProxyCertInfo identifier.
\<close>

theorem check_critical_extensions_iff:
  "check_critical_extensions o1 cert p = 1 \<longleftrightarrow>
     filter (\<lambda>e. ext_critical e \<and>
        o_obj2nid o1 (ext_object e) \<notin> standard_nids \<union>
          (if p \<noteq> 0 then {my_txt2nid o1 PROXYCERTINFO_V3, my_txt2nid o1 PROXYCERTINFO_V4} else {}))
       (x_exts cert) = []"
proof -
  have "known_critical a b q n \<longleftrightarrow> n \<in> standard_nids \<union> (if q then {a, b} else {})" for a b q n
    by (auto simp: known_critical_def standard_nids_def)
  then show ?thesis
    by (auto simp: check_critical_extensions_def critical_loop_list_all list_all_iff filter_empty_conv)
qed

text \<open>
  When the second identifier was never registered its number is that of every unknown
  extension, and a proxy whose critical extensions are all unknown passes the check that is
  meant to reject it.
\<close>

theorem unregistered_pci_accepts_unknown:
  assumes "my_txt2nid o1 PROXYCERTINFO_V4 = NID_undef"
    and "list_all (\<lambda>e. o_obj2nid o1 (ext_object e) = NID_undef) (x_exts cert)"
  shows "check_critical_extensions o1 cert 1 = 1"
proof -
  have "known_critical a b True n" if "b = NID_undef" "n = NID_undef" for a b n
    using that by (simp add: known_critical_def)
  with assms show ?thesis
    by (auto simp: check_critical_extensions_def critical_loop_list_all list_all_iff)
qed

lemma unregistered_pci_accepts_unknown_witness:
  "check_critical_extensions sample_ossl
     (sample_cert [] [] [\<lparr>ext_object = ''1.2.3.4'', ext_critical = True, ext_data = []\<rparr>]) 1 = 1"
  by (rule unregistered_pci_accepts_unknown)
     (simp_all add: sample_ossl_def sample_cert_def my_txt2nid_def PROXYCERTINFO_V4_def NID_undef_def)

end
