(* ===== verification/Policy.thy ===== *)
theory Policy
  imports CList Normalize ProxyName
begin

text \<open>
  The evaluation of signing policies and namespaces (src/src/sslutils/evaluate.c, with the
  types of parsertypes.h). Arrays are blocks of cells (CList), so a loop that leaves an array
  shows as \<open>None\<close>; the two generated parsers are parameters.
\<close>

section \<open>Data\<close>

record condition =
  c_subjects :: "cstring cells option"
  c_original :: "cstring option"
  c_positive :: int

record policy =
  p_caname :: "cstring option"
  p_self :: int
  p_type :: int
  p_conds :: "condition cells option"

definition TYPE_SIGNING :: int where "TYPE_SIGNING = 0"
definition TYPE_NAMESPACE :: int where "TYPE_NAMESPACE = 1"

definition SUCCESS_PERMIT :: int where "SUCCESS_PERMIT = 0"
definition SUCCESS_DENY :: int where "SUCCESS_DENY = 1"
definition SUCCESS_UNDECIDED :: int where "SUCCESS_UNDECIDED = 2"

lemmas verdict_defs = SUCCESS_PERMIT_def SUCCESS_DENY_def SUCCESS_UNDECIDED_def

section \<open>Finding a policy\<close>

text \<open>\<open>gethash\<close>: the hash of the subject as eight hexadecimal digits (\<open>%08lx\<close>).\<close>

definition hexdigit :: "nat \<Rightarrow> char" where
  "hexdigit n = ''0123456789abcdef'' ! n"

definition hex8 :: "32 word \<Rightarrow> cstring" where
  "hex8 w = map (\<lambda>k. hexdigit (unat w div 16 ^ k mod 16)) [7, 6, 5, 4, 3, 2, 1, 0]"

definition gethash :: "ossl \<Rightarrow> x509 \<Rightarrow> cstring" where
  "gethash o1 cert = hex8 (o_name_hash o1 (x_subject cert))"

text \<open>
  Whether a policy is for a certificate. A policy without a name, or an issuer that could not
  be printed, is a NULL argument of \<open>strcmp\<close>: \<open>None\<close>.
\<close>

definition policy_matches :: "ossl \<Rightarrow> x509 \<Rightarrow> policy \<Rightarrow> bool option" where
  "policy_matches o1 cert p =
     (if p_self p \<noteq> 0 then
        (case p_caname p of None \<Rightarrow> None | Some ca \<Rightarrow> Some (strcmp (gethash o1 cert) ca = 0))
      else
        (case (o_oneline o1 (x_issuer cert), p_caname p) of
           (Some issuer, Some ca) \<Rightarrow> Some (strcmp issuer ca = 0)
         | _ \<Rightarrow> None))"

function find_policy_loop :: "ossl \<Rightarrow> policy cells \<Rightarrow> x509 \<Rightarrow> nat \<Rightarrow> int option" where
  "find_policy_loop o1 policies cert i =
     (if i < length policies then
        (case policies ! i of
           None \<Rightarrow> Some (-1)
         | Some p \<Rightarrow>
             (case policy_matches o1 cert p of
                None \<Rightarrow> None
              | Some m \<Rightarrow> if m then Some (int i) else find_policy_loop o1 policies cert (Suc i)))
      else None)"
  by pat_completeness auto
termination by (relation "measure (\<lambda>(_, ps, _, i). length ps - i)") auto

declare find_policy_loop.simps [simp del]

definition find_policy :: "ossl \<Rightarrow> policy cells option \<Rightarrow> x509 option \<Rightarrow> int \<Rightarrow> int option" where
  "find_policy o1 policies cert current =
     (let i = (if current = -1 then 0 else current + 1)
      in case (policies, cert) of
           (Some ps, Some c) \<Rightarrow>
             (case cell ps 0 of None \<Rightarrow> None
              | Some None \<Rightarrow> Some (-1)
              | Some (Some _) \<Rightarrow> find_policy_loop o1 ps c (nat i))
         | _ \<Rightarrow> Some (-1))"

section \<open>Matching a subject\<close>

definition evaluate_match_namespace :: "ossl \<Rightarrow> cstring \<Rightarrow> cstring \<Rightarrow> int \<Rightarrow> int option" where
  "evaluate_match_namespace o1 pattern subject type =
     (case (normalize pattern, normalize subject) of
        (Some patterntmp, Some subjecttmp) \<Rightarrow>
          Some (if o_regex o1 patterntmp subjecttmp = Some True
                then (if type \<noteq> 0 then SUCCESS_PERMIT else SUCCESS_DENY)
                else SUCCESS_UNDECIDED)
      | _ \<Rightarrow> None)"

text \<open>
  The arguments are not NULL: a NULL one would be passed to \<open>normalize\<close> before the test for
  it. The empty pattern reads \<open>pattern[-1]\<close>.
\<close>

definition evaluate_match_signing :: "cstring \<Rightarrow> cstring \<Rightarrow> int \<Rightarrow> int option" where
  "evaluate_match_signing pattern subject type =
     (case (normalize pattern, normalize subject) of
        (Some patterntmp, Some subjecttmp) \<Rightarrow>
          (let len = length pattern
           in if len = 0 then None
              else (let compare = (if pattern ! (len - 1) = CHR ''*''
                                   then strncmp patterntmp subjecttmp (len - 1)
                                   else strcmp patterntmp subjecttmp)
                    in if compare = 0
                       then Some (if type \<noteq> 0 then SUCCESS_PERMIT else SUCCESS_DENY)
                       else Some SUCCESS_UNDECIDED))
      | _ \<Rightarrow> None)"

definition match_pattern :: "ossl \<Rightarrow> int \<Rightarrow> cstring \<Rightarrow> cstring \<Rightarrow> int \<Rightarrow> int option" where
  "match_pattern o1 type pattern subject positive =
     (if type = TYPE_NAMESPACE then evaluate_match_namespace o1 pattern subject positive
      else evaluate_match_signing pattern subject positive)"

section \<open>Evaluating a policy\<close>

text \<open>
  The inner loop of \<open>restriction_evaluate_policy\<close>: the verdict, the index it stops at, and
  whether it left through \<open>goto end\<close>.
\<close>

function subjects_loop ::
  "ossl \<Rightarrow> int \<Rightarrow> cstring cells \<Rightarrow> cstring \<Rightarrow> int \<Rightarrow> int \<Rightarrow> nat \<Rightarrow> (int \<times> nat \<times> bool) option" where
  "subjects_loop o1 type subjects subject positive success subjindex =
     (if subjindex < length subjects then
        (case subjects ! subjindex of
           None \<Rightarrow> Some (success, subjindex, False)
         | Some pattern \<Rightarrow>
             (case match_pattern o1 type pattern subject positive of
                None \<Rightarrow> None
              | Some tempsuccess \<Rightarrow>
                  (let success = (if tempsuccess \<noteq> SUCCESS_UNDECIDED then tempsuccess else success)
                   in if success = SUCCESS_DENY then Some (success, subjindex, True)
                      else subjects_loop o1 type subjects subject positive success (Suc subjindex))))
      else None)"
  by pat_completeness auto
termination by (relation "measure (\<lambda>(_, _, s, _, _, _, i). length s - i)") auto

declare subjects_loop.simps [simp del]

text \<open>The outer loop. \<open>subjindex\<close> is set to 0 once, before it.\<close>

function conds_loop ::
  "ossl \<Rightarrow> int \<Rightarrow> condition cells \<Rightarrow> cstring \<Rightarrow> int \<Rightarrow> nat \<Rightarrow> nat \<Rightarrow> int option" where
  "conds_loop o1 type conds subject success condindex subjindex =
     (if condindex < length conds then
        (case conds ! condindex of
           None \<Rightarrow> Some success
         | Some c \<Rightarrow>
             (case c_subjects c of
                None \<Rightarrow> conds_loop o1 type conds subject success (Suc condindex) subjindex
              | Some subjects \<Rightarrow>
                  (case subjects_loop o1 type subjects subject (c_positive c) success subjindex of
                     None \<Rightarrow> None
                   | Some (success, subjindex, stop) \<Rightarrow>
                       if stop then Some success
                       else conds_loop o1 type conds subject success (Suc condindex) subjindex)))
      else None)"
  by pat_completeness auto
termination by (relation "measure (\<lambda>(_, _, c, _, _, i, _). length c - i)") auto

declare conds_loop.simps [simp del]

definition restriction_evaluate_policy :: "ossl \<Rightarrow> x509 option \<Rightarrow> policy option \<Rightarrow> int option" where
  "restriction_evaluate_policy o1 cert policy =
     (case (policy, cert) of
        (Some p, Some c) \<Rightarrow>
          (case p_conds p of None \<Rightarrow> Some SUCCESS_UNDECIDED
           | Some conds \<Rightarrow>
               (case o_oneline o1 (x_subject c) of None \<Rightarrow> Some SUCCESS_UNDECIDED
                | Some subject \<Rightarrow> conds_loop o1 (p_type p) conds subject SUCCESS_UNDECIDED 0 0))
      | _ \<Rightarrow> Some SUCCESS_UNDECIDED)"

section \<open>Evaluating a certificate\<close>

lemma find_policy_loop_bounds:
  "find_policy_loop o1 ps c i = Some k \<Longrightarrow> k = -1 \<or> int i \<le> k \<and> k < int (length ps)"
proof (induction o1 ps c i rule: find_policy_loop.induct)
  case (1 o1 ps c i)
  from "1.prems" show ?case
    by (subst (asm) find_policy_loop.simps)
       (use "1.IH" in \<open>force split: if_splits option.splits\<close>)
qed

lemma find_policy_bounds:
  assumes "find_policy o1 (Some ps) c current = Some k" "k \<noteq> -1"
  shows "current < k" and "k < int (length ps)" and "0 \<le> k"
  using assms find_policy_loop_bounds [of o1 ps "the c" "nat (if current = -1 then 0 else current + 1)" k]
  by (auto simp: find_policy_def Let_def split: option.splits if_splits)

definition isselfsigned :: "ossl \<Rightarrow> x509 \<Rightarrow> bool" where
  "isselfsigned o1 cert \<longleftrightarrow> o_name_cmp o1 (x_subject cert) (x_issuer cert) = 0"

text \<open>
  The loop of \<open>evaluate_cert\<close>, after the policy \<open>current\<close>; \<open>result\<close> is the last verdict.
\<close>

function evaluate_loop :: "ossl \<Rightarrow> x509 \<Rightarrow> policy cells option \<Rightarrow> int \<Rightarrow> int \<Rightarrow> int option" where
  "evaluate_loop o1 cert namespaces result currentindex =
     (case find_policy o1 namespaces (Some cert) currentindex of
        None \<Rightarrow> None
      | Some policyindex \<Rightarrow>
          if policyindex = -1 then Some result
          else (case restriction_evaluate_policy o1 (Some cert) (the namespaces ! nat policyindex) of
                  None \<Rightarrow> None
                | Some result \<Rightarrow>
                    if result \<noteq> SUCCESS_UNDECIDED then Some result
                    else evaluate_loop o1 cert namespaces result policyindex))"
  by pat_completeness auto
termination
proof (relation "measure (\<lambda>(_, _, ns, _, i). nat (int (length (the ns)) - i))", goal_cases)
  case (2 o1 cert ns result cur k r)
  then obtain ps where "ns = Some ps" by (cases ns) (auto simp: find_policy_def)
  with find_policy_bounds [of o1 ps "Some cert" cur k] 2 show ?case by auto
qed simp

declare evaluate_loop.simps [simp del]

definition evaluate_cert :: "ossl \<Rightarrow> x509 \<Rightarrow> policy cells option \<Rightarrow> int option" where
  "evaluate_cert o1 cert namespaces =
     (if isselfsigned o1 cert then Some SUCCESS_PERMIT
      else evaluate_loop o1 cert namespaces SUCCESS_UNDECIDED (-1))"

section \<open>Evaluating a chain\<close>

text \<open>The inner loop of \<open>restriction_evaluate_namespace\<close>, with \<open>j + 1\<close> iterations left.\<close>

fun repeat_cert :: "ossl \<Rightarrow> x509 \<Rightarrow> policy cells option \<Rightarrow> nat \<Rightarrow> int \<Rightarrow> int option" where
  "repeat_cert o1 cert namespaces 0 result = Some result"
| "repeat_cert o1 cert namespaces (Suc j) result =
     (case evaluate_cert o1 cert namespaces of
        None \<Rightarrow> None
      | Some result \<Rightarrow>
          if result \<noteq> SUCCESS_UNDECIDED then Some result
          else repeat_cert o1 cert namespaces j result)"

text \<open>The outer loop, over the indices it visits.\<close>

fun visit_chain :: "ossl \<Rightarrow> x509 list \<Rightarrow> policy cells option \<Rightarrow> nat list \<Rightarrow> int \<Rightarrow> int option" where
  "visit_chain o1 chain namespaces [] result = Some result"
| "visit_chain o1 chain namespaces (i # is) result =
     (case repeat_cert o1 (chain ! i) namespaces (Suc i) result of
        None \<Rightarrow> None
      | Some result \<Rightarrow> visit_chain o1 chain namespaces is result)"

definition visit_order :: "ossl \<Rightarrow> x509 list \<Rightarrow> nat list" where
  "visit_order o1 chain =
     (if length chain > 1 \<and> isselfsigned o1 (chain ! 0)
      then rev [0..<length chain] else [0..<length chain])"

definition restriction_evaluate_namespace :: "ossl \<Rightarrow> x509 list \<Rightarrow> policy cells option \<Rightarrow> int option" where
  "restriction_evaluate_namespace o1 chain namespaces =
     (case visit_chain o1 chain namespaces (visit_order o1 chain) 0 of
        None \<Rightarrow> None
      | Some result \<Rightarrow> Some (if result = SUCCESS_UNDECIDED then SUCCESS_PERMIT else result))"

fun signing_loop :: "ossl \<Rightarrow> x509 list \<Rightarrow> policy cells option \<Rightarrow> int \<Rightarrow> int option" where
  "signing_loop o1 [] signings result = Some result"
| "signing_loop o1 (cert # certs) signings result =
     (case evaluate_cert o1 cert signings of
        None \<Rightarrow> None
      | Some result \<Rightarrow>
          if result \<noteq> SUCCESS_UNDECIDED then Some result
          else signing_loop o1 certs signings result)"

definition restriction_evaluate_signing :: "ossl \<Rightarrow> x509 list \<Rightarrow> policy cells option \<Rightarrow> int option" where
  "restriction_evaluate_signing o1 chain signings =
     (case signing_loop o1 chain signings 0 of
        None \<Rightarrow> None
      | Some result \<Rightarrow> Some (if result = SUCCESS_UNDECIDED then SUCCESS_DENY else result))"

definition restriction_evaluate ::
  "ossl \<Rightarrow> x509 list \<Rightarrow> policy cells option \<Rightarrow> policy cells option \<Rightarrow> int option" where
  "restriction_evaluate o1 chain namespaces signings =
     (case restriction_evaluate_namespace o1 chain namespaces of
        None \<Rightarrow> None
      | Some result \<Rightarrow>
          if result = SUCCESS_UNDECIDED then restriction_evaluate_signing o1 chain signings
          else Some result)"

section \<open>Freeing\<close>

text \<open>The blocks given to \<open>free\<close>, in order.\<close>

datatype freed =
  F_original "cstring option"
| F_subjects "cstring cells option"
| F_condition condition
| F_caname "cstring option"
| F_conds "condition cells"
| F_policy policy
| F_policies "policy cells"

definition free_condition :: "condition \<Rightarrow> freed list" where
  "free_condition c = [F_original (c_original c), F_subjects (c_subjects c), F_condition c]"

definition free_policy :: "policy \<Rightarrow> freed list option" where
  "free_policy pol =
     map_option (\<lambda>cs. F_caname (p_caname pol) # concat (map free_condition cs) @
                      (case p_conds pol of None \<Rightarrow> [] | Some v \<Rightarrow> [F_conds v]) @ [F_policy pol])
       (listfree (p_conds pol))"

definition voms_free_policies :: "policy cells option \<Rightarrow> freed list option" where
  "voms_free_policies policies =
     (case listfree policies of None \<Rightarrow> None
      | Some ps \<Rightarrow>
          (if list_all (\<lambda>p. free_policy p \<noteq> None) ps
           then Some (concat (map (\<lambda>p. the (free_policy p)) ps) @
                      (case policies of None \<Rightarrow> [] | Some v \<Rightarrow> [F_policies v]))
           else None))"

section \<open>Reading the policies of a chain\<close>

text \<open>
  The two parsers add what they read to the policies so far. The file system maps a path to
  the contents of a file that can be opened.
\<close>

record policy_parsers =
  pp_signing :: "cstring \<Rightarrow> policy cells option \<Rightarrow> policy cells option"
  pp_namespaces :: "cstring \<Rightarrow> policy cells option \<Rightarrow> policy cells option"

definition open_from_dir :: "(cstring \<Rightarrow> cstring option) \<Rightarrow> cstring \<Rightarrow> cstring \<Rightarrow> cstring option" where
  "open_from_dir fs path filename =
     (case snprintf_wrap True (path @ filename) of None \<Rightarrow> None | Some realpath \<Rightarrow> fs realpath)"

text \<open>The loop that names the policies about the certificate's own subject.\<close>

function rename_self :: "cstring \<Rightarrow> policy cells \<Rightarrow> nat \<Rightarrow> policy cells option" where
  "rename_self hash v j =
     (if j < length v then
        (case v ! j of
           None \<Rightarrow> Some v
         | Some p \<Rightarrow>
             rename_self hash
               (if p_self p \<noteq> 0 then v[j := Some (p\<lparr>p_caname := Some hash\<rparr>)] else v) (Suc j))
      else None)"
  by pat_completeness auto
termination by (relation "measure (\<lambda>(_, v, j). length v - j)") auto

declare rename_self.simps [simp del]

definition rename_policies :: "cstring \<Rightarrow> policy cells option \<Rightarrow> policy cells option option" where
  "rename_policies hash ps =
     (case ps of None \<Rightarrow> Some None | Some v \<Rightarrow> map_option Some (rename_self hash v 0))"

fun read_pathrestriction ::
  "ossl \<Rightarrow> policy_parsers \<Rightarrow> (cstring \<Rightarrow> cstring option) \<Rightarrow> x509 list \<Rightarrow> cstring \<Rightarrow>
   policy cells option \<Rightarrow> policy cells option \<Rightarrow> (policy cells option \<times> policy cells option) option" where
  "read_pathrestriction o1 pp fs [] path names signs = Some (names, signs)"
| "read_pathrestriction o1 pp fs (cert # chain) path names signs =
     (let hash = gethash o1 cert;
          signing = ''/'' @ take 8 hash @ ''.signing_policy'';
          namespace = ''/'' @ take 8 hash @ ''.namespaces'';
          signs = (case open_from_dir fs path signing of
                     None \<Rightarrow> signs | Some file \<Rightarrow> pp_signing pp file signs)
      in case rename_policies hash signs of
           None \<Rightarrow> None
         | Some signs \<Rightarrow>
             (let names = (case open_from_dir fs path namespace of
                             None \<Rightarrow> names | Some file \<Rightarrow> pp_namespaces pp file names)
              in case rename_policies hash names of
                   None \<Rightarrow> None
                 | Some names \<Rightarrow> read_pathrestriction o1 pp fs chain path names signs))"

section \<open>Patterns\<close>

text \<open>
  A policy type whose patterns either hit a subject or do not: the verdict of a pattern is then
  permit, deny or undecided by the sign of its condition.
\<close>

definition decide :: "(cstring \<Rightarrow> bool) \<Rightarrow> (int \<times> cstring list) list \<Rightarrow> int" where
  "decide hit conds =
     (if list_ex (\<lambda>(t, ps). t = 0 \<and> list_ex hit ps) conds then SUCCESS_DENY
      else if list_ex (\<lambda>(t, ps). t \<noteq> 0 \<and> list_ex hit ps) conds then SUCCESS_PERMIT
      else SUCCESS_UNDECIDED)"

text \<open>
  The patterns the loops look at: of each condition only those after as many as the previous
  condition had, because the index is not reset.
\<close>

fun effective :: "nat \<Rightarrow> condition list \<Rightarrow> (int \<times> cstring list) list" where
  "effective n [] = []"
| "effective n (c # cs) =
     (case c_subjects c of None \<Rightarrow> effective n cs
      | Some v \<Rightarrow> (c_positive c, drop n (cells_contents v)) # effective (length (cells_contents v)) cs)"

fun in_bounds :: "nat \<Rightarrow> condition list \<Rightarrow> bool" where
  "in_bounds n [] \<longleftrightarrow> True"
| "in_bounds n (c # cs) \<longleftrightarrow>
     (case c_subjects c of None \<Rightarrow> in_bounds n cs
      | Some v \<Rightarrow> n \<le> length (cells_contents v) \<and> in_bounds (length (cells_contents v)) cs)"

definition good_cond :: "(cstring \<Rightarrow> bool) \<Rightarrow> condition \<Rightarrow> bool" where
  "good_cond okp c \<longleftrightarrow>
     (case c_subjects c of None \<Rightarrow> True
      | Some v \<Rightarrow> v = block_of (cells_contents v) \<and> list_all okp (cells_contents v))"

lemma cells_contents_block_of [simp]: "cells_contents (block_of xs) = xs"
  by (simp add: block_of_def)

lemma block_of_nth: "i < length (block_of xs) \<Longrightarrow> block_of xs ! i = (if i < length xs then Some (xs ! i) else None)"
  by (auto simp: block_of_def nth_append)

lemma length_block_of [simp]: "length (block_of xs) = Suc (length xs)"
  by (simp add: block_of_def)

locale policy_matcher =
  fixes o1 :: ossl and type :: int and okp :: "cstring \<Rightarrow> bool" and hit :: "cstring \<Rightarrow> cstring \<Rightarrow> bool"
  assumes verdict: "okp p \<Longrightarrow> match_pattern o1 type p s t =
    Some (if hit p s then (if t \<noteq> 0 then SUCCESS_PERMIT else SUCCESS_DENY) else SUCCESS_UNDECIDED)"
begin

lemma subjects_loop_decide:
  assumes "list_all okp ps" "j \<le> length ps" "success \<noteq> SUCCESS_DENY"
  shows "\<exists>k. subjects_loop o1 type (block_of ps) s t success j =
    Some (if list_ex (\<lambda>p. hit p s) (drop j ps) then (if t = 0 then SUCCESS_DENY else SUCCESS_PERMIT) else success, k,
          t = 0 \<and> list_ex (\<lambda>p. hit p s) (drop j ps)) \<and>
    (t = 0 \<and> list_ex (\<lambda>p. hit p s) (drop j ps) \<or> k = length ps)"
  using assms(2,3)
proof (induction "length ps - j" arbitrary: j success)
  case 0
  then show ?case
    by (subst subjects_loop.simps) (simp add: block_of_nth)
next
  case (Suc n)
  then have j: "j < length ps" by simp
  have ok: "okp (ps ! j)" using assms(1) j by (simp add: list_all_length)
  have d: "drop j ps = ps ! j # drop (Suc j) ps" using j by (simp add: Cons_nth_drop_Suc)
  note step = subjects_loop.simps [of o1 type "block_of ps" s t success j]
  show ?case
  proof (cases "hit (ps ! j) s")
    case False
    with Suc.hyps(1) [of "Suc j" success] Suc.hyps(2) Suc.prems j show ?thesis
      by (subst step) (simp add: block_of_nth verdict [OF ok] d)
  next
    case True
    show ?thesis
    proof (cases "t = 0")
      case True
      with \<open>hit (ps ! j) s\<close> j show ?thesis
        by (subst step) (simp add: block_of_nth verdict [OF ok] d verdict_defs)
    next
      case False
      have *: "subjects_loop o1 type (block_of ps) s t success j =
               subjects_loop o1 type (block_of ps) s t SUCCESS_PERMIT (Suc j)"
        using True False j
        by (subst step) (simp add: block_of_nth verdict [OF ok] verdict_defs)
      have "\<exists>k. subjects_loop o1 type (block_of ps) s t SUCCESS_PERMIT (Suc j) = Some (SUCCESS_PERMIT, k, False) \<and>
          k = length ps"
        using Suc.hyps(1) [of "Suc j" SUCCESS_PERMIT] Suc.hyps(2) j False
        by (cases "list_ex (\<lambda>p. hit p s) (drop (Suc j) ps)") (simp_all add: verdict_defs)
      with * True False show ?thesis by (simp add: d)
    qed
  qed
qed

lemma conds_loop_decide:
  assumes "list_all (good_cond okp) cs" "i \<le> length cs" "in_bounds j (drop i cs)" "success \<noteq> SUCCESS_DENY"
  shows "conds_loop o1 type (block_of cs) s success i j =
    Some (let v = decide (\<lambda>p. hit p s) (effective j (drop i cs))
          in if v = SUCCESS_UNDECIDED then success else v)"
  using assms(2-)
proof (induction "length cs - i" arbitrary: i j success)
  case 0
  then show ?case
    by (subst conds_loop.simps) (simp add: block_of_nth decide_def)
next
  case (Suc n)
  then have i: "i < length cs" by simp
  let ?c = "cs ! i"
  have good: "good_cond okp ?c" using assms(1) i by (simp add: list_all_length)
  have d: "drop i cs = ?c # drop (Suc i) cs" using i by (simp add: Cons_nth_drop_Suc)
  note step = conds_loop.simps [of o1 type "block_of cs" s success i j]
  note IH = Suc.hyps(1) [of "Suc i"]
  show ?case
  proof (cases "c_subjects ?c")
    case None
    with IH [of j success] Suc.hyps(2) Suc.prems i show ?thesis
      by (subst step) (simp add: block_of_nth d)
  next
    case (Some v)
    let ?ps = "cells_contents v"
    have v: "v = block_of ?ps" and okv: "list_all okp ?ps" using good Some by (simp_all add: good_cond_def)
    have j: "j \<le> length ?ps" and inb: "in_bounds (length ?ps) (drop (Suc i) cs)"
      using Suc.prems(2) Some by (simp_all add: d)
    let ?hit = "list_ex (\<lambda>p. hit p s) (drop j ?ps)"
    obtain k where k: "subjects_loop o1 type v s (c_positive ?c) success j =
        Some (if ?hit then (if c_positive ?c = 0 then SUCCESS_DENY else SUCCESS_PERMIT) else success, k,
              c_positive ?c = 0 \<and> ?hit)" "c_positive ?c = 0 \<and> ?hit \<or> k = length ?ps"
      using subjects_loop_decide [OF okv j Suc.prems(3), of s "c_positive ?c"] v by auto
    show ?thesis
    proof (cases "c_positive ?c = 0 \<and> ?hit")
      case True
      with k Some i show ?thesis
        by (subst step) (simp add: block_of_nth d decide_def verdict_defs)
    next
      case False
      let ?s = "if ?hit then SUCCESS_PERMIT else success"
      have "?s \<noteq> SUCCESS_DENY" using Suc.prems(3) by (simp add: verdict_defs)
      with IH [of "length ?ps" ?s] Suc.hyps(2) inb i
      have "conds_loop o1 type (block_of cs) s ?s (Suc i) (length ?ps) =
        Some (let v = decide (\<lambda>p. hit p s) (effective (length ?ps) (drop (Suc i) cs))
              in if v = SUCCESS_UNDECIDED then ?s else v)" by simp
      moreover have "conds_loop o1 type (block_of cs) s success i j =
          conds_loop o1 type (block_of cs) s ?s (Suc i) (length ?ps)"
        using k Some i False by (subst step) (auto simp: block_of_nth)
      ultimately show ?thesis using False Some by (auto simp: d decide_def verdict_defs Let_def)
    qed
  qed
qed

end

section \<open>The two kinds of patterns\<close>

definition ns_hit :: "ossl \<Rightarrow> cstring \<Rightarrow> cstring \<Rightarrow> bool" where
  "ns_hit o1 p s \<longleftrightarrow> o_regex o1 (canon p) (canon s) = Some True"

text \<open>
  A signing pattern ending in a star compares as many bytes of the two canonical names as the
  pattern has before its star as written.
\<close>

definition sg_hit :: "cstring \<Rightarrow> cstring \<Rightarrow> bool" where
  "sg_hit p s \<longleftrightarrow>
     (if last p = CHR ''*'' then take (length p - 1) (canon p) = take (length p - 1) (canon s)
      else canon p = canon s)"

interpretation ns: policy_matcher o1 TYPE_NAMESPACE "\<lambda>_. True" "ns_hit o1" for o1
  by unfold_locales
     (simp add: match_pattern_def evaluate_match_namespace_def normalize_canon ns_hit_def)

interpretation sg: policy_matcher o1 TYPE_SIGNING "\<lambda>p. p \<noteq> []" sg_hit for o1
  by unfold_locales
     (auto simp: match_pattern_def evaluate_match_signing_def normalize_canon sg_hit_def last_conv_nth
       TYPE_SIGNING_def TYPE_NAMESPACE_def Let_def)

definition type_hit :: "ossl \<Rightarrow> int \<Rightarrow> cstring \<Rightarrow> cstring \<Rightarrow> bool" where
  "type_hit o1 type = (if type = TYPE_NAMESPACE then ns_hit o1 else sg_hit)"

definition type_ok :: "int \<Rightarrow> cstring \<Rightarrow> bool" where
  "type_ok type p \<longleftrightarrow> type = TYPE_NAMESPACE \<or> p \<noteq> []"

lemma type_ok_kinds: "type_ok TYPE_NAMESPACE = (\<lambda>_. True)" "type_ok TYPE_SIGNING = (\<lambda>p. p \<noteq> [])"
  by (auto simp: type_ok_def fun_eq_iff TYPE_SIGNING_def TYPE_NAMESPACE_def)

lemma policy_verdict_decide:
  assumes "p_type p \<in> {TYPE_SIGNING, TYPE_NAMESPACE}" "p_conds p = Some (block_of cs)"
    "o_oneline o1 (x_subject c) = Some s" "list_all (good_cond (type_ok (p_type p))) cs" "in_bounds 0 cs"
  shows "restriction_evaluate_policy o1 (Some c) (Some p) =
    Some (decide (\<lambda>q. type_hit o1 (p_type p) q s) (effective 0 cs))"
proof -
  have u: "SUCCESS_UNDECIDED \<noteq> SUCCESS_DENY" by (simp add: verdict_defs)
  have "conds_loop o1 (p_type p) (block_of cs) s SUCCESS_UNDECIDED 0 0 =
      Some (decide (\<lambda>q. type_hit o1 (p_type p) q s) (effective 0 cs))"
  proof (cases "p_type p = TYPE_NAMESPACE")
    case True
    then have "list_all (good_cond (\<lambda>_. True)) cs" using assms(4) by (simp add: type_ok_kinds)
    from ns.conds_loop_decide [OF this _ _ u, of 0 0 o1 s] True assms(5) show ?thesis
      by (simp add: type_hit_def Let_def)
  next
    case False
    then have t: "p_type p = TYPE_SIGNING" using assms(1) by simp
    then have "list_all (good_cond (\<lambda>q. q \<noteq> [])) cs"
      using assms(4) by (simp add: type_ok_kinds)
    from sg.conds_loop_decide [OF this _ _ u, of 0 0 o1 s] t False assms(5) show ?thesis
      by (simp add: type_hit_def Let_def)
  qed
  with assms(2,3) show ?thesis by (simp add: restriction_evaluate_policy_def)
qed

text \<open>
  C21: the verdict of a policy. When no condition has fewer subjects than the one before it, the
  two loops stay inside their arrays and compute deny if some negative condition hits, else
  permit if some positive one does, else undecided, where of each condition only the subjects
  after the previous condition's count are looked at.
\<close>

theorem restriction_evaluate_policy_verdict:
  assumes "p_type p \<in> {TYPE_SIGNING, TYPE_NAMESPACE}" "p_conds p = Some (block_of cs)"
    "o_oneline o1 (x_subject c) = Some s" "list_all (good_cond (type_ok (p_type p))) cs" "in_bounds 0 cs"
  shows "restriction_evaluate_policy o1 (Some c) (Some p) =
    Some (decide (\<lambda>q. type_hit o1 (p_type p) q s) (effective 0 cs))"
  by (rule policy_verdict_decide [OF assms])

definition simple_cond :: "int \<Rightarrow> cstring list \<Rightarrow> condition" where
  "simple_cond t ps = \<lparr>c_subjects = Some (block_of ps), c_original = None, c_positive = t\<rparr>"

definition simple_policy :: "int \<Rightarrow> condition list \<Rightarrow> policy" where
  "simple_policy type cs = \<lparr>p_caname = Some ''/CN=ca'', p_self = 0, p_type = type, p_conds = Some (block_of cs)\<rparr>"

lemma restriction_evaluate_policy_verdict_witness:
  "restriction_evaluate_policy sample_ossl (Some (sample_cert [sample_cn ''ab''] [] []))
     (Some (simple_policy TYPE_NAMESPACE [simple_cond 1 [''/CN=a''], simple_cond 0 [''x'', ''/CN=ab'']])) =
   Some SUCCESS_DENY"
proof -
  have "canon ''/CN=ab'' = ''/CN=ab''" "canon ''/CN=a'' = ''/CN=a''"
    by (simp_all add: canon_def alias_rules_def)
  then show ?thesis
    by (subst restriction_evaluate_policy_verdict
          [where cs = "[simple_cond 1 [''/CN=a''], simple_cond 0 [''x'', ''/CN=ab'']]" and s = "''/CN=ab''"])
       (simp_all add: simple_policy_def simple_cond_def good_cond_def type_ok_def sample_ossl_def
         sample_cert_def sample_cn_def decide_def type_hit_def ns_hit_def)
qed

text \<open>
  The index that is not reset. A second condition with as many subjects as the first is
  never looked at: whatever it permits or denies, the policy's verdict is that of the first
  condition alone.
\<close>

theorem second_condition_ignored:
  assumes "length qs = length ps" and "type \<in> {TYPE_SIGNING, TYPE_NAMESPACE}"
    and "list_all (type_ok type) (ps @ qs)" and "o_oneline o1 (x_subject c) = Some s"
  shows "restriction_evaluate_policy o1 (Some c) (Some (simple_policy type [simple_cond t ps, simple_cond u qs])) =
         restriction_evaluate_policy o1 (Some c) (Some (simple_policy type [simple_cond t ps]))"
proof -
  have good: "list_all (good_cond (type_ok type)) [simple_cond t ps, simple_cond u qs]"
    using assms(3) by (simp add: good_cond_def simple_cond_def)
  have "restriction_evaluate_policy o1 (Some c) (Some (simple_policy type cs)) =
      Some (decide (\<lambda>q. type_hit o1 type q s) (effective 0 cs))"
    if "cs = [simple_cond t ps, simple_cond u qs] \<or> cs = [simple_cond t ps]" for cs
    using policy_verdict_decide [of "simple_policy type cs" cs o1 c s] that good assms
    by (auto simp: simple_policy_def simple_cond_def)
  then show ?thesis
    using assms(1) by (simp add: simple_cond_def decide_def)
qed

lemma second_condition_ignored_witness:
  "restriction_evaluate_policy sample_ossl (Some (sample_cert [sample_cn ''ab''] [] []))
     (Some (simple_policy TYPE_NAMESPACE [simple_cond 1 [''/CN=a''], simple_cond 0 [''/CN=ab'']])) =
   Some SUCCESS_PERMIT"
proof -
  have c: "canon ''/CN=ab'' = ''/CN=ab''" "canon ''/CN=a'' = ''/CN=a''"
    by (simp_all add: canon_def alias_rules_def)
  have "restriction_evaluate_policy sample_ossl (Some (sample_cert [sample_cn ''ab''] [] []))
      (Some (simple_policy TYPE_NAMESPACE [simple_cond 1 [''/CN=a'']])) = Some SUCCESS_PERMIT"
    by (subst policy_verdict_decide [where cs = "[simple_cond 1 [''/CN=a'']]" and s = "''/CN=ab''"])
       (simp_all add: simple_policy_def simple_cond_def good_cond_def type_ok_def sample_ossl_def
         sample_cert_def sample_cn_def decide_def type_hit_def ns_hit_def c)
  moreover have "o_oneline sample_ossl (x_subject (sample_cert [sample_cn ''ab''] [] [])) = Some ''/CN=ab''"
    by (simp add: sample_ossl_def sample_cert_def sample_cn_def)
  ultimately show ?thesis
    using second_condition_ignored [of "[''/CN=ab'']" "[''/CN=a'']" TYPE_NAMESPACE sample_ossl
        "sample_cert [sample_cn ''ab''] [] []" "''/CN=ab''" 1 0]
    by (simp add: type_ok_def)
qed

section \<open>The policies of a certificate\<close>

text \<open>The first verdict that decides.\<close>

fun first_decided :: "int list \<Rightarrow> int" where
  "first_decided [] = SUCCESS_UNDECIDED"
| "first_decided (v # vs) = (if v \<noteq> SUCCESS_UNDECIDED then v else first_decided vs)"

definition matching :: "ossl \<Rightarrow> x509 \<Rightarrow> policy list \<Rightarrow> policy list" where
  "matching o1 c = filter (\<lambda>p. policy_matches o1 c p = Some True)"

text \<open>Policies whose evaluation for a certificate never reads NULL or past an array.\<close>

definition readable :: "ossl \<Rightarrow> x509 \<Rightarrow> policy list \<Rightarrow> bool" where
  "readable o1 c ps \<longleftrightarrow> list_all (\<lambda>p. policy_matches o1 c p \<noteq> None \<and>
     restriction_evaluate_policy o1 (Some c) (Some p) \<noteq> None) ps"

definition policy_verdict :: "ossl \<Rightarrow> x509 \<Rightarrow> policy \<Rightarrow> int" where
  "policy_verdict o1 c p = the (restriction_evaluate_policy o1 (Some c) (Some p))"

lemma find_policy_loop_next:
  assumes "readable o1 c ps" "i \<le> length ps"
  shows "(\<exists>k. find_policy_loop o1 (block_of ps) c i = Some (int k) \<and> i \<le> k \<and> k < length ps \<and>
            matching o1 c (drop i ps) = ps ! k # matching o1 c (drop (Suc k) ps)) \<or>
         (find_policy_loop o1 (block_of ps) c i = Some (-1) \<and> matching o1 c (drop i ps) = [])"
  using assms(2)
proof (induction "length ps - i" arbitrary: i)
  case 0
  then show ?case by (subst (1 2) find_policy_loop.simps) (simp add: block_of_nth matching_def)
next
  case (Suc n)
  then have i: "i < length ps" by simp
  have d: "drop i ps = ps ! i # drop (Suc i) ps" using i by (simp add: Cons_nth_drop_Suc)
  obtain m where m: "policy_matches o1 c (ps ! i) = Some m"
    using assms(1) i by (auto simp: readable_def list_all_length)
  note step = find_policy_loop.simps [of o1 "block_of ps" c i]
  show ?case
  proof (cases m)
    case True
    with m i have "find_policy_loop o1 (block_of ps) c i = Some (int i)"
      by (subst step) (simp add: block_of_nth)
    with m True i show ?thesis by (auto simp: d matching_def)
  next
    case False
    with m i have "find_policy_loop o1 (block_of ps) c i = find_policy_loop o1 (block_of ps) c (Suc i)"
      by (subst step) (simp add: block_of_nth)
    moreover have "matching o1 c (drop i ps) = matching o1 c (drop (Suc i) ps)"
      using m False by (simp add: d matching_def)
    moreover have "n = length ps - Suc i" "Suc i \<le> length ps" using Suc.hyps(2) i by auto
    ultimately show ?thesis using Suc.hyps(1) [of "Suc i"] by (metis Suc_leD)
  qed
qed

lemma find_policy_next:
  assumes "readable o1 c ps" "i \<le> length ps"
  shows "(\<exists>k. find_policy o1 (Some (block_of ps)) (Some c) (int i - 1) = Some (int k) \<and> i \<le> k \<and> k < length ps \<and>
            matching o1 c (drop i ps) = ps ! k # matching o1 c (drop (Suc k) ps)) \<or>
         (find_policy o1 (Some (block_of ps)) (Some c) (int i - 1) = Some (-1) \<and> matching o1 c (drop i ps) = [])"
proof (cases ps)
  case Nil
  then show ?thesis by (simp add: find_policy_def cell_def block_of_def matching_def)
next
  case (Cons p ps')
  have "find_policy o1 (Some (block_of ps)) (Some c) (int i - 1) = find_policy_loop o1 (block_of ps) c i"
    using Cons by (simp add: find_policy_def cell_def block_of_def)
  then show ?thesis using find_policy_loop_next [OF assms] by simp
qed

lemma evaluate_loop_decided:
  assumes "readable o1 c ps" "i \<le> length ps"
  shows "evaluate_loop o1 c (Some (block_of ps)) SUCCESS_UNDECIDED (int i - 1) =
     Some (first_decided (map (policy_verdict o1 c) (matching o1 c (drop i ps))))"
  using assms(2)
proof (induction "length ps - i" arbitrary: i rule: less_induct)
  case less
  note step = evaluate_loop.simps [of o1 c "Some (block_of ps)" SUCCESS_UNDECIDED "int i - 1"]
  from find_policy_next [OF assms(1) less.prems]
  consider (found) k where "find_policy o1 (Some (block_of ps)) (Some c) (int i - 1) = Some (int k)"
      "i \<le> k" "k < length ps" "matching o1 c (drop i ps) = ps ! k # matching o1 c (drop (Suc k) ps)"
    | (none) "find_policy o1 (Some (block_of ps)) (Some c) (int i - 1) = Some (-1)"
      "matching o1 c (drop i ps) = []" by blast
  then show ?case
  proof cases
    case (found k)
    obtain v where v: "restriction_evaluate_policy o1 (Some c) (Some (ps ! k)) = Some v"
      using assms(1) found(3) by (auto simp: readable_def list_all_length)
    have nxt: "evaluate_loop o1 c (Some (block_of ps)) SUCCESS_UNDECIDED (int k) =
        Some (first_decided (map (policy_verdict o1 c) (matching o1 c (drop (Suc k) ps))))"
      using less.hyps [of "Suc k"] found(2,3) by simp
    show ?thesis
      using found v nxt by (subst step) (auto simp: block_of_nth policy_verdict_def)
  next
    case none
    then show ?thesis by (subst step) simp
  qed
qed

lemma evaluate_cert_decided:
  assumes "readable o1 c ps" "\<not> isselfsigned o1 c"
  shows "evaluate_cert o1 c (Some (block_of ps)) =
     Some (first_decided (map (policy_verdict o1 c) (matching o1 c ps)))"
  using evaluate_loop_decided [OF assms(1), of 0] assms(2) by (simp add: evaluate_cert_def)

text \<open>
  The search through the policies. For a certificate that is not self-signed, the repeated
  calls of find_policy visit the policies about its issuer (or its own hash) once each and in
  order, and the verdict is that of the first of them that decides.
\<close>

theorem evaluate_cert_first_decided:
  assumes "readable o1 c ps" and "\<not> isselfsigned o1 c"
  shows "evaluate_cert o1 c (Some (block_of ps)) =
     Some (first_decided [the (restriction_evaluate_policy o1 (Some c) (Some p)).
             p \<leftarrow> ps, policy_matches o1 c p = Some True])"
proof -
  have "map (policy_verdict o1 c) (matching o1 c ps) =
      [the (restriction_evaluate_policy o1 (Some c) (Some p)). p \<leftarrow> ps, policy_matches o1 c p = Some True]"
    by (induction ps) (auto simp: matching_def policy_verdict_def)
  with evaluate_cert_decided [OF assms] show ?thesis by simp
qed

lemma evaluate_cert_first_decided_witness:
  "evaluate_cert sample_ossl (sample_cert [sample_cn ''ab''] [sample_cn ''ca''] [])
     (Some (block_of [simple_policy TYPE_NAMESPACE [simple_cond 1 [''q'']],
                      simple_policy TYPE_NAMESPACE [simple_cond 0 [''b'']]])) = Some SUCCESS_DENY"
proof -
  let ?c = "sample_cert [sample_cn ''ab''] [sample_cn ''ca''] []"
  let ?p = "simple_policy TYPE_NAMESPACE [simple_cond 1 [''q'']]"
  let ?q = "simple_policy TYPE_NAMESPACE [simple_cond 0 [''b'']]"
  have canon: "canon ''/CN=ab'' = ''/CN=ab''" "canon ''q'' = ''q''" "canon ''b'' = ''b''"
    by (simp_all add: canon_def alias_rules_def)
  have m: "policy_matches sample_ossl ?c ?p = Some True" "policy_matches sample_ossl ?c ?q = Some True"
    by (simp_all add: policy_matches_def simple_policy_def sample_ossl_def sample_cert_def sample_cn_def)
  have hits: "\<not> ns_hit sample_ossl ''q'' ''/CN=ab''" "ns_hit sample_ossl ''b'' ''/CN=ab''"
    by (simp_all add: ns_hit_def canon sample_ossl_def sublist_Cons_right)
  have v: "restriction_evaluate_policy sample_ossl (Some ?c) (Some ?p) = Some SUCCESS_UNDECIDED"
    using policy_verdict_decide [of ?p "[simple_cond 1 [''q'']]" sample_ossl ?c "''/CN=ab''"] hits
    by (simp add: simple_policy_def simple_cond_def good_cond_def type_ok_def sample_ossl_def
          sample_cert_def sample_cn_def decide_def type_hit_def)
  have w: "restriction_evaluate_policy sample_ossl (Some ?c) (Some ?q) = Some SUCCESS_DENY"
    using policy_verdict_decide [of ?q "[simple_cond 0 [''b'']]" sample_ossl ?c "''/CN=ab''"] hits
    by (simp add: simple_policy_def simple_cond_def good_cond_def type_ok_def sample_ossl_def
          sample_cert_def sample_cn_def decide_def type_hit_def)
  have "\<not> isselfsigned sample_ossl ?c"
    by (simp add: isselfsigned_def sample_ossl_def sample_cert_def sample_cn_def X509_NAME_cmp_no_set_def Let_def)
  moreover have "readable sample_ossl ?c [?p, ?q]" unfolding readable_def by (simp only: m v w list.pred_inject option.distinct option.simps simp_thms)
  ultimately show ?thesis
    by (subst evaluate_cert_first_decided) (simp_all add: m v w verdict_defs)
qed

section \<open>The verdict of a chain\<close>

definition evaluable :: "ossl \<Rightarrow> x509 list \<Rightarrow> policy cells option \<Rightarrow> bool" where
  "evaluable o1 chain ns \<longleftrightarrow> list_all (\<lambda>c. evaluate_cert o1 c ns \<noteq> None) chain"

lemma repeat_cert_once:
  "evaluate_cert o1 c ns = Some v \<Longrightarrow> repeat_cert o1 c ns (Suc j) r = Some v"
  by (induction j arbitrary: r) auto

lemma visit_chain_last:
  assumes "\<forall>i \<in> set is. evaluate_cert o1 (chain ! i) ns \<noteq> None"
  shows "visit_chain o1 chain ns is r =
    Some (if is = [] then r else the (evaluate_cert o1 (chain ! last is) ns))"
  using assms
proof (induction "is" arbitrary: r)
  case (Cons i js)
  then obtain v where "evaluate_cert o1 (chain ! i) ns = Some v" by auto
  with Cons repeat_cert_once [OF this, of i r] show ?case by (auto simp del: repeat_cert.simps)
qed simp

lemma visit_order_set: "set (visit_order o1 chain) = {0..<length chain}"
  by (simp add: visit_order_def)

lemma namespace_last:
  assumes "evaluable o1 chain ns" "chain \<noteq> []"
  shows "restriction_evaluate_namespace o1 chain ns =
    (let v = the (evaluate_cert o1 (chain ! last (visit_order o1 chain)) ns)
     in Some (if v = SUCCESS_UNDECIDED then SUCCESS_PERMIT else v))"
proof -
  have "visit_order o1 chain \<noteq> []" using assms(2) by (simp add: visit_order_def)
  moreover have "\<forall>i \<in> set (visit_order o1 chain). evaluate_cert o1 (chain ! i) ns \<noteq> None"
    using assms(1) by (auto simp: visit_order_set evaluable_def list_all_length)
  ultimately have "visit_chain o1 chain ns (visit_order o1 chain) 0 =
      Some (the (evaluate_cert o1 (chain ! last (visit_order o1 chain)) ns))"
    using visit_chain_last by presburger
  then show ?thesis
    by (simp add: restriction_evaluate_namespace_def Let_def)
qed

lemma namespace_never_undecided:
  "restriction_evaluate_namespace o1 chain ns \<noteq> Some SUCCESS_UNDECIDED"
  by (auto simp: restriction_evaluate_namespace_def verdict_defs split: option.splits)

text \<open>The certificate visited last: the root when the chain begins with it, else the last.\<close>

definition deciding_cert :: "ossl \<Rightarrow> x509 list \<Rightarrow> x509" where
  "deciding_cert o1 chain =
     (if length chain > 1 \<and> isselfsigned o1 (hd chain) then hd chain else last chain)"

lemma deciding_cert_last: "chain \<noteq> [] \<Longrightarrow> chain ! last (visit_order o1 chain) = deciding_cert o1 chain"
  by (auto simp: visit_order_def deciding_cert_def hd_conv_nth last_rev) (simp_all add: last_conv_nth)

text \<open>
  C22: the verdict of a chain. What restriction_evaluate returns is the verdict of one
  certificate against the namespaces, the one visited last, with undecided turned into permit.
  The verdicts of the other certificates are overwritten and the signing policies are never
  consulted.
\<close>

theorem restriction_evaluate_last_cert:
  assumes "evaluable o1 chain ns" and "chain \<noteq> []"
  shows "restriction_evaluate o1 chain ns sg =
    map_option (\<lambda>v. if v = SUCCESS_UNDECIDED then SUCCESS_PERMIT else v)
      (evaluate_cert o1 (deciding_cert o1 chain) ns)"
proof -
  have "deciding_cert o1 chain \<in> set chain" using assms(2) by (simp add: deciding_cert_def)
  then obtain v where v: "evaluate_cert o1 (deciding_cert o1 chain) ns = Some v"
    using assms(1) by (auto simp: evaluable_def list_all_iff)
  with namespace_last [OF assms] deciding_cert_last [OF assms(2), of o1] show ?thesis
    by (simp add: restriction_evaluate_def Let_def verdict_defs)
qed

text \<open>
  A chain that holds its self-signed root at an end is permitted, whatever the namespaces
  and signing policies say.
\<close>

theorem self_signed_root_permits:
  assumes "evaluable o1 chain ns" and "chain \<noteq> []"
    and "isselfsigned o1 (last chain)" and "\<not> isselfsigned o1 (hd chain) \<or> length chain = 1"
  shows "restriction_evaluate o1 chain ns sg = Some SUCCESS_PERMIT"
proof -
  have v: "visit_order o1 chain \<noteq> []" "chain ! last (visit_order o1 chain) = last chain"
    using assms(2,4) deciding_cert_last [OF assms(2), of o1]
    by (auto simp: visit_order_def deciding_cert_def hd_conv_nth)
  have "evaluate_cert o1 (last chain) ns = Some SUCCESS_PERMIT"
    using assms(3) by (simp add: evaluate_cert_def)
  with namespace_last [OF assms(1,2)] v show ?thesis
    by (simp add: restriction_evaluate_def verdict_defs)
qed

lemma sample_chain_evaluable:
  "evaluable sample_ossl [sample_cert [sample_cn ''ab''] [sample_cn ''ca''] [], sample_cert [sample_cn ''ca''] [sample_cn ''ca''] []] None"
  by (simp add: evaluable_def evaluate_cert_def evaluate_loop.simps find_policy_def Let_def)

lemma sample_selfsigned:
  "isselfsigned sample_ossl (sample_cert [sample_cn a] [sample_cn b] []) \<longleftrightarrow> a = b"
  by (simp add: isselfsigned_def sample_ossl_def sample_cert_def cmp_no_set_key sample_cn_def)

lemma restriction_evaluate_last_cert_witness:
  "restriction_evaluate sample_ossl
     [sample_cert [sample_cn ''ab''] [sample_cn ''ca''] [], sample_cert [sample_cn ''ca''] [sample_cn ''ca''] []]
     None (Some (block_of [simple_policy TYPE_SIGNING [simple_cond 0 [''/CN=ab'']]])) = Some SUCCESS_PERMIT"
  by (subst restriction_evaluate_last_cert [OF sample_chain_evaluable])
     (simp_all add: deciding_cert_def sample_selfsigned evaluate_cert_def verdict_defs)

lemma self_signed_root_permits_witness:
  "restriction_evaluate sample_ossl
     [sample_cert [sample_cn ''ab''] [sample_cn ''ca''] [], sample_cert [sample_cn ''ca''] [sample_cn ''ca''] []]
     None None = Some SUCCESS_PERMIT"
  by (rule self_signed_root_permits [OF sample_chain_evaluable]) (simp_all add: sample_selfsigned)

section \<open>The names of the policies read\<close>

definition rename :: "cstring \<Rightarrow> policy \<Rightarrow> policy" where
  "rename hash p = (if p_self p \<noteq> 0 then p\<lparr>p_caname := Some hash\<rparr> else p)"

lemma rename_self_from:
  "i \<le> length ps \<Longrightarrow>
   rename_self hash (map Some (map (rename hash) (take i ps) @ drop i ps) @ None # r) i =
   Some (map Some (map (rename hash) ps) @ None # r)"
proof (induction "length ps - i" arbitrary: i)
  case 0
  then show ?case by (subst rename_self.simps) (simp add: nth_append)
next
  case (Suc n)
  then have i: "i < length ps" by simp
  have IH: "rename_self hash (map Some (map (rename hash) (take (Suc i) ps) @ drop (Suc i) ps) @ None # r) (Suc i) =
      Some (map Some (map (rename hash) ps) @ None # r)" using Suc.hyps i by auto
  let ?v = "map Some (map (rename hash) (take i ps) @ drop i ps) @ None # r"
  have d: "drop i ps = ps ! i # drop (Suc i) ps" using i by (simp add: Cons_nth_drop_Suc)
  have at: "?v ! i = Some (ps ! i)" and len: "i < length ?v" using i by (simp_all add: d nth_append)
  have upd: "(if p_self (ps ! i) \<noteq> 0 then ?v[i := Some ((ps ! i)\<lparr>p_caname := Some hash\<rparr>)] else ?v) =
      map Some (map (rename hash) (take (Suc i) ps) @ drop (Suc i) ps) @ None # r"
    using i by (simp add: d list_update_append take_Suc_conv_app_nth rename_def)
  show ?case
    using at len upd IH by (subst rename_self.simps) simp
qed

lemma rename_policies_contents:
  assumes "terminated v"
  shows "\<exists>w. rename_policies hash v = Some w \<and> terminated w \<and> contents w = map (rename hash) (contents v)"
proof (cases v)
  case (Some u)
  with assms obtain ps r where u: "u = map Some ps @ None # r"
    by (auto simp: terminated_def elim: terminated_split)
  from rename_self_from [of 0 ps hash r] have "rename_self hash u 0 = Some (map Some (map (rename hash) ps) @ None # r)"
    by (simp add: u)
  with Some u show ?thesis
    using cells_contents_map [of "map (rename hash) ps" r]
    by (simp add: rename_policies_def terminated_def contents_def del: map_map)
qed (simp add: rename_policies_def terminated_def contents_def)

text \<open>A parser keeps the arrays terminated.\<close>

definition parsers_ok :: "policy_parsers \<Rightarrow> bool" where
  "parsers_ok pp \<longleftrightarrow> (\<forall>file ps. terminated ps \<longrightarrow>
     terminated (pp_signing pp file ps) \<and> terminated (pp_namespaces pp file ps))"

definition self_named :: "cstring \<Rightarrow> policy cells option \<Rightarrow> bool" where
  "self_named hash v \<longleftrightarrow> list_all (\<lambda>p. p_self p \<noteq> 0 \<longrightarrow> p_caname p = Some hash) (contents v)"

lemma rename_self_named: "contents w = map (rename hash) ps \<Longrightarrow> self_named hash w"
  by (auto simp: self_named_def list_all_iff rename_def)

lemma read_pathrestriction_step:
  assumes "parsers_ok pp" "terminated names" "terminated signs"
  shows "\<exists>ns sg. terminated ns \<and> terminated sg \<and> self_named (gethash o1 c) ns \<and> self_named (gethash o1 c) sg \<and>
     read_pathrestriction o1 pp fs (c # chain) path names signs = read_pathrestriction o1 pp fs chain path ns sg"
proof -
  let ?h = "gethash o1 c"
  define signs' where "signs' = (case open_from_dir fs path (''/'' @ take 8 ?h @ ''.signing_policy'') of
    None \<Rightarrow> signs | Some file \<Rightarrow> pp_signing pp file signs)"
  define names' where "names' = (case open_from_dir fs path (''/'' @ take 8 ?h @ ''.namespaces'') of
    None \<Rightarrow> names | Some file \<Rightarrow> pp_namespaces pp file names)"
  have "terminated signs'" "terminated names'"
    using assms by (auto simp: signs'_def names'_def parsers_ok_def split: option.splits)
  then obtain sg ns where
    "rename_policies ?h signs' = Some sg" "terminated sg" "self_named ?h sg"
    "rename_policies ?h names' = Some ns" "terminated ns" "self_named ?h ns"
    using rename_policies_contents rename_self_named by metis
  then show ?thesis
    by (auto simp: Let_def signs'_def [symmetric] names'_def [symmetric] simp del: append.simps)
qed

text \<open>
  Reading the policies of a chain never leaves an array, and afterwards every policy about
  a certificate's own subject, whichever file it came from, carries the hash of the last
  certificate of the chain.
\<close>

theorem read_pathrestriction_last_hash:
  assumes "parsers_ok pp" and "terminated names" and "terminated signs" and "chain \<noteq> []"
  shows "\<exists>ns sg. read_pathrestriction o1 pp fs chain path names signs = Some (ns, sg) \<and>
     terminated ns \<and> terminated sg \<and>
     self_named (gethash o1 (last chain)) ns \<and> self_named (gethash o1 (last chain)) sg"
  using assms
proof (induction chain arbitrary: names signs)
  case (Cons c chain)
  obtain ns sg where *: "terminated ns" "terminated sg" "self_named (gethash o1 c) ns" "self_named (gethash o1 c) sg"
    "read_pathrestriction o1 pp fs (c # chain) path names signs = read_pathrestriction o1 pp fs chain path ns sg"
    using read_pathrestriction_step [OF Cons.prems(1-3)] by blast
  show ?case
  proof (cases "chain = []")
    case True
    with * show ?thesis by simp
  next
    case False
    with Cons.IH [OF Cons.prems(1) *(1,2)] *(5) show ?thesis by simp
  qed
qed simp

definition sample_parsers :: policy_parsers where
  "sample_parsers =
     \<lparr>pp_signing = (\<lambda>_ v. v),
      pp_namespaces = (\<lambda>f v. the (listadd True v (Some \<lparr>p_caname = Some f, p_self = 1, p_type = 1, p_conds = None\<rparr>)))\<rparr>"

lemma read_pathrestriction_last_hash_witness:
  "\<exists>ns sg. read_pathrestriction sample_ossl sample_parsers (\<lambda>f. Some ''x'')
      [sample_cert [] [] [], sample_cert [sample_cn ''a''] [] []] ''/etc'' None None = Some (ns, sg) \<and>
    terminated ns \<and> terminated sg \<and> self_named ''00000001'' ns \<and> self_named ''00000001'' sg"
proof -
  have ok: "parsers_ok sample_parsers"
    unfolding parsers_ok_def sample_parsers_def policy_parsers.simps
    by (metis cl.add_good cl.add_total option.sel)
  have h: "gethash sample_ossl (sample_cert [sample_cn ''a''] [] []) = ''00000001''"
    by (simp add: gethash_def sample_ossl_def sample_cert_def hex8_def hexdigit_def)
  have t: "terminated None" by (simp add: terminated_def)
  show ?thesis
    using read_pathrestriction_last_hash [where ?o1.0 = sample_ossl and
        chain = "[sample_cert [] [] [], sample_cert [sample_cn ''a''] [] []]" and
        fs = "\<lambda>f. Some ''x''" and path = "''/etc''", OF ok t t]
    by (simp add: h del: read_pathrestriction.simps)
qed

end
