(* ===== verification/UtcTime.thy ===== *)
theory UtcTime
  imports X509Model "HOL-Library.Monad_Syntax"
begin

text \<open>
  The conversion of ASN.1 times to seconds since the epoch (\<open>ASN1_UTCTIME_mktime\<close> of
  src/src/sslutils/sslutils.c), in the build with \<open>timegm\<close>. Characters are signed, the
  data of the time is followed by a NUL, and reading past it is \<open>None\<close>.
\<close>

section \<open>The calendar of the C library\<close>

definition leap :: "int \<Rightarrow> bool" where
  "leap y \<longleftrightarrow> y mod 4 = 0 \<and> (y mod 100 \<noteq> 0 \<or> y mod 400 = 0)"

definition days_before_year :: "int \<Rightarrow> int" where
  "days_before_year y = 365 * (y - 1970) + (y - 1) div 4 - (y - 1) div 100 + (y - 1) div 400 - 477"

definition month_days :: "int \<Rightarrow> int list" where
  "month_days y = [31, if leap y then 29 else 28, 31, 30, 31, 30, 31, 31, 30, 31, 30, 31]"

definition days_before_month :: "int \<Rightarrow> nat \<Rightarrow> int" where
  "days_before_month y m = sum_list (take m (month_days y))"

text \<open>\<open>timegm\<close>: \<open>year\<close> counts from 1900, \<open>mon\<close> from 0; fields out of range carry over.\<close>

definition timegm :: "int \<Rightarrow> int \<Rightarrow> int \<Rightarrow> int \<Rightarrow> int \<Rightarrow> int \<Rightarrow> int" where
  "timegm year mon mday hour mi sec =
     (let y = 1900 + year + mon div 12
      in 86400 * (days_before_year y + days_before_month y (nat (mon mod 12)) + mday - 1)
         + 3600 * hour + 60 * mi + sec)"

section \<open>The code\<close>

definition schar :: "char \<Rightarrow> int" where
  "schar c = (let n = int (of_char c) in if n < 128 then n else n - 256)"

text \<open>\<open>c - '0'\<close>.\<close>

definition cdig :: "char \<Rightarrow> int" where
  "cdig c = schar c - 48"

text \<open>
  \<open>buff1\<close>: the date, the seconds (00 when the string has none), a \<open>Z\<close> and the NUL; with it the
  position in the string after them.
\<close>

definition time_buffer :: "asn1_time \<Rightarrow> (cstring \<times> nat) option" where
  "time_buffer ctm =
     (let str = at_data ctm;
          size = (if at_type ctm = V_ASN1_UTCTIME then 10
                  else if at_type ctm = V_ASN1_GENERALIZEDTIME then 12 else 0);
          p = take size (str @ [NUL])
      in do {
        c \<leftarrow> cget str size;
        if c = CHR ''Z'' \<or> c = CHR ''-'' \<or> c = CHR ''+''
        then Some (p @ ''00Z'' @ [NUL], size)
        else do {
          d \<leftarrow> cget str (size + 1);
          Some (p @ [c, d] @ ''Z'' @ [NUL], size + 2)
        }
      })"

text \<open>The offset, in minutes; the outer \<open>None\<close> is a read outside the string, the inner one \<open>return 0\<close>.\<close>

definition time_offset :: "cstring \<Rightarrow> nat \<Rightarrow> int option option" where
  "time_offset str k = do {
     s \<leftarrow> cget str k;
     if s = CHR ''Z'' then Some (Some 0)
     else do {
       bad \<leftarrow> (if s \<noteq> CHR ''+'' then map_option (\<lambda>c. c \<noteq> CHR ''-'') (cget str (k + 5)) else Some False);
       if bad then Some None
       else do {
         c1 \<leftarrow> cget str (k + 1); c2 \<leftarrow> cget str (k + 2);
         c3 \<leftarrow> cget str (k + 3); c4 \<leftarrow> cget str (k + 4);
         let offset = (cdig c1 * 10 + cdig c2) * 60 + (cdig c3 * 10 + cdig c4);
         Some (Some (if s = CHR ''-'' then - offset else offset))
       }
     }
   }"

text \<open>\<open>(buff1[i] - '0') * 10 + (buff1[i + 1] - '0')\<close>; bytes after the NUL were never written.\<close>

definition two :: "cstring \<Rightarrow> nat \<Rightarrow> int option" where
  "two b i = (if i + 1 < length b then Some (cdig (b ! i) * 10 + cdig (b ! (i + 1))) else None)"

definition tm_year_fix :: "int \<Rightarrow> int" where
  "tm_year_fix y0 =
     (let y1 = (if y0 < 70 then y0 + 100 else y0) in if y1 > 1900 then y1 - 1900 else y1)"

definition tm_fields :: "int \<Rightarrow> cstring \<Rightarrow> (int \<times> int \<times> int \<times> int \<times> int \<times> int) option" where
  "tm_fields type b = do {
     yi \<leftarrow> (if type = V_ASN1_UTCTIME then map_option (\<lambda>y. (y, 2)) (two b 0)
            else do { h \<leftarrow> two b 0; l \<leftarrow> two b 2; Some (h * 100 + l, 4) });
     let i = snd yi;
     mon \<leftarrow> two b i; mday \<leftarrow> two b (i + 2); hour \<leftarrow> two b (i + 4);
     mi \<leftarrow> two b (i + 6); sec \<leftarrow> two b (i + 8);
     Some (tm_year_fix (fst yi), mon - 1, mday, hour, mi, sec)
   }"

definition ASN1_UTCTIME_mktime :: "asn1_time \<Rightarrow> int option" where
  "ASN1_UTCTIME_mktime ctm =
     (let i = length (at_data ctm)
      in if i < 11 \<or> i > 17 then Some 0
         else do {
           bk \<leftarrow> time_buffer ctm;
           ofs \<leftarrow> time_offset (at_data ctm) (snd bk);
           (case ofs of
              None \<Rightarrow> Some 0
            | Some offset \<Rightarrow> do {
                f \<leftarrow> tm_fields (at_type ctm) (fst bk);
                (case f of (year, mon, mday, hour, mi, sec) \<Rightarrow>
                   Some (timegm year mon mday hour mi sec + offset * 60 * 60))
              })
         })"

definition ASN1_TIME_mktime :: "asn1_time \<Rightarrow> int option" where
  "ASN1_TIME_mktime ctm = ASN1_UTCTIME_mktime ctm"

section \<open>Printed times\<close>

definition dig :: "nat \<Rightarrow> char" where
  "dig n = char_of (48 + n)"

definition dig2 :: "nat \<Rightarrow> cstring" where
  "dig2 n = [dig (n div 10), dig (n mod 10)]"

text \<open>The text of a UTCTime up to the minutes.\<close>

definition utc_text :: "nat \<Rightarrow> nat \<Rightarrow> nat \<Rightarrow> nat \<Rightarrow> nat \<Rightarrow> cstring" where
  "utc_text yy mon mday hour mi = dig2 yy @ dig2 mon @ dig2 mday @ dig2 hour @ dig2 mi"

definition gen_text :: "nat \<Rightarrow> nat \<Rightarrow> nat \<Rightarrow> nat \<Rightarrow> nat \<Rightarrow> cstring" where
  "gen_text year mon mday hour mi = dig2 (year div 100) @ dig2 (year mod 100) @ dig2 mon @ dig2 mday @ dig2 hour @ dig2 mi"

lemma cdig_dig: "n < 10 \<Longrightarrow> cdig (dig n) = int n"
  by (simp add: cdig_def dig_def schar_def Let_def)

lemma of_char_dig: "n < 10 \<Longrightarrow> (of_char (dig n) :: nat) = 48 + n"
  by (simp add: dig_def)

lemma dig_digit: "n < 10 \<Longrightarrow> dig n \<noteq> CHR ''Z'' \<and> dig n \<noteq> CHR ''+'' \<and> dig n \<noteq> CHR ''-''"
proof -
  assume n: "n < 10"
  have "dig n \<noteq> c" if "(of_char c :: nat) < 48 \<or> 57 < (of_char c :: nat)" for c
    using of_char_dig [OF n] that n by auto
  from this [of "CHR ''Z''"] this [of "CHR ''+''"] this [of "CHR ''-''"] show ?thesis by simp
qed

section \<open>What the code computes\<close>

text \<open>Two printed digits read back.\<close>

lemma cdig_pair: "n < 100 \<Longrightarrow> cdig (dig (n div 10)) * 10 + cdig (dig (n mod 10)) = int n"
proof -
  assume "n < 100"
  then have "n div 10 < 10" "n mod 10 < 10" by simp_all
  then have "cdig (dig (n div 10)) * 10 + cdig (dig (n mod 10)) = int (n div 10) * 10 + int (n mod 10)"
    by (simp add: cdig_dig)
  also have "\<dots> = int n" by (metis div_mult_mod_eq of_nat_add of_nat_mult of_nat_numeral)
  finally show ?thesis .
qed

lemma fields_of_text:
  assumes "yy < 100" "mon < 100" "mday < 100" "hour < 100" "mi < 100" "sec < 100"
  shows "tm_fields V_ASN1_UTCTIME (utc_text yy mon mday hour mi @ dig2 sec @ r) =
     Some (tm_year_fix (int yy), int mon - 1, int mday, int hour, int mi, int sec)"
  using assms by (simp add: tm_fields_def two_def utc_text_def dig2_def cdig_pair)

lemma fields_of_gen:
  assumes "year < 10000" "mon < 100" "mday < 100" "hour < 100" "mi < 100" "sec < 100"
  shows "tm_fields V_ASN1_GENERALIZEDTIME (gen_text year mon mday hour mi @ dig2 sec @ r) =
     Some (tm_year_fix (int year), int mon - 1, int mday, int hour, int mi, int sec)"
proof -
  have "year div 100 < 100" "year mod 100 < 100" using assms(1) by auto
  moreover have "int (year div 100) * 100 + int (year mod 100) = int year"
    by (metis div_mult_mod_eq of_nat_add of_nat_mult of_nat_numeral)
  ultimately show ?thesis
    using assms
    by (simp add: tm_fields_def two_def gen_text_def dig2_def cdig_pair V_ASN1_UTCTIME_def V_ASN1_GENERALIZEDTIME_def)
qed

lemma dig2_simps [simp]: "length (dig2 n) = 2" "dig2 n \<noteq> []"
  by (simp_all add: dig2_def)

lemma text_length [simp]: "length (utc_text yy mon mday hour mi) = 10" "length (gen_text y mon mday hour mi) = 12"
  by (simp_all add: utc_text_def gen_text_def)

lemma buffer_seconds:
  assumes "length t = k" "k = (if ty = V_ASN1_UTCTIME then 10 else 12)"
    "ty \<in> {V_ASN1_UTCTIME, V_ASN1_GENERALIZEDTIME}" "sec < 100"
  shows "time_buffer \<lparr>at_type = ty, at_data = t @ dig2 sec @ z\<rparr> =
     Some (t @ dig2 sec @ ''Z'' @ [NUL], k + 2)"
proof -
  have "sec div 10 < 10" using assms(4) by auto
  from dig_digit [OF this] assms show ?thesis
    by (auto simp: time_buffer_def cget_def dig2_def nth_append V_ASN1_UTCTIME_def V_ASN1_GENERALIZEDTIME_def)
qed

lemma dig_0: "dig 0 = CHR ''0''"
proof -
  have "(of_char (CHR ''0'') :: nat) = 48" by simp
  then show ?thesis unfolding dig_def by (metis add.right_neutral char_of_char)
qed

lemma buffer_no_seconds:
  assumes "length t = k" "k = (if ty = V_ASN1_UTCTIME then 10 else 12)"
    "ty \<in> {V_ASN1_UTCTIME, V_ASN1_GENERALIZEDTIME}" "c = CHR ''Z'' \<or> c = CHR ''+'' \<or> c = CHR ''-''"
  shows "time_buffer \<lparr>at_type = ty, at_data = t @ c # z\<rparr> =
     Some (t @ dig2 0 @ ''Z'' @ [NUL], k)"
  using assms
  by (auto simp: time_buffer_def cget_def dig2_def nth_append V_ASN1_UTCTIME_def V_ASN1_GENERALIZEDTIME_def dig_0)

lemma offset_Z: "k < length s \<Longrightarrow> s ! k = CHR ''Z'' \<Longrightarrow> time_offset s k = Some (Some 0)"
  by (simp add: time_offset_def cget_def)

lemma offset_plus:
  assumes "hh < 100" "mm < 100"
  shows "time_offset (s @ ''+'' @ dig2 hh @ dig2 mm) (length s) = Some (Some (int hh * 60 + int mm))"
  using assms by (simp add: time_offset_def cget_def nth_append dig2_def cdig_pair Let_def del: distrib_right_numeral)

lemma offset_minus:
  "time_offset (s @ ''-'' @ dig2 hh @ dig2 mm) (length s) = Some None"
  by (simp add: time_offset_def cget_def nth_append dig2_def NUL_def)

section \<open>Results\<close>

lemma year_utc: "y < 100 \<Longrightarrow> tm_year_fix (int y) = (if y < 70 then int y + 100 else int y)"
  by (simp add: tm_year_fix_def Let_def)

lemma year_gen: "y \<in> {1970..9999} \<Longrightarrow> tm_year_fix (int y) = int y - 1900"
  by (simp add: tm_year_fix_def Let_def)

lemma types_differ: "V_ASN1_UTCTIME \<noteq> V_ASN1_GENERALIZEDTIME"
  by (simp add: V_ASN1_UTCTIME_def V_ASN1_GENERALIZEDTIME_def)

lemma mktime_zulu:
  assumes "ty = V_ASN1_UTCTIME \<and> t = utc_text y mon mday hour mi \<and> y < 100 \<or>
           ty = V_ASN1_GENERALIZEDTIME \<and> t = gen_text y mon mday hour mi \<and> y < 10000"
    and "mon < 100" "mday < 100" "hour < 100" "mi < 100" "sec < 100"
  shows "ASN1_UTCTIME_mktime \<lparr>at_type = ty, at_data = t @ dig2 sec @ ''Z''\<rparr> =
     Some (timegm (tm_year_fix (int y)) (int mon - 1) (int mday) (int hour) (int mi) (int sec))"
proof -
  have ty: "ty \<in> {V_ASN1_UTCTIME, V_ASN1_GENERALIZEDTIME}" using assms(1) by auto
  have len: "length t = (if ty = V_ASN1_UTCTIME then 10 else 12)"
    using assms(1) by (auto simp: V_ASN1_UTCTIME_def V_ASN1_GENERALIZEDTIME_def)
  have off: "time_offset (t @ dig2 sec @ ''Z'') (length t + 2) = Some (Some 0)"
    by (rule offset_Z) (simp_all add: nth_append)
  have "tm_fields ty (t @ dig2 sec @ ''Z'' @ [NUL]) =
      Some (tm_year_fix (int y), int mon - 1, int mday, int hour, int mi, int sec)"
    using assms(1) fields_of_text [of y mon mday hour mi sec] fields_of_gen [of y mon mday hour mi sec] assms(2-)
    by auto
  with buffer_seconds [OF refl len ty assms(6), of "''Z''"] off len show ?thesis
    by (auto simp: ASN1_UTCTIME_mktime_def Let_def)
qed

text \<open>
  C24: dates. A UTCTime or GeneralizedTime in UTC with two-digit fields converts to the
  seconds timegm counts for these fields; in a UTCTime the years below 70 are 2000 and later.
\<close>

theorem mktime_utc_correct:
  assumes "ty = V_ASN1_UTCTIME \<and> t = utc_text y mon mday hour mi \<and> y < 100 \<or>
           ty = V_ASN1_GENERALIZEDTIME \<and> t = gen_text y mon mday hour mi \<and> y \<in> {1970..9999}"
    and "mon < 100" "mday < 100" "hour < 100" "mi < 100" "sec < 100"
  shows "ASN1_UTCTIME_mktime \<lparr>at_type = ty, at_data = t @ dig2 sec @ ''Z''\<rparr> =
     Some (timegm (if ty = V_ASN1_GENERALIZEDTIME then int y - 1900 else if y < 70 then int y + 100 else int y)
             (int mon - 1) (int mday) (int hour) (int mi) (int sec))"
proof -
  note z = mktime_zulu [of ty t y mon mday hour mi sec, OF _ assms(2-6)]
  from assms(1) show ?thesis
  proof (elim disjE conjE)
    assume "ty = V_ASN1_UTCTIME" "t = utc_text y mon mday hour mi" "y < 100"
    with z show ?thesis using year_utc [of y] types_differ by simp
  next
    assume "ty = V_ASN1_GENERALIZEDTIME" "t = gen_text y mon mday hour mi" and y: "y \<in> {1970..9999}"
    with z show ?thesis using year_gen [OF y] types_differ by simp
  qed
qed

lemma mktime_utc_correct_witness:
  "ASN1_UTCTIME_mktime \<lparr>at_type = V_ASN1_UTCTIME, at_data = utc_text 9 2 13 23 31 @ dig2 30 @ ''Z''\<rparr> =
     Some 1234567890"
  by (subst mktime_utc_correct [where y = 9 and mon = 2 and mday = 13 and hour = 23 and mi = 31])
     (simp_all add: timegm_def days_before_year_def days_before_month_def month_days_def
       V_ASN1_UTCTIME_def V_ASN1_GENERALIZEDTIME_def Let_def)

text \<open>
  Offsets. An offset of +hhmm moves the result by 3600 seconds for each of its minutes,
  sixty times too far, and later instead of earlier; a time with a negative offset and seconds
  converts to 0, the beginning of 1970.
\<close>

theorem mktime_offset:
  assumes "t = utc_text y mon mday hour mi" "y < 100" "mon < 100" "mday < 100" "hour < 100" "mi < 100"
    and "sec < 100" "hh < 100" "mm < 100"
  shows "(ASN1_UTCTIME_mktime \<lparr>at_type = V_ASN1_UTCTIME, at_data = t @ dig2 sec @ ''+'' @ dig2 hh @ dig2 mm\<rparr> =
      map_option (\<lambda>z. z + 3600 * (60 * int hh + int mm))
        (ASN1_UTCTIME_mktime \<lparr>at_type = V_ASN1_UTCTIME, at_data = t @ dig2 sec @ ''Z''\<rparr>)) \<and>
    ASN1_UTCTIME_mktime \<lparr>at_type = V_ASN1_UTCTIME, at_data = t @ dig2 sec @ ''-'' @ dig2 hh @ dig2 mm\<rparr> = Some 0"
proof -
  have ty: "V_ASN1_UTCTIME \<in> {V_ASN1_UTCTIME, V_ASN1_GENERALIZEDTIME}" by simp
  have len: "length t = (if V_ASN1_UTCTIME = V_ASN1_UTCTIME then 10 else 12)" using assms(1) by simp
  note buf = buffer_seconds [OF refl len ty assms(7)]
  have "time_offset (t @ dig2 sec @ ''+'' @ dig2 hh @ dig2 mm) (length t + 2) = Some (Some (int hh * 60 + int mm))"
    "time_offset (t @ dig2 sec @ ''-'' @ dig2 hh @ dig2 mm) (length t + 2) = Some None"
    using offset_plus [OF assms(8,9), of "t @ dig2 sec"] offset_minus [of "t @ dig2 sec" hh mm] by simp_all
  moreover have "tm_fields V_ASN1_UTCTIME (t @ dig2 sec @ ''Z'' @ [NUL]) =
      Some (tm_year_fix (int y), int mon - 1, int mday, int hour, int mi, int sec)"
    using fields_of_text [of y mon mday hour mi sec] assms by auto
  ultimately show ?thesis
    using mktime_zulu [of V_ASN1_UTCTIME t y mon mday hour mi sec] assms len
      buf [of "''+'' @ dig2 hh @ dig2 mm"] buf [of "''-'' @ dig2 hh @ dig2 mm"]
    by (simp add: ASN1_UTCTIME_mktime_def Let_def algebra_simps)
qed

lemma mktime_offset_witness:
  "ASN1_UTCTIME_mktime \<lparr>at_type = V_ASN1_UTCTIME, at_data = utc_text 9 2 13 23 31 @ dig2 30 @ ''+'' @ dig2 1 @ dig2 0\<rparr> =
     Some (1234567890 + 216000)"
proof -
  have "ASN1_UTCTIME_mktime \<lparr>at_type = V_ASN1_UTCTIME, at_data = utc_text 9 2 13 23 31 @ dig2 30 @ ''Z''\<rparr> =
     Some 1234567890"
    by (subst mktime_zulu [where y = 9 and mon = 2 and mday = 13 and hour = 23 and mi = 31])
       (simp_all add: timegm_def days_before_year_def days_before_month_def month_days_def tm_year_fix_def
         V_ASN1_UTCTIME_def V_ASN1_GENERALIZEDTIME_def Let_def)
  then show ?thesis
    using mktime_offset [OF refl, of 9 2 13 23 31 30 1 0] by simp
qed

section \<open>The calendar is monotone\<close>

lemma div_step:
  assumes "(0::int) < k" 
  shows "y div k = (y - 1) div k + (if y mod k = 0 then 1 else 0)"
proof -
  define q r where "q = (y - 1) div k" and "r = (y - 1) mod k"
  have y: "y = (r + 1) + k * q" unfolding q_def r_def by (simp add: mod_div_decomp)
  have r: "0 \<le> r" "r < k" using assms by (simp_all add: r_def)
  show ?thesis
  proof (cases "r + 1 = k")
    case True
    then have "y = k * (q + 1)" using y by (simp add: algebra_simps)
    then have "y div k = q + 1" "y mod k = 0" using assms by simp_all
    then show ?thesis by (simp add: q_def)
  next
    case False
    then have "y div k = q" "y mod k = r + 1" using r assms unfolding y by simp_all
    then show ?thesis using r by (simp add: q_def)
  qed
qed

lemma days_before_year_step: "days_before_year (y + 1) = days_before_year y + (if leap y then 366 else 365)"
proof -
  have split: "(R \<Longrightarrow> Q) \<Longrightarrow> (Q \<Longrightarrow> P) \<Longrightarrow> (if P \<and> (\<not> Q \<or> R) then 366 else 365) =
      365 + (if P then 1 else 0) - (if Q then 1 else 0) + (if R then 1 else (0::int))" for P Q R
    by (cases P; cases Q; cases R) simp_all
  have "(100::int) dvd 400" "(4::int) dvd 100" by simp_all
  from mod_mod_cancel [OF this(1), of y] mod_mod_cancel [OF this(2), of y]
  have "y mod 400 = 0 \<Longrightarrow> y mod 100 = 0" "y mod 100 = 0 \<Longrightarrow> y mod 4 = 0"
    by (metis mod_0)+
  from split [OF this] have eq: "(if leap y then 366 else 365) = 365 + (if y mod 4 = 0 then 1 else 0) - (if y mod 100 = 0 then 1 else 0)
       + (if y mod 400 = 0 then 1 else (0::int))"
    unfolding leap_def by simp
  have arith: "e = 365 + i - j + k \<Longrightarrow> a = a' + i \<Longrightarrow> b = b' + j \<Longrightarrow> c = c' + k \<Longrightarrow>
      365 * (y + 1 - 1970) + a - b + c - 477 = 365 * (y - 1970) + a' - b' + c' - 477 + e"
    for a a' b b' c c' i j k e :: int by (simp add: algebra_simps)
  show ?thesis
    unfolding days_before_year_def add_diff_cancel_right'
    by (rule arith [OF eq div_step div_step div_step]; rule zero_less_numeral)
qed

definition day_number :: "int \<Rightarrow> nat \<Rightarrow> int \<Rightarrow> int" where
  "day_number y m d = days_before_year y + days_before_month y m + d"

definition valid_day :: "int \<Rightarrow> nat \<Rightarrow> int \<Rightarrow> bool" where
  "valid_day y m d \<longleftrightarrow> m < 12 \<and> 1 \<le> d \<and> d \<le> month_days y ! m"

lemma month_days_length [simp]: "length (month_days y) = 12"
  by (simp add: month_days_def)

lemma month_days_nonneg: "m < 12 \<Longrightarrow> 0 \<le> month_days y ! m"
  by (auto simp: month_days_def nth_Cons split: nat.splits)

lemma days_before_month_Suc: "m < 12 \<Longrightarrow> days_before_month y (Suc m) = days_before_month y m + month_days y ! m"
  by (simp add: days_before_month_def take_Suc_conv_app_nth)

lemma days_before_month_mono: "m \<le> n \<Longrightarrow> n \<le> 12 \<Longrightarrow> days_before_month y m \<le> days_before_month y n"
proof (induction n rule: dec_induct)
  case (step n)
  then show ?case using days_before_month_Suc [of n y] month_days_nonneg [of n y] by simp
qed simp

lemma days_before_month_12: "days_before_month y 12 = (if leap y then 366 else 365)"
  by (simp add: days_before_month_def month_days_def)

lemma days_before_month_0 [simp]: "days_before_month y 0 = 0"
  by (simp add: days_before_month_def)

lemma days_before_year_mono: "y \<le> z \<Longrightarrow> days_before_year y \<le> days_before_year z"
proof (induction z rule: int_ge_induct)
  case (step i)
  then show ?case using days_before_year_step [of i] by (auto split: if_splits)
qed simp

lemma day_number_mono:
  assumes "valid_day y m d" "valid_day y' m' d'" "y < y' \<or> y = y' \<and> (m < m' \<or> m = m' \<and> d < d')"
  shows "day_number y m d < day_number y' m' d'"
proof -
  have end_of_month: "days_before_month y m + d \<le> days_before_month y (Suc m)"
    using assms(1) by (simp add: valid_day_def days_before_month_Suc)
  have d': "1 \<le> d'" "m' < 12" "m < 12" using assms(1,2) by (simp_all add: valid_day_def)
  from assms(3) consider "y < y'" | "y = y'" "m < m'" | "y = y'" "m = m'" "d < d'" by blast
  then show ?thesis
  proof cases
    case 1
    have "days_before_month y (Suc m) \<le> days_before_month y 12"
      by (rule days_before_month_mono) (use d' in auto)
    then have "day_number y m d \<le> days_before_year (y + 1)"
      using end_of_month by (simp add: day_number_def days_before_year_step days_before_month_12)
    also have "\<dots> \<le> days_before_year y'" using 1 by (intro days_before_year_mono) simp
    also have "\<dots> < day_number y' m' d'"
      using days_before_month_mono [of 0 m' y'] d' by (simp add: day_number_def)
    finally show ?thesis .
  next
    case 2
    have "days_before_month y (Suc m) \<le> days_before_month y m'"
      by (rule days_before_month_mono) (use 2 d' in auto)
    then show ?thesis using end_of_month d' 2 by (simp add: day_number_def)
  qed (simp add: day_number_def)
qed
text \<open>A date and time of day that exist; \<open>lex_before\<close> compares two of them field by field.\<close>

type_synonym moment = "int \<times> nat \<times> int \<times> int \<times> int \<times> int"

fun valid_moment :: "moment \<Rightarrow> bool" where
  "valid_moment (y, m, d, h, mi, s) \<longleftrightarrow>
     valid_day y m d \<and> 0 \<le> h \<and> h < 24 \<and> 0 \<le> mi \<and> mi < 60 \<and> 0 \<le> s \<and> s < 60"

fun lex_before :: "moment \<Rightarrow> moment \<Rightarrow> bool" where
  "lex_before (y, m, d, h, mi, s) (y', m', d', h', mi', s') \<longleftrightarrow>
     y < y' \<or> y = y' \<and> (m < m' \<or> m = m' \<and> (d < d' \<or> d = d' \<and>
       (h < h' \<or> h = h' \<and> (mi < mi' \<or> mi = mi' \<and> s < s'))))"

fun moment_seconds :: "moment \<Rightarrow> int" where
  "moment_seconds (y, m, d, h, mi, s) = timegm (y - 1900) (int m) d h mi s"

lemma moment_seconds_day:
  "m < 12 \<Longrightarrow> moment_seconds (y, m, d, h, mi, s) = 86400 * (day_number y m d - 1) + 3600 * h + 60 * mi + s"
  by (simp add: timegm_def day_number_def Let_def)

lemma moment_seconds_mono:
  assumes "valid_moment a" and "valid_moment b" and "lex_before a b"
  shows "moment_seconds a < moment_seconds b"
proof -
  obtain y m d h mi s y' m' d' h' mi' s' where
    a: "a = (y, m, d, h, mi, s)" and b: "b = (y', m', d', h', mi', s')" by (cases a, cases b) blast
  have "m < 12" "m' < 12" using assms a b by (simp_all add: valid_day_def)
  note sec = moment_seconds_day [OF this(1)] moment_seconds_day [OF this(2)]
  show ?thesis
  proof (cases "y = y' \<and> m = m' \<and> d = d'")
    case True
    with assms a b show ?thesis unfolding a b sec by auto
  next
    case False
    have "day_number y m d < day_number y' m' d'"
      by (rule day_number_mono) (use assms a b False in auto)
    with assms a b show ?thesis unfolding a b sec by auto
  qed
qed

text \<open>The GeneralizedTime that prints a moment.\<close>

fun gen_time :: "moment \<Rightarrow> asn1_time" where
  "gen_time (y, m, d, h, mi, s) =
     \<lparr>at_type = V_ASN1_GENERALIZEDTIME,
      at_data = gen_text (nat y) (Suc m) (nat d) (nat h) (nat mi) @ dig2 (nat s) @ ''Z''\<rparr>"

lemma mktime_moment:
  assumes "valid_moment a" "fst a \<in> {1970..9999}"
  shows "ASN1_UTCTIME_mktime (gen_time a) = Some (moment_seconds a)"
proof -
  obtain y m d h mi s where a: "a = (y, m, d, h, mi, s)" by (cases a) blast
  have md: "month_days y ! m \<le> 31" if "m < 12" for m
    using that by (auto simp: month_days_def nth_Cons split: nat.splits)
  from assms a have v: "m < 12" "1 \<le> d" "d \<le> 31" "0 \<le> h" "h < 24" "0 \<le> mi" "mi < 60" "0 \<le> s" "s < 60"
      "1970 \<le> y" "y \<le> 9999"
    using md [of m] by (auto simp: valid_day_def)
  have "ASN1_UTCTIME_mktime (gen_time a) =
    Some (timegm (tm_year_fix (int (nat y))) (int (Suc m) - 1) (int (nat d)) (int (nat h)) (int (nat mi)) (int (nat s)))"
    unfolding a gen_time.simps by (rule mktime_zulu) (use v in auto)
  also have "tm_year_fix (int (nat y)) = y - 1900" using v by (simp add: tm_year_fix_def Let_def)
  finally show ?thesis using v a by simp
qed

text \<open>
  The conversion keeps the order of time. Of two existing dates and times of day, the
  earlier one, compared field by field, converts to the smaller number of seconds, across
  months of every length, leap days and centuries.
\<close>

theorem mktime_order:
  assumes "valid_moment a" "valid_moment b" "fst a \<in> {1970..9999}" "fst b \<in> {1970..9999}" "lex_before a b"
  shows "\<exists>s t. ASN1_UTCTIME_mktime (gen_time a) = Some s \<and> ASN1_UTCTIME_mktime (gen_time b) = Some t \<and> s < t"
  using mktime_moment [OF assms(1,3)] mktime_moment [OF assms(2,4)] moment_seconds_mono [OF assms(1,2,5)] by blast

lemma mktime_order_witness:
  "\<exists>s t. ASN1_UTCTIME_mktime (gen_time (2000, 1, 29, 23, 59, 59)) = Some s \<and>
         ASN1_UTCTIME_mktime (gen_time (2000, 2, 1, 0, 0, 0)) = Some t \<and> s < t"
  by (rule mktime_order) (simp_all add: valid_day_def month_days_def leap_def)

end
