(* ===== verification/Verify.thy ===== *)
theory Verify
  imports Policy UtcTime
begin

text \<open>
  The verification of certificate chains (src/src/sslutils/sslutils.c): the callback that
  OpenSSL's verification calls for each certificate, with its state (the descriptors
  \<open>proxy_verify_desc\<close> and \<open>proxy_verify_ctx_desc\<close> of src/src/include/sslutils.h, the context of
  the verification and the error queue), and the set-up of a verification.

  Certificates are addressed, because the callback compares pointers and the proxy checks
  write flags into them. What OpenSSL, the file system and the revocation lists answer is the
  record \<open>venv\<close>. The callback is cut into the stages of its source; a stage ends with a jump to
  \<open>fail_verify\<close>, with \<open>Next\<close>, or with undefined behaviour. The depths, an \<open>int\<close> in the source that
  grows by one for a certificate, are unbounded here; entries OpenSSL itself queues are not kept.
\<close>

section \<open>State\<close>

type_synonym addr = nat

record pvxd_desc =
  px_magicnum :: int
  px_certdir :: "cstring option"
  px_goodtill :: int

record pvd_desc =
  pv_magicnum :: int
  pv_flags :: int
  pv_pvxd :: "pvxd_desc option"
  pv_recursive_depth :: int
  pv_proxy_depth :: int
  pv_cert_depth :: int
  pv_limited_proxy :: int
  pv_cert_chain :: "addr list option"
  pv_multiple_limited_proxy_ok :: int

definition PVD_MAGIC_NUMBER :: int where "PVD_MAGIC_NUMBER = 22222"
definition PVXD_MAGIC_NUMBER :: int where "PVXD_MAGIC_NUMBER = 33333"

text \<open>An entry of the error queue; the newest entry is first.\<close>

record err_entry =
  e_func :: int
  e_reason :: int
  e_data :: cstring
  e_continue :: bool

record crl =
  crl_nextUpdate :: asn1_time
  crl_revoked :: "int list"

record venv =
  ve_ossl :: ossl
  ve_parsers :: policy_parsers
  ve_fs :: "cstring \<Rightarrow> cstring option"
  ve_cert_dir :: "cstring option"
  ve_crl :: "xname \<Rightarrow> crl option"
  ve_crl_verify :: "crl \<Rightarrow> pkey option \<Rightarrow> int"
  ve_cmp_now :: "asn1_time \<Rightarrow> int"
  ve_x509_cmp :: "x509 \<Rightarrow> x509 \<Rightarrow> int"
  ve_error_string :: "int \<Rightarrow> cstring"

record vstate =
  v_heap :: "addr \<Rightarrow> x509"
  v_error :: int
  v_error_depth :: int
  v_cert :: addr
  v_current_cert :: "addr option"
  v_current_issuer :: "addr option"
  v_chain :: "addr list"
  v_pvd :: "pvd_desc option"
  v_errs :: "err_entry list"

section \<open>Constants\<close>

definition X509_V_ERR_UNABLE_TO_GET_ISSUER_CERT :: int where "X509_V_ERR_UNABLE_TO_GET_ISSUER_CERT = 2"
definition X509_V_ERR_CERT_SIGNATURE_FAILURE :: int where "X509_V_ERR_CERT_SIGNATURE_FAILURE = 7"
definition X509_V_ERR_CRL_SIGNATURE_FAILURE :: int where "X509_V_ERR_CRL_SIGNATURE_FAILURE = 8"
definition X509_V_ERR_CERT_NOT_YET_VALID :: int where "X509_V_ERR_CERT_NOT_YET_VALID = 9"
definition X509_V_ERR_CERT_HAS_EXPIRED :: int where "X509_V_ERR_CERT_HAS_EXPIRED = 10"
definition X509_V_ERR_CRL_HAS_EXPIRED :: int where "X509_V_ERR_CRL_HAS_EXPIRED = 12"
definition X509_V_ERR_ERROR_IN_CRL_NEXT_UPDATE_FIELD :: int where
  "X509_V_ERR_ERROR_IN_CRL_NEXT_UPDATE_FIELD = 16"
definition X509_V_ERR_SELF_SIGNED_CERT_IN_CHAIN :: int where "X509_V_ERR_SELF_SIGNED_CERT_IN_CHAIN = 19"
definition X509_V_ERR_UNABLE_TO_GET_ISSUER_CERT_LOCALLY :: int where
  "X509_V_ERR_UNABLE_TO_GET_ISSUER_CERT_LOCALLY = 20"
definition X509_V_ERR_UNABLE_TO_VERIFY_LEAF_SIGNATURE :: int where
  "X509_V_ERR_UNABLE_TO_VERIFY_LEAF_SIGNATURE = 21"
definition X509_V_ERR_CERT_REVOKED :: int where "X509_V_ERR_CERT_REVOKED = 23"
definition X509_V_ERR_INVALID_CA :: int where "X509_V_ERR_INVALID_CA = 24"
definition X509_V_ERR_PATH_LENGTH_EXCEEDED :: int where "X509_V_ERR_PATH_LENGTH_EXCEEDED = 25"
definition X509_V_ERR_INVALID_PURPOSE :: int where "X509_V_ERR_INVALID_PURPOSE = 26"
definition X509_V_ERR_CERT_UNTRUSTED :: int where "X509_V_ERR_CERT_UNTRUSTED = 27"
definition X509_V_ERR_CERT_REJECTED :: int where "X509_V_ERR_CERT_REJECTED = 28"
definition X509_V_ERR_UNHANDLED_CRITICAL_EXTENSION :: int where
  "X509_V_ERR_UNHANDLED_CRITICAL_EXTENSION = 34"
definition X509_V_ERR_PROXY_CERTIFICATES_NOT_ALLOWED :: int where
  "X509_V_ERR_PROXY_CERTIFICATES_NOT_ALLOWED = 40"
definition X509_V_ERR_APPLICATION_VERIFICATION :: int where "X509_V_ERR_APPLICATION_VERIFICATION = 50"

lemmas verr_defs =
  X509_V_OK_def X509_V_ERR_UNABLE_TO_GET_ISSUER_CERT_def X509_V_ERR_CERT_SIGNATURE_FAILURE_def
  X509_V_ERR_CRL_SIGNATURE_FAILURE_def X509_V_ERR_CERT_NOT_YET_VALID_def X509_V_ERR_CERT_HAS_EXPIRED_def
  X509_V_ERR_CRL_HAS_EXPIRED_def X509_V_ERR_ERROR_IN_CRL_NEXT_UPDATE_FIELD_def
  X509_V_ERR_SELF_SIGNED_CERT_IN_CHAIN_def X509_V_ERR_UNABLE_TO_GET_ISSUER_CERT_LOCALLY_def
  X509_V_ERR_UNABLE_TO_VERIFY_LEAF_SIGNATURE_def X509_V_ERR_CERT_REVOKED_def X509_V_ERR_INVALID_CA_def
  X509_V_ERR_PATH_LENGTH_EXCEEDED_def X509_V_ERR_INVALID_PURPOSE_def X509_V_ERR_CERT_UNTRUSTED_def
  X509_V_ERR_CERT_REJECTED_def X509_V_ERR_UNHANDLED_CRITICAL_EXTENSION_def
  X509_V_ERR_PROXY_CERTIFICATES_NOT_ALLOWED_def X509_V_ERR_APPLICATION_VERIFICATION_def

text \<open>The function and reason codes of the error queue (src/src/include/sslutils.h).\<close>

definition PRXYERR_F_VERIFY_CB :: int where "PRXYERR_F_VERIFY_CB = 102"
definition PRXYERR_R_BAD_PROXY_ISSUER :: int where "PRXYERR_R_BAD_PROXY_ISSUER = 1010"
definition PRXYERR_R_CRL_SIGNATURE_FAILURE :: int where "PRXYERR_R_CRL_SIGNATURE_FAILURE = 1027"
definition PRXYERR_R_CRL_NEXT_UPDATE_FIELD :: int where "PRXYERR_R_CRL_NEXT_UPDATE_FIELD = 1028"
definition PRXYERR_R_CRL_HAS_EXPIRED :: int where "PRXYERR_R_CRL_HAS_EXPIRED = 1029"
definition PRXYERR_R_CERT_REVOKED :: int where "PRXYERR_R_CERT_REVOKED = 1030"
definition PRXYERR_R_LPROXY_MISSED_USED :: int where "PRXYERR_R_LPROXY_MISSED_USED = 1032"
definition PRXYERR_R_CA_POLICY_VIOLATION :: int where "PRXYERR_R_CA_POLICY_VIOLATION = 1036"
definition PRXYERR_R_CB_CALLED_WITH_ERROR :: int where "PRXYERR_R_CB_CALLED_WITH_ERROR = 1041"
definition PRXYERR_R_CB_ERROR_MSG :: int where "PRXYERR_R_CB_ERROR_MSG = 1042"
definition PRXYERR_R_CA_UNKNOWN :: int where "PRXYERR_R_CA_UNKNOWN = 1052"
definition PRXYERR_R_CERT_NOT_YET_VALID :: int where "PRXYERR_R_CERT_NOT_YET_VALID = 1057"
definition PRXYERR_R_LOCAL_CA_UNKNOWN :: int where "PRXYERR_R_LOCAL_CA_UNKNOWN = 1058"
definition PRXYERR_R_REMOTE_CRED_EXPIRED :: int where "PRXYERR_R_REMOTE_CRED_EXPIRED = 1059"
definition PRXYERR_R_BAD_MAGIC :: int where "PRXYERR_R_BAD_MAGIC = 1062"
definition PRXYERR_R_UNKNOWN_CRIT_EXT :: int where "PRXYERR_R_UNKNOWN_CRIT_EXT = 1063"

definition EXFLAG_BCONS :: "64 word" where "EXFLAG_BCONS = 1"

section \<open>The error queue\<close>

definition PRXYerr :: "int \<Rightarrow> int \<Rightarrow> vstate \<Rightarrow> vstate" where
  "PRXYerr f r s = s\<lparr>v_errs := \<lparr>e_func = f, e_reason = r, e_data = [], e_continue = False\<rparr> # v_errs s\<rparr>"

fun map_top :: "(err_entry \<Rightarrow> err_entry) \<Rightarrow> err_entry list \<Rightarrow> err_entry list" where
  "map_top f [] = []"
| "map_top f (e # es) = f e # es"

definition ERR_set_continue_needed :: "vstate \<Rightarrow> vstate" where
  "ERR_set_continue_needed s = s\<lparr>v_errs := map_top (\<lambda>e. e\<lparr>e_continue := True\<rparr>) (v_errs s)\<rparr>"

definition ERR_add_error_data :: "cstring list \<Rightarrow> vstate \<Rightarrow> vstate" where
  "ERR_add_error_data ds s = s\<lparr>v_errs := map_top (\<lambda>e. e\<lparr>e_data := concat ds\<rparr>) (v_errs s)\<rparr>"

definition report :: "int \<Rightarrow> vstate \<Rightarrow> vstate" where
  "report r s = PRXYerr PRXYERR_F_VERIFY_CB r s"

definition report_continue :: "int \<Rightarrow> vstate \<Rightarrow> vstate" where
  "report_continue r s = ERR_set_continue_needed (report r s)"

section \<open>Descriptors\<close>

definition proxy_verify_ctx_init :: "pvxd_desc \<Rightarrow> pvxd_desc" where
  "proxy_verify_ctx_init d = d\<lparr>px_magicnum := PVXD_MAGIC_NUMBER, px_certdir := None, px_goodtill := 0\<rparr>"

definition proxy_verify_init :: "pvd_desc \<Rightarrow> pvxd_desc option \<Rightarrow> pvd_desc" where
  "proxy_verify_init d pvxd =
     d\<lparr>pv_magicnum := PVD_MAGIC_NUMBER, pv_flags := 0, pv_pvxd := pvxd, pv_proxy_depth := 0,
       pv_cert_depth := 0, pv_cert_chain := None, pv_limited_proxy := 0, pv_multiple_limited_proxy_ok := 0\<rparr>"

definition proxy_verify_release :: "pvd_desc \<Rightarrow> pvd_desc" where
  "proxy_verify_release d = d\<lparr>pv_cert_chain := None, pv_pvxd := None\<rparr>"

definition proxy_verify_ctx_release :: "pvxd_desc \<Rightarrow> pvxd_desc" where
  "proxy_verify_ctx_release d = (if px_certdir d \<noteq> None then d\<lparr>px_certdir := None\<rparr> else d)"

section \<open>Stages of the callback\<close>

datatype 'a flow = Undef | Fail vstate | Next vstate 'a

definition and_then :: "'a flow \<Rightarrow> (vstate \<Rightarrow> 'a \<Rightarrow> 'b flow) \<Rightarrow> 'b flow" where
  "and_then m f = (case m of Undef \<Rightarrow> Undef | Fail s \<Rightarrow> Fail s | Next s a \<Rightarrow> f s a)"

text \<open>\<open>proxy_check_proxy_name\<close> and \<open>proxy_check_issued\<close> on addressed certificates.\<close>

definition check_proxy_at :: "venv \<Rightarrow> addr \<Rightarrow> vstate \<Rightarrow> (int \<times> vstate) option" where
  "check_proxy_at env a s =
     map_option (\<lambda>(r, c, es). (r, s\<lparr>v_heap := (v_heap s)(a := c), v_errs := es\<rparr>))
       (proxy_check_proxy_name (ve_ossl env) (v_heap s a) (v_errs s))"

definition check_issued_at :: "venv \<Rightarrow> addr \<Rightarrow> addr \<Rightarrow> vstate \<Rightarrow> (int \<times> vstate) option" where
  "check_issued_at env a i s =
     map_option (\<lambda>(r, c, es). (r, s\<lparr>v_heap := (v_heap s)(a := c), v_errs := es\<rparr>))
       (proxy_check_issued (ve_ossl env) (v_heap s a) (v_heap s i) (v_errs s))"

text \<open>
  The \<open>switch\<close> on the errors that can be disregarded: whether the error is forgiven. The test of
  the leaf signature is only that the classification is not 0.
\<close>

definition cb_forgive :: "venv \<Rightarrow> vstate \<Rightarrow> (bool \<times> vstate) option" where
  "cb_forgive env s =
     (let err = v_error s in
      if err = X509_V_ERR_PATH_LENGTH_EXCEEDED then Some (True, s)
      else if err = X509_V_ERR_UNABLE_TO_VERIFY_LEAF_SIGNATURE then
        (case check_proxy_at env (v_cert s) s of None \<Rightarrow> None
         | Some (r, s) \<Rightarrow>
             if r = 0 then Some (False, s)
             else (case v_current_cert s of None \<Rightarrow> None
                   | Some cc \<Rightarrow> Some (ve_x509_cmp env (v_heap s (v_cert s)) (v_heap s cc) = 0, s)))
      else if err = X509_V_ERR_INVALID_CA \<or> err = X509_V_ERR_UNABLE_TO_GET_ISSUER_CERT then
        (case check_proxy_at env (v_cert s) s of None \<Rightarrow> None
         | Some (r, s) \<Rightarrow>
             if r \<ge> 1 then
               (case v_current_cert s of None \<Rightarrow> None
                | Some cc \<Rightarrow>
                    (case check_issued_at env (v_cert s) cc s of None \<Rightarrow> None
                     | Some (i, s) \<Rightarrow> Some (i \<noteq> 0, s)))
             else Some (False, s))
      else if err = X509_V_ERR_UNHANDLED_CRITICAL_EXTENSION then
        (case check_proxy_at env (v_cert s) s of None \<Rightarrow> None
         | Some (r, s) \<Rightarrow>
             Some (r \<ge> 1 \<and> check_critical_extensions (ve_ossl env) (v_heap s (v_cert s)) 1 \<noteq> 0, s))
      else if err = X509_V_ERR_UNABLE_TO_GET_ISSUER_CERT_LOCALLY \<or> err = X509_V_ERR_CERT_UNTRUSTED then
        (case v_current_cert s of None \<Rightarrow> None
         | Some cc \<Rightarrow>
             (case check_proxy_at env cc s of None \<Rightarrow> None
              | Some (r, s) \<Rightarrow> Some (r > 0, s)))
      else if err = X509_V_ERR_PROXY_CERTIFICATES_NOT_ALLOWED then Some (True, s)
      else Some (False, s))"

text \<open>The errors that get an explanation of their own.\<close>

definition cb_explain :: "vstate \<Rightarrow> vstate" where
  "cb_explain s =
     (if v_error s = X509_V_ERR_CERT_NOT_YET_VALID then report_continue PRXYERR_R_CERT_NOT_YET_VALID s
      else if v_error s = X509_V_ERR_UNABLE_TO_GET_ISSUER_CERT_LOCALLY then
        report_continue PRXYERR_R_LOCAL_CA_UNKNOWN s
      else if v_error s = X509_V_ERR_CERT_HAS_EXPIRED then report_continue PRXYERR_R_REMOTE_CRED_EXPIRED s
      else s)"

text \<open>The proxy rules: the classification of the current certificate, and the limited proxies.\<close>

definition upd_pvd :: "(pvd_desc \<Rightarrow> pvd_desc) \<Rightarrow> vstate \<Rightarrow> vstate" where
  "upd_pvd f s = s\<lparr>v_pvd := map_option f (v_pvd s)\<rparr>"

definition proxy_stage :: "venv \<Rightarrow> vstate \<Rightarrow> bool flow" where
  "proxy_stage env s =
     (case v_current_cert s of None \<Rightarrow> Undef
      | Some cc \<Rightarrow>
          (case check_proxy_at env cc s of None \<Rightarrow> Undef
           | Some (ret, s) \<Rightarrow>
               if ret < 0 then
                 Fail ((report_continue PRXYERR_R_BAD_PROXY_ISSUER s)\<lparr>v_error := X509_V_ERR_CERT_SIGNATURE_FAILURE\<rparr>)
               else if ret > 0 then
                 (let s = (if ret = 2 then upd_pvd (pv_limited_proxy_update (\<lambda>_. 1)) s else s)
                  in if ret = 2 \<and> v_error_depth s \<noteq> 0 \<and>
                        (case v_pvd s of Some p \<Rightarrow> pv_multiple_limited_proxy_ok p = 0 | None \<Rightarrow> False)
                     then Fail ((report_continue PRXYERR_R_LPROXY_MISSED_USED s)
                                  \<lparr>v_error := X509_V_ERR_CERT_SIGNATURE_FAILURE\<rparr>)
                     else Next (upd_pvd (pv_proxy_depth_update (\<lambda>d. d + 1)) s) True)
               else Next s False))"

text \<open>The revocation list of the issuer, when the store has one.\<close>

definition serial_text :: "int \<Rightarrow> cstring" where
  "serial_text n = show_int n @ '' (0x'' @ show_hex (unat (word_of_int n :: 64 word)) @ '')''"

fun revoked_loop :: "venv \<Rightarrow> x509 \<Rightarrow> int list \<Rightarrow> vstate \<Rightarrow> unit flow" where
  "revoked_loop env cert [] s = Next s ()"
| "revoked_loop env cert (r # rs) s =
     (if r = x_serial cert then
        (let s = report PRXYERR_R_CERT_REVOKED s;
             serial = ASN1_INTEGER_get r;
             subj = (case o_oneline (ve_ossl env) (x_subject cert) of Some t \<Rightarrow> t | None \<Rightarrow> []);
             s = ERR_add_error_data [''Serial number = '', serial_text serial, '' Subject='', subj] s
         in Fail (ERR_set_continue_needed (s\<lparr>v_error := X509_V_ERR_CERT_REVOKED\<rparr>)))
      else revoked_loop env cert rs s)"

definition crl_stage :: "venv \<Rightarrow> addr \<Rightarrow> vstate \<Rightarrow> unit flow" where
  "crl_stage env cc s =
     (case v_current_issuer s of None \<Rightarrow> Undef
      | Some ia \<Rightarrow>
          (case ve_crl env (x_subject (v_heap s ia)) of None \<Rightarrow> Next s ()
           | Some crl \<Rightarrow>
               if ve_crl_verify env crl (x_pubkey (v_heap s ia)) \<le> 0 then
                 Fail ((report_continue PRXYERR_R_CRL_SIGNATURE_FAILURE s)\<lparr>v_error := X509_V_ERR_CRL_SIGNATURE_FAILURE\<rparr>)
               else
                 (let i = ve_cmp_now env (crl_nextUpdate crl)
                  in if i = 0 then
                       Fail ((report_continue PRXYERR_R_CRL_NEXT_UPDATE_FIELD s)
                               \<lparr>v_error := X509_V_ERR_ERROR_IN_CRL_NEXT_UPDATE_FIELD\<rparr>)
                     else if i < 0 then
                       Fail ((report_continue PRXYERR_R_CRL_HAS_EXPIRED s)\<lparr>v_error := X509_V_ERR_CRL_HAS_EXPIRED\<rparr>)
                     else revoked_loop env (v_heap s cc) (crl_revoked crl) s)))"

text \<open>The policies of the chain, for a certificate that is not self-signed.\<close>

definition policy_stage :: "venv \<Rightarrow> addr \<Rightarrow> vstate \<Rightarrow> unit flow" where
  "policy_stage env cc s =
     (let cert = v_heap s cc; chain = map (v_heap s) (v_chain s)
      in if o_name_cmp (ve_ossl env) (x_subject cert) (x_issuer cert) = 0 then Next s ()
         else
           (case v_pvd s of None \<Rightarrow> Undef
            | Some p \<Rightarrow>
                (case pv_pvxd p of None \<Rightarrow> Undef
                 | Some px \<Rightarrow>
                     (let cert_dir = (case px_certdir px of Some d \<Rightarrow> Some d | None \<Rightarrow> ve_cert_dir env)
                      in case cert_dir of None \<Rightarrow> Undef
                         | Some dir \<Rightarrow>
                             (case read_pathrestriction (ve_ossl env) (ve_parsers env) (ve_fs env) chain dir None None of
                                None \<Rightarrow> Undef
                              | Some (namespaces, signings) \<Rightarrow>
                                  (case restriction_evaluate (ve_ossl env) chain namespaces signings of
                                     None \<Rightarrow> Undef
                                   | Some result \<Rightarrow>
                                       (case (voms_free_policies namespaces, voms_free_policies signings) of
                                          (Some _, Some _) \<Rightarrow>
                                            if result \<noteq> SUCCESS_PERMIT then
                                              Fail (ERR_set_continue_needed
                                                ((report PRXYERR_R_CA_POLICY_VIOLATION s)
                                                   \<lparr>v_error := X509_V_ERR_INVALID_PURPOSE\<rparr>))
                                            else Next s ()
                                        | _ \<Rightarrow> Undef)))))))"

text \<open>The shortest life of a certificate so far, and the number of certificates.\<close>

definition set_goodtill :: "int \<Rightarrow> pvxd_desc \<Rightarrow> pvxd_desc" where
  "set_goodtill t px = (if px_goodtill px = 0 \<or> t < px_goodtill px then px\<lparr>px_goodtill := t\<rparr> else px)"

definition lifetime_stage :: "venv \<Rightarrow> addr \<Rightarrow> vstate \<Rightarrow> unit flow" where
  "lifetime_stage env cc s =
     (case ASN1_UTCTIME_mktime (x_notAfter (v_heap s cc)) of None \<Rightarrow> Undef
      | Some goodtill \<Rightarrow>
          (case v_pvd s of None \<Rightarrow> Undef
           | Some p \<Rightarrow>
               (case pv_pvxd p of None \<Rightarrow> Undef
                | Some px \<Rightarrow>
                    Next (upd_pvd (\<lambda>p. p\<lparr>pv_pvxd := Some (set_goodtill goodtill px),
                                          pv_cert_depth := pv_cert_depth p + 1\<rparr>) s) ())))"

definition critical_stage :: "venv \<Rightarrow> addr \<Rightarrow> bool \<Rightarrow> vstate \<Rightarrow> unit flow" where
  "critical_stage env cc itsaproxy s =
     (if check_critical_extensions (ve_ossl env) (v_heap s cc) (if itsaproxy then 1 else 0) = 0
      then Fail ((report PRXYERR_R_UNKNOWN_CRIT_EXT s)\<lparr>v_error := X509_V_ERR_CERT_REJECTED\<rparr>)
      else Next s ())"

text \<open>The path lengths, at the leaf: proxies do not count.\<close>

definition path_too_long :: "int \<Rightarrow> x509 \<Rightarrow> int \<Rightarrow> bool" where
  "path_too_long proxy_depth cert i \<longleftrightarrow>
     i - proxy_depth > 1 \<and> x_ex_pathlen cert \<noteq> -1 \<and> i - proxy_depth > x_ex_pathlen cert + 1 \<and>
     and (x_ex_flags cert) EXFLAG_BCONS \<noteq> 0"

fun path_loop :: "int \<Rightarrow> int \<Rightarrow> addr list \<Rightarrow> vstate \<Rightarrow> unit flow" where
  "path_loop proxy_depth i [] s = Next s ()"
| "path_loop proxy_depth i (a # as) s =
     (if path_too_long proxy_depth (v_heap s a) i
      then Fail (s\<lparr>v_current_cert := Some a, v_error := X509_V_ERR_PATH_LENGTH_EXCEEDED\<rparr>)
      else path_loop proxy_depth (i + 1) as s)"

definition path_stage :: "vstate \<Rightarrow> unit flow" where
  "path_stage s =
     (if v_current_cert s = Some (v_cert s) then
        (case v_pvd s of None \<Rightarrow> Undef | Some p \<Rightarrow> path_loop (pv_proxy_depth p) 0 (v_chain s) s)
      else Next s ())"

section \<open>The callback\<close>

text \<open>\<open>fail_verify\<close>: the explanation put on the queue.\<close>

definition fail_report :: "venv \<Rightarrow> vstate \<Rightarrow> vstate" where
  "fail_report env s =
     (case v_current_cert s of None \<Rightarrow> s
      | Some a \<Rightarrow>
          (let name = (\<lambda>n. case o_oneline (ve_ossl env) n of Some t \<Rightarrow> t | None \<Rightarrow> ''UNKNOWN'');
               subject_s = name (x_subject (v_heap s a));
               issuer_s = name (x_issuer (v_heap s a));
               NL = [CHR 0x0A]
           in if v_error s = X509_V_OK \<or> v_error s = X509_V_ERR_INVALID_PURPOSE \<or>
                 v_error s = X509_V_ERR_APPLICATION_VERIFICATION then
                ERR_add_error_data [NL @ ''        File='', ''UNKNOWN'', NL @ ''        subject='', subject_s,
                                    NL @ ''        issuer ='', issuer_s] (report PRXYERR_R_CB_ERROR_MSG s)
              else if v_error s = X509_V_ERR_CERT_NOT_YET_VALID \<or>
                      v_error s = X509_V_ERR_UNABLE_TO_GET_ISSUER_CERT_LOCALLY \<or>
                      v_error s = X509_V_ERR_CERT_HAS_EXPIRED then
                ERR_add_error_data [NL @ ''        subject='', subject_s, NL @ ''        issuer ='', issuer_s]
                  (report PRXYERR_R_CB_ERROR_MSG s)
              else if v_error s = X509_V_ERR_SELF_SIGNED_CERT_IN_CHAIN then
                ERR_add_error_data [NL @ ''        issuer ='', issuer_s] (report PRXYERR_R_CA_UNKNOWN s)
              else
                ERR_add_error_data [NL @ ''        error ='', ve_error_string env (v_error s),
                                    NL @ ''        subject='', subject_s, NL @ ''        issuer ='', issuer_s]
                  (report PRXYERR_R_CB_CALLED_WITH_ERROR s)))"

text \<open>The checks after OpenSSL's own have passed, with the verification descriptor present.\<close>

definition cb_checks :: "venv \<Rightarrow> vstate \<Rightarrow> unit flow" where
  "cb_checks env s =
     and_then (proxy_stage env s) (\<lambda>s itsaproxy.
       (case v_current_cert s of None \<Rightarrow> Undef
        | Some cc \<Rightarrow>
            and_then (if itsaproxy then Next s ()
                      else and_then (crl_stage env cc s) (\<lambda>s _. policy_stage env cc s)) (\<lambda>s _.
            and_then (lifetime_stage env cc s) (\<lambda>s _.
            and_then (critical_stage env cc itsaproxy s) (\<lambda>s _.
            path_stage s)))))"

text \<open>\<open>proxy_verify_callback\<close>: the result and the state.\<close>

definition proxy_verify_callback :: "venv \<Rightarrow> int \<Rightarrow> vstate \<Rightarrow> (int \<times> vstate) option" where
  "proxy_verify_callback env ok s =
     (if (case v_pvd s of Some p \<Rightarrow> pv_magicnum p \<noteq> PVD_MAGIC_NUMBER | None \<Rightarrow> False)
      then Some (0, report PRXYERR_R_BAD_MAGIC s)
      else if ok = 0 then
        (case cb_forgive env s of None \<Rightarrow> None
         | Some (forgiven, s) \<Rightarrow>
             if forgiven then Some (1, s\<lparr>v_error := 0\<rparr>)
             else Some (0, fail_report env (cb_explain s)))
      else if v_pvd s = None then Some (ok, s)
      else (case cb_checks env s of Undef \<Rightarrow> None
            | Fail s \<Rightarrow> Some (0, fail_report env s)
            | Next s _ \<Rightarrow> Some (ok, s)))"

section \<open>Setting up a verification\<close>

text \<open>What \<open>X509_STORE_add_cert\<close> answers for a certificate and the store so far.\<close>

datatype add_result = Added | Already | Add_failed

text \<open>
  The loop over the chain: the certificate to verify and the store. \<open>None\<close> is \<open>goto err\<close>; a
  certificate that is already there ends the loop.
\<close>

fun store_loop :: "(addr list \<Rightarrow> addr \<Rightarrow> add_result) \<Rightarrow> addr option \<Rightarrow> addr list \<Rightarrow> addr list \<Rightarrow>
    (addr option \<times> addr list) option" where
  "store_loop add scert [] store = Some (scert, store)"
| "store_loop add scert (x # xs) store =
     (if scert = None then store_loop add (Some x) xs store
      else (case add store x of
              Added \<Rightarrow> store_loop add scert xs (store @ [x])
            | Already \<Rightarrow> Some (scert, store)
            | Add_failed \<Rightarrow> None))"

text \<open>
  \<open>proxy_verify_cert_chain\<close>. \<open>verify\<close> is \<open>X509_verify_cert\<close> with the given certificate, store and
  directory of trusted certificates; \<open>lookup\<close> says whether the directory lookup could be added.
\<close>

definition proxy_verify_cert_chain ::
  "(addr list \<Rightarrow> addr \<Rightarrow> add_result) \<Rightarrow> bool \<Rightarrow> (addr option \<Rightarrow> addr list \<Rightarrow> cstring option \<Rightarrow> int) \<Rightarrow>
   addr option \<Rightarrow> addr list option \<Rightarrow> pvd_desc \<Rightarrow> int option" where
  "proxy_verify_cert_chain add lookup verify ucert cert_chain pvd =
     (case (case cert_chain of None \<Rightarrow> Some (ucert, []) | Some xs \<Rightarrow> store_loop add ucert xs []) of
        None \<Rightarrow> Some 0
      | Some (scert, store) \<Rightarrow>
          if lookup then
            (case pv_pvxd pvd of None \<Rightarrow> None
             | Some px \<Rightarrow> Some (if verify scert store (px_certdir px) = 0 then 0 else 1))
          else Some 1)"

text \<open>\<open>proxy_app_verify_callback\<close>: verification with the issuer check replaced.\<close>

definition proxy_app_verify_callback ::
  "((x509 \<Rightarrow> x509 \<Rightarrow> err_entry list \<Rightarrow> (int \<times> x509 \<times> err_entry list) option) \<Rightarrow> int) \<Rightarrow> ossl \<Rightarrow> int" where
  "proxy_app_verify_callback X509_verify_cert o1 = X509_verify_cert (proxy_check_issued o1)"

section \<open>What each stage guarantees\<close>

lemma proxy_check_SomeD:
  assumes "proxy_check_proxy_name o1 c es = Some (r, c', es')"
  shows "r = proxy_kind o1 c \<and> c' = proxy_marked o1 c \<and> es' = errs_kept o1 es"
proof -
  have "has_pci o1 c \<or> x_subject c \<noteq> []"
  proof (rule ccontr)
    assume "\<not> ?thesis"
    then show False using assms by (simp add: proxy_check_proxy_name_def has_pci_index Let_def)
  qed
  from proxy_check_kind [OF this, of es] assms show ?thesis by simp
qed

definition kind_at :: "venv \<Rightarrow> vstate \<Rightarrow> addr \<Rightarrow> int" where
  "kind_at env s a = proxy_kind (ve_ossl env) (v_heap s a)"

definition mark_at :: "venv \<Rightarrow> addr \<Rightarrow> vstate \<Rightarrow> vstate" where
  "mark_at env a s = s\<lparr>v_heap := (v_heap s)(a := proxy_marked (ve_ossl env) (v_heap s a)),
     v_errs := errs_kept (ve_ossl env) (v_errs s)\<rparr>"

lemma check_proxy_at_SomeD:
  "check_proxy_at env a s = Some (r, t) \<Longrightarrow> r = kind_at env s a \<and> t = mark_at env a s"
  by (auto simp: check_proxy_at_def kind_at_def mark_at_def dest: proxy_check_SomeD)

definition not_revoked :: "venv \<Rightarrow> vstate \<Rightarrow> addr \<Rightarrow> bool" where
  "not_revoked env s a \<longleftrightarrow>
     (case v_current_issuer s of None \<Rightarrow> False
      | Some ia \<Rightarrow> (case ve_crl env (x_subject (v_heap s ia)) of None \<Rightarrow> True
        | Some l \<Rightarrow> ve_crl_verify env l (x_pubkey (v_heap s ia)) > 0 \<and> ve_cmp_now env (crl_nextUpdate l) > 0 \<and>
                    x_serial (v_heap s a) \<notin> set (crl_revoked l)))"

lemma revoked_loop_Next: "revoked_loop env c rs s = Next t u \<Longrightarrow> t = s \<and> x_serial c \<notin> set rs"
  by (induction rs) (auto simp: Let_def split: if_splits)

lemma crl_stage_Next: "crl_stage env a s = Next t u \<Longrightarrow> t = s \<and> not_revoked env s a"
  by (auto simp: crl_stage_def not_revoked_def Let_def split: option.splits if_splits dest: revoked_loop_Next)

definition policy_permits :: "venv \<Rightarrow> vstate \<Rightarrow> addr \<Rightarrow> bool" where
  "policy_permits env s a \<longleftrightarrow>
     isselfsigned (ve_ossl env) (v_heap s a) \<or>
     (\<exists>p px dir ns sg. v_pvd s = Some p \<and> pv_pvxd p = Some px \<and>
        Some dir = (if px_certdir px \<noteq> None then px_certdir px else ve_cert_dir env) \<and>
        read_pathrestriction (ve_ossl env) (ve_parsers env) (ve_fs env) (map (v_heap s) (v_chain s)) dir None None
          = Some (ns, sg) \<and>
        restriction_evaluate (ve_ossl env) (map (v_heap s) (v_chain s)) ns sg = Some SUCCESS_PERMIT)"

lemma policy_stage_Next: "policy_stage env a s = Next t u \<Longrightarrow> t = s \<and> policy_permits env s a"
  unfolding policy_stage_def policy_permits_def isselfsigned_def Let_def
  by (auto split: option.splits if_splits prod.splits)

lemma lifetime_stage_Next:
  assumes "lifetime_stage env a s = Next t u"
  shows "\<exists>p px g. v_pvd s = Some p \<and> pv_pvxd p = Some px \<and> ASN1_UTCTIME_mktime (x_notAfter (v_heap s a)) = Some g \<and>
     t = s\<lparr>v_pvd := Some (p\<lparr>pv_pvxd := Some (set_goodtill g px), pv_cert_depth := pv_cert_depth p + 1\<rparr>)\<rparr>"
  using assms by (auto simp: lifetime_stage_def upd_pvd_def split: option.splits)

lemma critical_loop_01: "critical_loop o1 a b p exs \<in> {0, 1}"
  by (induction exs) auto

lemma critical_stage_Next:
  assumes "critical_stage env a b s = Next t u"
  shows "t = s \<and> check_critical_extensions (ve_ossl env) (v_heap s a) (if b then 1 else 0) = 1"
  using assms critical_loop_01 [of "ve_ossl env" "my_txt2nid (ve_ossl env) PROXYCERTINFO_V3"
      "my_txt2nid (ve_ossl env) PROXYCERTINFO_V4" b "x_exts (v_heap s a)"]
  by (auto simp: critical_stage_def check_critical_extensions_def split: if_splits)

lemma path_loop_Next:
  "path_loop d i as s = Next t u \<Longrightarrow>
   t = s \<and> (\<forall>j<length as. \<not> path_too_long d (v_heap s (as ! j)) (i + int j))"
proof (induction as arbitrary: i)
  case (Cons a as)
  then have "\<not> path_too_long d (v_heap s a) i" and
    IH: "t = s \<and> (\<forall>j<length as. \<not> path_too_long d (v_heap s (as ! j)) (i + 1 + int j))"
    by (auto split: if_splits)
  then show ?case by (auto simp: less_Suc_eq_0_disj add.assoc)
qed simp

definition path_ok :: "vstate \<Rightarrow> bool" where
  "path_ok s \<longleftrightarrow> v_current_cert s = Some (v_cert s) \<longrightarrow>
     (\<exists>p. v_pvd s = Some p \<and>
       (\<forall>j<length (v_chain s). \<not> path_too_long (pv_proxy_depth p) (v_heap s (v_chain s ! j)) (int j)))"

lemma path_stage_Next: "path_stage s = Next t u \<Longrightarrow> t = s \<and> path_ok s"
  using path_loop_Next [of _ 0 "v_chain s" s t u]
  by (auto simp: path_stage_def path_ok_def split: if_splits option.splits)

lemma proxy_stage_Next:
  assumes "proxy_stage env s = Next t b" "v_pvd s = Some p" "v_current_cert s = Some a"
  shows "kind_at env s a \<ge> 0 \<and> (b \<longleftrightarrow> kind_at env s a > 0) \<and>
     (kind_at env s a = 2 \<longrightarrow> v_error_depth s = 0 \<or> pv_multiple_limited_proxy_ok p \<noteq> 0) \<and>
     t = (mark_at env a s)\<lparr>v_pvd := Some
       (p\<lparr>pv_limited_proxy := (if kind_at env s a = 2 then 1 else pv_limited_proxy p),
          pv_proxy_depth := pv_proxy_depth p + (if kind_at env s a > 0 then 1 else 0)\<rparr>)\<rparr>"
proof -
  from assms obtain r s1 where r: "check_proxy_at env a s = Some (r, s1)"
    by (auto simp: proxy_stage_def split: option.splits)
  from check_proxy_at_SomeD [OF r] have "r = kind_at env s a" "s1 = mark_at env a s" by auto
  with assms r show ?thesis
    by (auto simp: proxy_stage_def upd_pvd_def mark_at_def Let_def split: if_splits)
qed

section \<open>What acceptance means\<close>

text \<open>The descriptor after a certificate of kind \<open>k\<close> that is good until \<open>g\<close>.\<close>

definition accepted_pvd :: "int \<Rightarrow> int \<Rightarrow> pvxd_desc \<Rightarrow> pvd_desc \<Rightarrow> pvd_desc" where
  "accepted_pvd k g px p =
     p\<lparr>pv_limited_proxy := (if k = 2 then 1 else pv_limited_proxy p),
       pv_proxy_depth := pv_proxy_depth p + (if k > 0 then 1 else 0),
       pv_pvxd := Some (set_goodtill g px), pv_cert_depth := pv_cert_depth p + 1\<rparr>"

text \<open>The conditions a certificate of the chain meets.\<close>

definition cert_ok :: "venv \<Rightarrow> vstate \<Rightarrow> addr \<Rightarrow> bool" where
  "cert_ok env s a \<longleftrightarrow>
     kind_at env s a \<ge> 0 \<and>
     (kind_at env s a = 2 \<longrightarrow> v_error_depth s = 0 \<or>
        (\<exists>p. v_pvd s = Some p \<and> pv_multiple_limited_proxy_ok p \<noteq> 0)) \<and>
     (kind_at env s a = 0 \<longrightarrow> not_revoked env s a \<and> policy_permits env s a) \<and>
     check_critical_extensions (ve_ossl env) (v_heap s a) (if kind_at env s a > 0 then 1 else 0) = 1"

lemma and_then_Next: "and_then m f = Next t u \<longleftrightarrow> (\<exists>s a. m = Next s a \<and> f s a = Next t u)"
  by (cases m) (auto simp: and_then_def)

lemma and_then_Fail: "and_then m f = Fail t \<longleftrightarrow> m = Fail t \<or> (\<exists>s a. m = Next s a \<and> f s a = Fail t)"
  by (cases m) (auto simp: and_then_def)

lemma check_critical_exts:
  "x_exts c = x_exts d \<Longrightarrow> check_critical_extensions o1 c b = check_critical_extensions o1 d b"
  by (simp add: check_critical_extensions_def)

lemma mark_at_same: "kind_at env s a = 0 \<Longrightarrow> mark_at env a s = s\<lparr>v_errs := errs_kept (ve_ossl env) (v_errs s)\<rparr>"
proof -
  assume k: "kind_at env s a = 0"
  then have "\<not> has_pci (ve_ossl env) (v_heap s a)" by (auto simp: kind_at_def proxy_kind_def split: if_splits)
  with k show ?thesis by (simp add: mark_at_def proxy_marked_def mark_proxy_def kind_at_def)
qed

lemma queue_not_read [simp]:
  "not_revoked env (s\<lparr>v_errs := es\<rparr>) a = not_revoked env s a" "policy_permits env (s\<lparr>v_errs := es\<rparr>) a = policy_permits env s a"
  "not_revoked env (s\<lparr>v_pvd := x, v_errs := es\<rparr>) a = not_revoked env s a"
  by (simp_all add: not_revoked_def policy_permits_def split: option.split)

lemma cb_checks_Next:
  assumes cb: "cb_checks env s = Next t u" and p: "v_pvd s = Some p" and a: "v_current_cert s = Some a"
  shows "cert_ok env s a \<and> path_ok t \<and>
    (\<exists>px g. pv_pvxd p = Some px \<and> ASN1_UTCTIME_mktime (x_notAfter (v_heap s a)) = Some g \<and>
       t = (mark_at env a s)\<lparr>v_pvd := Some (accepted_pvd (kind_at env s a) g px p)\<rparr>)"
proof -
  from cb obtain s1 b where s1: "proxy_stage env s = Next s1 b"
    and rest1: "(case v_current_cert s1 of None \<Rightarrow> Undef
        | Some cc \<Rightarrow>
            and_then (if b then Next s1 ()
                      else and_then (crl_stage env cc s1) (\<lambda>s _. policy_stage env cc s)) (\<lambda>s _.
            and_then (lifetime_stage env cc s) (\<lambda>s _.
            and_then (critical_stage env cc b s) (\<lambda>s _.
            path_stage s)))) = Next t u"
    by (auto simp: cb_checks_def and_then_Next)
  note ps = proxy_stage_Next [OF s1 p a]
  let ?k = "kind_at env s a"
  have cc: "v_current_cert s1 = Some a" using ps a by (simp add: mark_at_def)
  have heap1: "x_exts (v_heap s1 a) = x_exts (v_heap s a)" "x_notAfter (v_heap s1 a) = x_notAfter (v_heap s a)"
    using ps by (simp_all add: mark_at_def)
  from rest1 cc obtain s2 s3 s4 where
    s2: "(if b then Next s1 () else and_then (crl_stage env a s1) (\<lambda>s _. policy_stage env a s)) = Next s2 ()"
    and s3: "lifetime_stage env a s2 = Next s3 ()" and s4: "critical_stage env a b s3 = Next s4 ()"
    and fin: "path_stage s4 = Next t u"
    by (auto simp: and_then_Next)
  have s2s: "s2 = s1 \<and> (\<not> b \<longrightarrow> not_revoked env s1 a \<and> policy_permits env s1 a)"
    using s2 crl_stage_Next policy_stage_Next by (auto simp: and_then_Next split: if_splits) blast+
  obtain g px where g: "ASN1_UTCTIME_mktime (x_notAfter (v_heap s1 a)) = Some g" and px: "pv_pvxd p = Some px"
    and s3s: "s3 = s1\<lparr>v_pvd := Some (accepted_pvd ?k g px p)\<rparr>"
    using lifetime_stage_Next [OF s3] s2s ps by (auto simp: accepted_pvd_def)
  have s4s: "s4 = s3" "check_critical_extensions (ve_ossl env) (v_heap s1 a) (if b then 1 else 0) = 1"
    using critical_stage_Next [OF s4] s3s by auto
  have ts: "t = s4" "path_ok t" using path_stage_Next [OF fin] by auto
  have b: "b \<longleftrightarrow> ?k > 0" and k0: "?k \<ge> 0" using ps by auto
  have same: "s1 = s\<lparr>v_errs := errs_kept (ve_ossl env) (v_errs s)\<rparr>" if "\<not> b"
    using ps p that mark_at_same [of env s a] k0 b by auto
  have "cert_ok env s a"
    unfolding cert_ok_def
    using ps p k0 b s2s same s4s(2) check_critical_exts [OF heap1(1)] by auto
  moreover have "t = (mark_at env a s)\<lparr>v_pvd := Some (accepted_pvd ?k g px p)\<rparr>"
    using ts s4s s3s ps by simp
  ultimately show ?thesis using ts px g heap1 by auto
qed

lemma callback_accept:
  assumes "proxy_verify_callback env ok s = Some (r, t)" "r \<noteq> 0" "ok \<noteq> 0"
    and "v_pvd s = Some p" "v_current_cert s = Some a"
  shows "pv_magicnum p = PVD_MAGIC_NUMBER \<and> cert_ok env s a \<and> path_ok t \<and>
    (\<exists>px g. pv_pvxd p = Some px \<and> ASN1_UTCTIME_mktime (x_notAfter (v_heap s a)) = Some g \<and>
       t = (mark_at env a s)\<lparr>v_pvd := Some (accepted_pvd (kind_at env s a) g px p)\<rparr>)"
proof -
  have "cb_checks env s = Next t ()" "pv_magicnum p = PVD_MAGIC_NUMBER"
    using assms by (auto simp: proxy_verify_callback_def split: if_splits flow.splits)
  with cb_checks_Next [OF _ assms(4,5)] show ?thesis by blast
qed

text \<open>
  C2: what the callback accepts. When OpenSSL's own checks passed and the callback agrees, the
  certificate is not a misnamed proxy; a limited proxy is the leaf or several are allowed; a
  certificate that is no proxy is not on a valid list of revoked certificates of its issuer and
  is permitted by the policies unless it is self-signed; every critical extension is known; at
  the leaf no certificate has too short a path length; and the descriptor counts the proxy and
  the certificate, remembers a limited proxy and keeps the earliest end of validity.
\<close>

theorem callback_accept_sound:
  assumes "proxy_verify_callback env ok s = Some (r, t)" "r \<noteq> 0" "ok \<noteq> 0"
    and "v_pvd s = Some p" "v_current_cert s = Some a"
  shows "cert_ok env s a \<and> path_ok t \<and>
    (\<exists>px g. pv_pvxd p = Some px \<and> ASN1_UTCTIME_mktime (x_notAfter (v_heap s a)) = Some g \<and>
       v_pvd t = Some (accepted_pvd (kind_at env s a) g px p))"
  using callback_accept [OF assms] by auto

section \<open>Runs of a verification\<close>

text \<open>
  OpenSSL presents certificates to the callback, from the root to the leaf. Between two calls it
  writes its own fields of the context, not the certificates' names or the descriptor. A run
  lists the certificates accepted with their depths; a forgiven error accepts none.
\<close>

definition presented :: "vstate \<Rightarrow> vstate \<Rightarrow> bool" where
  "presented s t \<longleftrightarrow> v_heap t = v_heap s \<and> v_pvd t = v_pvd s"

inductive accepted_run :: "venv \<Rightarrow> vstate \<Rightarrow> (addr \<times> int) list \<Rightarrow> vstate \<Rightarrow> bool" for env s where
  run_start: "accepted_run env s [] s"
| run_cert: "\<lbrakk>accepted_run env s cs t; presented t t'; v_current_cert t' = Some a; ok \<noteq> 0;
     proxy_verify_callback env ok t' = Some (r, u); r \<noteq> 0\<rbrakk> \<Longrightarrow>
     accepted_run env s (cs @ [(a, v_error_depth t')]) u"
| run_forgiven: "\<lbrakk>accepted_run env s cs t; presented t t'; proxy_verify_callback env 0 t' = Some (1, u)\<rbrakk> \<Longrightarrow>
     accepted_run env s cs u"

text \<open>What no call changes of a certificate.\<close>

definition same_certs :: "(addr \<Rightarrow> x509) \<Rightarrow> (addr \<Rightarrow> x509) \<Rightarrow> bool" where
  "same_certs h g \<longleftrightarrow> (\<forall>a. x_subject (h a) = x_subject (g a) \<and> x_issuer (h a) = x_issuer (g a) \<and>
     x_exts (h a) = x_exts (g a) \<and> x_notAfter (h a) = x_notAfter (g a))"

lemma same_certs_refl [simp]: "same_certs h h"
  by (simp add: same_certs_def)

lemma same_certs_trans: "same_certs h g \<Longrightarrow> same_certs g k \<Longrightarrow> same_certs h k"
  by (simp add: same_certs_def)

lemma same_certs_mark: "same_certs (v_heap s) (v_heap (mark_at env a s))"
  by (simp add: same_certs_def mark_at_def)

lemma same_certs_kind:
  assumes "same_certs h g"
  shows "proxy_kind o1 (h a) = proxy_kind o1 (g a)"
  using assms by (simp add: same_certs_def proxy_kind_def has_pci_def names_proxy_def last_is_cn_def)

lemma check_issued_at_SomeD:
  "check_issued_at env a i s = Some (r, t) \<Longrightarrow> t = s \<or> t = mark_at env a s"
  by (auto simp: check_issued_at_def proxy_check_issued_def Let_def mark_at_def
      split: if_splits option.splits dest: proxy_check_SomeD)

lemma forgive_same:
  assumes "cb_forgive env s = Some (b, t)"
  shows "v_pvd t = v_pvd s \<and> same_certs (v_heap s) (v_heap t)"
proof -
  have m: "v_pvd (mark_at env a u) = v_pvd u" for a u by (simp add: mark_at_def)
  show ?thesis
    using assms unfolding cb_forgive_def Let_def
    by (auto split: if_splits option.splits prod.splits simp: m
        dest!: check_proxy_at_SomeD check_issued_at_SomeD
        intro: same_certs_mark same_certs_trans [OF same_certs_mark same_certs_mark])
qed

lemma callback_forgiven:
  assumes "proxy_verify_callback env 0 s = Some (1, t)"
  shows "v_pvd t = v_pvd s \<and> same_certs (v_heap s) (v_heap t)"
  using assms forgive_same by (auto simp: proxy_verify_callback_def split: if_splits option.splits)

text \<open>What a run has established after the certificates \<open>cs\<close>.\<close>

definition earlier :: "int \<Rightarrow> int \<Rightarrow> int" where
  "earlier g t = (if g = 0 \<or> t < g then t else g)"

definition end_of :: "vstate \<Rightarrow> addr \<Rightarrow> int" where
  "end_of s a = the (ASN1_UTCTIME_mktime (x_notAfter (v_heap s a)))"

definition run_state :: "venv \<Rightarrow> vstate \<Rightarrow> pvd_desc \<Rightarrow> pvxd_desc \<Rightarrow> (addr \<times> int) list \<Rightarrow> pvd_desc \<Rightarrow> pvxd_desc \<Rightarrow> bool" where
  "run_state env s p0 px0 cs p px \<longleftrightarrow>
     pv_proxy_depth p = pv_proxy_depth p0 + int (length (filter (\<lambda>(a, d). kind_at env s a > 0) cs)) \<and>
     pv_cert_depth p = pv_cert_depth p0 + int (length cs) \<and>
     (pv_limited_proxy p \<noteq> 0 \<longleftrightarrow> pv_limited_proxy p0 \<noteq> 0 \<or> list_ex (\<lambda>(a, d). kind_at env s a = 2) cs) \<and>
     pv_multiple_limited_proxy_ok p = pv_multiple_limited_proxy_ok p0 \<and>
     (pv_multiple_limited_proxy_ok p0 = 0 \<longrightarrow> list_all (\<lambda>(a, d). kind_at env s a = 2 \<longrightarrow> d = 0) cs) \<and>
     list_all (\<lambda>(a, d). kind_at env s a \<ge> 0) cs \<and>
     px_goodtill px = foldl earlier (px_goodtill px0) (map (\<lambda>(a, d). end_of s a) cs)"

lemma run_invariant:
  assumes "accepted_run env s cs t" "v_pvd s = Some p0" "pv_pvxd p0 = Some px0"
  shows "same_certs (v_heap s) (v_heap t) \<and>
    (\<exists>p px. v_pvd t = Some p \<and> pv_pvxd p = Some px \<and> run_state env s p0 px0 cs p px)"
  using assms(1)
proof induction
  case run_start
  with assms(2,3) show ?case by (simp add: run_state_def)
next
  case (run_cert cs t t' a ok r u)
  then obtain p px where same: "same_certs (v_heap s) (v_heap t')" and p: "v_pvd t' = Some p" "pv_pvxd p = Some px"
    and st: "run_state env s p0 px0 cs p px" by (auto simp: presented_def)
  note acc = callback_accept [OF run_cert.hyps(5,6,4) p(1) run_cert.hyps(3)]
  obtain g where g: "ASN1_UTCTIME_mktime (x_notAfter (v_heap t' a)) = Some g"
    and u: "u = (mark_at env a t')\<lparr>v_pvd := Some (accepted_pvd (kind_at env t' a) g px p)\<rparr>"
    using acc p(2) by auto
  have k: "kind_at env t' a = kind_at env s a"
    using same_certs_kind [OF same] by (simp add: kind_at_def)
  have e: "end_of s a = g" using g same by (simp add: end_of_def same_certs_def)
  have "run_state env s p0 px0 (cs @ [(a, v_error_depth t')]) (accepted_pvd (kind_at env t' a) g px p) (set_goodtill g px)"
    using st acc k e p by (auto simp: run_state_def accepted_pvd_def cert_ok_def set_goodtill_def earlier_def)
  then show ?case
    using same_certs_trans [OF same same_certs_mark] u by (simp add: accepted_pvd_def)
next
  case (run_forgiven cs t t' u)
  with callback_forgiven [OF run_forgiven.hyps(3)] show ?case
    by (metis presented_def same_certs_trans)
qed

lemma earlier_Min:
  assumes "ts \<noteq> []" "\<forall>t \<in> set ts. t \<noteq> 0"
  shows "foldl earlier 0 ts = Min (set ts)"
  using assms
proof (induction ts rule: rev_induct)
  case (snoc t ts)
  show ?case
  proof (cases "ts = []")
    case False
    with snoc have "foldl earlier 0 ts = Min (set ts)" "Min (set ts) \<noteq> 0"
      using Min_in [of "set ts"] by auto
    then have "foldl earlier 0 (ts @ [t]) = earlier (Min (set ts)) t" by simp
    also have "\<dots> = min t (Min (set ts))" using \<open>Min (set ts) \<noteq> 0\<close> by (auto simp: earlier_def min_def)
    also have "\<dots> = Min (set (ts @ [t]))" using False by simp
    finally show ?thesis .
  qed (simp add: earlier_def)
qed simp

section \<open>A sample verification\<close>

definition sample_env :: venv where
  "sample_env =
     \<lparr>ve_ossl = sample_ossl, ve_parsers = sample_parsers, ve_fs = (\<lambda>_. None), ve_cert_dir = Some ''/etc'',
      ve_crl = (\<lambda>_. None), ve_crl_verify = (\<lambda>_ _. 1), ve_cmp_now = (\<lambda>_. 1), ve_x509_cmp = (\<lambda>_ _. 0),
      ve_error_string = (\<lambda>_. ''error'')\<rparr>"

definition sample_pvd :: pvd_desc where
  "sample_pvd = proxy_verify_init
     \<lparr>pv_magicnum = 0, pv_flags = 0, pv_pvxd = None, pv_recursive_depth = 0, pv_proxy_depth = 7, pv_cert_depth = 7,
      pv_limited_proxy = 7, pv_cert_chain = None, pv_multiple_limited_proxy_ok = 7\<rparr>
     (Some (proxy_verify_ctx_init \<lparr>px_magicnum = 0, px_certdir = Some ''x'', px_goodtill = 7\<rparr>))"

definition sample_state :: vstate where
  "sample_state =
     \<lparr>v_heap = (\<lambda>_. sample_cert [sample_cn ''a''] [sample_cn ''a''] []), v_error = 0, v_error_depth = 0,
      v_cert = 0, v_current_cert = Some 0, v_current_issuer = Some 0, v_chain = [0], v_pvd = Some sample_pvd, v_errs = []\<rparr>"

lemma sample_kind: "proxy_kind sample_ossl (sample_cert [sample_cn ''a''] [sample_cn ''a''] []) = 0"
  by (simp add: proxy_kind_def has_pci_def names_proxy_def last_is_cn_def sample_cert_def sample_cn_def)

lemma sample_check:
  "proxy_check_proxy_name sample_ossl (sample_cert [sample_cn ''a''] [sample_cn ''a''] []) es =
     Some (0, sample_cert [sample_cn ''a''] [sample_cn ''a''] [], errs_kept sample_ossl es)"
  by (subst proxy_check_kind)
     (simp_all add: sample_kind proxy_marked_def mark_proxy_def has_pci_def, simp_all add: sample_cert_def)

lemma sample_queue [simp]: "errs_kept o1 [] = []"
  by (simp add: errs_kept_def)

lemma sample_time_seconds: "ASN1_UTCTIME_mktime sample_time = Some 1893456000"
proof -
  have "sample_time = \<lparr>at_type = V_ASN1_UTCTIME, at_data = utc_text 30 1 1 0 0 @ dig2 0 @ ''Z''\<rparr>"
  proof -
    have d: "dig 1 = CHR ''1''" "dig 3 = CHR ''3''"
      using char_of_char [where 'a = nat, of "CHR ''1''"] char_of_char [where 'a = nat, of "CHR ''3''"]
      by (simp_all add: dig_def)
    show ?thesis by (simp add: sample_time_def utc_text_def dig2_def dig_0 d [simplified] V_ASN1_UTCTIME_def)
  qed
  then show ?thesis
    using mktime_zulu [of V_ASN1_UTCTIME "utc_text 30 1 1 0 0" 30 1 1 0 0 0]
    by (simp add: timegm_def days_before_year_def days_before_month_def tm_year_fix_def Let_def)
qed

lemma sample_callback:
  "\<exists>t. proxy_verify_callback sample_env 1 sample_state = Some (1, t)"
proof -
  have p: "proxy_stage sample_env sample_state = Next sample_state False"
    by (simp add: proxy_stage_def check_proxy_at_def sample_state_def sample_env_def sample_check fun_upd_idem)
  have c: "crl_stage sample_env 0 sample_state = Next sample_state ()"
    by (simp add: crl_stage_def sample_state_def sample_env_def)
  have q: "policy_stage sample_env 0 sample_state = Next sample_state ()"
    by (simp add: policy_stage_def sample_state_def sample_env_def sample_ossl_def sample_cert_def Let_def)
  obtain pv where l: "lifetime_stage sample_env 0 sample_state = Next (sample_state\<lparr>v_pvd := Some pv\<rparr>) ()"
      "pv_proxy_depth pv = 0"
    by (auto simp: lifetime_stage_def sample_state_def sample_cert_def sample_time_seconds sample_pvd_def
          proxy_verify_init_def upd_pvd_def)
  have k: "critical_stage sample_env 0 False (sample_state\<lparr>v_pvd := Some pv\<rparr>) = Next (sample_state\<lparr>v_pvd := Some pv\<rparr>) ()"
    by (simp add: critical_stage_def check_critical_extensions_def sample_state_def sample_cert_def)
  have e: "path_stage (sample_state\<lparr>v_pvd := Some pv\<rparr>) = Next (sample_state\<lparr>v_pvd := Some pv\<rparr>) ()"
    using l(2) by (simp add: path_stage_def sample_state_def path_too_long_def)
  have "v_current_cert sample_state = Some 0" "v_pvd sample_state = Some sample_pvd"
    "pv_magicnum sample_pvd = PVD_MAGIC_NUMBER"
    by (simp_all add: sample_state_def sample_pvd_def proxy_verify_init_def)
  with p c q l k e show ?thesis
    by (simp add: proxy_verify_callback_def cb_checks_def and_then_def)
qed

lemma callback_accept_sound_witness:
  "cert_ok sample_env sample_state 0"
proof -
  obtain t where "proxy_verify_callback sample_env 1 sample_state = Some (1, t)" using sample_callback by blast
  from callback_accept_sound [OF this, of sample_pvd 0] show ?thesis by (simp add: sample_state_def)
qed

section \<open>Properties of runs, rejections and set-up\<close>

text \<open>
  C3: accounting of a verification. After any run of calls that accepted the certificates cs,
  with any errors forgiven in between, the descriptor's proxy depth and certificate depth have
  grown by the number of proxies and of certificates, the limited flag is set exactly when a
  limited proxy was among them, none of these certificates was a misnamed proxy, no limited
  proxy signed another certificate unless that is allowed, and a fresh end of validity is the
  earliest of all.
\<close>

theorem verification_run:
  assumes "accepted_run env s cs t" "v_pvd s = Some p0" "pv_pvxd p0 = Some px0"
  shows "\<exists>p px. v_pvd t = Some p \<and> pv_pvxd p = Some px \<and>
    pv_proxy_depth p = pv_proxy_depth p0 + int (length (filter (\<lambda>(a, d). kind_at env s a > 0) cs)) \<and>
    pv_cert_depth p = pv_cert_depth p0 + int (length cs) \<and>
    (pv_limited_proxy p \<noteq> 0 \<longleftrightarrow> pv_limited_proxy p0 \<noteq> 0 \<or> list_ex (\<lambda>(a, d). kind_at env s a = 2) cs) \<and>
    list_all (\<lambda>(a, d). kind_at env s a \<ge> 0) cs \<and>
    (pv_multiple_limited_proxy_ok p0 = 0 \<longrightarrow> list_all (\<lambda>(a, d). kind_at env s a = 2 \<longrightarrow> d = 0) cs) \<and>
    (px_goodtill px0 = 0 \<and> cs \<noteq> [] \<and> list_all (\<lambda>(a, d). end_of s a \<noteq> 0) cs \<longrightarrow>
       px_goodtill px = Min (set (map (\<lambda>(a, d). end_of s a) cs)))"
proof -
  obtain p px where p: "v_pvd t = Some p" "pv_pvxd p = Some px" and st: "run_state env s p0 px0 cs p px"
    using run_invariant [OF assms] by blast
  have "px_goodtill px0 = 0 \<and> cs \<noteq> [] \<and> list_all (\<lambda>(a, d). end_of s a \<noteq> 0) cs \<longrightarrow>
       px_goodtill px = Min (set (map (\<lambda>(a, d). end_of s a) cs))"
  proof (intro impI, elim conjE)
    assume "px_goodtill px0 = 0" "cs \<noteq> []" and all: "list_all (\<lambda>(a, d). end_of s a \<noteq> 0) cs"
    have "px_goodtill px = foldl earlier 0 (map (\<lambda>(a, d). end_of s a) cs)"
      using st \<open>px_goodtill px0 = 0\<close> by (simp add: run_state_def)
    moreover have "\<forall>t \<in> set (map (\<lambda>(a, d). end_of s a) cs). t \<noteq> 0"
      using all by (auto simp: list_all_iff)
    ultimately show "px_goodtill px = Min (set (map (\<lambda>(a, d). end_of s a) cs))"
      using earlier_Min [of "map (\<lambda>(a, d). end_of s a) cs"] \<open>cs \<noteq> []\<close> by (metis map_is_Nil_conv)
  qed
  with p st show ?thesis unfolding run_state_def by blast
qed

lemma verification_run_witness:
  "\<exists>t p px. accepted_run sample_env sample_state [(0, 0)] t \<and> v_pvd t = Some p \<and> pv_pvxd p = Some px \<and>
     pv_proxy_depth p = 0 \<and> pv_cert_depth p = 1 \<and> pv_limited_proxy p = 0 \<and> px_goodtill px = 1893456000"
proof -
  obtain t where t: "proxy_verify_callback sample_env 1 sample_state = Some (1, t)" using sample_callback by blast
  have "presented sample_state sample_state" by (simp add: presented_def)
  from run_cert [OF run_start this _ _ t, of 0] have run: "accepted_run sample_env sample_state [(0, 0)] t"
    by (simp add: sample_state_def)
  have k: "kind_at sample_env sample_state 0 = 0" "end_of sample_state 0 = 1893456000"
    using sample_kind sample_time_seconds
    by (simp_all add: kind_at_def sample_env_def sample_state_def end_of_def sample_cert_def)
  have pv: "v_pvd sample_state = Some sample_pvd"
    "pv_pvxd sample_pvd = Some \<lparr>px_magicnum = PVXD_MAGIC_NUMBER, px_certdir = None, px_goodtill = 0\<rparr>"
    "pv_proxy_depth sample_pvd = 0" "pv_cert_depth sample_pvd = 0" "pv_limited_proxy sample_pvd = 0"
    by (simp_all add: sample_state_def sample_pvd_def proxy_verify_init_def proxy_verify_ctx_init_def)
  obtain p px where "v_pvd t = Some p" "pv_pvxd p = Some px"
     "pv_proxy_depth p = 0" "pv_cert_depth p = 1" "pv_limited_proxy p = 0" "px_goodtill px = 1893456000"
    using verification_run [OF run pv(1,2)] by (auto simp: pv k)
  with run show ?thesis by blast
qed

text \<open>What a stage that fails leaves: an error, and the queue not shorter.\<close>

definition failed_from :: "vstate \<Rightarrow> vstate \<Rightarrow> bool" where
  "failed_from s t \<longleftrightarrow> v_error t \<noteq> X509_V_OK \<and> v_current_cert t \<noteq> None \<and> length (v_errs s) \<le> length (v_errs t)"

lemma length_map_top [simp]: "length (map_top f es) = length es"
  by (cases es) auto

lemma queue_length [simp]:
  "length (v_errs (PRXYerr f r s)) = Suc (length (v_errs s))"
  "length (v_errs (ERR_set_continue_needed s)) = length (v_errs s)"
  "length (v_errs (ERR_add_error_data ds s)) = length (v_errs s)"
  "length (v_errs (report r s)) = Suc (length (v_errs s))"
  "length (v_errs (report_continue r s)) = Suc (length (v_errs s))"
  by (simp_all add: PRXYerr_def ERR_set_continue_needed_def ERR_add_error_data_def report_def report_continue_def)

lemma queue_frame [simp]:
  "v_current_cert (PRXYerr f r s) = v_current_cert s" "v_current_cert (ERR_set_continue_needed s) = v_current_cert s"
  "v_current_cert (ERR_add_error_data ds s) = v_current_cert s" "v_current_cert (report r s) = v_current_cert s"
  "v_current_cert (report_continue r s) = v_current_cert s"
  "v_error (ERR_set_continue_needed s) = v_error s" "v_error (ERR_add_error_data ds s) = v_error s"
  "v_error (report r s) = v_error s" "v_error (report_continue r s) = v_error s"
  by (simp_all add: PRXYerr_def ERR_set_continue_needed_def ERR_add_error_data_def report_def report_continue_def)

lemma mark_at_frame [simp]:
  "v_current_cert (mark_at env a s) = v_current_cert s" "v_errs (mark_at env a s) = errs_kept (ve_ossl env) (v_errs s)"
  "v_error (mark_at env a s) = v_error s"
  by (simp_all add: mark_at_def)

lemma errs_kept_le [simp]: "length (errs_kept o1 es) \<le> length es" "errs_kept o1 (errs_kept o1 es) = errs_kept o1 es"
  by (simp_all add: errs_kept_def)

lemma upd_pvd_frame [simp]:
  "v_current_cert (upd_pvd f s) = v_current_cert s" "v_errs (upd_pvd f s) = v_errs s"
  by (simp_all add: upd_pvd_def)

text \<open>The state with the queue as the classification of a certificate leaves it.\<close>

abbreviation classified :: "venv \<Rightarrow> vstate \<Rightarrow> vstate" where
  "classified env s \<equiv> s\<lparr>v_errs := errs_kept (ve_ossl env) (v_errs s)\<rparr>"

lemma proxy_stage_Fail: "proxy_stage env s = Fail t \<Longrightarrow> failed_from (classified env s) t"
  by (auto simp: proxy_stage_def failed_from_def verr_defs Let_def split: option.splits if_splits
      dest!: check_proxy_at_SomeD)

lemma revoked_loop_Fail:
  "revoked_loop env c rs s = Fail t \<Longrightarrow> v_current_cert s \<noteq> None \<Longrightarrow> failed_from s t"
  by (induction rs) (auto simp: failed_from_def verr_defs Let_def split: if_splits)

lemma crl_stage_Fail: "crl_stage env a s = Fail t \<Longrightarrow> v_current_cert s \<noteq> None \<Longrightarrow> failed_from s t"
  by (auto simp: crl_stage_def Let_def split: option.splits if_splits dest: revoked_loop_Fail)
     (auto simp: failed_from_def verr_defs)

lemma policy_stage_Fail: "policy_stage env a s = Fail t \<Longrightarrow> v_current_cert s \<noteq> None \<Longrightarrow> failed_from s t"
  by (auto simp: policy_stage_def Let_def failed_from_def verr_defs split: option.splits if_splits prod.splits)

lemma critical_stage_Fail: "critical_stage env a b s = Fail t \<Longrightarrow> v_current_cert s \<noteq> None \<Longrightarrow> failed_from s t"
  by (auto simp: critical_stage_def failed_from_def verr_defs split: if_splits)

lemma path_loop_Fail: "path_loop d i as s = Fail t \<Longrightarrow> failed_from s t"
  by (induction as arbitrary: i) (auto simp: failed_from_def verr_defs split: if_splits)

lemma path_stage_Fail: "path_stage s = Fail t \<Longrightarrow> failed_from s t"
  by (auto simp: path_stage_def split: if_splits option.splits dest: path_loop_Fail)

lemma lifetime_stage_Fail: "lifetime_stage env a s \<noteq> Fail t"
  by (auto simp: lifetime_stage_def split: option.splits)

lemma proxy_stage_Next_frame:
  "proxy_stage env s = Next t b \<Longrightarrow> v_current_cert t = v_current_cert s \<and> v_errs t = errs_kept (ve_ossl env) (v_errs s)"
  by (auto simp: proxy_stage_def Let_def split: option.splits if_splits dest!: check_proxy_at_SomeD)

lemma cb_checks_Fail: "cb_checks env s = Fail t \<Longrightarrow> failed_from (classified env s) t"
proof -
  assume f: "cb_checks env s = Fail t"
  show "failed_from (classified env s) t"
  proof (cases "proxy_stage env s")
    case (Next s1 b)
    note fr = proxy_stage_Next_frame [OF Next]
    from f Next obtain a where a: "v_current_cert s1 = Some a"
      by (auto simp: cb_checks_def and_then_def split: option.splits)
    have "failed_from s1 t"
      using f Next a crl_stage_Next policy_stage_Next lifetime_stage_Next critical_stage_Next
      by (auto simp: cb_checks_def and_then_Fail and_then_Next lifetime_stage_Fail split: if_splits
          dest!: crl_stage_Fail policy_stage_Fail critical_stage_Fail path_stage_Fail)
        (fastforce simp: failed_from_def)+
    with fr show ?thesis by (simp add: failed_from_def)
  qed (use f in \<open>auto simp: cb_checks_def and_then_def dest: proxy_stage_Fail\<close>)
qed

lemma top_added: "e_func (hd (v_errs (ERR_add_error_data ds (report r s)))) = PRXYERR_F_VERIFY_CB"
  by (simp add: ERR_add_error_data_def report_def PRXYerr_def)

lemma fail_report_queue:
  "v_current_cert s \<noteq> None \<Longrightarrow> length (v_errs (fail_report env s)) = Suc (length (v_errs s)) \<and>
     v_error (fail_report env s) = v_error s \<and> e_func (hd (v_errs (fail_report env s))) = PRXYERR_F_VERIFY_CB"
  by (auto simp: fail_report_def Let_def top_added)

lemma cb_explain_queue:
  "length (v_errs s) \<le> length (v_errs (cb_explain s)) \<and> v_current_cert (cb_explain s) = v_current_cert s \<and>
   v_error (cb_explain s) = v_error s"
  by (simp add: cb_explain_def)

lemma forgive_frame:
  assumes "cb_forgive env s = Some (b, t)"
  shows "length (errs_kept (ve_ossl env) (v_errs s)) \<le> length (v_errs t) \<and> v_current_cert t = v_current_cert s \<and>
    v_error t = v_error s"
  using assms unfolding cb_forgive_def Let_def
  by (auto split: if_splits option.splits prod.splits dest!: check_proxy_at_SomeD check_issued_at_SomeD)

text \<open>
  C26: no silent rejection. Whenever the callback returns 0 for a certificate, the newest entry of
  the error queue is one of the callback, and the queue is longer than before unless an identifier of
  ProxyCertInfo is not registered, in which case classifying the certificate has emptied it; and when it was
  the callback's own checks that failed (OpenSSL's had passed) the context holds an error code, so
  the caller cannot read the refusal as success.
\<close>

theorem callback_reject_reports:
  assumes "proxy_verify_callback env ok s = Some (0, t)" "v_current_cert s \<noteq> None"
  shows "v_errs t \<noteq> [] \<and> e_func (hd (v_errs t)) = PRXYERR_F_VERIFY_CB \<and>
    (pci_registered (ve_ossl env) \<longrightarrow> length (v_errs s) < length (v_errs t)) \<and>
    (ok \<noteq> 0 \<and> map_option pv_magicnum (v_pvd s) = Some PVD_MAGIC_NUMBER \<longrightarrow> v_error t \<noteq> X509_V_OK)"
proof (cases "(case v_pvd s of Some p \<Rightarrow> pv_magicnum p \<noteq> PVD_MAGIC_NUMBER | None \<Rightarrow> False)")
  case True
  with assms show ?thesis by (auto simp: proxy_verify_callback_def report_def PRXYerr_def split: option.splits)
next
  case magic: False
  have kept: "pci_registered (ve_ossl env) \<longrightarrow> errs_kept (ve_ossl env) es = es" for es :: "err_entry list"
    by (simp add: errs_kept_def)
  have longer: "v_errs u \<noteq> []" if "length (v_errs u) = Suc n" for u n using that by auto
  show ?thesis
  proof (cases "ok = 0")
    case True
    with assms magic obtain u where u: "cb_forgive env s = Some (False, u)" "t = fail_report env (cb_explain u)"
      by (auto simp: proxy_verify_callback_def split: option.splits if_splits)
    have c: "v_current_cert (cb_explain u) \<noteq> None" using forgive_frame [OF u(1)] cb_explain_queue [of u] assms(2) by simp
    show ?thesis
      using forgive_frame [OF u(1)] cb_explain_queue [of u] fail_report_queue [OF c, of env] True u(2) kept [of "v_errs s"]
        longer [of t] by auto
  next
    case False
    with assms magic obtain u where u: "cb_checks env s = Fail u" "t = fail_report env u"
      by (auto simp: proxy_verify_callback_def split: option.splits if_splits flow.splits)
    from cb_checks_Fail [OF u(1)] have f: "v_current_cert u \<noteq> None" "v_error u \<noteq> X509_V_OK"
        "length (errs_kept (ve_ossl env) (v_errs s)) \<le> length (v_errs u)" by (simp_all add: failed_from_def)
    show ?thesis using f(2,3) fail_report_queue [OF f(1), of env] u(2) kept [of "v_errs s"] longer [of t] by auto
  qed
qed

lemma callback_reject_reports_witness:
  "\<exists>t. proxy_verify_callback sample_env 0 (sample_state\<lparr>v_error := X509_V_ERR_CERT_HAS_EXPIRED\<rparr>) = Some (0, t) \<and>
       v_errs t \<noteq> [] \<and> e_func (hd (v_errs t)) = PRXYERR_F_VERIFY_CB"
proof -
  let ?s = "sample_state\<lparr>v_error := X509_V_ERR_CERT_HAS_EXPIRED\<rparr>"
  have "\<exists>t. proxy_verify_callback sample_env 0 ?s = Some (0, t)"
    by (simp add: proxy_verify_callback_def sample_state_def sample_pvd_def proxy_verify_init_def cb_forgive_def verr_defs)
  then obtain t where t: "proxy_verify_callback sample_env 0 ?s = Some (0, t)" by blast
  from callback_reject_reports [OF t] t show ?thesis by (auto simp: sample_state_def)
qed

text \<open>
  Which of OpenSSL's errors are forgiven. The path length and the refusal of proxies
  always; an invalid or missing issuer only when the leaf is a proxy and the issuer check of the
  proxies agrees; an unknown critical extension only when the leaf is a proxy with known ones;
  an untrusted certificate only when it is a proxy; an unverifiable leaf when the leaf's
  classification is not 0, which includes the misnamed proxies. Nothing else is.
\<close>

theorem forgiven_errors:
  assumes "proxy_verify_callback env 0 s = Some (1, t)"
  shows "v_error s \<in> {X509_V_ERR_PATH_LENGTH_EXCEEDED, X509_V_ERR_PROXY_CERTIFICATES_NOT_ALLOWED} \<or>
    v_error s = X509_V_ERR_UNABLE_TO_VERIFY_LEAF_SIGNATURE \<and> kind_at env s (v_cert s) \<noteq> 0 \<or>
    v_error s \<in> {X509_V_ERR_INVALID_CA, X509_V_ERR_UNABLE_TO_GET_ISSUER_CERT} \<and>
      kind_at env s (v_cert s) \<in> {1, 2} \<or>
    v_error s = X509_V_ERR_UNHANDLED_CRITICAL_EXTENSION \<and> kind_at env s (v_cert s) \<in> {1, 2} \<and>
      check_critical_extensions (ve_ossl env) (v_heap s (v_cert s)) 1 = 1 \<or>
    v_error s \<in> {X509_V_ERR_UNABLE_TO_GET_ISSUER_CERT_LOCALLY, X509_V_ERR_CERT_UNTRUSTED} \<and>
      (\<exists>a. v_current_cert s = Some a \<and> kind_at env s a \<in> {1, 2})"
proof -
  obtain u where u: "cb_forgive env s = Some (True, u)"
    using assms by (auto simp: proxy_verify_callback_def split: option.splits if_splits)
  have r: "1 \<le> kind_at env s a \<or> 0 < kind_at env s a \<Longrightarrow> kind_at env s a \<in> {1, 2}" for a
    using proxy_kind_range [of "ve_ossl env" "v_heap s a"] by (auto simp: kind_at_def)
  have e: "check_critical_extensions o1 (v_heap (mark_at env a s) a) 1 = check_critical_extensions o1 (v_heap s a) 1" for o1 a
    by (rule check_critical_exts) (simp add: mark_at_def)
  have c: "check_critical_extensions o1 x 1 \<noteq> 0 \<Longrightarrow> check_critical_extensions o1 x 1 = 1" for o1 x
    using critical_loop_01 [of o1 "my_txt2nid o1 PROXYCERTINFO_V3" "my_txt2nid o1 PROXYCERTINFO_V4" True "x_exts x"]
    by (auto simp: check_critical_extensions_def)
  have v: "v_cert (mark_at env a s) = v_cert s" for a by (simp add: mark_at_def)
  consider "v_error s \<in> {X509_V_ERR_PATH_LENGTH_EXCEEDED, X509_V_ERR_PROXY_CERTIFICATES_NOT_ALLOWED}"
    | (leaf) "v_error s = X509_V_ERR_UNABLE_TO_VERIFY_LEAF_SIGNATURE"
    | (issuer) "v_error s \<in> {X509_V_ERR_INVALID_CA, X509_V_ERR_UNABLE_TO_GET_ISSUER_CERT}"
    | (crit) "v_error s = X509_V_ERR_UNHANDLED_CRITICAL_EXTENSION"
    | (trust) "v_error s \<in> {X509_V_ERR_UNABLE_TO_GET_ISSUER_CERT_LOCALLY, X509_V_ERR_CERT_UNTRUSTED}"
    using u by (fastforce simp: cb_forgive_def Let_def split: if_splits)
  then show ?thesis
  proof cases
    case leaf
    with u have "kind_at env s (v_cert s) \<noteq> 0"
      by (auto simp: cb_forgive_def verr_defs split: option.splits if_splits dest!: check_proxy_at_SomeD)
    with leaf show ?thesis by blast
  next
    case issuer
    with u have "1 \<le> kind_at env s (v_cert s)"
      by (auto simp: cb_forgive_def verr_defs split: option.splits if_splits dest!: check_proxy_at_SomeD)
    with issuer r show ?thesis by blast
  next
    case crit
    with u obtain w where "check_proxy_at env (v_cert s) s = Some w" "fst w \<ge> 1"
        "check_critical_extensions (ve_ossl env) (v_heap (snd w) (v_cert (snd w))) 1 \<noteq> 0"
      by (auto simp: cb_forgive_def verr_defs split: option.splits)
    with check_proxy_at_SomeD [of env "v_cert s" s "fst w" "snd w"]
    have "1 \<le> kind_at env s (v_cert s)" "check_critical_extensions (ve_ossl env) (v_heap s (v_cert s)) 1 = 1"
      by (auto simp: v e intro: c)
    with crit r show ?thesis by blast
  next
    case trust
    with u obtain a where "v_current_cert s = Some a" "0 < kind_at env s a"
      by (auto simp: cb_forgive_def verr_defs split: option.splits if_splits dest!: check_proxy_at_SomeD)
    with trust r show ?thesis by blast
  qed blast
qed

lemma forgiven_errors_witness:
  "X509_V_ERR_PATH_LENGTH_EXCEEDED \<in> {X509_V_ERR_PATH_LENGTH_EXCEEDED, X509_V_ERR_PROXY_CERTIFICATES_NOT_ALLOWED}"
proof -
  let ?s = "sample_state\<lparr>v_error := X509_V_ERR_PATH_LENGTH_EXCEEDED\<rparr>"
  have "proxy_verify_callback sample_env 0 ?s = Some (1, ?s\<lparr>v_error := 0\<rparr>)"
    by (simp add: proxy_verify_callback_def sample_state_def sample_pvd_def proxy_verify_init_def cb_forgive_def)
  from forgiven_errors [OF this] show ?thesis by (auto simp: verr_defs sample_state_def)
qed

lemma visit_chain_evaluated:
  "visit_chain o1 chain ns is r = Some v \<Longrightarrow> \<forall>i \<in> set is. evaluate_cert o1 (chain ! i) ns \<noteq> None"
  by (induction "is" arbitrary: r) (auto split: option.splits)

lemma evaluated_evaluable:
  assumes "restriction_evaluate_namespace o1 chain ns = Some v"
  shows "evaluable o1 chain ns"
proof -
  obtain w where "visit_chain o1 chain ns (visit_order o1 chain) 0 = Some w"
    using assms by (auto simp: restriction_evaluate_namespace_def split: option.splits)
  from visit_chain_evaluated [OF this] show ?thesis
    by (simp add: visit_order_set evaluable_def list_all_length)
qed

text \<open>
  The policies at a full chain. When the chain ends in its self-signed root and begins with
  another certificate, the policy check of the callback rejects no certificate of it, whatever
  signing policies and namespaces are installed.
\<close>

theorem full_chain_never_rejected:
  assumes "v_chain s \<noteq> []" "isselfsigned (ve_ossl env) (v_heap s (last (v_chain s)))"
    and "\<not> isselfsigned (ve_ossl env) (v_heap s (hd (v_chain s)))"
  shows "policy_stage env a s \<noteq> Fail t"
proof
  let ?o = "ve_ossl env" and ?c = "map (v_heap s) (v_chain s)"
  assume "policy_stage env a s = Fail t"
  then obtain ns sg r where r: "restriction_evaluate ?o ?c ns sg = Some r" "r \<noteq> SUCCESS_PERMIT"
    by (auto simp: policy_stage_def Let_def split: if_splits option.splits prod.splits)
  then have ev: "evaluable ?o ?c ns"
    using evaluated_evaluable by (auto simp: restriction_evaluate_def split: option.splits)
  have "deciding_cert ?o ?c = v_heap s (last (v_chain s))"
    using assms by (simp add: deciding_cert_def hd_map last_map)
  moreover have "evaluate_cert ?o (v_heap s (last (v_chain s))) ns = Some SUCCESS_PERMIT"
    using assms(2) by (simp add: evaluate_cert_def)
  ultimately have "restriction_evaluate_namespace ?o ?c ns = Some SUCCESS_PERMIT"
    using namespace_last [OF ev] deciding_cert_last [of ?c ?o] assms(1)
    by (simp add: Let_def verdict_defs)
  with r show False by (simp add: restriction_evaluate_def verdict_defs)
qed

lemma full_chain_never_rejected_witness:
  "policy_stage sample_env 0
     (sample_state\<lparr>v_heap := (\<lambda>a. if a = 0 then sample_cert [sample_cn ''ab''] [sample_cn ''ca''] []
                                     else sample_cert [sample_cn ''ca''] [sample_cn ''ca''] []),
       v_chain := [0, 1]\<rparr>) \<noteq> Fail sample_state"
  by (rule full_chain_never_rejected) (simp_all add: sample_env_def sample_selfsigned)

text \<open>The certificates before the first one that is already there.\<close>

fun new_prefix :: "'a list \<Rightarrow> 'a list \<Rightarrow> 'a list" where
  "new_prefix seen [] = []"
| "new_prefix seen (x # xs) = (if x \<in> set seen then [] else x # new_prefix (seen @ [x]) xs)"

lemma store_loop_new:
  assumes "\<And>st x. add st x = (if x \<in> set st then Already else Added)"
  shows "store_loop add (Some u) chain st = Some (Some u, st @ new_prefix st chain)"
  by (induction chain arbitrary: st) (simp_all add: assms)

text \<open>
  The set-up of a verification. With the directory of trusted certificates attached the
  answer is exactly that of the verification of the user's certificate against the chain's
  certificates up to the first repeated one; when the directory cannot be attached the chain is
  accepted without any verification.
\<close>

theorem verify_cert_chain_answer:
  assumes "\<And>st x. add st x = (if x \<in> set st then Already else Added)" "pv_pvxd pvd = Some px"
  shows "proxy_verify_cert_chain add True verify (Some u) (Some chain) pvd =
      Some (if verify (Some u) (new_prefix [] chain) (px_certdir px) = 0 then 0 else 1) \<and>
    proxy_verify_cert_chain add False verify (Some u) (Some chain) pvd = Some 1"
  using store_loop_new [OF assms(1)] assms(2) by (simp add: proxy_verify_cert_chain_def)

lemma verify_cert_chain_answer_witness:
  "proxy_verify_cert_chain (\<lambda>st x. if x \<in> set st then Already else Added) True
     (\<lambda>u st d. if st = [1, 2] then 1 else 0) (Some 0) (Some [1, 2, 1, 3]) sample_pvd = Some 1"
proof -
  have "pv_pvxd sample_pvd = Some (proxy_verify_ctx_init \<lparr>px_magicnum = 0, px_certdir = Some ''x'', px_goodtill = 7\<rparr>)"
    by (simp add: sample_pvd_def proxy_verify_init_def)
  from verify_cert_chain_answer [OF refl this] show ?thesis by simp
qed

end
