(* ===== verification/DistName.thy ===== *)
theory DistName
  imports ProxyName
begin

text \<open>
  The parser of slash-separated names (\<open>make_DN\<close>, \<open>reencode_string\<close> and \<open>hextoint\<close> of
  src/src/sslutils/sslutils.c, \<open>hex2num\<close> of src/src/common/data.cc), which gives the subject and
  the issuer of a certificate when the user sets them.

  Memory allocation succeeds in this theory: the sources do not test the blocks they allocate.
  The table of attribute types (\<open>OBJ_txt2obj\<close>) is a parameter.
\<close>

section \<open>The code\<close>

definition hex2num :: "char \<Rightarrow> int" where
  "hex2num c =
     (if isdigit c then digit_val c
      else (let d = (of_char (tolower c) :: nat) in if 97 \<le> d \<and> d \<le> 102 then int d - 97 + 10 else 0))"

definition hextoint :: "char \<Rightarrow> char \<Rightarrow> char" where
  "hextoint r s =
     (if isxdigit r \<and> isxdigit s then char_of (nat (hex2num r * 16 + hex2num s)) else NUL)"

text \<open>
  \<open>reencode_string\<close>: the bytes written. They go to the buffer that is read, at or before the
  position last read, so no byte is read after it was overwritten. A backslash that ends the
  string, alone or with one hexadecimal digit, moves the reading past the terminator, which is
  \<open>None\<close>. After an escaped backslash the reading stays on its second character.
\<close>

function reencode_string :: "cstring \<Rightarrow> bytes option" where
  "reencode_string [] = Some []"
| "reencode_string (c # s) =
     (if c = CHR 0x5C then
        (case s of
           [] \<Rightarrow> None
         | t # s' \<Rightarrow>
             if t = CHR 0x5C then map_option ((#) (CHR 0x5C)) (reencode_string s)
             else if isxdigit t then
               (case s' of
                  [] \<Rightarrow> None
                | r # s'' \<Rightarrow> map_option ((#) (hextoint (tolower t) (tolower r))) (reencode_string s''))
             else map_option ((#) t) (reencode_string s'))
      else map_option ((#) c) (reencode_string s))"
  by pat_completeness auto
termination by (relation "measure length") auto

declare reencode_string.simps [simp del]

text \<open>
  The two states of the parser: the type up to an equals sign (\<open>None\<close> when the string ends
  first), and the value up to a slash, which stays in the rest.
\<close>

fun dn_type :: "cstring \<Rightarrow> (cstring \<times> cstring) option" where
  "dn_type [] = None"
| "dn_type (c # s) =
     (if c = CHR 0x5C then
        (case s of [] \<Rightarrow> None | d # s' \<Rightarrow> map_option (apfst ((#) d)) (dn_type s'))
      else if c = CHR ''='' then Some ([], s)
      else map_option (apfst ((#) c)) (dn_type s))"

fun dn_value :: "cstring \<Rightarrow> cstring \<times> cstring" where
  "dn_value [] = ([], [])"
| "dn_value (c # s) =
     (if c = CHR 0x5C then
        (case s of
           [] \<Rightarrow> ([], [])
         | d # s' \<Rightarrow>
             if d \<noteq> CHR ''/'' then apfst (\<lambda>v. CHR 0x5C # d # v) (dn_value s')
             else apfst ((#) (CHR ''/'')) (dn_value s'))
      else if c = CHR ''/'' then ([], c # s)
      else apfst ((#) c) (dn_value s))"

text \<open>
  \<open>X509_NAME_add_entry_by_txt\<close>, whose answer the sources do not look at: a type that is not in
  the table adds nothing.
\<close>

definition add_entry_by_txt :: "(cstring \<Rightarrow> oid option) \<Rightarrow> xname \<Rightarrow> cstring \<Rightarrow> bytes \<Rightarrow> xname" where
  "add_entry_by_txt txt2obj n ty val =
     (case txt2obj ty of None \<Rightarrow> n | Some obj \<Rightarrow> add_entry n obj val)"

lemma dn_type_shorter: "dn_type s = Some (ty, r) \<Longrightarrow> length r < length s"
proof (induction s arbitrary: ty r rule: dn_type.induct)
  case (2 c s)
  then show ?case by (fastforce split: if_splits list.splits simp: less_Suc_eq)
qed simp

lemma dn_value_cases:
  "dn_value (CHR 0x5C # []) = ([], [])"
  "dn_value (CHR 0x5C # CHR ''/'' # s) = apfst ((#) (CHR ''/'')) (dn_value s)"
  "d \<noteq> CHR ''/'' \<Longrightarrow> dn_value (CHR 0x5C # d # s) = apfst (\<lambda>v. CHR 0x5C # d # v) (dn_value s)"
  "dn_value (CHR ''/'' # s) = ([], CHR ''/'' # s)"
  "c \<noteq> CHR 0x5C \<Longrightarrow> c \<noteq> CHR ''/'' \<Longrightarrow> dn_value (c # s) = apfst ((#) c) (dn_value s)"
  by simp_all

lemma dn_value_shorter: "length (snd (dn_value s)) \<le> length s"
proof (induction s rule: length_induct)
  case (1 s)
  show ?case
    by (cases s; cases "hd s = CHR 0x5C"; cases "hd s = CHR ''/''"; cases "tl s"; cases "hd (tl s) = CHR ''/''")
      (auto simp del: dn_value.simps(2) simp: dn_value_cases intro!: le_trans [OF 1 [rule_format]])
qed

lemma dn_value_shorter_eq: "(v, r) = dn_value s \<Longrightarrow> length r \<le> length s"
  using dn_value_shorter [of s] by (metis snd_conv)

text \<open>
  \<open>make_DN\<close>: the loop over the components. The outer \<open>None\<close> is undefined behaviour, an empty
  type (whose second character is read) or the reading of \<open>reencode_string\<close>; the inner one is
  NULL. The loop ends as soon as the string does, after a type as after a value.
\<close>

function dn_loop :: "(cstring \<Rightarrow> oid option) \<Rightarrow> xname \<Rightarrow> cstring \<Rightarrow> xname option option" where
  "dn_loop txt2obj n s =
     (case dn_type s of
        None \<Rightarrow> Some None
      | Some (ty, r) \<Rightarrow>
          if r = [] then Some (Some n)
          else (case dn_value r of (v, r') \<Rightarrow>
                  if v = [] then Some None
                  else if ty = [] then None
                  else (case reencode_string v of
                          None \<Rightarrow> None
                        | Some b \<Rightarrow>
                            (let n' = add_entry_by_txt txt2obj n (tl ty) b
                             in if r' = [] then Some (Some n') else dn_loop txt2obj n' r'))))"
  by pat_completeness auto
termination
  by (relation "measure (\<lambda>(_, _, s). length s)")
    (auto dest!: dn_type_shorter dn_value_shorter_eq)

declare dn_loop.simps [simp del]

definition make_DN :: "(cstring \<Rightarrow> oid option) \<Rightarrow> cstring \<Rightarrow> xname option option" where
  "make_DN txt2obj dnstring = dn_loop txt2obj [] dnstring"

section \<open>Printed names are read back\<close>

text \<open>
  A way to write any name: backslash and equals sign of a type behind a backslash, the slash of
  a value behind a backslash, and the backslash and NUL of a value by their hexadecimal code.
\<close>

definition escape_type :: "cstring \<Rightarrow> cstring" where
  "escape_type t = concat (map (\<lambda>c. if c = CHR 0x5C \<or> c = CHR ''='' then [CHR 0x5C, c] else [c]) t)"

definition escape_byte :: "char \<Rightarrow> cstring" where
  "escape_byte c =
     (if c = CHR ''/'' then [CHR 0x5C, CHR ''/'']
      else if c = CHR 0x5C then [CHR 0x5C, CHR ''5'', CHR ''c'']
      else if c = NUL then [CHR 0x5C, CHR ''0'', CHR ''0''] else [c])"

definition print_rdn :: "cstring \<times> bytes \<Rightarrow> cstring" where
  "print_rdn tv = CHR ''/'' # escape_type (fst tv) @ CHR ''='' # concat (map escape_byte (snd tv))"

definition print_DN :: "(cstring \<times> bytes) list \<Rightarrow> cstring" where
  "print_DN rdns = concat (map print_rdn rdns)"

text \<open>The name with these entries, without the types that are not in the table.\<close>

definition build_DN :: "(cstring \<Rightarrow> oid option) \<Rightarrow> xname \<Rightarrow> (cstring \<times> bytes) list \<Rightarrow> xname" where
  "build_DN txt2obj = foldl (\<lambda>n tv. add_entry_by_txt txt2obj n (fst tv) (snd tv))"

lemma build_DN_simps [simp]:
  "build_DN txt2obj n [] = n"
  "build_DN txt2obj n (tv # rdns) = build_DN txt2obj (add_entry_by_txt txt2obj n (fst tv) (snd tv)) rdns"
  by (simp_all add: build_DN_def)

lemma print_DN_simps [simp]:
  "print_DN [] = []" "print_DN (tv # rdns) = print_rdn tv @ print_DN rdns"
  by (simp_all add: print_DN_def)

lemma escape_type_simps [simp]:
  "escape_type [] = []"
  "escape_type (c # t) = (if c = CHR 0x5C \<or> c = CHR ''='' then CHR 0x5C # c # escape_type t else c # escape_type t)"
  by (simp_all add: escape_type_def)

lemma dn_type_escaped: "dn_type (escape_type t @ CHR ''='' # s) = Some (t, s)"
  by (induction t) auto

text \<open>What the first pass over a printed value leaves for the second.\<close>

definition half_byte :: "char \<Rightarrow> cstring" where
  "half_byte c = (if c = CHR ''/'' then [c] else escape_byte c)"

definition value_end :: "cstring \<Rightarrow> bool" where
  "value_end r \<longleftrightarrow> r = [] \<or> hd r = CHR ''/''"

lemma dn_value_end: "value_end r \<Longrightarrow> dn_value r = ([], r)"
  by (cases r) (auto simp: value_end_def)

lemma dn_value_byte: "dn_value (escape_byte c @ s) = apfst ((@) (half_byte c)) (dn_value s)"
  by (cases "dn_value s") (auto simp: escape_byte_def half_byte_def NUL_def simp del: dn_value.simps(2)
      simp: dn_value_cases)

lemma dn_value_escaped:
  "value_end r \<Longrightarrow> dn_value (concat (map escape_byte v) @ r) = (concat (map half_byte v), r)"
  by (induction v) (simp_all add: dn_value_end dn_value_byte)

lemma char_of_special: "char_of (92 :: nat) = CHR 0x5C" "char_of (0 :: nat) = CHR 0x00"
  using char_of_char [where 'a = nat, of "CHR 0x5C"] char_of_char [where 'a = nat, of "CHR 0x00"] by simp_all

lemma hextoint_special: "hextoint (tolower (CHR ''5'')) (tolower (CHR ''c'')) = CHR 0x5C"
  "hextoint (tolower (CHR ''0'')) (tolower (CHR ''0'')) = NUL"
  by (simp_all add: hextoint_def hex2num_def isxdigit_def isdigit_def digit_val_def tolower_def NUL_def char_of_special)

lemma reencode_cases:
  "c \<noteq> CHR 0x5C \<Longrightarrow> reencode_string (c # s) = map_option ((#) c) (reencode_string s)"
  "isxdigit t \<Longrightarrow> reencode_string (CHR 0x5C # t # r # s) =
     map_option ((#) (hextoint (tolower t) (tolower r))) (reencode_string s)"
  by (auto simp: reencode_string.simps isxdigit_def isdigit_def)

lemma reencode_byte: "reencode_string (half_byte c @ s) = map_option ((#) c) (reencode_string s)"
proof -
  have "isxdigit (CHR ''5'')" "isxdigit (CHR ''0'')" by (simp_all add: isxdigit_def isdigit_def)
  then show ?thesis
    by (auto simp: half_byte_def escape_byte_def reencode_cases hextoint_special)
qed

lemma reencode_half: "reencode_string (concat (map half_byte v)) = Some v"
  by (induction v) (simp_all add: reencode_byte reencode_string.simps(1))

lemma half_byte_nonempty [simp]: "half_byte c \<noteq> []"
  by (simp add: half_byte_def escape_byte_def)

lemma escape_byte_nonempty [simp]: "escape_byte c \<noteq> []"
  by (simp add: escape_byte_def)

lemma value_end_DN: "value_end (print_DN rdns)"
  by (cases rdns) (simp_all add: value_end_def print_rdn_def)

lemma dn_type_rdn: "dn_type (print_rdn tv @ s) = Some (CHR ''/'' # fst tv, concat (map escape_byte (snd tv)) @ s)"
  by (simp add: print_rdn_def dn_type_escaped)

text \<open>One component of a printed name.\<close>

lemma dn_loop_rdn:
  assumes "snd tv \<noteq> []" "value_end s"
  shows "dn_loop txt2obj n (print_rdn tv @ s) =
    (let n' = add_entry_by_txt txt2obj n (fst tv) (snd tv) in if s = [] then Some (Some n') else dn_loop txt2obj n' s)"
  using assms
  by (subst dn_loop.simps)
    (simp add: dn_type_rdn dn_value_escaped reencode_half Let_def concat_eq_Nil_conv)

lemma dn_loop_DN:
  "rdns \<noteq> [] \<Longrightarrow> list_all (\<lambda>tv. snd tv \<noteq> []) rdns \<Longrightarrow>
     dn_loop txt2obj n (print_DN rdns) = Some (Some (build_DN txt2obj n rdns))"
proof (induction rdns arbitrary: n)
  case (Cons tv rdns)
  then show ?case
    using dn_loop_rdn [of tv "print_DN rdns" txt2obj n] value_end_DN [of rdns]
    by (cases rdns) (auto simp: Let_def print_rdn_def)
qed simp

text \<open>
  C20: names survive printing. The parser gives back the entries of every name written with
  these escapes, whatever bytes its values hold, as long as no value is empty; the
  entries whose type is not in the table are left out.
\<close>

theorem make_DN_round_trip:
  assumes "rdns \<noteq> []" "list_all (\<lambda>tv. snd tv \<noteq> []) rdns"
  shows "make_DN txt2obj (print_DN rdns) = Some (Some (build_DN txt2obj [] rdns))"
  using dn_loop_DN [OF assms] by (simp add: make_DN_def)

lemma make_DN_round_trip_witness:
  "make_DN (\<lambda>t. if t = ''CN'' then Some oid_commonName else None)
      (print_DN [(''O'', ''CERN''), (''CN'', ''host/voms.cern.ch'')]) =
    Some (Some [\<lparr>ne_object = oid_commonName, ne_value = ''host/voms.cern.ch'', ne_set = 0\<rparr>]) \<and>
   print_DN [(''O'', ''CERN''), (''CN'', ''host/voms.cern.ch'')] = ''/O=CERN/CN=host'' @ [CHR 0x5C] @ ''/voms.cern.ch''"
  by (subst make_DN_round_trip)
    (simp_all add: add_entry_by_txt_def add_entry_def print_rdn_def escape_byte_def NUL_def)

text \<open>A component without a value.\<close>

lemma dn_loop_no_value:
  "dn_loop txt2obj n (print_rdn (ty, [])) = Some (Some n)"
  "dn_loop txt2obj n (print_rdn (ty, []) @ CHR ''/'' # s) = Some None"
  using dn_type_rdn [of "(ty, [])" "[]"] dn_type_rdn [of "(ty, [])" "CHR ''/'' # s"]
  by (simp_all add: dn_loop.simps [of txt2obj n])

lemma dn_loop_DN_append:
  assumes "rdns \<noteq> []" "list_all (\<lambda>tv. snd tv \<noteq> []) rdns" "s \<noteq> []" "hd s = CHR ''/''"
  shows "dn_loop txt2obj n (print_DN rdns @ s) = dn_loop txt2obj (build_DN txt2obj n rdns) s"
  using assms
proof (induction rdns arbitrary: n)
  case (Cons tv rdns)
  have "value_end (print_DN rdns @ s)"
    using value_end_DN [of rdns] Cons.prems by (cases "print_DN rdns") (auto simp: value_end_def)
  with Cons show ?case
    using dn_loop_rdn [of tv "print_DN rdns @ s" txt2obj n] by (cases rdns) (auto simp: Let_def)
qed simp

text \<open>
  Empty values. A last component without a value is dropped and the name is accepted,
  while the same component anywhere else makes the whole name NULL.
\<close>

theorem make_DN_empty_value:
  assumes "rdns \<noteq> []" "list_all (\<lambda>tv. snd tv \<noteq> []) rdns"
  shows "make_DN txt2obj (print_DN (rdns @ [(ty, [])])) = make_DN txt2obj (print_DN rdns) \<and>
    make_DN txt2obj (print_DN (rdns @ [(ty, []), tv])) = Some None"
proof -
  have ne: "print_rdn tv @ s \<noteq> []" "hd (print_rdn tv @ s) = CHR ''/''" for tv s
    by (simp_all add: print_rdn_def)
  have "make_DN txt2obj (print_DN (rdns @ [(ty, [])])) = dn_loop txt2obj (build_DN txt2obj [] rdns) (print_rdn (ty, []))"
    using dn_loop_DN_append [OF assms, of "print_rdn (ty, [])"] ne [of _ "[]"] by (simp add: make_DN_def print_DN_def)
  moreover obtain s where s: "print_rdn tv = CHR ''/'' # s" by (simp add: print_rdn_def)
  then have "make_DN txt2obj (print_DN (rdns @ [(ty, []), tv])) =
      dn_loop txt2obj (build_DN txt2obj [] rdns) (print_rdn (ty, []) @ CHR ''/'' # s)"
    using dn_loop_DN_append [OF assms, of "print_rdn (ty, []) @ print_rdn tv"] ne by (simp add: make_DN_def print_DN_def)
  ultimately show ?thesis
    using dn_loop_DN [OF assms, of txt2obj "[]"] by (simp add: dn_loop_no_value make_DN_def)
qed

lemma make_DN_empty_value_witness:
  "make_DN (\<lambda>t. Some t) (print_DN ([(''O'', ''CERN'')] @ [(''CN'', [])])) =
     make_DN (\<lambda>t. Some t) (print_DN [(''O'', ''CERN'')]) \<and>
   make_DN (\<lambda>t. Some t) (print_DN ([(''O'', ''CERN'')] @ [(''CN'', []), (''C'', ''IT'')])) = Some None"
  by (rule make_DN_empty_value) simp_all

end
