(* ===== verification/Step.thy ===== *)
theory Step
  imports Main
begin

text \<open>
  Functions that leave through a label \<open>err\<close>: a step is undefined behaviour, a jump to the label
  with the errors queued (function and reason codes), or a value to go on with.
\<close>

definition int32 :: "int \<Rightarrow> int option" where
  "int32 x = (if - (2 ^ 31) \<le> x \<and> x < 2 ^ 31 then Some x else None)"

datatype 'a step = Wild | Stop "(int \<times> int) list" | Go 'a

definition after :: "'a step \<Rightarrow> ('a \<Rightarrow> 'b step) \<Rightarrow> 'b step" where
  "after m f = (case m of Wild \<Rightarrow> Wild | Stop es \<Rightarrow> Stop es | Go x \<Rightarrow> f x)"

lemma after_simps [simp]: "after Wild f = Wild" "after (Stop es) f = Stop es" "after (Go x) f = f x"
  by (simp_all add: after_def)

lemma after_Go: "after m f = Go y \<longleftrightarrow> (\<exists>x. m = Go x \<and> f x = Go y)"
  by (cases m) simp_all

definition need :: "bool \<Rightarrow> (int \<times> int) list \<Rightarrow> unit step" where
  "need b es = (if b then Go () else Stop es)"

lemma need_Go [simp]: "need b es = Go u \<longleftrightarrow> b"
  by (simp add: need_def)

definition trust :: "'a option \<Rightarrow> 'a step" where
  "trust x = (case x of None \<Rightarrow> Wild | Some a \<Rightarrow> Go a)"

lemma trust_Go [simp]: "trust x = Go a \<longleftrightarrow> x = Some a"
  by (simp add: trust_def split: option.splits)

text \<open>A value that may be NULL for lack of memory.\<close>

definition alloc :: "'a option \<Rightarrow> (int \<times> int) list \<Rightarrow> 'a step" where
  "alloc x es = (case x of None \<Rightarrow> Stop es | Some a \<Rightarrow> Go a)"

lemma alloc_Go [simp]: "alloc x es = Go a \<longleftrightarrow> x = Some a"
  by (simp add: alloc_def split: option.splits)

lemma step_Go_simps [simp]: "need True es = Go ()" "trust (Some a) = Go a" "alloc (Some a) es = Go a"
  by (simp_all add: need_def trust_def alloc_def)

end
