(* ===== verification/ProxySign.thy ===== *)
theory ProxySign
  imports DistName UtcTime Step "HOL-Library.Monad_Syntax"
begin

text \<open>
  The signing of proxy certificates (\<open>proxy_sign\<close> and \<open>proxy_sign_ext\<close> of
  src/src/sslutils/sslutils.c) and the request a proxy starts from (\<open>proxy_genreq\<close>).

  What OpenSSL computes (digests, signatures, keys, the printing of a time) and which of its
  calls fail is a parameter, the record \<open>sign_env\<close>. Both functions return their code, what
  they leave in \<open>*new_cert\<close>, the request (whose key the certificate takes over) and the errors
  they queued; \<open>None\<close> is undefined behaviour: a NULL pointer that is dereferenced, a buffer
  that is overrun, memory that is freed twice, an \<open>int\<close> that overflows.
\<close>

section \<open>Data\<close>

record x509_req =
  rq_subject :: xname
  rq_pubkey :: "pkey option"
  rq_sig_alg :: oid

text \<open>A new certificate: version and signature beside the fields of every certificate.\<close>

record new_x509 = x509 +
  n_version :: int
  n_sig :: "(cstring \<times> pkey) option"

text \<open>
  What \<open>*new_cert\<close> holds: what the caller left there, NULL, a pointer to freed memory, or the
  certificate.
\<close>

datatype out_cert = Untouched | Null_cert | Freed_cert | New_cert new_x509

text \<open>
  \<open>se_mem n\<close> says whether the \<open>n\<close>-th call that may fail for memory succeeds, \<open>se_clock n\<close> is
  the \<open>n\<close>-th reading of the clock. \<open>se_hex2bn\<close> is \<open>None\<close> when \<open>BN_hex2bn\<close> returns 0.
\<close>

record sign_env =
  se_mem :: "nat \<Rightarrow> bool"
  se_clock :: "nat \<Rightarrow> int"
  se_gmtime :: "int \<Rightarrow> asn1_time"
  se_md_of :: "oid \<Rightarrow> cstring option"
  se_digest :: "cstring \<Rightarrow> pkey \<Rightarrow> bytes"
  se_key_ok :: "pkey \<Rightarrow> bool"
  se_verify :: "x509_req \<Rightarrow> pkey \<Rightarrow> int"
  se_hex2bn :: "cstring \<Rightarrow> int option"
  se_sign_ok :: "cstring \<Rightarrow> pkey \<Rightarrow> bool"
  se_txt2obj :: "cstring \<Rightarrow> oid option"

definition PRXYERR_F_PROXY_GENREQ :: int where "PRXYERR_F_PROXY_GENREQ = 100"
definition PRXYERR_F_PROXY_SIGN :: int where "PRXYERR_F_PROXY_SIGN = 101"
definition PRXYERR_F_PROXY_SIGN_EXT :: int where "PRXYERR_F_PROXY_SIGN_EXT = 109"
definition PRXYERR_F_PROXY_CONSTRUCT_NAME :: int where "PRXYERR_F_PROXY_CONSTRUCT_NAME = 111"
definition PRXYERR_R_PROCESS_PROXY_KEY :: int where "PRXYERR_R_PROCESS_PROXY_KEY = 1001"
definition PRXYERR_R_PROCESS_REQ :: int where "PRXYERR_R_PROCESS_REQ = 1002"
definition PRXYERR_R_PROCESS_SIGN :: int where "PRXYERR_R_PROCESS_SIGN = 1003"
definition PRXYERR_R_MALFORM_REQ :: int where "PRXYERR_R_MALFORM_REQ = 1004"
definition PRXYERR_R_SIG_VERIFY :: int where "PRXYERR_R_SIG_VERIFY = 1005"
definition PRXYERR_R_SIG_BAD :: int where "PRXYERR_R_SIG_BAD = 1006"
definition PRXYERR_R_PROCESS_PROXY :: int where "PRXYERR_R_PROCESS_PROXY = 1007"
definition PRXYERR_R_PROCESS_SIGNC :: int where "PRXYERR_R_PROCESS_SIGNC = 1009"
definition PRXYERR_R_DELEGATE_COPY :: int where "PRXYERR_R_DELEGATE_COPY = 1047"

definition SHA_DIGEST_LENGTH :: nat where "SHA_DIGEST_LENGTH = 20"

text \<open>\<open>sig_algo\<close> as both functions choose it.\<close>

definition request_md :: "sign_env \<Rightarrow> x509_req \<Rightarrow> cstring" where
  "request_md env req = (case se_md_of env (rq_sig_alg req) of Some m \<Rightarrow> m | None \<Rightarrow> ''SHA1'')"

section \<open>The steps of the signing\<close>

text \<open>The checks of the request; the result is its key.\<close>

definition check_request :: "sign_env \<Rightarrow> x509_req \<Rightarrow> pkey step" where
  "check_request env req =
     (case rq_pubkey req of
        None \<Rightarrow> Stop [(PRXYERR_F_PROXY_SIGN, PRXYERR_R_MALFORM_REQ)]
      | Some k \<Rightarrow>
          if \<not> se_key_ok env k then Stop [(PRXYERR_F_PROXY_SIGN_EXT, PRXYERR_R_MALFORM_REQ)]
          else (let i = se_verify env req k
                in if i < 0 then Stop [(PRXYERR_F_PROXY_SIGN_EXT, PRXYERR_R_SIG_VERIFY)]
                   else if i = 0 then Stop [(PRXYERR_F_PROXY_SIGN_EXT, PRXYERR_R_SIG_BAD)]
                   else Go k))"

text \<open>The number with these bytes, most significant first.\<close>

definition bytes_value :: "bytes \<Rightarrow> int" where
  "bytes_value bs = foldl (\<lambda>n b. n * 256 + int (of_char b)) 0 bs"

text \<open>
  The serial number. The digest goes to a buffer of 20 bytes and 20 bytes of it are copied to
  a block of the digest's length.
\<close>

definition new_serial ::
  "sign_env \<Rightarrow> cstring \<Rightarrow> pkey \<Rightarrow> x509 option \<Rightarrow> int \<Rightarrow> cstring option \<Rightarrow> int \<Rightarrow> int step" where
  "new_serial env md key user proxyver newserial selfsigned =
     (let failed = [(PRXYERR_F_PROXY_SIGN_EXT, PRXYERR_R_PROCESS_PROXY)]
      in case newserial of
           Some hex \<Rightarrow>
             (case se_hex2bn env hex of
                None \<Rightarrow> Go 0
              | Some bn \<Rightarrow> after (need (se_mem env 2) failed) (\<lambda>_. Go bn))
         | None \<Rightarrow>
             if proxyver > 2 then
               (let d = se_digest env md key
                in if length d > SHA_DIGEST_LENGTH \<or> \<not> se_mem env 2 then Wild
                   else after (need (se_mem env 3) failed) (\<lambda>_.
                          if length d < SHA_DIGEST_LENGTH then Wild else Go (bytes_value d)))
             else if selfsigned \<noteq> 0 then after (need (se_mem env 2) []) (\<lambda>_. Go 1)
             else (case user of
                     None \<Rightarrow> Wild
                   | Some u \<Rightarrow> after (need (se_mem env 2) failed) (\<lambda>_. Go (x_serial u))))"

definition new_issuer :: "sign_env \<Rightarrow> x509 option \<Rightarrow> xname option \<Rightarrow> xname step" where
  "new_issuer env user issuer_name =
     after (case issuer_name of Some n \<Rightarrow> Go n | None \<Rightarrow> trust (map_option x_subject user)) (\<lambda>n.
     after (need (se_mem env 4) [(PRXYERR_F_PROXY_SIGN_EXT, PRXYERR_R_PROCESS_PROXY)]) (\<lambda>_. Go n))"

text \<open>
  The dates: \<open>notBefore\<close> five minutes before the clock, and \<open>notAfter\<close> from the seconds asked
  for or from the user's certificate. The first three readings of the clock are those of the
  three calls of \<open>X509_gmtime_adj\<close>.
\<close>

definition new_dates :: "sign_env \<Rightarrow> x509 option \<Rightarrow> int \<Rightarrow> int \<Rightarrow> int \<Rightarrow> (asn1_time \<times> asn1_time) step" where
  "new_dates env user seconds pastproxy selfsigned =
     after (trust (int32 (-300 - pastproxy))) (\<lambda>b.
     let before = se_gmtime env (se_clock env 0 + b)
     in if selfsigned \<noteq> 0 then Go (before, se_gmtime env (se_clock env 2 + (seconds - pastproxy)))
        else
          after (trust (int32 (- pastproxy))) (\<lambda>p.
          after (trust (ASN1_UTCTIME_mktime (se_gmtime env (se_clock env 1 + p)))) (\<lambda>time_now.
          after (trust user) (\<lambda>u.
          after (trust (ASN1_UTCTIME_mktime (x_notAfter u))) (\<lambda>time_after.
          after (trust (int32 (seconds - pastproxy))) (\<lambda>limit.
            if time_after - time_now > limit
            then Go (before, se_gmtime env (se_clock env 2 + (seconds - pastproxy)))
            else Go (before, x_notAfter u)))))))"

text \<open>
  The copy of the extensions, from the \<open>i\<close>-th on. When the new stack could not be made (\<open>\<not> stk\<close>)
  the error is queued and the loop entered all the same.
\<close>

fun copy_exts :: "sign_env \<Rightarrow> bool \<Rightarrow> nat \<Rightarrow> x509_extension list \<Rightarrow> x509_extension list step" where
  "copy_exts env stk i [] = Go []"
| "copy_exts env stk i (e # es) =
     after (need (se_mem env (7 + 2 * i)) [(PRXYERR_F_PROXY_SIGN_EXT, PRXYERR_R_DELEGATE_COPY)]) (\<lambda>_.
     after (need (stk \<and> se_mem env (8 + 2 * i)) [(PRXYERR_F_PROXY_SIGN_EXT, PRXYERR_R_DELEGATE_COPY)]) (\<lambda>_.
     after (copy_exts env stk (Suc i) es) (\<lambda>r. Go (e # r))))"

text \<open>\<open>X509_new\<close>.\<close>

definition blank_cert :: new_x509 where
  "blank_cert = \<lparr>x_subject = [], x_issuer = [], x_serial = 0,
     x_notBefore = \<lparr>at_type = V_ASN1_UTCTIME, at_data = []\<rparr>, x_notAfter = \<lparr>at_type = V_ASN1_UTCTIME, at_data = []\<rparr>,
     x_pubkey = None, x_exts = [], x_ex_flags = 0, x_ex_pathlen = -1, x_ex_pcpathlen = 0,
     n_version = 0, n_sig = None\<rparr>"

section \<open>The functions\<close>

text \<open>The certificate before the key of the request is moved into it, and the rest.\<close>

definition start_cert ::
  "sign_env \<Rightarrow> x509 option \<Rightarrow> cstring \<Rightarrow> pkey \<Rightarrow> xname option \<Rightarrow> xname option \<Rightarrow> int \<Rightarrow> int \<Rightarrow> int \<Rightarrow>
   cstring option \<Rightarrow> int \<Rightarrow> new_x509 step" where
  "start_cert env user md key subject_name issuer_name seconds proxyver pastproxy newserial selfsigned =
     after (need (subject_name = None \<or> se_mem env 1) [(PRXYERR_F_PROXY_SIGN_EXT, PRXYERR_R_PROCESS_PROXY)]) (\<lambda>_.
     after (new_serial env md key user proxyver newserial selfsigned) (\<lambda>serial.
     after (new_issuer env user issuer_name) (\<lambda>issuer.
     after (new_dates env user seconds pastproxy selfsigned) (\<lambda>dates.
       Go (blank_cert\<lparr>x_subject := (case subject_name of Some n \<Rightarrow> n | None \<Rightarrow> []), x_serial := serial,
             x_issuer := issuer, x_notBefore := fst dates, x_notAfter := snd dates\<rparr>)))))"

definition finish_cert ::
  "sign_env \<Rightarrow> pkey \<Rightarrow> cstring \<Rightarrow> pkey \<Rightarrow> x509_extension list option \<Rightarrow> new_x509 \<Rightarrow> new_x509 step" where
  "finish_cert env user_key meth key extensions c =
     after (need (se_mem env 5) [(PRXYERR_F_PROXY_SIGN_EXT, PRXYERR_R_PROCESS_PROXY)]) (\<lambda>_.
     after (case extensions of None \<Rightarrow> Go [] | Some exts \<Rightarrow> copy_exts env (se_mem env 6) 0 exts) (\<lambda>es.
     after (need (se_sign_ok env meth user_key) [(PRXYERR_F_PROXY_SIGN_EXT, PRXYERR_R_PROCESS_SIGNC)]) (\<lambda>_.
       Go (c\<lparr>x_pubkey := Some key, x_exts := es, n_version := 2, n_sig := Some (meth, user_key)\<rparr>))))"

definition proxy_sign_ext ::
  "sign_env \<Rightarrow> x509 option \<Rightarrow> pkey \<Rightarrow> cstring \<Rightarrow> x509_req \<Rightarrow> xname option \<Rightarrow> xname option \<Rightarrow> int \<Rightarrow>
   x509_extension list option \<Rightarrow> int \<Rightarrow> int \<Rightarrow> cstring option \<Rightarrow> int \<Rightarrow>
   (int \<times> out_cert \<times> x509_req \<times> (int \<times> int) list) option" where
  "proxy_sign_ext env user user_key meth req subject_name issuer_name seconds extensions proxyver
      pastproxy newserial selfsigned =
     (if selfsigned = 0 \<and> user = None then None
      else
        (case after (check_request env req) (\<lambda>k.
                after (need (se_mem env 0) [(PRXYERR_F_PROXY_SIGN_EXT, PRXYERR_R_PROCESS_PROXY)]) (\<lambda>_. Go k)) of
           Wild \<Rightarrow> None
         | Stop es \<Rightarrow> Some (1, Null_cert, req, es)
         | Go key \<Rightarrow>
             (case start_cert env user (request_md env req) key subject_name issuer_name seconds proxyver
                     pastproxy newserial selfsigned of
                Wild \<Rightarrow> None
              | Stop es \<Rightarrow> Some (1, Freed_cert, req, es)
              | Go c \<Rightarrow>
                  (let moved = req\<lparr>rq_pubkey := None\<rparr>;
                       warn = (if extensions \<noteq> None \<and> se_mem env 5 \<and> \<not> se_mem env 6
                               then [(PRXYERR_F_PROXY_SIGN_EXT, PRXYERR_R_DELEGATE_COPY)] else [])
                   in case finish_cert env user_key meth key extensions c of
                        Wild \<Rightarrow> None
                      | Stop es \<Rightarrow> Some (1, Freed_cert, moved, warn @ es)
                      | Go c \<Rightarrow> Some (0, New_cert c, moved, warn)))))"

text \<open>The common name of a proxy: a number from the digest of the user's key, or fixed words.\<close>

definition sub_hash :: "bytes \<Rightarrow> int" where
  "sub_hash md =
     (let b = (\<lambda>i. int (of_char (md ! i)))
      in b 0 + (b 1 + (b 2 + (b 3 div 2) * 256) * 256) * 256)"

definition new_cn :: "sign_env \<Rightarrow> cstring \<Rightarrow> x509 option \<Rightarrow> int \<Rightarrow> int \<Rightarrow> cstring option option" where
  "new_cn env md user proxyver limited_proxy =
     (if proxyver \<ge> 3 then
        (case user of
           None \<Rightarrow> None
         | Some u \<Rightarrow>
             (case x_pubkey u of
                None \<Rightarrow> None
              | Some k \<Rightarrow>
                  (let d = se_digest env md k
                   in if length d > SHA_DIGEST_LENGTH \<or> length d < 4 then None
                      else Some (snprintf_wrap (se_mem env 100) (show_int (sub_hash d))))))
      else Some (Some (if limited_proxy \<noteq> 0 then ''limited proxy'' else ''proxy'')))"

text \<open>\<open>unsigned int len = -1\<close>.\<close>

definition UINT_MAX :: nat where "UINT_MAX = 2 ^ 32 - 1"

definition proxy_sign ::
  "sign_env \<Rightarrow> x509 option \<Rightarrow> pkey \<Rightarrow> x509_req \<Rightarrow> int \<Rightarrow> x509_extension list option \<Rightarrow> int \<Rightarrow> int \<Rightarrow>
   cstring option \<Rightarrow> cstring option \<Rightarrow> int \<Rightarrow> cstring option \<Rightarrow> int \<Rightarrow>
   (int \<times> out_cert \<times> x509_req \<times> (int \<times> int) list) option" where
  "proxy_sign env user user_key req seconds extensions limited_proxy proxyver newdn newissuer pastproxy
      newserial selfsigned =
     do {
       let md = request_md env req;
       cn \<leftarrow> new_cn env md user proxyver limited_proxy;
       sub \<leftarrow> (case newdn of
                 None \<Rightarrow> map_option (\<lambda>u. proxy_construct_name (se_mem env 101) (se_mem env 102) u cn UINT_MAX) user
               | Some dn \<Rightarrow> map_option (Pair 0) (make_DN (se_txt2obj env) dn));
       if fst sub \<noteq> 0 then
         Some (1, Untouched, req, [(PRXYERR_F_PROXY_CONSTRUCT_NAME, PRXYERR_R_PROCESS_PROXY),
                                   (PRXYERR_F_PROXY_SIGN, PRXYERR_R_PROCESS_SIGN)])
       else do {
         iss \<leftarrow> (case newissuer of None \<Rightarrow> Some None | Some dn \<Rightarrow> make_DN (se_txt2obj env) dn);
         r \<leftarrow> proxy_sign_ext env user user_key md req (snd sub) iss seconds extensions proxyver pastproxy
                newserial selfsigned;
         (case r of (rc, out, req', es) \<Rightarrow>
            if rc \<noteq> 0 then Some (1, out, req', es @ [(PRXYERR_F_PROXY_SIGN, PRXYERR_R_PROCESS_SIGN)])
            else Some (0, out, req', es))
       }
     }"

section \<open>Requests\<close>

text \<open>
  \<open>ge_alg_of md\<close> is the signature algorithm with the digest \<open>md\<close>, \<open>ge_generate\<close> the key
  generation, \<open>ge_keysize\<close> is \<open>EVP_PKEY_size\<close>.
\<close>

record gen_env =
  ge_keysize :: "pkey \<Rightarrow> int"
  ge_generate :: "int \<Rightarrow> pkey option"
  ge_assign :: bool
  ge_mem :: "nat \<Rightarrow> bool"
  ge_md_of :: "oid \<Rightarrow> cstring option"
  ge_alg_of :: "cstring \<Rightarrow> oid"
  ge_sign_ok :: "cstring \<Rightarrow> pkey \<Rightarrow> bool"
  ge_txt2obj :: "cstring \<Rightarrow> oid option"

definition genreq_bits :: "gen_env \<Rightarrow> x509 option \<Rightarrow> int \<Rightarrow> int step" where
  "genreq_bits env ucert bits =
     (let failed = [(PRXYERR_F_PROXY_GENREQ, PRXYERR_R_PROCESS_PROXY_KEY)]
      in if bits \<noteq> 0 then Go bits
         else (case ucert of
                 None \<Rightarrow> Go 512
               | Some u \<Rightarrow>
                   (case x_pubkey u of
                      None \<Rightarrow> Stop failed
                    | Some k \<Rightarrow> if pk_type k \<noteq> EVP_PKEY_RSA then Stop failed else Go (8 * ge_keysize env k))))"

text \<open>The name of the request; a \<open>newdn\<close> that cannot be parsed gives NULL and an error.\<close>

definition genreq_name :: "gen_env \<Rightarrow> x509 option \<Rightarrow> cstring option \<Rightarrow> xname step" where
  "genreq_name env ucert newdn =
     (let failed = [(PRXYERR_F_PROXY_GENREQ, PRXYERR_R_PROCESS_REQ)]
      in case newdn of
           None \<Rightarrow>
             after (case ucert of Some u \<Rightarrow> after (need (ge_mem env 2) failed) (\<lambda>_. Go (x_subject u))
                    | None \<Rightarrow> if ge_mem env 2 then Go [] else Wild) (\<lambda>n.
             after (need (ge_mem env 3) failed) (\<lambda>_. Go (add_entry n oid_commonName ''proxy'')))
         | Some dn \<Rightarrow>
             after (trust (make_DN (ge_txt2obj env) dn)) (\<lambda>r.
               case r of None \<Rightarrow> Stop failed | Some n \<Rightarrow> Go n))"

text \<open>
  \<open>proxy_genreq\<close>: the code, the request and its key, the errors, and whether the key of the
  user's certificate was released once more than it was taken, which leaves a pointer to freed
  memory in that certificate. An error after the RSA key is assigned to the new key frees it
  twice, which is \<open>None\<close>. The digest is that of the user's certificate, whose algorithm is an
  argument.
\<close>

definition proxy_genreq ::
  "gen_env \<Rightarrow> x509 option \<Rightarrow> oid \<Rightarrow> int \<Rightarrow> cstring option \<Rightarrow>
   (int \<times> (x509_req \<times> pkey) option \<times> (int \<times> int) list \<times> bool) option" where
  "proxy_genreq env ucert ucert_alg bits newdn =
     (case genreq_bits env ucert bits of
        Wild \<Rightarrow> None
      | Stop es \<Rightarrow> Some (1, None, es, False)
      | Go rbits \<Rightarrow>
          (let early = Some (1, None, [(PRXYERR_F_PROXY_GENREQ, PRXYERR_R_PROCESS_PROXY_KEY)],
                             bits = 0 \<and> ucert \<noteq> None)
           in if \<not> ge_mem env 0 then early
              else (case ge_generate env rbits of
                      None \<Rightarrow> early
                    | Some rsa \<Rightarrow>
                        if \<not> ge_assign env then early
                        else if \<not> ge_mem env 1 then None
                        else (case genreq_name env ucert newdn of
                                Go n \<Rightarrow>
                                  (let md = (case (if ucert \<noteq> None then ge_md_of env ucert_alg else None) of
                                               Some m \<Rightarrow> m | None \<Rightarrow> ''SHA1'')
                                   in if \<not> ge_sign_ok env md rsa then None
                                      else Some (0, Some (\<lparr>rq_subject = n, rq_pubkey = Some rsa,
                                                           rq_sig_alg = ge_alg_of env md\<rparr>, rsa), [], False))
                              | _ \<Rightarrow> None))))"

section \<open>What is signed\<close>

lemma copy_exts_Go: "copy_exts env stk i es = Go r \<Longrightarrow> r = es"
  by (induction es arbitrary: i r) (auto simp: after_Go)

lemma check_request_Go:
  "check_request env req = Go k \<Longrightarrow> rq_pubkey req = Some k \<and> se_verify env req k > 0"
  by (auto simp: check_request_def Let_def split: option.splits if_splits)

text \<open>The serial number, without the steps that fail.\<close>

definition serial_of :: "sign_env \<Rightarrow> cstring \<Rightarrow> pkey \<Rightarrow> x509 option \<Rightarrow> int \<Rightarrow> cstring option \<Rightarrow> int \<Rightarrow> int" where
  "serial_of env md key user proxyver newserial selfsigned =
     (case newserial of
        Some hex \<Rightarrow> (case se_hex2bn env hex of None \<Rightarrow> 0 | Some bn \<Rightarrow> bn)
      | None \<Rightarrow> if proxyver > 2 then bytes_value (se_digest env md key)
                else if selfsigned \<noteq> 0 then 1 else x_serial (the user))"

lemma new_serial_Go:
  "new_serial env md key user proxyver newserial selfsigned = Go n \<Longrightarrow>
     n = serial_of env md key user proxyver newserial selfsigned"
  by (auto simp: new_serial_def serial_of_def Let_def after_Go split: option.splits if_splits)

lemma new_issuer_Go:
  "new_issuer env user issuer_name = Go n \<Longrightarrow>
     n = (case issuer_name of Some i \<Rightarrow> i | None \<Rightarrow> x_subject (the user)) \<and> (issuer_name = None \<longrightarrow> user \<noteq> None)"
  by (auto simp: new_issuer_def after_Go split: option.splits)

lemma start_cert_Go:
  assumes "start_cert env user md key subject_name issuer_name seconds proxyver pastproxy newserial selfsigned = Go c"
  shows "x_subject c = (case subject_name of Some n \<Rightarrow> n | None \<Rightarrow> [])"
    and "x_issuer c = (case issuer_name of Some i \<Rightarrow> i | None \<Rightarrow> x_subject (the user))"
    and "issuer_name = None \<longrightarrow> user \<noteq> None"
    and "x_serial c = serial_of env md key user proxyver newserial selfsigned"
    and "new_dates env user seconds pastproxy selfsigned = Go (x_notBefore c, x_notAfter c)"
  using assms new_issuer_Go new_serial_Go unfolding start_cert_def after_Go by fastforce+

lemma finish_cert_Go:
  assumes "finish_cert env user_key meth key extensions c = Go d"
  shows "d = c\<lparr>x_pubkey := Some key, x_exts := (case extensions of None \<Rightarrow> [] | Some es \<Rightarrow> es), n_version := 2,
    n_sig := Some (meth, user_key)\<rparr>"
  using assms copy_exts_Go unfolding finish_cert_def after_Go
  by (fastforce split: option.splits)

text \<open>A successful call, in terms of its steps.\<close>

lemma proxy_sign_ext_0:
  assumes "proxy_sign_ext env user user_key meth req subject_name issuer_name seconds extensions proxyver
      pastproxy newserial selfsigned = Some (0, out, req', es)"
  obtains c d k where "start_cert env user (request_md env req) k subject_name issuer_name seconds proxyver
      pastproxy newserial selfsigned = Go c"
    "check_request env req = Go k" "finish_cert env user_key meth k extensions c = Go d"
    "out = New_cert d" "req' = req\<lparr>rq_pubkey := None\<rparr>" "selfsigned = 0 \<longrightarrow> user \<noteq> None"
  using assms unfolding proxy_sign_ext_def
  by (auto simp: Let_def after_Go split: if_splits step.splits)

section \<open>Signed proxies\<close>

text \<open>The subject and the issuer a call of \<open>proxy_sign\<close> asks for.\<close>

definition subject_for :: "sign_env \<Rightarrow> x509 option \<Rightarrow> cstring option \<Rightarrow> cstring option \<Rightarrow> xname" where
  "subject_for env user newdn cn =
     (case newdn of
        Some dn \<Rightarrow> (case make_DN (se_txt2obj env) dn of Some (Some n) \<Rightarrow> n | _ \<Rightarrow> [])
      | None \<Rightarrow> (case cn of None \<Rightarrow> x_subject (the user)
                 | Some w \<Rightarrow> add_entry (x_subject (the user)) oid_commonName w))"

definition issuer_for :: "sign_env \<Rightarrow> x509 option \<Rightarrow> cstring option \<Rightarrow> xname" where
  "issuer_for env user newissuer =
     (case newissuer of
        None \<Rightarrow> x_subject (the user)
      | Some dn \<Rightarrow> (case make_DN (se_txt2obj env) dn of Some (Some n) \<Rightarrow> n | _ \<Rightarrow> x_subject (the user)))"

lemma sub_hash_bounds: "4 \<le> length d \<Longrightarrow> 0 \<le> sub_hash d \<and> sub_hash d < 2 ^ 31"
proof -
  have "int (of_char c) \<le> 255" for c :: char
    using nat_of_char_less_256 [of c] by linarith
  then have b: "0 \<le> int (of_char (d ! i))" "int (of_char (d ! i)) \<le> 255" for i by simp_all
  have "int (of_char (d ! 3)) div 2 \<le> 127" "0 \<le> int (of_char (d ! 3)) div 2" using b [of 3] by linarith+
  then show ?thesis using b [of 0] b [of 1] b [of 2] by (simp add: sub_hash_def)
qed

lemma show_nat_length: "length (show_nat n) \<le> Suc n"
proof (induction n rule: show_nat.induct)
  case (1 n)
  then show ?case by (subst show_nat.simps) auto
qed

text \<open>The common name is never cut.\<close>

lemma new_cn_short:
  assumes "new_cn env md user proxyver limited_proxy = Some (Some cn)"
  shows "take UINT_MAX cn = cn"
proof -
  have "length cn \<le> UINT_MAX"
  proof (cases "proxyver \<ge> 3")
    case True
    with assms obtain d where d: "length d \<ge> 4" "snprintf_wrap (se_mem env 100) (show_int (sub_hash d)) = Some cn"
      by (auto simp: new_cn_def Let_def not_less split: option.splits if_splits)
    then have "cn = show_nat (nat (sub_hash d))"
      using sub_hash_bounds [OF d(1)]
      by (auto simp: snprintf_wrap_def vsnprintf_wrap_def show_int_def Let_def split: if_splits)
    moreover have "nat (sub_hash d) < 2 ^ 31" using sub_hash_bounds [OF d(1)] by (simp add: nat_less_iff)
    ultimately show ?thesis using show_nat_length [of "nat (sub_hash d)"] by (simp add: UINT_MAX_def)
  next
    case False
    with assms show ?thesis by (auto simp: new_cn_def UINT_MAX_def split: if_splits)
  qed
  then show ?thesis by simp
qed

lemma proxy_sign_0:
  assumes "proxy_sign env user user_key req seconds extensions limited_proxy proxyver newdn newissuer pastproxy
      newserial selfsigned = Some (0, out, req', es)"
  obtains cn sub iss where "new_cn env (request_md env req) user proxyver limited_proxy = Some cn"
    "newdn = None \<longrightarrow> user \<noteq> None"
    "(case sub of Some n \<Rightarrow> n | None \<Rightarrow> []) = subject_for env user newdn cn"
    "(case iss of Some i \<Rightarrow> i | None \<Rightarrow> x_subject (the user)) = issuer_for env user newissuer"
    "proxy_sign_ext env user user_key (request_md env req) req sub iss seconds extensions proxyver
       pastproxy newserial selfsigned = Some (0, out, req', es)"
proof -
  from assms obtain cn where cn: "new_cn env (request_md env req) user proxyver limited_proxy = Some cn"
    by (auto simp: proxy_sign_def Let_def split: bind_splits)
  from assms cn obtain sub where sub: "(case newdn of
                 None \<Rightarrow> map_option (\<lambda>u. proxy_construct_name (se_mem env 101) (se_mem env 102) u cn UINT_MAX) user
               | Some dn \<Rightarrow> map_option (Pair 0) (make_DN (se_txt2obj env) dn)) = Some (0, sub)"
    by (auto simp: proxy_sign_def Let_def split: bind_splits if_splits)
  from assms cn sub obtain iss where iss: "(case newissuer of None \<Rightarrow> Some None | Some dn \<Rightarrow> make_DN (se_txt2obj env) dn) = Some iss"
      "proxy_sign_ext env user user_key (request_md env req) req sub iss seconds extensions proxyver
       pastproxy newserial selfsigned = Some (0, out, req', es)"
    by (auto simp: proxy_sign_def Let_def split: bind_splits if_splits prod.splits)
  show ?thesis
  proof (rule that [OF cn _ _ _ iss(2)])
    show "newdn = None \<longrightarrow> user \<noteq> None" using sub by auto
    show "(case sub of Some n \<Rightarrow> n | None \<Rightarrow> []) = subject_for env user newdn cn"
      using sub cn new_cn_short [of env "request_md env req" user proxyver limited_proxy]
      by (cases cn) (auto simp: subject_for_def proxy_construct_name_def split: option.splits if_splits)
    show "(case iss of Some i \<Rightarrow> i | None \<Rightarrow> x_subject (the user)) = issuer_for env user newissuer"
      using iss(1) by (auto simp: issuer_for_def split: option.splits)
  qed
qed

text \<open>A successful call, field by field.\<close>

lemma proxy_sign_fields:
  assumes "proxy_sign env user user_key req seconds extensions limited_proxy proxyver newdn newissuer pastproxy
      newserial selfsigned = Some (0, out, req', es)"
  obtains c k cn where "out = New_cert c" "rq_pubkey req = Some k" "se_verify env req k > 0"
    "new_cn env (request_md env req) user proxyver limited_proxy = Some cn"
    "x_subject c = subject_for env user newdn cn" "x_issuer c = issuer_for env user newissuer"
    "x_serial c = serial_of env (request_md env req) k user proxyver newserial selfsigned"
    "x_pubkey c = Some k" "x_exts c = (case extensions of None \<Rightarrow> [] | Some exts \<Rightarrow> exts)" "n_version c = 2"
    "n_sig c = Some (request_md env req, user_key)" "req' = req\<lparr>rq_pubkey := None\<rparr>"
    "new_dates env user seconds pastproxy selfsigned = Go (x_notBefore c, x_notAfter c)"
    "selfsigned = 0 \<longrightarrow> user \<noteq> None" "newdn = None \<longrightarrow> user \<noteq> None" "x_ex_flags c = 0"
proof -
  from assms obtain cn sub iss where cn: "new_cn env (request_md env req) user proxyver limited_proxy = Some cn"
    and u: "newdn = None \<longrightarrow> user \<noteq> None"
    and sub: "(case sub of Some n \<Rightarrow> n | None \<Rightarrow> []) = subject_for env user newdn cn"
    and iss: "(case iss of Some i \<Rightarrow> i | None \<Rightarrow> x_subject (the user)) = issuer_for env user newissuer"
    and ext: "proxy_sign_ext env user user_key (request_md env req) req sub iss seconds extensions proxyver
       pastproxy newserial selfsigned = Some (0, out, req', es)"
    by (rule proxy_sign_0)
  from ext obtain c d k where
    c: "start_cert env user (request_md env req) k sub iss seconds proxyver pastproxy newserial selfsigned = Go c"
    and k: "check_request env req = Go k" and d: "finish_cert env user_key (request_md env req) k extensions c = Go d"
    and out: "out = New_cert d" "req' = req\<lparr>rq_pubkey := None\<rparr>" "selfsigned = 0 \<longrightarrow> user \<noteq> None"
    by (rule proxy_sign_ext_0)
  note start = start_cert_Go [OF c] and fin = finish_cert_Go [OF d] and key = check_request_Go [OF k]
  have flags: "x_ex_flags c = 0"
    using c by (auto simp: start_cert_def after_Go blank_cert_def)
  have d: "x_subject d = x_subject c" "x_issuer d = x_issuer c" "x_serial d = x_serial c" "x_pubkey d = Some k"
    "x_exts d = (case extensions of None \<Rightarrow> [] | Some exts \<Rightarrow> exts)" "n_version d = 2"
    "n_sig d = Some (request_md env req, user_key)" "x_notBefore d = x_notBefore c" "x_notAfter d = x_notAfter c"
    "x_ex_flags d = x_ex_flags c"
    unfolding fin by simp_all
  have "x_subject d = subject_for env user newdn cn" unfolding d(1) start(1) by (rule sub)
  moreover have "x_issuer d = issuer_for env user newissuer" unfolding d(2) start(2) by (rule iss)
  moreover note start(4) [folded d(3)] start(5) [folded d(8,9)]
  moreover have "x_ex_flags d = 0" using flags d(10) by simp
  ultimately show ?thesis
    using that [OF out(1) conjunct1 [OF key] conjunct2 [OF key] cn _ _ _ d(4-7) out(2) _ out(3) u] by blast
qed


text \<open>
  C13: signing and recognition fit. A certificate signed as an old-style proxy of a user, with no
  ProxyCertInfo extension, is recognised as a proxy of that user, limited or not as asked.
\<close>

theorem proxy_sign_recognised:
  assumes "proxy_sign env user user_key req seconds extensions limited_proxy proxyver None None pastproxy
      newserial selfsigned = Some (0, New_cert c, req', es)"
    and "proxyver \<le> 2" "\<not> has_pci o1 (x509.truncate c)"
  shows "proxy_check_proxy_name o1 (x509.truncate c) errs =
    Some (if limited_proxy \<noteq> 0 then 2 else 1,
      (x509.truncate c)\<lparr>x_ex_flags := EXFLAG_PROXY, x_ex_pcpathlen := (if limited_proxy \<noteq> 0 then 0 else -1)\<rparr>,
      errs_kept o1 errs)"
proof -
  let ?cn = "if limited_proxy \<noteq> 0 then ''limited proxy'' else ''proxy''"
  from assms(1) obtain cn where cn: "new_cn env (request_md env req) user proxyver limited_proxy = Some cn"
      "x_subject c = subject_for env user None cn" "x_issuer c = issuer_for env user None" "x_ex_flags c = 0"
    by (rule proxy_sign_fields) auto
  from cn(1) assms(2) have "cn = Some ?cn" by (auto simp: new_cn_def)
  with cn have np: "names_proxy ?cn (x509.truncate c)" and ne: "x_subject (x509.truncate c) \<noteq> []"
    by (simp_all add: names_proxy_def x509.truncate_def subject_for_def issuer_for_def add_entry_def)
  have "proxy_kind o1 (x509.truncate c) = (if limited_proxy \<noteq> 0 then 2 else 1)"
    using np assms(3) by (auto simp: proxy_kind_def names_proxy_def)
  moreover have "x_ex_flags (x509.truncate c) = 0" using cn(4) by (simp add: x509.truncate_def)
  ultimately show ?thesis
    using proxy_check_kind [of o1 "x509.truncate c" errs] ne assms(3)
    by (simp add: proxy_marked_def mark_proxy_def)
qed

lemma new_dates_Go:
  assumes "new_dates env (Some u) seconds pastproxy 0 = Go (b, a)"
    and "ASN1_UTCTIME_mktime (se_gmtime env (se_clock env 1 - pastproxy)) = Some n"
  shows "\<exists>e. ASN1_UTCTIME_mktime (x_notAfter u) = Some e \<and>
    a = (if e - n > seconds - pastproxy then se_gmtime env (se_clock env 2 + (seconds - pastproxy)) else x_notAfter u) \<and>
    b = se_gmtime env (se_clock env 0 + (-300 - pastproxy))"
  using assms by (auto simp: new_dates_def after_Go int32_def Let_def split: if_splits)

text \<open>
  C19: how long a proxy lives that is signed by the user. When the clock does not move during the call
  and the dates it writes can be read, the certificate ends \<open>seconds - pastproxy\<close> from now if the user's
  certificate lasts longer than \<open>seconds - 2 * pastproxy\<close> from now, and with the user's certificate
  otherwise. So a proxy never outlives the user's certificate when \<open>pastproxy\<close> is 0, and may outlive it
  by less than \<open>pastproxy\<close> seconds otherwise. No seconds is no exception: the comments of proxy_sign and
  proxy_sign_ext promise the lifetime of the issuing key pair for 0, but as long as the user's
  certificate is valid the proxy ends at once, or \<open>pastproxy\<close> seconds ago.
\<close>

theorem proxy_sign_lifetime:
  assumes "proxy_sign env (Some u) user_key req seconds extensions limited_proxy proxyver newdn newissuer pastproxy
      newserial 0 = Some (0, New_cert c, req', es)"
    and "se_clock env 1 = now" "se_clock env 2 = now"
    and "ASN1_UTCTIME_mktime (se_gmtime env (now - pastproxy)) = Some (now - pastproxy)"
    and "ASN1_UTCTIME_mktime (se_gmtime env (now + (seconds - pastproxy))) = Some (now + (seconds - pastproxy))"
  shows "\<exists>e f. ASN1_UTCTIME_mktime (x_notAfter u) = Some e \<and> ASN1_UTCTIME_mktime (x_notAfter c) = Some f \<and>
    f = (if now + seconds - 2 * pastproxy < e then now + seconds - pastproxy else e) \<and>
    f \<le> e + (if pastproxy > 0 then pastproxy - 1 else 0) \<and>
    (seconds = 0 \<and> 0 \<le> pastproxy \<and> now < e \<longrightarrow> f = now - pastproxy \<and> f < e) \<and>
    x_notBefore c = se_gmtime env (se_clock env 0 - 300 - pastproxy)"
proof -
  from assms(1) have "new_dates env (Some u) seconds pastproxy 0 = Go (x_notBefore c, x_notAfter c)"
    by (rule proxy_sign_fields) auto
  then obtain e where e: "ASN1_UTCTIME_mktime (x_notAfter u) = Some e"
    "x_notAfter c = (if e - (now - pastproxy) > seconds - pastproxy
       then se_gmtime env (now + (seconds - pastproxy)) else x_notAfter u)"
    "x_notBefore c = se_gmtime env (se_clock env 0 + (-300 - pastproxy))"
    using new_dates_Go [of env u seconds pastproxy "x_notBefore c" "x_notAfter c" "now - pastproxy"] assms(2-4) by auto
  have f: "ASN1_UTCTIME_mktime (x_notAfter c) =
      Some (if now + seconds - 2 * pastproxy < e then now + seconds - pastproxy else e)"
    using e assms(5) by (simp add: algebra_simps)
  have b: "se_clock env 0 - 300 - pastproxy = se_clock env 0 + (-300 - pastproxy)" by simp
  show ?thesis unfolding b
    by (rule exI [of _ e], rule exI [of _ "if now + seconds - 2 * pastproxy < e then now + seconds - pastproxy else e"])
      (use e f in simp)
qed

section \<open>Samples\<close>

text \<open>The clock stands at 23:31:30 on 13 February 2009; times of that day are printed.\<close>

definition sample_gmtime :: "int \<Rightarrow> asn1_time" where
  "sample_gmtime t =
     (let s = nat (t - 1234483200)
      in \<lparr>at_type = V_ASN1_UTCTIME,
          at_data = utc_text 9 2 13 (s div 3600) (s div 60 mod 60) @ dig2 (s mod 60) @ ''Z''\<rparr>)"

lemma sample_gmtime_mktime:
  assumes "1234483200 \<le> t" "t < 1234483200 + 86400"
  shows "ASN1_UTCTIME_mktime (sample_gmtime t) = Some t"
proof -
  define s where "s = nat (t - 1234483200)"
  have s: "s < 86400" "t = 1234483200 + int s" using assms by (simp_all add: s_def)
  have "ASN1_UTCTIME_mktime (sample_gmtime t) =
      Some (timegm (tm_year_fix 9) 1 13 (int (s div 3600)) (int (s div 60 mod 60)) (int (s mod 60)))"
    unfolding sample_gmtime_def Let_def s_def [symmetric]
    using mktime_zulu [of V_ASN1_UTCTIME "utc_text 9 2 13 (s div 3600) (s div 60 mod 60)" 9 2 13
      "s div 3600" "s div 60 mod 60" "s mod 60"] s(1) less_mult_imp_div_less [of s 24 3600]
    by (simp add: less_trans [OF mod_less_divisor])
  moreover have "s div 60 = 60 * (s div 3600) + s div 60 mod 60"
    using div_mult_mod_eq [of "s div 60" 60] by (simp add: div_mult2_eq [symmetric] algebra_simps)
  then have "int s = 3600 * int (s div 3600) + 60 * int (s div 60 mod 60) + int (s mod 60)"
    using div_mult_mod_eq [of s 60] by linarith
  ultimately show ?thesis
    using s(2) by (simp add: timegm_def tm_year_fix_def days_before_year_def days_before_month_def month_days_def
        leap_def Let_def)
qed

definition sample_sign_env :: sign_env where
  "sample_sign_env = \<lparr>se_mem = (\<lambda>_. True), se_clock = (\<lambda>_. 1234567890), se_gmtime = sample_gmtime,
     se_md_of = (\<lambda>_. Some ''SHA1''), se_digest = (\<lambda>m k. replicate 20 (CHR ''A'')), se_key_ok = (\<lambda>_. True),
     se_verify = (\<lambda>_ _. 1), se_hex2bn = (\<lambda>_. None), se_sign_ok = (\<lambda>_ _. True), se_txt2obj = (\<lambda>_. None)\<rparr>"

definition sample_key :: "nat \<Rightarrow> pkey" where
  "sample_key n = \<lparr>pk_type = EVP_PKEY_RSA, pk_modulus = Some n, pk_bits = 1024\<rparr>"

text \<open>A user whose certificate ends 100 seconds from now.\<close>

definition sample_user :: x509 where
  "sample_user = (sample_cert [sample_cn ''user''] [sample_cn ''ca''] [])\<lparr>x_pubkey := Some (sample_key 77),
     x_notAfter := sample_gmtime 1234567990\<rparr>"

definition sample_req :: x509_req where
  "sample_req = \<lparr>rq_subject = [], rq_pubkey = Some (sample_key 91), rq_sig_alg = ''1.2.840.113549.1.1.5''\<rparr>"

definition sample_signed :: "int \<Rightarrow> new_x509" where
  "sample_signed limited =
     blank_cert\<lparr>x_subject := add_entry [sample_cn ''user''] oid_commonName
                  (if limited \<noteq> 0 then ''limited proxy'' else ''proxy''),
                x_issuer := [sample_cn ''user''], x_serial := 1, x_notBefore := sample_gmtime 1234567290,
                x_notAfter := sample_gmtime 1234568190, x_pubkey := Some (sample_key 91), x_exts := [],
                n_version := 2, n_sig := Some (''SHA1'', sample_key 77)\<rparr>"

lemma sample_sign_run:
  "proxy_sign sample_sign_env (Some sample_user) (sample_key 77) sample_req 600 None limited 2 None None 300 None 0 =
     Some (0, New_cert (sample_signed limited), sample_req\<lparr>rq_pubkey := None\<rparr>, [])"
proof -
  have t: "ASN1_UTCTIME_mktime (sample_gmtime 1234567590) = Some 1234567590"
    "ASN1_UTCTIME_mktime (sample_gmtime 1234567990) = Some 1234567990"
    by (rule sample_gmtime_mktime; simp)+
  have d: "new_dates sample_sign_env (Some sample_user) 600 300 0 = Go (sample_gmtime 1234567290, sample_gmtime 1234568190)"
    using t by (simp add: new_dates_def sample_sign_env_def sample_user_def int32_def trust_def)
  have k: "check_request sample_sign_env sample_req = Go (sample_key 91)"
    by (simp add: check_request_def sample_sign_env_def sample_req_def)
  have m: "request_md sample_sign_env sample_req = ''SHA1''" by (simp add: request_md_def sample_sign_env_def)
  have s: "start_cert sample_sign_env (Some sample_user) md key (Some n) None 600 2 300 None 0 =
      Go (blank_cert\<lparr>x_subject := n, x_serial := 1, x_issuer := [sample_cn ''user''],
        x_notBefore := sample_gmtime 1234567290, x_notAfter := sample_gmtime 1234568190\<rparr>)" for md key n
    using d by (simp add: start_cert_def new_serial_def new_issuer_def need_def trust_def sample_sign_env_def
        sample_user_def sample_cert_def)
  have e: "proxy_sign_ext sample_sign_env (Some sample_user) (sample_key 77) ''SHA1'' sample_req (Some n) None 600 None 2
      300 None 0 = Some (0, New_cert (blank_cert\<lparr>x_subject := n, x_serial := 1, x_issuer := [sample_cn ''user''],
        x_notBefore := sample_gmtime 1234567290, x_notAfter := sample_gmtime 1234568190,
        x_pubkey := Some (sample_key 91), x_exts := [], n_version := 2, n_sig := Some (''SHA1'', sample_key 77)\<rparr>),
        sample_req\<lparr>rq_pubkey := None\<rparr>, [])" for n
    by (simp add: proxy_sign_ext_def k m s need_def finish_cert_def) (simp add: sample_sign_env_def)
  show ?thesis
    by (simp add: proxy_sign_def m e new_cn_def proxy_construct_name_def sample_signed_def UINT_MAX_def Let_def)
      (simp add: sample_sign_env_def sample_user_def sample_cert_def)
qed


lemma proxy_sign_recognised_witness:
  "proxy_check_proxy_name sample_ossl (x509.truncate (sample_signed 1)) ([] :: nat list) =
    Some (2, (x509.truncate (sample_signed 1))\<lparr>x_ex_flags := EXFLAG_PROXY, x_ex_pcpathlen := 0\<rparr>, [])"
  using proxy_sign_recognised [OF sample_sign_run [of 1], of sample_ossl "[] :: nat list"]
  by (simp add: has_pci_def x509.truncate_def sample_signed_def errs_kept_def)

text \<open>A proxy that ends 200 seconds after the user's certificate.\<close>

lemma proxy_sign_lifetime_witness:
  "\<exists>e f. ASN1_UTCTIME_mktime (x_notAfter sample_user) = Some e \<and>
     ASN1_UTCTIME_mktime (x_notAfter (sample_signed 0)) = Some f \<and> f = 1234568190 \<and> e = 1234567990"
proof -
  have t: "ASN1_UTCTIME_mktime (sample_gmtime 1234567590) = Some 1234567590"
    "ASN1_UTCTIME_mktime (sample_gmtime 1234567990) = Some 1234567990"
    "ASN1_UTCTIME_mktime (sample_gmtime 1234568190) = Some 1234568190"
    by (rule sample_gmtime_mktime; simp)+
  have u: "ASN1_UTCTIME_mktime (x_notAfter sample_user) = Some 1234567990"
    using t(2) by (simp add: sample_user_def)
  from proxy_sign_lifetime [OF sample_sign_run [of 0], of 1234567890] t u show ?thesis
    by (auto simp: sample_sign_env_def)
qed

section \<open>Long digests\<close>

text \<open>
  Version 3 proxies and SHA-2 requests. When the request was signed with a digest longer
  than the 20 bytes of SHA-1, making a proxy of version 3 or later writes past the buffer for the
  digest of the user's key, whatever the other arguments are.
\<close>

theorem proxy_sign_long_digest:
  assumes "proxyver \<ge> 3" "x_pubkey u = Some k" "length (se_digest env (request_md env req) k) > 20"
  shows "proxy_sign env (Some u) user_key req seconds extensions limited_proxy proxyver newdn newissuer pastproxy
    newserial selfsigned = None"
  using assms by (simp add: proxy_sign_def new_cn_def SHA_DIGEST_LENGTH_def Let_def)

lemma proxy_sign_long_digest_witness:
  "proxy_sign (sample_sign_env\<lparr>se_md_of := (\<lambda>_. Some ''SHA256''), se_digest := (\<lambda>m k. replicate 32 (CHR ''A''))\<rparr>)
     (Some sample_user) (sample_key 77) sample_req 600 None 0 3 None None 0 None 0 = None"
  by (rule proxy_sign_long_digest [of _ _ "sample_key 77"]) (simp_all add: sample_user_def)

section \<open>Requests for proxies\<close>

text \<open>
  A request for a proxy. On success the request carries the generated key, its subject is
  the name asked for or the user's with CN=proxy, and nothing was queued; and the only failures
  that return are those before the new key holds the RSA key. A name that does not parse is
  never answered with an error: the RSA key is freed twice.
\<close>

theorem proxy_genreq_outcomes:
  assumes "proxy_genreq env ucert alg bits newdn = Some (rc, out, es, over_freed)"
  shows "(rc = 0 \<and> es = [] \<and> \<not> over_freed \<and> (\<exists>req key b. out = Some (req, key) \<and> rq_pubkey req = Some key \<and>
      genreq_bits env ucert bits = Go b \<and> ge_generate env b = Some key \<and>
      (case newdn of Some dn \<Rightarrow> make_DN (ge_txt2obj env) dn = Some (Some (rq_subject req))
       | None \<Rightarrow> name_key (rq_subject req) =
           name_key (case ucert of None \<Rightarrow> [] | Some u \<Rightarrow> x_subject u) @ [(oid_commonName, ''proxy'')])) \<or>
     rc = 1 \<and> out = None \<and> es = [(PRXYERR_F_PROXY_GENREQ, PRXYERR_R_PROCESS_PROXY_KEY)] \<and>
      ((\<exists>e. genreq_bits env ucert bits = Stop e) \<or> \<not> ge_mem env 0 \<or> \<not> ge_assign env \<or>
       (\<exists>b. genreq_bits env ucert bits = Go b \<and> ge_generate env b = None)))"
proof (cases "genreq_bits env ucert bits")
  case Wild
  with assms show ?thesis by (simp add: proxy_genreq_def)
next
  case (Stop e)
  then have "e = [(PRXYERR_F_PROXY_GENREQ, PRXYERR_R_PROCESS_PROXY_KEY)]"
    by (auto simp: genreq_bits_def Let_def split: if_splits option.splits)
  with Stop assms show ?thesis by (simp add: proxy_genreq_def)
next
  case (Go b)
  show ?thesis
  proof (cases "ge_mem env 0 \<and> ge_assign env \<and> ge_generate env b \<noteq> None")
    case False
    with Go assms show ?thesis by (auto simp: proxy_genreq_def Let_def split: option.splits if_splits)
  next
    case True
    then obtain rsa where rsa: "ge_generate env b = Some rsa" by auto
    with True Go assms obtain n where n: "genreq_name env ucert newdn = Go n" and
      r: "rc = 0" "es = []" "\<not> over_freed" "\<exists>req. out = Some (req, rsa) \<and> rq_subject req = n \<and> rq_pubkey req = Some rsa"
      by (auto simp: proxy_genreq_def Let_def split: step.splits if_splits option.splits)
    have "(case newdn of Some dn \<Rightarrow> make_DN (ge_txt2obj env) dn = Some (Some n)
       | None \<Rightarrow> name_key n =
           name_key (case ucert of None \<Rightarrow> [] | Some u \<Rightarrow> x_subject u) @ [(oid_commonName, ''proxy'')])"
      using n by (auto simp: genreq_name_def Let_def after_Go split: option.splits if_splits)
    with Go rsa r show ?thesis by auto
  qed
qed

definition sample_gen_env :: gen_env where
  "sample_gen_env = \<lparr>ge_keysize = (\<lambda>_. 128), ge_generate = (\<lambda>n. Some (sample_key (nat n))), ge_assign = True,
     ge_mem = (\<lambda>_. True), ge_md_of = (\<lambda>_. Some ''SHA1''), ge_alg_of = (\<lambda>m. m), ge_sign_ok = (\<lambda>_ _. True),
     ge_txt2obj = (\<lambda>_. None)\<rparr>"

lemma sample_genreq_run:
  "proxy_genreq sample_gen_env (Some sample_user) ''rsa-sha1'' 0 None =
     Some (0, Some (\<lparr>rq_subject = add_entry [sample_cn ''user''] oid_commonName ''proxy'',
        rq_pubkey = Some (sample_key 1024), rq_sig_alg = ''SHA1''\<rparr>, sample_key 1024), [], False)"
  by (simp add: proxy_genreq_def genreq_bits_def genreq_name_def sample_gen_env_def sample_user_def sample_key_def
      sample_cert_def need_def Let_def)

lemma proxy_genreq_outcomes_witness:
  "\<exists>req key b. proxy_genreq sample_gen_env (Some sample_user) ''rsa-sha1'' 0 None = Some (0, Some (req, key), [], False) \<and>
      genreq_bits sample_gen_env (Some sample_user) 0 = Go b \<and> ge_generate sample_gen_env b = Some key \<and>
      name_key (rq_subject req) = name_key (x_subject sample_user) @ [(oid_commonName, ''proxy'')]"
proof -
  from proxy_genreq_outcomes [OF sample_genreq_run] obtain req key b where
    "Some (\<lparr>rq_subject = add_entry [sample_cn ''user''] oid_commonName ''proxy'',
        rq_pubkey = Some (sample_key 1024), rq_sig_alg = ''SHA1''\<rparr>, sample_key 1024) = Some (req, key)"
    "genreq_bits sample_gen_env (Some sample_user) 0 = Go b" "ge_generate sample_gen_env b = Some key"
    "name_key (rq_subject req) = name_key (x_subject sample_user) @ [(oid_commonName, ''proxy'')]"
    by auto
  then show ?thesis using sample_genreq_run by (intro exI [of _ req] exI [of _ key] exI [of _ b]) auto
qed

end
