(* ===== verification/FileNames.thy ===== *)
theory FileNames
  imports Prelude Step
begin

unbundle bit_operations_syntax

text \<open>
  Where the credentials of a user are looked for: \<open>checkstat\<close>, \<open>proxy_get_filenames\<close> and
  \<open>determine_filenames\<close> of src/src/sslutils/sslutils.c, as compiled on POSIX systems.

  The file system and the environment are a record. A pointer argument is an option (NULL) of
  the option it points to. Status 0 gives the new values of the pointers, status -1 leaves them;
  \<open>Wild\<close> is memory that is freed twice or written after it was freed.
\<close>

section \<open>The code\<close>

record file_stat =
  fst_uid :: int
  fst_mode :: "32 word"
  fst_size :: int

record sys_env =
  sy_getenv :: "cstring \<Rightarrow> cstring option"
  sy_stat :: "cstring \<Rightarrow> file_stat option"
  sy_readable :: "cstring \<Rightarrow> bool"
  sy_uid :: nat
  sy_mem :: "nat \<Rightarrow> bool"

definition X509_DEFAULT_CERT_DIR :: cstring where "X509_DEFAULT_CERT_DIR = ''.globus/certificates''"
definition X509_DEFAULT_USER_CERT :: cstring where "X509_DEFAULT_USER_CERT = ''.globus/usercert.pem''"
definition X509_DEFAULT_USER_CERT_P12 :: cstring where "X509_DEFAULT_USER_CERT_P12 = ''.globus/usercert.p12''"
definition X509_DEFAULT_USER_CERT_P12_GT :: cstring where "X509_DEFAULT_USER_CERT_P12_GT = ''.globus/usercred.p12''"
definition X509_DEFAULT_USER_KEY :: cstring where "X509_DEFAULT_USER_KEY = ''.globus/userkey.pem''"
definition X509_INSTALLED_CERT_DIR :: cstring where "X509_INSTALLED_CERT_DIR = ''share/certificates''"
definition X509_INSTALLED_HOST_CERT_DIR :: cstring where
  "X509_INSTALLED_HOST_CERT_DIR = ''/etc/grid-security/certificates''"
definition X509_DEFAULT_HOST_CERT :: cstring where "X509_DEFAULT_HOST_CERT = ''/etc/grid-security/hostcert.pem''"
definition X509_DEFAULT_HOST_KEY :: cstring where "X509_DEFAULT_HOST_KEY = ''/etc/grid-security/hostkey.pem''"

definition PRXYERR_F_INIT_CRED :: int where "PRXYERR_F_INIT_CRED = 105"
definition PRXYERR_R_PROCESS_CERTS :: int where "PRXYERR_R_PROCESS_CERTS = 1015"
definition PRXYERR_R_NO_HOME :: int where "PRXYERR_R_NO_HOME = 1031"
definition PRXYERR_R_OUT_OF_MEMORY :: int where "PRXYERR_R_OUT_OF_MEMORY = 1060"

definition init_err :: "int \<Rightarrow> (int \<times> int) list" where
  "init_err r = [(PRXYERR_F_INIT_CRED, r)]"

definition checkstat :: "sys_env \<Rightarrow> cstring \<Rightarrow> int" where
  "checkstat env f =
     (case sy_stat env f of
        None \<Rightarrow> 1
      | Some st \<Rightarrow>
          if fst_uid st \<noteq> int (sy_uid env) then 2
          else if fst_mode st AND 0x36 \<noteq> 0 then 3
          else if fst_size st = 0 then 4 else 0)"

definition orelse :: "'a option \<Rightarrow> 'a option \<Rightarrow> 'a option" where
  "orelse x y = (case x of None \<Rightarrow> y | Some a \<Rightarrow> Some a)"

definition target :: "'a option option \<Rightarrow> 'a option" where
  "target p = (case p of None \<Rightarrow> None | Some x \<Rightarrow> x)"

definition path :: "cstring \<Rightarrow> cstring \<Rightarrow> cstring" where
  "path d f = d @ ''/'' @ f"

text \<open>
  The directory of the trusted certificates, and the home directory found on the way. The
  default home of the comment is compiled on POSIX systems and not on Windows.
\<close>

definition deploy_path :: "sys_env \<Rightarrow> cstring option" where
  "deploy_path env =
     orelse (sy_getenv env ''GLOBUS_DEPLOY_PATH'') (orelse (sy_getenv env ''GLOBUS_LOCATION'')
       (orelse (sy_getenv env ''GSI_DEPLOY_PATH'') (sy_getenv env ''GSI_INSTALL_PATH'')))"

definition search_cert_dir :: "sys_env \<Rightarrow> (cstring \<times> cstring option) step" where
  "search_cert_dir env =
     (let home = (case sy_getenv env ''HOME'' of Some h \<Rightarrow> h | None \<Rightarrow> ''c:'' @ [CHR 0x5C] @ ''windows'')
      in after (alloc (snprintf_wrap (sy_mem env 0) (path home X509_DEFAULT_CERT_DIR))
             (init_err PRXYERR_R_OUT_OF_MEMORY)) (\<lambda>default_cert_dir.
           if checkstat env default_cert_dir \<noteq> 1 then Go (default_cert_dir, Some home)
           else if checkstat env X509_INSTALLED_HOST_CERT_DIR \<noteq> 1 then Go (X509_INSTALLED_HOST_CERT_DIR, Some home)
           else (case deploy_path env of
                   Some d \<Rightarrow>
                     after (alloc (snprintf_wrap (sy_mem env 1) (path d X509_INSTALLED_CERT_DIR))
                       (init_err PRXYERR_R_OUT_OF_MEMORY)) (\<lambda>i. Go (i, Some home))
                 | None \<Rightarrow> Go (X509_INSTALLED_HOST_CERT_DIR, Some home))))"

definition find_cert_dir :: "sys_env \<Rightarrow> cstring option \<Rightarrow> (cstring \<times> cstring option) step" where
  "find_cert_dir env given =
     (case orelse given (sy_getenv env ''X509_CERT_DIR'') of
        Some d \<Rightarrow> Go (d, None)
      | None \<Rightarrow> search_cert_dir env)"

text \<open>The proxy file: what \<open>user_proxy\<close> holds before it is used, and \<open>default_user_proxy\<close>.\<close>

definition find_user_proxy :: "sys_env \<Rightarrow> bool \<Rightarrow> cstring option \<Rightarrow> (cstring option \<times> cstring option) step" where
  "find_user_proxy env proxy_in given =
     (case orelse given (sy_getenv env ''X509_USER_PROXY'') of
        Some f \<Rightarrow> Go (Some f, None)
      | None \<Rightarrow>
          if sy_getenv env ''X509_RUN_AS_SERVER'' \<noteq> None then Go (None, None)
          else after (alloc (snprintf_wrap (sy_mem env 2) (path ''/tmp'' (''x509up_u'' @ show_nat (sy_uid env))))
                 (init_err PRXYERR_R_OUT_OF_MEMORY)) (\<lambda>d.
                   Go (if (\<not> proxy_in \<or> sy_uid env \<noteq> 0) \<and> checkstat env d = 0 then Some d else None, Some d)))"

text \<open>
  The PKCS#12 file when the certificate cannot be opened. Both default names were freed; an
  error before the key's name is set again frees it a second time, and a name from the
  environment is copied to the freed block.
\<close>

definition pkcs12_names :: "sys_env \<Rightarrow> cstring \<Rightarrow> (cstring \<times> cstring) step" where
  "pkcs12_names env home =
     (case sy_getenv env ''X509_USER_CRED'' of
        Some _ \<Rightarrow> Wild
      | None \<Rightarrow>
          after (trust (snprintf_wrap (sy_mem env 5) (path home X509_DEFAULT_USER_CERT_P12))) (\<lambda>p.
          after (if checkstat env p \<noteq> 0
                 then trust (snprintf_wrap (sy_mem env 6) (path home X509_DEFAULT_USER_CERT_P12_GT)) else Go p) (\<lambda>c.
          after (need (sy_mem env 7) (init_err PRXYERR_R_OUT_OF_MEMORY)) (\<lambda>_. Go (c, c)))))"

definition default_user_files :: "sys_env \<Rightarrow> cstring option \<Rightarrow> (cstring \<times> cstring) step" where
  "default_user_files env home =
     (case orelse home (sy_getenv env ''HOME'') of
        None \<Rightarrow> Stop (init_err PRXYERR_R_NO_HOME)
      | Some h \<Rightarrow>
          after (alloc (snprintf_wrap (sy_mem env 3) (path h X509_DEFAULT_USER_CERT))
            (init_err PRXYERR_R_OUT_OF_MEMORY)) (\<lambda>c.
          after (alloc (snprintf_wrap (sy_mem env 4) (path h X509_DEFAULT_USER_KEY))
            (init_err PRXYERR_R_OUT_OF_MEMORY)) (\<lambda>k.
          if sy_readable env c then Go (c, k) else pkcs12_names env h)))"

definition existing :: "sys_env \<Rightarrow> cstring \<Rightarrow> cstring option" where
  "existing env f = (if checkstat env f \<noteq> 1 then Some f else None)"

definition find_user_files ::
  "sys_env \<Rightarrow> cstring option \<Rightarrow> cstring option \<Rightarrow> cstring option \<Rightarrow> (cstring option \<times> cstring option) step" where
  "find_user_files env home given_cert given_key =
     (case orelse given_cert (sy_getenv env ''X509_USER_CERT'') of
        Some c \<Rightarrow> Go (Some c, orelse (orelse given_key (sy_getenv env ''X509_USER_KEY'')) (Some c))
      | None \<Rightarrow>
          if sy_uid env = 0 then Go (existing env X509_DEFAULT_HOST_CERT, existing env X509_DEFAULT_HOST_KEY)
          else after (default_user_files env home) (\<lambda>(c, k). Go (Some c, Some k)))"

record file_names =
  fn_cert_file :: "cstring option option"
  fn_cert_dir :: "cstring option option"
  fn_user_proxy :: "cstring option option"
  fn_user_cert :: "cstring option option"
  fn_user_key :: "cstring option option"

text \<open>\<open>if (p \<and> x \<and> !*p) *p = strdup (x)\<close>.\<close>

definition store :: "bool \<Rightarrow> cstring option option \<Rightarrow> cstring option \<Rightarrow> cstring option option" where
  "store mem p x =
     (case p of
        Some None \<Rightarrow> (case x of Some f \<Rightarrow> Some (if mem then Some f else None) | None \<Rightarrow> Some None)
      | _ \<Rightarrow> p)"

definition proxy_get_filenames :: "sys_env \<Rightarrow> bool \<Rightarrow> file_names \<Rightarrow> file_names step" where
  "proxy_get_filenames env proxy_in p =
     after (find_cert_dir env (target (fn_cert_dir p))) (\<lambda>(cert_dir, home).
     let cert_file = orelse (target (fn_cert_file p)) (sy_getenv env ''X509_CERT_FILE'') in
     after (need (checkstat env cert_dir \<noteq> 1) (init_err PRXYERR_R_PROCESS_CERTS)) (\<lambda>_.
     after (need (case cert_file of None \<Rightarrow> True | Some f \<Rightarrow> checkstat env f \<noteq> 1)
       (init_err PRXYERR_R_PROCESS_CERTS)) (\<lambda>_.
     after (find_user_proxy env proxy_in (target (fn_user_proxy p))) (\<lambda>(user_proxy, default_user_proxy).
     after (if proxy_in \<and> user_proxy \<noteq> None then Go (user_proxy, user_proxy, user_proxy)
            else after (find_user_files env home (target (fn_user_cert p)) (target (fn_user_key p))) (\<lambda>(c, k).
              Go (if user_proxy = None \<and> \<not> proxy_in then default_user_proxy else user_proxy, c, k)))
       (\<lambda>(user_proxy, user_cert, user_key).
        Go \<lparr>fn_cert_file = store (sy_mem env 8) (fn_cert_file p) cert_file,
             fn_cert_dir = store (sy_mem env 9) (fn_cert_dir p) (Some cert_dir),
             fn_user_proxy = store (sy_mem env 10) (fn_user_proxy p) user_proxy,
             fn_user_cert = store (sy_mem env 11) (fn_user_cert p) user_cert,
             fn_user_key = store (sy_mem env 12) (fn_user_key p) user_key\<rparr>)))))"

text \<open>
  \<open>determine_filenames\<close>: 1 with the names, or 0 with the names as far as they were set. With
  \<open>noregen\<close> the old proxy is the source of the new one, unless the user named a certificate or
  a key. Undefined behaviour is a NULL pointer to a name that is read, or \<open>strdup\<close> of a proxy
  name that is NULL.
\<close>

definition filenames_answer :: "file_names \<Rightarrow> file_names step \<Rightarrow> (int \<times> file_names) option" where
  "filenames_answer p r = (case r of Wild \<Rightarrow> None | Stop _ \<Rightarrow> Some (0, p) | Go q \<Rightarrow> Some (1, q))"

definition from_old_proxy :: "sys_env \<Rightarrow> file_names \<Rightarrow> file_names \<Rightarrow> file_names option" where
  "from_old_proxy env p q =
     (if fn_user_cert p = Some None \<and> fn_user_key p = Some None then
        map_option (\<lambda>old. p\<lparr>fn_user_cert := Some (if sy_mem env 13 then Some old else None),
                            fn_user_key := Some (Some old)\<rparr>) (target (fn_user_proxy q))
      else Some (p\<lparr>fn_user_cert := fn_user_cert q, fn_user_key := fn_user_key q\<rparr>))"

definition determine_filenames :: "sys_env \<Rightarrow> file_names \<Rightarrow> int \<Rightarrow> (int \<times> file_names) option" where
  "determine_filenames env p noregen =
     (if noregen \<noteq> 0 then
        (if fn_user_cert p = None \<or> (fn_user_cert p = Some None \<and> fn_user_key p = None) then None
         else (case proxy_get_filenames env False
                      (p\<lparr>fn_cert_file := None, fn_cert_dir := None, fn_user_proxy := Some None\<rparr>) of
                 Wild \<Rightarrow> None
               | Stop _ \<Rightarrow> Some (0, p)
               | Go q \<Rightarrow>
                   (case from_old_proxy env p q of
                      None \<Rightarrow> None
                    | Some p' \<Rightarrow> filenames_answer p' (proxy_get_filenames env False p'))))
      else filenames_answer p (proxy_get_filenames env False p))"

section \<open>What is found\<close>

lemma path_nonempty [simp]: "path d f \<noteq> []"
  by (simp add: path_def)

lemma snprintf_path: "snprintf_wrap m (path d f) = (if m then Some (path d f) else None)"
  by (simp add: snprintf_wrap_def vsnprintf_wrap_def path_def)

lemma store_simps [simp]:
  "store mem (Some (Some f)) x = Some (Some f)" "store mem None x = None"
  "store True (Some None) x = Some x"
  by (simp_all add: store_def split: option.splits)

text \<open>The parts of a successful call.\<close>

lemma get_filenames_Go:
  assumes "proxy_get_filenames env proxy_in p = Go q"
  obtains d home up dp upx c k where
    "find_cert_dir env (target (fn_cert_dir p)) = Go (d, home)" "checkstat env d \<noteq> 1"
    "fn_cert_dir q = store (sy_mem env 9) (fn_cert_dir p) (Some d)"
    "find_user_proxy env proxy_in (target (fn_user_proxy p)) = Go (up, dp)"
    "proxy_in \<and> up \<noteq> None \<Longrightarrow> upx = up \<and> c = up \<and> k = up"
    "\<not> (proxy_in \<and> up \<noteq> None) \<Longrightarrow> find_user_files env home (target (fn_user_cert p)) (target (fn_user_key p)) = Go (c, k) \<and>
       upx = (if up = None \<and> \<not> proxy_in then dp else up)"
    "fn_user_proxy q = store (sy_mem env 10) (fn_user_proxy p) upx"
    "fn_user_cert q = store (sy_mem env 11) (fn_user_cert p) c"
    "fn_user_key q = store (sy_mem env 12) (fn_user_key p) k"
    "fn_cert_file q = store (sy_mem env 8) (fn_cert_file p)
       (orelse (target (fn_cert_file p)) (sy_getenv env ''X509_CERT_FILE''))"
proof -
  from assms obtain d home where d: "find_cert_dir env (target (fn_cert_dir p)) = Go (d, home)"
    by (auto simp: proxy_get_filenames_def after_Go)
  with assms have ex: "checkstat env d \<noteq> 1" by (auto simp: proxy_get_filenames_def after_Go Let_def)
  from assms d obtain up dp where up: "find_user_proxy env proxy_in (target (fn_user_proxy p)) = Go (up, dp)"
    by (auto simp: proxy_get_filenames_def after_Go Let_def)
  show ?thesis
  proof (cases "proxy_in \<and> up \<noteq> None")
    case True
    with assms d up show ?thesis
      by (intro that [OF d ex _ up, of up up up]) (auto simp: proxy_get_filenames_def after_Go Let_def)
  next
    case False
    with assms d up obtain c k where ck: "find_user_files env home (target (fn_user_cert p)) (target (fn_user_key p)) = Go (c, k)"
      by (auto simp: proxy_get_filenames_def after_Go Let_def)
    with False assms d up show ?thesis
      by (intro that [OF d ex _ up, of "if up = None \<and> \<not> proxy_in then dp else up" c k])
        (auto simp: proxy_get_filenames_def after_Go Let_def)
  qed
qed

text \<open>
  The directory as a search through candidates: a name that is given or in the environment, or
  the first existing one of the user's and the host's directory, or the installation's.
\<close>

definition home_dir :: "sys_env \<Rightarrow> cstring" where
  "home_dir env = (case sy_getenv env ''HOME'' of Some h \<Rightarrow> h | None \<Rightarrow> ''c:'' @ [CHR 0x5C] @ ''windows'')"

definition cert_dir_spec :: "sys_env \<Rightarrow> cstring option \<Rightarrow> cstring" where
  "cert_dir_spec env given =
     (case orelse given (sy_getenv env ''X509_CERT_DIR'') of
        Some d \<Rightarrow> d
      | None \<Rightarrow>
          hd (filter (\<lambda>d. checkstat env d \<noteq> 1)
                [path (home_dir env) X509_DEFAULT_CERT_DIR, X509_INSTALLED_HOST_CERT_DIR] @
              [case deploy_path env of Some d \<Rightarrow> path d X509_INSTALLED_CERT_DIR | None \<Rightarrow> X509_INSTALLED_HOST_CERT_DIR]))"

lemma find_cert_dir_spec: "find_cert_dir env given = Go (d, home) \<Longrightarrow> d = cert_dir_spec env given"
  by (auto simp: find_cert_dir_def cert_dir_spec_def search_cert_dir_def home_dir_def after_Go snprintf_path Let_def
      split: option.splits if_splits)

text \<open>
  C33: the directory of trusted certificates. When the search succeeds the directory is the one
  named by the caller, or by X509_CERT_DIR, or the first that exists of the home directory's and
  the host's, or the one of the installation; it exists in any case, and a name the caller gave
  is kept.
\<close>

theorem cert_dir_search:
  assumes "proxy_get_filenames env proxy_in p = Go q" "sy_mem env 9"
  shows "checkstat env (cert_dir_spec env (target (fn_cert_dir p))) \<noteq> 1 \<and>
    fn_cert_dir q = map_option (\<lambda>_. Some (cert_dir_spec env (target (fn_cert_dir p)))) (fn_cert_dir p)"
proof -
  from assms(1) obtain d home where d: "find_cert_dir env (target (fn_cert_dir p)) = Go (d, home)" "checkstat env d \<noteq> 1"
    "fn_cert_dir q = store (sy_mem env 9) (fn_cert_dir p) (Some d)"
    by (rule get_filenames_Go) auto
  with find_cert_dir_spec [OF d(1)] assms(2) show ?thesis
    by (cases "fn_cert_dir p"; cases "target (fn_cert_dir p)") (auto simp: target_def cert_dir_spec_def orelse_def)
qed

text \<open>
  Proxies read by default. When credentials are read and neither the caller nor the
  environment names a proxy, a proxy is used only from the default file of a user who is not
  root, and only when the file belongs to that user, is closed to others and is not empty; the
  certificate and the key are then that file too, unless the caller names them.
\<close>

theorem default_proxy_checked:
  assumes "proxy_get_filenames env True p = Go q"
    and "fn_user_proxy p = Some None" "sy_getenv env ''X509_USER_PROXY'' = None" "fn_user_proxy q = Some (Some f)"
  shows "f = ''/tmp/x509up_u'' @ show_nat (sy_uid env) \<and> sy_uid env \<noteq> 0 \<and>
    (\<exists>st. sy_stat env f = Some st \<and> fst_uid st = int (sy_uid env) \<and> fst_mode st AND 0x36 = 0 \<and> fst_size st \<noteq> 0) \<and>
    fn_user_cert q = store (sy_mem env 11) (fn_user_cert p) (Some f) \<and>
    fn_user_key q = store (sy_mem env 12) (fn_user_key p) (Some f)"
proof -
  from assms(1) obtain up dp upx c k where up: "find_user_proxy env True (target (fn_user_proxy p)) = Go (up, dp)"
    "up \<noteq> None \<Longrightarrow> upx = up \<and> c = up \<and> k = up" "up = None \<Longrightarrow> upx = up"
    "fn_user_proxy q = store (sy_mem env 10) (fn_user_proxy p) upx"
    "fn_user_cert q = store (sy_mem env 11) (fn_user_cert p) c" "fn_user_key q = store (sy_mem env 12) (fn_user_key p) k"
    by (rule get_filenames_Go) auto
  have "upx = Some f" using up(4) assms(2,4) by (auto simp: store_def split: option.splits if_splits)
  with up(2,3) have u: "up = Some f" "c = Some f" "k = Some f" by auto
  with up(1) assms(2,3) have f: "f = ''/tmp/x509up_u'' @ show_nat (sy_uid env)" "sy_uid env \<noteq> 0" "checkstat env f = 0"
    by (auto simp: find_user_proxy_def target_def orelse_def after_Go snprintf_path split: if_splits)
      (simp add: path_def)
  then have "\<exists>st. sy_stat env f = Some st \<and> fst_uid st = int (sy_uid env) \<and> fst_mode st AND 0x36 = 0 \<and> fst_size st \<noteq> 0"
    by (auto simp: checkstat_def split: option.splits if_splits)
  with f u up(5,6) show ?thesis by blast
qed

definition sample_sys :: sys_env where
  "sample_sys = \<lparr>sy_getenv = [''HOME'' \<mapsto> ''/home/alice''],
     sy_stat = [''/home/alice/.globus/certificates'' \<mapsto> \<lparr>fst_uid = 0, fst_mode = 0x41ED, fst_size = 4096\<rparr>,
                ''/tmp/x509up_u500'' \<mapsto> \<lparr>fst_uid = 500, fst_mode = 0x8180, fst_size = 5000\<rparr>],
     sy_readable = (\<lambda>_. True), sy_uid = 500, sy_mem = (\<lambda>_. True)\<rparr>"

definition sample_ask :: file_names where
  "sample_ask = \<lparr>fn_cert_file = None, fn_cert_dir = Some None, fn_user_proxy = Some None,
     fn_user_cert = Some None, fn_user_key = Some None\<rparr>"

definition sample_found :: file_names where
  "sample_found = \<lparr>fn_cert_file = None, fn_cert_dir = Some (Some ''/home/alice/.globus/certificates''),
     fn_user_proxy = Some (Some ''/tmp/x509up_u500''), fn_user_cert = Some (Some ''/tmp/x509up_u500''),
     fn_user_key = Some (Some ''/tmp/x509up_u500'')\<rparr>"

lemma show_500: "show_nat 500 = ''500''"
  using char_of_char [where 'a = nat, of "CHR ''5''"] char_of_char [where 'a = nat, of "CHR ''0''"]
  by (simp add: show_nat.simps [of 500] show_nat.simps [of 50] show_nat.simps [of 5])

lemma sample_sys_simps:
  "sy_getenv sample_sys = [''HOME'' \<mapsto> ''/home/alice'']" "sy_uid sample_sys = 500" "sy_mem sample_sys n = True"
  "checkstat sample_sys ''/home/alice/.globus/certificates'' = 2" "checkstat sample_sys ''/tmp/x509up_u500'' = 0"
  by (simp_all add: sample_sys_def checkstat_def)

lemma sample_paths:
  "path ''/home/alice'' X509_DEFAULT_CERT_DIR = ''/home/alice/.globus/certificates''"
  "path ''/tmp'' (''x509up_u'' @ show_nat 500) = ''/tmp/x509up_u500''"
  by (simp_all add: path_def X509_DEFAULT_CERT_DIR_def show_500)

lemma sample_filenames_run: "proxy_get_filenames sample_sys True sample_ask = Go sample_found"
proof -
  have d: "find_cert_dir sample_sys None = Go (''/home/alice/.globus/certificates'', Some ''/home/alice'')"
    by (simp add: find_cert_dir_def search_cert_dir_def orelse_def snprintf_path sample_paths sample_sys_simps Let_def)
  have u: "find_user_proxy sample_sys True None = Go (Some ''/tmp/x509up_u500'', Some ''/tmp/x509up_u500'')"
    using sample_paths(2) snprintf_path [of True "''/tmp''" "''x509up_u'' @ show_nat 500"]
    by (simp add: find_user_proxy_def orelse_def sample_sys_simps)
  show ?thesis
    unfolding proxy_get_filenames_def
    by (simp add: sample_ask_def sample_found_def target_def d u orelse_def sample_sys_simps)
qed

lemma cert_dir_search_witness:
  "checkstat sample_sys (cert_dir_spec sample_sys None) \<noteq> 1 \<and>
   cert_dir_spec sample_sys None = ''/home/alice/.globus/certificates''"
  using cert_dir_search [OF sample_filenames_run]
  by (simp add: sample_ask_def sample_found_def target_def sample_sys_simps)

lemma default_proxy_checked_witness:
  "\<exists>st. sy_stat sample_sys ''/tmp/x509up_u500'' = Some st \<and> fst_uid st = 500 \<and> fst_mode st AND 0x36 = 0 \<and> fst_size st \<noteq> 0"
  using default_proxy_checked [OF sample_filenames_run, of "''/tmp/x509up_u500''"]
  by (simp add: sample_ask_def sample_found_def sample_sys_simps show_500)

text \<open>A PKCS#12 file named by X509_USER_CRED is never used: its name is written to freed memory.\<close>

lemma user_cred_freed:
  assumes "sy_getenv env ''X509_USER_CRED'' = Some f" "sy_getenv env ''X509_USER_CERT'' = None"
    and "sy_uid env \<noteq> 0" "sy_getenv env ''HOME'' = Some h" "\<not> sy_readable env (path h X509_DEFAULT_USER_CERT)"
    and "\<And>n. sy_mem env n" "home = None \<or> home = Some h"
  shows "find_user_files env home None k = Wild"
  using assms
  by (auto simp: find_user_files_def default_user_files_def pkcs12_names_def orelse_def snprintf_path)

end
