(* ===== verification/CertInfo.thy ===== *)
theory CertInfo
  imports X509Model
begin

text \<open>
  The ProxyCertInfo extension of src/src/sslutils/proxycertinfo.c: the policy and the path length
  a proxy carries, their encoding for the two versions of the extension, and the registration of
  the two object identifiers.

  OpenSSL encodes and decodes the primitive values and the tags. An encoded value is the tree of
  its tagged parts; a part the macros of OpenSSL write for a NULL pointer is absent.
\<close>

section \<open>Data\<close>

datatype asn1 =
    A_object oid
  | A_integer int
  | A_octets bytes
  | A_implicit nat bytes
  | A_explicit nat asn1
  | A_sequence "asn1 list"

record myPROXYPOLICY =
  policy_language :: oid
  pp_policy :: "bytes option"

record myPROXYCERTINFO =
  path_length :: "int option"
  proxypolicy :: "myPROXYPOLICY option"
  pci_version :: int

definition IMPERSONATION_PROXY_OID :: oid where "IMPERSONATION_PROXY_OID = ''1.3.6.1.5.5.7.21.1''"
definition INDEPENDENT_PROXY_OID :: oid where "INDEPENDENT_PROXY_OID = ''1.3.6.1.5.5.7.21.2''"
definition GLOBUS_GSI_PROXY_GENERIC_POLICY_OID :: oid where
  "GLOBUS_GSI_PROXY_GENERIC_POLICY_OID = ''1.3.6.1.4.1.3536.1.1.1.8''"
definition LIMITED_PROXY_OID :: oid where "LIMITED_PROXY_OID = ''1.3.6.1.4.1.3536.1.1.1.9''"

section \<open>The policy\<close>

text \<open>
  \<open>myPROXYPOLICY_new\<close>, with the object of the impersonation policy's name as an argument.
  Allocation succeeds: the constructors do not return otherwise.
\<close>

definition myPROXYPOLICY_new :: "oid \<Rightarrow> myPROXYPOLICY" where
  "myPROXYPOLICY_new impersonation = \<lparr>policy_language = impersonation, pp_policy = None\<rparr>"

definition myPROXYPOLICY_set_policy_language :: "myPROXYPOLICY \<Rightarrow> oid option \<Rightarrow> int \<times> myPROXYPOLICY" where
  "myPROXYPOLICY_set_policy_language p l =
     (case l of Some o1 \<Rightarrow> (1, p\<lparr>policy_language := o1\<rparr>) | None \<Rightarrow> (0, p))"

definition myPROXYPOLICY_get_policy_language :: "myPROXYPOLICY \<Rightarrow> oid" where
  "myPROXYPOLICY_get_policy_language p = policy_language p"

text \<open>
  \<open>myPROXYPOLICY_set_policy\<close>, with the first \<open>length\<close> bytes of the buffer. A NULL policy frees the
  old one and leaves the pointer to it, which is \<open>None\<close> when there was one.
\<close>

definition myPROXYPOLICY_set_policy :: "myPROXYPOLICY \<Rightarrow> bytes option \<Rightarrow> (int \<times> myPROXYPOLICY) option" where
  "myPROXYPOLICY_set_policy p new =
     (case new of
        Some b \<Rightarrow> Some (1, p\<lparr>pp_policy := Some b\<rparr>)
      | None \<Rightarrow> if pp_policy p = None then Some (1, p) else None)"

text \<open>The bytes and the length left in \<open>*length\<close>, which stays as it was without a policy.\<close>

definition myPROXYPOLICY_get_policy :: "myPROXYPOLICY \<Rightarrow> int \<Rightarrow> bytes option \<times> int" where
  "myPROXYPOLICY_get_policy p len =
     (case pp_policy p of
        Some b \<Rightarrow> (if b \<noteq> [] then Some b else None, int (length b))
      | None \<Rightarrow> (None, len))"

definition i2d_myPROXYPOLICY :: "myPROXYPOLICY \<Rightarrow> asn1" where
  "i2d_myPROXYPOLICY p =
     A_sequence (A_object (policy_language p) # (case pp_policy p of None \<Rightarrow> [] | Some b \<Rightarrow> [A_octets b]))"

text \<open>
  The optional parts of a sequence that is read: a part with the tag asked for is taken, any
  other part is left.
\<close>

fun take_octets :: "asn1 list \<Rightarrow> bytes option \<Rightarrow> bytes option \<times> asn1 list" where
  "take_octets (A_octets b # r) old = (Some b, r)"
| "take_octets r old = (old, r)"

fun take_implicit :: "asn1 list \<Rightarrow> bytes option \<Rightarrow> bytes option \<times> asn1 list" where
  "take_implicit (A_implicit 0 b # r) old = (Some b, r)"
| "take_implicit r old = (old, r)"

fun take_integer :: "asn1 list \<Rightarrow> int option \<Rightarrow> int option \<times> asn1 list" where
  "take_integer (A_integer n # r) old = (Some n, r)"
| "take_integer r old = (old, r)"

text \<open>An explicit tag around anything but an integer is an error.\<close>

fun take_explicit :: "asn1 list \<Rightarrow> int option \<Rightarrow> (int option \<times> asn1 list) option" where
  "take_explicit (A_explicit n x # r) old =
     (if n = 1 then (case x of A_integer i \<Rightarrow> Some (Some i, r) | _ \<Rightarrow> None) else Some (old, A_explicit n x # r))"
| "take_explicit r old = Some (old, r)"

definition d2i_myPROXYPOLICY :: "asn1 \<Rightarrow> myPROXYPOLICY option" where
  "d2i_myPROXYPOLICY a =
     (case a of
        A_sequence (A_object l # r) \<Rightarrow>
          (case take_octets r None of (p, r) \<Rightarrow>
             (case take_implicit r p of (p, r) \<Rightarrow>
                if r = [] then Some \<lparr>policy_language = l, pp_policy = p\<rparr> else None))
      | _ \<Rightarrow> None)"

text \<open>\<open>myPROXYPOLICY_dup\<close> encodes and decodes.\<close>

definition myPROXYPOLICY_dup :: "myPROXYPOLICY \<Rightarrow> myPROXYPOLICY option" where
  "myPROXYPOLICY_dup p = d2i_myPROXYPOLICY (i2d_myPROXYPOLICY p)"

section \<open>The extension\<close>

definition myPROXYCERTINFO_new :: "oid \<Rightarrow> myPROXYCERTINFO" where
  "myPROXYCERTINFO_new impersonation =
     \<lparr>path_length = None, proxypolicy = Some (myPROXYPOLICY_new impersonation), pci_version = 0\<rparr>"

definition myPROXYCERTINFO_set_path_length :: "myPROXYCERTINFO option \<Rightarrow> int \<Rightarrow> int \<times> myPROXYCERTINFO option" where
  "myPROXYCERTINFO_set_path_length pci n =
     (case pci of
        Some i \<Rightarrow> (1, Some (i\<lparr>path_length := (if n \<noteq> -1 then Some n else None)\<rparr>))
      | None \<Rightarrow> (0, None))"

definition myPROXYCERTINFO_set_version :: "myPROXYCERTINFO option \<Rightarrow> int \<Rightarrow> int \<times> myPROXYCERTINFO option" where
  "myPROXYCERTINFO_set_version pci v =
     (case pci of Some i \<Rightarrow> (1, Some (i\<lparr>pci_version := v\<rparr>)) | None \<Rightarrow> (0, None))"

definition myPROXYCERTINFO_get_version :: "myPROXYCERTINFO option \<Rightarrow> int" where
  "myPROXYCERTINFO_get_version pci = (case pci of Some i \<Rightarrow> pci_version i | None \<Rightarrow> -1)"

definition myPROXYCERTINFO_get_path_length :: "myPROXYCERTINFO option \<Rightarrow> int" where
  "myPROXYCERTINFO_get_path_length pci =
     (case pci of
        Some i \<Rightarrow> (case path_length i of Some n \<Rightarrow> ASN1_INTEGER_get n | None \<Rightarrow> -1)
      | None \<Rightarrow> -1)"

definition myPROXYCERTINFO_set_proxypolicy :: "myPROXYCERTINFO \<Rightarrow> myPROXYPOLICY option \<Rightarrow> int \<times> myPROXYCERTINFO" where
  "myPROXYCERTINFO_set_proxypolicy i p =
     (1, i\<lparr>proxypolicy := (case p of Some p \<Rightarrow> myPROXYPOLICY_dup p | None \<Rightarrow> None)\<rparr>)"

definition myPROXYCERTINFO_get_proxypolicy :: "myPROXYCERTINFO option \<Rightarrow> myPROXYPOLICY option" where
  "myPROXYCERTINFO_get_proxypolicy pci = (case pci of Some i \<Rightarrow> proxypolicy i | None \<Rightarrow> None)"

definition policy_part :: "myPROXYCERTINFO \<Rightarrow> asn1 list" where
  "policy_part i = (case proxypolicy i of Some p \<Rightarrow> [i2d_myPROXYPOLICY p] | None \<Rightarrow> [])"

definition i2d_myPROXYCERTINFO_v3 :: "myPROXYCERTINFO \<Rightarrow> asn1" where
  "i2d_myPROXYCERTINFO_v3 i =
     A_sequence (policy_part i @ (case path_length i of Some n \<Rightarrow> [A_explicit 1 (A_integer n)] | None \<Rightarrow> []))"

definition i2d_myPROXYCERTINFO_v4 :: "myPROXYCERTINFO \<Rightarrow> asn1" where
  "i2d_myPROXYCERTINFO_v4 i =
     A_sequence ((case path_length i of Some n \<Rightarrow> [A_integer n] | None \<Rightarrow> []) @ policy_part i)"

text \<open>\<open>i2d_myPROXYCERTINFO\<close>: \<open>None\<close> is the answer -1.\<close>

definition i2d_myPROXYCERTINFO :: "myPROXYCERTINFO \<Rightarrow> asn1 option" where
  "i2d_myPROXYCERTINFO i =
     (if pci_version i = 3 then Some (i2d_myPROXYCERTINFO_v3 i)
      else if pci_version i = 4 then Some (i2d_myPROXYCERTINFO_v4 i) else None)"

definition d2i_myPROXYCERTINFO_v3 :: "asn1 \<Rightarrow> myPROXYCERTINFO option" where
  "d2i_myPROXYCERTINFO_v3 a =
     (case a of
        A_sequence (x # r) \<Rightarrow>
          (case d2i_myPROXYPOLICY x of
             None \<Rightarrow> None
           | Some p \<Rightarrow>
               (case take_explicit r None of
                  Some (n, []) \<Rightarrow> Some \<lparr>path_length = n, proxypolicy = Some p, pci_version = 3\<rparr>
                | _ \<Rightarrow> None))
      | _ \<Rightarrow> None)"

definition d2i_myPROXYCERTINFO_v4 :: "asn1 \<Rightarrow> myPROXYCERTINFO option" where
  "d2i_myPROXYCERTINFO_v4 a =
     (case a of
        A_sequence xs \<Rightarrow>
          (case take_explicit xs None of
             None \<Rightarrow> None
           | Some (n, r) \<Rightarrow>
               (case take_integer r n of
                  (n, [x]) \<Rightarrow>
                    map_option (\<lambda>p. \<lparr>path_length = n, proxypolicy = Some p, pci_version = 4\<rparr>) (d2i_myPROXYPOLICY x)
                | _ \<Rightarrow> None))
      | _ \<Rightarrow> None)"

definition d2i_myPROXYCERTINFO :: "asn1 \<Rightarrow> myPROXYCERTINFO option" where
  "d2i_myPROXYCERTINFO a =
     (case d2i_myPROXYCERTINFO_v3 a of Some i \<Rightarrow> Some i | None \<Rightarrow> d2i_myPROXYCERTINFO_v4 a)"

section \<open>Printing and registration\<close>

text \<open>\<open>printf\<close>'s \<open>%X\<close> of an \<open>int\<close>.\<close>

definition show_X :: "int \<Rightarrow> cstring" where
  "show_X j = show_hex (unat (word_of_int j :: 32 word))"

text \<open>
  \<open>myproxycertinfo_i2s\<close>. The argument is the text \<open>i2t_ASN1_OBJECT\<close> writes, NULL when it
  answers 0; the policy is printed up to its first NUL. The number is read into an \<open>int\<close>.
\<close>

definition c_str :: "bytes \<Rightarrow> cstring" where
  "c_str b = takeWhile (\<lambda>c. c \<noteq> NUL) b"

definition myproxycertinfo_i2s :: "(oid \<Rightarrow> cstring option) \<Rightarrow> myPROXYCERTINFO option \<Rightarrow> cstring" where
  "myproxycertinfo_i2s i2t pci =
     (case pci of
        None \<Rightarrow> []
      | Some i \<Rightarrow>
          (let output = (case path_length i of
                 Some n \<Rightarrow>
                   (let buffer = show_X (ASN1_INTEGER_get n)
                    in ''Path Length Constraint: '' @ (if length buffer mod 2 \<noteq> 0 then ''0'' else []) @ buffer @
                       [CHR 0x0A, CHR 0x0A])
               | None \<Rightarrow> ''Path Length Constraint: unlimited'' @ [CHR 0x0A]);
               lang = (case proxypolicy i of
                         Some p \<Rightarrow> (case i2t (policy_language p) of Some t \<Rightarrow> t | None \<Rightarrow> []) | None \<Rightarrow> []);
               pol = (case proxypolicy i of Some p \<Rightarrow> pp_policy p | None \<Rightarrow> None)
           in output @ ''Policy Language: '' @ lang @
              (case pol of
                 Some b \<Rightarrow> [CHR 0x0A] @ ''Policy Text: '' @ c_str b @ [CHR 0x0A]
               | None \<Rightarrow> []) @ [CHR 0x0A]))"

text \<open>
  \<open>InitProxyCertInfoExtension\<close>, with the identifiers that are registered, those with an
  extension method of this file, and the two static flags. \<open>built_native\<close> is the compile-time
  flag \<open>X509_V_FLAG_ALLOW_PROXY_CERTS\<close>.
\<close>

record pci_registry =
  pr_known :: "oid list"
  pr_methods :: "oid list"
  pr_set :: bool
  pr_native :: bool

definition register_pci :: "bool \<Rightarrow> bool \<Rightarrow> oid \<Rightarrow> pci_registry \<Rightarrow> pci_registry" where
  "register_pci mem full oid1 st =
     (if oid1 \<in> set (pr_known st) then st
      else st\<lparr>pr_known := oid1 # pr_known st,
              pr_methods := (if full \<and> mem then oid1 # pr_methods st else pr_methods st)\<rparr>)"

definition InitProxyCertInfoExtension ::
  "oid \<Rightarrow> oid \<Rightarrow> bool \<Rightarrow> bool \<Rightarrow> bool \<Rightarrow> bool \<Rightarrow> pci_registry \<Rightarrow> pci_registry" where
  "InitProxyCertInfoExtension v3 v4 built_native mem3 mem4 full st =
     (if pr_set st then st
      else (register_pci mem4 full v4 (register_pci mem3 full v3 (st\<lparr>pr_set := True\<rparr>)))
             \<lparr>pr_native := built_native \<or> pr_native st\<rparr>)"

definition proxynative :: "pci_registry \<Rightarrow> int" where
  "proxynative st = (if pr_native st then 1 else 0)"

section \<open>Encodings are read back\<close>

lemma policy_round_trip [simp]: "d2i_myPROXYPOLICY (i2d_myPROXYPOLICY p) = Some p"
  by (cases "pp_policy p") (simp_all add: d2i_myPROXYPOLICY_def i2d_myPROXYPOLICY_def)

lemma policy_dup [simp]: "myPROXYPOLICY_dup p = Some p"
  by (simp add: myPROXYPOLICY_dup_def)

lemma not_a_policy [simp]: "d2i_myPROXYPOLICY (A_integer n) = None"
  by (simp add: d2i_myPROXYPOLICY_def)

lemma take_explicit_policy [simp]:
  "take_explicit (i2d_myPROXYPOLICY p # r) old = Some (old, i2d_myPROXYPOLICY p # r)"
  "take_integer (i2d_myPROXYPOLICY p # r) n = (n, i2d_myPROXYPOLICY p # r)"
  by (simp_all add: i2d_myPROXYPOLICY_def)

text \<open>
  C32: the extension is read back. A ProxyCertInfo with a policy that is encoded for its version,
  3 or 4, decodes to itself, with one exception: without a path length the two encodings are the
  same, and version 4 is read as version 3.
\<close>

theorem certinfo_round_trip:
  assumes "i2d_myPROXYCERTINFO i = Some a" "proxypolicy i \<noteq> None"
  shows "d2i_myPROXYCERTINFO a = Some (if path_length i = None then i\<lparr>pci_version := 3\<rparr> else i)"
proof -
  obtain p where p: "proxypolicy i = Some p" using assms(2) by auto
  consider "pci_version i = 3" "a = i2d_myPROXYCERTINFO_v3 i" | "pci_version i = 4" "a = i2d_myPROXYCERTINFO_v4 i"
    using assms(1) by (auto simp: i2d_myPROXYCERTINFO_def split: if_splits)
  then show ?thesis
  proof cases
    case 1
    then show ?thesis
      by (cases "path_length i")
        (simp_all add: d2i_myPROXYCERTINFO_def d2i_myPROXYCERTINFO_v3_def i2d_myPROXYCERTINFO_v3_def policy_part_def p)
  next
    case 2
    then show ?thesis
      by (cases "path_length i")
        (simp_all add: d2i_myPROXYCERTINFO_def d2i_myPROXYCERTINFO_v3_def d2i_myPROXYCERTINFO_v4_def
          i2d_myPROXYCERTINFO_v4_def policy_part_def p)
  qed
qed

definition sample_pci :: myPROXYCERTINFO where
  "sample_pci = \<lparr>path_length = Some 2,
     proxypolicy = Some \<lparr>policy_language = LIMITED_PROXY_OID, pp_policy = Some ''none''\<rparr>, pci_version = 4\<rparr>"

lemma certinfo_round_trip_witness:
  "d2i_myPROXYCERTINFO (i2d_myPROXYCERTINFO_v4 sample_pci) = Some sample_pci"
  by (subst certinfo_round_trip [of sample_pci]) (simp_all add: i2d_myPROXYCERTINFO_def sample_pci_def)

text \<open>What the setters set, the getters get.\<close>

lemma set_get_policy:
  "myPROXYPOLICY_set_policy p (Some b) = Some (1, q) \<Longrightarrow> b \<noteq> [] \<Longrightarrow>
     myPROXYPOLICY_get_policy q len = (Some b, int (length b))"
  by (auto simp: myPROXYPOLICY_set_policy_def myPROXYPOLICY_get_policy_def)

lemma set_get_path_length:
  "0 \<le> n \<Longrightarrow> n < 2 ^ 63 \<Longrightarrow>
     myPROXYCERTINFO_get_path_length (snd (myPROXYCERTINFO_set_path_length (Some i) n)) = n"
  using signed_take_bit_int_eq_self [of 63 n]
  by (simp add: myPROXYCERTINFO_get_path_length_def myPROXYCERTINFO_set_path_length_def ASN1_INTEGER_get_def
      sint_sbintrunc')

text \<open>
  After the registration both identifiers are known, and a second call changes nothing.
\<close>

lemma init_registers:
  assumes "\<not> pr_set st"
  shows "{v3, v4} \<subseteq> set (pr_known (InitProxyCertInfoExtension v3 v4 n m3 m4 full st))"
    and "InitProxyCertInfoExtension v3 v4 n' m3' m4' full' (InitProxyCertInfoExtension v3 v4 n m3 m4 full st) =
      InitProxyCertInfoExtension v3 v4 n m3 m4 full st"
  using assms by (auto simp: InitProxyCertInfoExtension_def register_pci_def)

end
