(* ===== verification/MakeProxy.thy ===== *)
theory MakeProxy
  imports ProxySign CertInfo
begin

unbundle bit_operations_syntax

text \<open>
  The construction of a proxy with its extensions: \<open>VOMS_MakeProxy\<close> and the functions of
  src/src/sslutils/proxy.c it uses.

  The functions of OpenSSL that make an extension from its configuration text, and the files that
  are read, are parameters (the record \<open>mk_env\<close>). A function continues with the extensions
  collected so far, leaves through \<open>err\<close>, or meets undefined behaviour (\<open>Crash\<close>).
\<close>

section \<open>Key usage\<close>

definition KU_DIGITAL_SIGNATURE :: int where "KU_DIGITAL_SIGNATURE = 0x80"
definition KU_NON_REPUDIATION :: int where "KU_NON_REPUDIATION = 0x40"
definition KU_KEY_ENCIPHERMENT :: int where "KU_KEY_ENCIPHERMENT = 0x20"
definition KU_DATA_ENCIPHERMENT :: int where "KU_DATA_ENCIPHERMENT = 0x10"
definition KU_KEY_AGREEMENT :: int where "KU_KEY_AGREEMENT = 0x08"
definition KU_KEY_CERT_SIGN :: int where "KU_KEY_CERT_SIGN = 0x04"
definition KU_CRL_SIGN :: int where "KU_CRL_SIGN = 0x02"
definition KU_ENCIPHER_ONLY :: int where "KU_ENCIPHER_ONLY = 0x01"
definition KU_DECIPHER_ONLY :: int where "KU_DECIPHER_ONLY = 0x8000"

lemmas ku_defs = KU_DIGITAL_SIGNATURE_def KU_NON_REPUDIATION_def KU_KEY_ENCIPHERMENT_def KU_DATA_ENCIPHERMENT_def
  KU_KEY_AGREEMENT_def KU_KEY_CERT_SIGN_def KU_CRL_SIGN_def KU_ENCIPHER_ONLY_def KU_DECIPHER_ONLY_def

text \<open>\<open>getBitName\<close>: the name up to a comma and what is left of the string.\<close>

definition getBitName :: "cstring \<Rightarrow> (cstring \<times> cstring) option" where
  "getBitName s =
     (if s = [] then None
      else (case strchr s (CHR '','') of
              Some i \<Rightarrow> Some (take i s, drop (Suc i) s)
            | None \<Rightarrow> Some (s, [])))"

definition getBitValue :: "cstring \<Rightarrow> int" where
  "getBitValue bitname =
     (if strcmp bitname ''digitalSignature'' = 0 then KU_DIGITAL_SIGNATURE
      else if strcmp bitname ''nonRepudiation'' = 0 then KU_NON_REPUDIATION
      else if strcmp bitname ''keyEncipherment'' = 0 then KU_KEY_ENCIPHERMENT
      else if strcmp bitname ''dataEncipherment'' = 0 then KU_DATA_ENCIPHERMENT
      else if strcmp bitname ''keyAgreement'' = 0 then KU_KEY_AGREEMENT
      else if strcmp bitname ''keyCertSign'' = 0 then KU_KEY_CERT_SIGN
      else if strcmp bitname ''cRLSign'' = 0 then KU_CRL_SIGN
      else if strcmp bitname ''encipherOnly'' = 0 then KU_ENCIPHER_ONLY
      else if strcmp bitname ''decipherOnly'' = 0 then KU_DECIPHER_ONLY
      else 0)"

lemma getBitName_shorter: "getBitName s = Some (n, r) \<Longrightarrow> length r < length s"
  by (auto simp: getBitName_def split: if_splits option.splits)

text \<open>\<open>convertMethod\<close>: the flags, or -1 and the name nobody knows.\<close>

function convert_loop :: "cstring \<Rightarrow> int \<Rightarrow> int \<times> cstring option" where
  "convert_loop bits tot =
     (case getBitName bits of
        None \<Rightarrow> (tot, None)
      | Some (bitname, rest) \<Rightarrow>
          (let value = getBitValue bitname
           in if value = 0 then (-1, Some bitname) else convert_loop rest (tot OR value)))"
  by pat_completeness auto
termination
  by (relation "measure (\<lambda>(s, _). length s)") (auto dest: getBitName_shorter)

declare convert_loop.simps [simp del]

definition convertMethod :: "cstring \<Rightarrow> int \<times> cstring option" where
  "convertMethod bits = convert_loop bits 0"

text \<open>
  \<open>set_KeyUsageFlags\<close> and \<open>get_KeyUsageFlags\<close>: the bytes of the bit string. The encoding of
  OpenSSL drops zero bytes at the end.
\<close>

definition ku_bytes :: "int \<Rightarrow> bytes" where
  "ku_bytes flags =
     (let d0 = char_of (nat (flags AND 0xff)); d1 = char_of (nat (drop_bit 8 (flags AND 0xff00)))
      in if d1 \<noteq> NUL then [d0, d1] else [d0])"

definition ku_flags :: "bytes option \<Rightarrow> int" where
  "ku_flags usage =
     (case usage of
        None \<Rightarrow> 0
      | Some d \<Rightarrow>
          (let k = (if length d > 0 then int (of_char (d ! 0)) else 0)
           in if length d > 1 then k OR push_bit 8 (int (of_char (d ! 1))) else k))"

definition trim_zeros :: "bytes \<Rightarrow> bytes" where
  "trim_zeros d = rev (dropWhile (\<lambda>c. c = NUL) (rev d))"

section \<open>Files\<close>

text \<open>
  A file that could be opened: the size \<open>fstat\<close> reports (\<open>None\<close> when it fails), whether a
  buffer of that size can be allocated, and what the calls of \<open>read\<close> return, \<open>None\<close> for -1.
\<close>

record open_file =
  of_size :: "nat option"
  of_mem :: bool
  of_reads :: "bytes option list"

definition PROXY_NO_ERROR :: int where "PROXY_NO_ERROR = 0"
definition PROXY_ERROR_OPEN_FILE :: int where "PROXY_ERROR_OPEN_FILE = 1"
definition PROXY_ERROR_STAT_FILE :: int where "PROXY_ERROR_STAT_FILE = 2"
definition PROXY_ERROR_OUT_OF_MEMORY :: int where "PROXY_ERROR_OUT_OF_MEMORY = 3"
definition PROXY_ERROR_FILE_READ :: int where "PROXY_ERROR_FILE_READ = 4"
definition PROXY_ERROR_UNKNOWN_BIT :: int where "PROXY_ERROR_UNKNOWN_BIT = 5"
definition PROXY_ERROR_UNKNOWN_EXTENDED_BIT :: int where "PROXY_ERROR_UNKNOWN_EXTENDED_BIT = 6"
definition PROXY_WARNING_GSI_ASSUMED :: int where "PROXY_WARNING_GSI_ASSUMED = 1000"
definition PROXY_WARNING_GENERIC_LANGUAGE_ASSUMED :: int where "PROXY_WARNING_GENERIC_LANGUAGE_ASSUMED = 1001"

text \<open>The loop of reads: whether it ended without an error, and the bytes in the buffer.\<close>

fun read_loop :: "nat \<Rightarrow> bytes option list \<Rightarrow> bytes \<Rightarrow> bool \<times> bytes" where
  "read_loop space [] buf = (True, buf)"
| "read_loop space (None # rs) buf = (False, buf)"
| "read_loop space (Some c # rs) buf =
     (let d = take space c in if d = [] then (True, buf) else read_loop (space - length d) rs (buf @ d))"

text \<open>
  \<open>readfromfile\<close>: the bytes read with the size reported, or a warning. The buffer has the size
  reported and no terminator.
\<close>

definition readfromfile :: "open_file option \<Rightarrow> (bytes \<times> nat) option \<times> int option" where
  "readfromfile f =
     (case f of
        None \<Rightarrow> (None, Some PROXY_ERROR_OPEN_FILE)
      | Some f \<Rightarrow>
          (case of_size f of
             None \<Rightarrow> (None, Some PROXY_ERROR_STAT_FILE)
           | Some sz \<Rightarrow>
               if \<not> of_mem f then (None, Some PROXY_ERROR_OUT_OF_MEMORY)
               else (case read_loop sz (of_reads f) [] of
                       (True, buf) \<Rightarrow> (Some (buf, sz), None)
                     | (False, buf) \<Rightarrow> (None, Some PROXY_ERROR_FILE_READ))))"

section \<open>Collecting extensions\<close>

record proxy_args =
  pa_proxyrequest :: "x509_req option"
  pa_filename :: "cstring option"
  pa_aclist :: "bytes option"
  pa_proxyversion :: int
  pa_data :: bytes
  pa_newsubject :: "cstring option"
  pa_cert :: "x509 option"
  pa_key :: pkey
  pa_bits :: int
  pa_policyfile :: "cstring option"
  pa_policylang :: "cstring option"
  pa_policytext :: "cstring option"
  pa_pathlength :: int
  pa_hours :: int
  pa_minutes :: int
  pa_limited :: int
  pa_voID :: "cstring option"
  pa_extensions :: "x509_extension list option"
  pa_chain :: "x509 list"
  pa_pastproxy :: int
  pa_keyusage :: "cstring option"
  pa_netscape :: "cstring option"
  pa_exkusage :: "cstring option"
  pa_newissuer :: "cstring option"
  pa_newserial :: "cstring option"
  pa_selfsigned :: int

text \<open>
  \<open>mk_conf nid value\<close> is \<open>X509V3_EXT_conf_nid\<close>, the extension named by its short name;
  \<open>mk_ku\<close> encodes a key usage bit string and \<open>mk_ku_of\<close> decodes that of a certificate;
  \<open>mk_aki_self\<close> is the key identifier of a certificate without a subject key identifier;
  \<open>mk_der\<close> encodes a ProxyCertInfo, \<open>mk_native_pci\<close> is the native extension of OpenSSL from its
  text; \<open>mk_lang\<close> gives the object of a policy language. \<open>mk_mem n\<close> says whether the \<open>n\<close>-th
  call that may fail for memory succeeds.
\<close>

record mk_env =
  mk_sign :: sign_env
  mk_gen :: gen_env
  mk_cert_alg :: oid
  mk_mem :: "nat \<Rightarrow> bool"
  mk_txt2obj :: "cstring \<Rightarrow> oid option"
  mk_conf :: "cstring \<Rightarrow> cstring \<Rightarrow> x509_extension option"
  mk_ku :: "bytes \<Rightarrow> x509_extension option"
  mk_ku_of :: "x509 \<Rightarrow> bytes option"
  mk_ski :: "x509_req \<Rightarrow> x509_extension option"
  mk_aki :: "x509 option \<Rightarrow> x509_req \<Rightarrow> x509_extension option"
  mk_aki_self :: "x509_req \<Rightarrow> x509_extension option"
  mk_file :: "cstring \<Rightarrow> open_file option"
  mk_lang :: "cstring \<Rightarrow> oid option"
  mk_impersonation :: oid
  mk_native :: bool
  mk_method :: "oid \<Rightarrow> bool"
  mk_der :: "asn1 \<Rightarrow> bytes"
  mk_native_pci :: "cstring \<Rightarrow> x509_extension option"

record mstate =
  ms_exts :: "x509_extension list"
  ms_warning :: int
  ms_additional :: "cstring option"
  ms_errs :: "(int \<times> int) list"

datatype mres = Crash | Leave mstate | Cont mstate

definition mthen :: "mres \<Rightarrow> (mstate \<Rightarrow> mres) \<Rightarrow> mres" where
  "mthen m f = (case m of Crash \<Rightarrow> Crash | Leave s \<Rightarrow> Leave s | Cont s \<Rightarrow> f s)"

lemma mthen_simps [simp]: "mthen Crash f = Crash" "mthen (Leave s) f = Leave s" "mthen (Cont s) f = f s"
  by (simp_all add: mthen_def)

lemma mthen_Cont: "mthen m f = Cont t \<longleftrightarrow> (\<exists>s. m = Cont s \<and> f s = Cont t)"
  by (cases m) simp_all

definition PRXYERR_R_CLASS_ADD_OID :: int where "PRXYERR_R_CLASS_ADD_OID = 1043"
definition PRXYERR_R_CLASS_ADD_EXT :: int where "PRXYERR_R_CLASS_ADD_EXT = 1044"

definition add_err :: "int \<Rightarrow> mstate \<Rightarrow> mstate" where
  "add_err r s = s\<lparr>ms_errs := ms_errs s @ [(PRXYERR_F_PROXY_SIGN, r)]\<rparr>"

definition setWarning :: "int \<Rightarrow> mstate \<Rightarrow> mstate" where
  "setWarning v s = s\<lparr>ms_warning := v\<rparr>"

definition setAdditional :: "cstring \<Rightarrow> mstate \<Rightarrow> mstate" where
  "setAdditional d s = s\<lparr>ms_additional := Some d\<rparr>"

text \<open>\<open>SET_EXT\<close>, and an extension that may be NULL.\<close>

definition set_ext :: "bool \<Rightarrow> x509_extension \<Rightarrow> mstate \<Rightarrow> mres" where
  "set_ext mem e s =
     (if mem then Cont (s\<lparr>ms_exts := ms_exts s @ [e]\<rparr>) else Leave (add_err PRXYERR_R_CLASS_ADD_EXT s))"

definition add_made :: "bool \<Rightarrow> x509_extension option \<Rightarrow> mstate \<Rightarrow> mres" where
  "add_made mem e s =
     (case e of None \<Rightarrow> Leave (add_err PRXYERR_R_CLASS_ADD_EXT s) | Some e \<Rightarrow> set_ext mem e s)"

text \<open>\<open>CreateProxyExtension\<close>: the extension, and the error it queues.\<close>

definition CreateProxyExtension ::
  "mk_env \<Rightarrow> bool \<Rightarrow> bool \<Rightarrow> cstring \<Rightarrow> bytes \<Rightarrow> bool \<Rightarrow> mstate \<Rightarrow> x509_extension option \<times> mstate" where
  "CreateProxyExtension env mem_oct mem_ext name data crit s =
     (case mk_txt2obj env name of
        None \<Rightarrow> (None, add_err PRXYERR_R_CLASS_ADD_OID s)
      | Some ob \<Rightarrow>
          if mem_oct \<and> mem_ext then (Some \<lparr>ext_object = ob, ext_critical = crit, ext_data = data\<rparr>, s)
          else (None, add_err PRXYERR_R_CLASS_ADD_EXT s))"

definition add_created :: "mk_env \<Rightarrow> nat \<Rightarrow> cstring \<Rightarrow> bytes \<Rightarrow> mstate \<Rightarrow> mres" where
  "add_created env k name data s =
     (case CreateProxyExtension env (mk_mem env k) (mk_mem env (k + 1)) name data False s of
        (e, s) \<Rightarrow> add_made (mk_mem env (k + 2)) e s)"

section \<open>The extensions of a proxy\<close>

text \<open>
  The extensions handed in: each turn of the loop copies the extension with the index \<open>i\<close>, which
  is 0 throughout, and not the one of the turn.
\<close>

fun passed_loop :: "mk_env \<Rightarrow> nat \<Rightarrow> nat \<Rightarrow> x509_extension list \<Rightarrow> mstate \<Rightarrow> mres" where
  "passed_loop env k 0 exts s = Cont s"
| "passed_loop env k (Suc n) exts s =
     (if mk_mem env k then mthen (set_ext (mk_mem env (k + 1)) (exts ! 0) s) (passed_loop env (k + 2) n exts)
      else Leave (add_err PRXYERR_R_CLASS_ADD_EXT s))"

definition passed_exts :: "mk_env \<Rightarrow> proxy_args \<Rightarrow> mstate \<Rightarrow> mres" where
  "passed_exts env a s =
     (case pa_extensions a of None \<Rightarrow> Cont s | Some exts \<Rightarrow> passed_loop env 100 (length exts) exts s)"

definition voms_ext :: "mk_env \<Rightarrow> proxy_args \<Rightarrow> mstate \<Rightarrow> mres" where
  "voms_ext env a s = (if pa_data a \<noteq> [] then add_created env 2 ''voms'' (pa_data a) s else Cont s)"

text \<open>The included file; bytes that were never read into the buffer are undefined behaviour.\<close>

definition incfile_ext :: "mk_env \<Rightarrow> proxy_args \<Rightarrow> mstate \<Rightarrow> mres" where
  "incfile_ext env a s =
     (case pa_filename a of
        None \<Rightarrow> Cont s
      | Some f \<Rightarrow>
          (case readfromfile (mk_file env f) of
             (None, w) \<Rightarrow> Leave (setAdditional f (case w of Some v \<Rightarrow> setWarning v s | None \<Rightarrow> s))
           | (Some (buf, sz), w) \<Rightarrow>
               if length buf < sz then Crash else add_created env 5 ''incfile'' buf s))"

definition ac_ext :: "mk_env \<Rightarrow> proxy_args \<Rightarrow> mstate \<Rightarrow> mres" where
  "ac_ext env a s =
     (case pa_aclist a of None \<Rightarrow> Cont s | Some l \<Rightarrow> add_made (mk_mem env 8) (mk_conf env ''acseq'' l) s)"

text \<open>The flags asked for, those of a self-signed certificate, or the user's without two.\<close>

definition usage_flags :: "mk_env \<Rightarrow> proxy_args \<Rightarrow> mstate \<Rightarrow> (int \<times> mstate) option" where
  "usage_flags env a s =
     (case pa_keyusage a of
        Some bits \<Rightarrow>
          (case convertMethod bits of
             (v, None) \<Rightarrow> Some (v, s)
           | (v, Some n) \<Rightarrow> Some (v, setAdditional n (setWarning PROXY_ERROR_UNKNOWN_BIT s)))
      | None \<Rightarrow>
          if pa_selfsigned a \<noteq> 0 then Some (KU_DIGITAL_SIGNATURE OR KU_KEY_CERT_SIGN OR KU_CRL_SIGN, s)
          else (case pa_cert a of
                  None \<Rightarrow> None
                | Some c \<Rightarrow>
                    (let f = ku_flags (mk_ku_of env c)
                     in Some (if f \<noteq> 0 then (f AND NOT KU_KEY_CERT_SIGN) AND NOT KU_NON_REPUDIATION else f, s))))"

definition with_critical :: "bool \<Rightarrow> x509_extension \<Rightarrow> x509_extension" where
  "with_critical b e = e\<lparr>ext_critical := b\<rparr>"

definition usage_ext :: "mk_env \<Rightarrow> proxy_args \<Rightarrow> mstate \<Rightarrow> mres" where
  "usage_ext env a s =
     (case usage_flags env a s of
        None \<Rightarrow> Crash
      | Some (f, s) \<Rightarrow>
          if f = -1 \<and> pa_keyusage a \<noteq> None then Leave (add_err PRXYERR_R_CLASS_ADD_EXT s)
          else if f \<noteq> 0 then
            add_made (mk_mem env 9) (map_option (with_critical True) (mk_ku env (ku_bytes f))) s
          else Cont s)"

definition netscape_ext :: "mk_env \<Rightarrow> proxy_args \<Rightarrow> mstate \<Rightarrow> mres" where
  "netscape_ext env a s =
     (case pa_netscape a of
        None \<Rightarrow> Cont s
      | Some v \<Rightarrow> (case mk_conf env ''nsCertType'' v of None \<Rightarrow> Leave s | Some e \<Rightarrow> set_ext (mk_mem env 10) e s))"

definition exkusage_ext :: "mk_env \<Rightarrow> proxy_args \<Rightarrow> mstate \<Rightarrow> mres" where
  "exkusage_ext env a s =
     (case pa_exkusage a of
        None \<Rightarrow> Cont s
      | Some v \<Rightarrow>
          (case mk_conf env ''extendedKeyUsage'' v of
             None \<Rightarrow> Leave (setAdditional v (setWarning PROXY_ERROR_UNKNOWN_EXTENDED_BIT
                              (add_err PRXYERR_R_CLASS_ADD_EXT s)))
           | Some e \<Rightarrow> set_ext (mk_mem env 11) e s))"

definition basic_ext :: "mk_env \<Rightarrow> proxy_args \<Rightarrow> mstate \<Rightarrow> mres" where
  "basic_ext env a s =
     add_made (mk_mem env 12)
       (map_option (with_critical True)
         (mk_conf env ''basicConstraints'' (if pa_selfsigned a \<noteq> 0 then ''CA:true'' else ''CA:false''))) s"

definition vo_ext :: "mk_env \<Rightarrow> proxy_args \<Rightarrow> mstate \<Rightarrow> mres" where
  "vo_ext env a s =
     (case pa_voID a of
        None \<Rightarrow> Crash
      | Some vo \<Rightarrow> if vo \<noteq> [] then add_created env 13 ''vo'' vo s else Cont s)"

text \<open>
  The key identifiers. The certificate made for the second identifier of a self-signed proxy
  gets no subject key identifier: \<open>SET_EXT\<close> has set the pointer to it to NULL.
\<close>

definition keyid_exts :: "mk_env \<Rightarrow> proxy_args \<Rightarrow> x509_req \<Rightarrow> mstate \<Rightarrow> mres" where
  "keyid_exts env a req s =
     (if pa_selfsigned a \<noteq> 0 then
        mthen (add_made (mk_mem env 16) (mk_ski env req) s) (\<lambda>s.
          add_made (mk_mem env 18) (if mk_mem env 17 then mk_aki_self env req else None) s)
      else add_made (mk_mem env 18) (mk_aki env (pa_cert a) req) s)"

section \<open>The ProxyCertInfo extension\<close>

text \<open>The policy language, and the warning that one was assumed.\<close>

definition choose_language :: "proxy_args \<Rightarrow> mstate \<Rightarrow> oid \<times> mstate" where
  "choose_language a s =
     (let r = (case pa_policylang a of
                 None \<Rightarrow> if pa_policyfile a = None
                         then (IMPERSONATION_PROXY_OID, setWarning PROXY_WARNING_GSI_ASSUMED s)
                         else (GLOBUS_GSI_PROXY_GENERIC_POLICY_OID, setWarning PROXY_WARNING_GENERIC_LANGUAGE_ASSUMED s)
               | Some l \<Rightarrow>
                   (if strcmp l ''IMPERSONATION_PROXY'' = 0 then IMPERSONATION_PROXY_OID
                    else if strcmp l ''INDEPENDENT_PROXY'' = 0 then INDEPENDENT_PROXY_OID else l, s))
      in if pa_limited a \<noteq> 0 then (LIMITED_PROXY_OID, snd r) else r)"

text \<open>The policy file, with undefined behaviour for bytes that were never read.\<close>

definition read_policy :: "mk_env \<Rightarrow> proxy_args \<Rightarrow> mstate \<Rightarrow> (bytes option \<times> mstate) option + mstate" where
  "read_policy env a s =
     (case pa_policyfile a of
        None \<Rightarrow> Inl (Some (None, s))
      | Some f \<Rightarrow>
          (case readfromfile (mk_file env f) of
             (None, w) \<Rightarrow> Inr (setAdditional f (case w of Some v \<Rightarrow> setWarning v s | None \<Rightarrow> s))
           | (Some (buf, sz), w) \<Rightarrow> Inl (if length buf < sz then None else Some (Some buf, s))))"

text \<open>The structure for version 3, and for version 4 without the native extension.\<close>

definition struct_pci :: "mk_env \<Rightarrow> proxy_args \<Rightarrow> oid \<Rightarrow> bytes option \<Rightarrow> myPROXYCERTINFO option" where
  "struct_pci env a lang policy = do {
     let p = myPROXYPOLICY_new (mk_impersonation env);
     p \<leftarrow> (case policy of
             Some b \<Rightarrow> map_option snd (myPROXYPOLICY_set_policy p (Some b))
           | None \<Rightarrow> (case pa_policytext a of
                Some t \<Rightarrow> map_option snd (myPROXYPOLICY_set_policy p (Some t)) | None \<Rightarrow> Some p));
     let p = snd (myPROXYPOLICY_set_policy_language p (Some lang));
     let i = snd (myPROXYCERTINFO_set_version (Some (myPROXYCERTINFO_new (mk_impersonation env))) (pa_proxyversion a));
     i \<leftarrow> i;
     let i = snd (myPROXYCERTINFO_set_proxypolicy i (Some p));
     if pa_pathlength a \<ge> 0 then snd (myPROXYCERTINFO_set_path_length (Some i) (pa_pathlength a)) else Some i
   }"

text \<open>
  The text for the native extension. The policy of a file is printed as a string although its
  buffer has no terminator: the read ends at a NUL in the file or past the buffer.
\<close>

definition text_pci :: "proxy_args \<Rightarrow> oid \<Rightarrow> bytes option \<Rightarrow> cstring option" where
  "text_pci a lang policy =
     (let len = (if pa_pathlength a \<noteq> -1 then '',pathlen:'' @ show_int (pa_pathlength a) else [])
      in case policy of
           Some b \<Rightarrow>
             if NUL \<in> set b then Some (''language:'' @ lang @ len @ '',policy:text:'' @ c_str b) else None
         | None \<Rightarrow>
             Some (''language:'' @ lang @ len @
               (case pa_policytext a of Some t \<Rightarrow> '',policy:text:'' @ t | None \<Rightarrow> [])))"

text \<open>\<open>X509V3_EXT_conf_nid\<close> with a structure: the method of the identifier encodes it.\<close>

definition struct_ext :: "mk_env \<Rightarrow> oid \<Rightarrow> myPROXYCERTINFO \<Rightarrow> x509_extension option" where
  "struct_ext env id1 i =
     (if mk_method env id1 then
        map_option (\<lambda>t. \<lparr>ext_object = id1, ext_critical = False, ext_data = mk_der env t\<rparr>) (i2d_myPROXYCERTINFO i)
      else None)"

text \<open>
  The extension by version: the outer \<open>None\<close> is undefined behaviour, which includes a text that
  is taken for a structure (versions above 4 without the native extension).
\<close>

definition make_pci :: "mk_env \<Rightarrow> proxy_args \<Rightarrow> oid \<Rightarrow> bytes option \<Rightarrow> x509_extension option option" where
  "make_pci env a text_lang policy =
     (case mk_lang env text_lang of
        None \<Rightarrow> Some None
      | Some lang \<Rightarrow>
          if pa_proxyversion a = 3 then
            map_option (struct_ext env PROXYCERTINFO_V3) (struct_pci env a lang policy)
          else if pa_proxyversion a = 4 \<and> \<not> mk_native env then
            map_option (struct_ext env PROXYCERTINFO_V4) (struct_pci env a lang policy)
          else if mk_native env then map_option (mk_native_pci env) (text_pci a text_lang policy)
          else None)"

definition pci_ext :: "mk_env \<Rightarrow> proxy_args \<Rightarrow> mstate \<Rightarrow> mres" where
  "pci_ext env a s =
     (if pa_proxyversion a \<ge> 3 then
        (case read_policy env a s of
           Inr s \<Rightarrow> Leave s
         | Inl None \<Rightarrow> Crash
         | Inl (Some (policy, s)) \<Rightarrow>
             (case choose_language a s of (lang, s) \<Rightarrow>
                if mk_lang env lang = None then Leave (add_err PRXYERR_R_CLASS_ADD_OID s)
                else (case make_pci env a lang policy of
                        None \<Rightarrow> Crash
                      | Some None \<Rightarrow> Leave (add_err PRXYERR_R_CLASS_ADD_EXT s)
                      | Some (Some e) \<Rightarrow>
                          set_ext (mk_mem env 19) (if pa_proxyversion a = 4 then with_critical True e else e) s)))
      else Cont s)"

section \<open>The proxy\<close>

fun run_steps :: "(mstate \<Rightarrow> mres) list \<Rightarrow> mstate \<Rightarrow> mres" where
  "run_steps [] s = Cont s"
| "run_steps (f # fs) s = mthen (f s) (run_steps fs)"

definition proxy_steps :: "mk_env \<Rightarrow> proxy_args \<Rightarrow> x509_req \<Rightarrow> (mstate \<Rightarrow> mres) list" where
  "proxy_steps env a req =
     [passed_exts env a, voms_ext env a, incfile_ext env a, ac_ext env a, usage_ext env a, netscape_ext env a,
      exkusage_ext env a, basic_ext env a, vo_ext env a, keyid_exts env a req, pci_ext env a]"

record voms_proxy =
  vp_cert :: new_x509
  vp_key :: "pkey option"
  vp_chain :: "x509 list"

definition proxy_seconds :: "proxy_args \<Rightarrow> int option" where
  "proxy_seconds a = do {
     h \<leftarrow> int32 (pa_hours a * 60);
     h \<leftarrow> int32 (h * 60);
     m \<leftarrow> int32 (pa_minutes a * 60);
     int32 (h + m)
   }"

text \<open>The call of \<open>proxy_sign\<close>; a self-signed proxy is signed with its own key, which must be there.\<close>

definition sign_proxy ::
  "mk_env \<Rightarrow> proxy_args \<Rightarrow> x509_req \<Rightarrow> pkey option \<Rightarrow> x509_extension list \<Rightarrow>
   (int \<times> out_cert \<times> x509_req \<times> (int \<times> int) list) option" where
  "sign_proxy env a req npkey exts = do {
     secs \<leftarrow> proxy_seconds a;
     if pa_selfsigned a = 0 then
       proxy_sign (mk_sign env) (pa_cert a) (pa_key a) req secs (Some exts) (pa_limited a) (pa_proxyversion a)
         (pa_newsubject a) (pa_newissuer a) (pa_pastproxy a) (pa_newserial a) (pa_selfsigned a)
     else do {
       k \<leftarrow> npkey;
       proxy_sign (mk_sign env) None k req secs (Some exts) (pa_limited a) 0
         (pa_newsubject a) (pa_newsubject a) (pa_pastproxy a) None (pa_selfsigned a)
     }
   }"

text \<open>
  From the signature to the end: when the signing fails after the certificate was allocated,
  \<open>ncert\<close> still points to the memory \<open>proxy_sign_ext\<close> freed, and is freed again.
\<close>

definition finish_proxy ::
  "mk_env \<Rightarrow> proxy_args \<Rightarrow> x509_req \<Rightarrow> pkey option \<Rightarrow> mstate \<Rightarrow> (voms_proxy option \<times> mstate) option" where
  "finish_proxy env a req npkey s =
     (case sign_proxy env a req npkey (ms_exts s) of
        None \<Rightarrow> None
      | Some (rc, out, req', es) \<Rightarrow>
          (let s = s\<lparr>ms_errs := ms_errs s @ es\<rparr>
           in case out of
                New_cert c \<Rightarrow>
                  if rc = 0 \<and> mk_mem env 20 then
                    Some (Some \<lparr>vp_cert = c, vp_key = npkey,
                       vp_chain = (case pa_cert a of Some u \<Rightarrow> [u] | None \<Rightarrow> []) @ pa_chain a\<rparr>, s)
                  else Some (None, s)
              | Freed_cert \<Rightarrow> None
              | _ \<Rightarrow> Some (None, s)))"

definition VOMS_MakeProxy :: "mk_env \<Rightarrow> proxy_args \<Rightarrow> (voms_proxy option \<times> mstate) option" where
  "VOMS_MakeProxy env a =
     (let s = \<lparr>ms_exts = [], ms_warning = PROXY_NO_ERROR, ms_additional = None, ms_errs = []\<rparr>
      in case (case pa_proxyrequest a of
                 Some req \<Rightarrow> Some (0, Some (req, None), [])
               | None \<Rightarrow>
                   (case proxy_genreq (mk_gen env) (pa_cert a) (mk_cert_alg env) (pa_bits a) (pa_newsubject a) of
                      None \<Rightarrow> None
                    | Some (rc, out, es, _) \<Rightarrow> Some (rc, map_option (apsnd Some) out, es))) of
           None \<Rightarrow> None
         | Some (rc, None, es) \<Rightarrow> Some (None, s\<lparr>ms_errs := es\<rparr>)
         | Some (rc, Some (req, npkey), es) \<Rightarrow>
             if \<not> mk_mem env 1 then Some (None, add_err PRXYERR_R_CLASS_ADD_EXT s)
             else (case run_steps (proxy_steps env a req) s of
                     Crash \<Rightarrow> None
                   | Leave s \<Rightarrow> Some (None, s)
                   | Cont s \<Rightarrow> finish_proxy env a req npkey s))"

section \<open>Key usage, read and written\<close>

fun join_names :: "cstring list \<Rightarrow> cstring" where
  "join_names [] = []"
| "join_names [n] = n"
| "join_names (n # m # ns) = n @ '','' @ join_names (m # ns)"

definition bit_name :: "cstring \<Rightarrow> bool" where
  "bit_name n \<longleftrightarrow> n \<noteq> [] \<and> CHR '','' \<notin> set n"

lemma getBitName_last: "bit_name n \<Longrightarrow> getBitName n = Some (n, [])"
  using strchr_None [of n "CHR '',''"] by (simp add: getBitName_def bit_name_def)

lemma getBitName_comma: "bit_name n \<Longrightarrow> getBitName (n @ CHR '','' # r) = Some (n, r)"
  by (auto simp: getBitName_def bit_name_def strchr_append)

lemma join_names_Cons: "ns \<noteq> [] \<Longrightarrow> join_names (n # ns) = n @ CHR '','' # join_names ns"
  by (cases ns) auto

lemma convert_loop_names:
  "list_all bit_name ns \<Longrightarrow>
   convert_loop (join_names ns) t =
     (case find (\<lambda>n. getBitValue n = 0) ns of
        Some n \<Rightarrow> (-1, Some n)
      | None \<Rightarrow> (foldl (OR) t (map getBitValue ns), None))"
proof (induction ns arbitrary: t)
  case Nil
  then show ?case by (simp add: convert_loop.simps getBitName_def)
next
  case (Cons n ns)
  show ?case
  proof (cases "ns = []")
    case True
    have "convert_loop [] x = (x, None)" for x by (simp add: convert_loop.simps getBitName_def)
    with True Cons.prems show ?thesis
      by (subst convert_loop.simps) (simp add: getBitName_last Let_def)
  next
    case False
    with Cons show ?thesis
      by (subst convert_loop.simps) (simp add: getBitName_comma join_names_Cons Let_def split: option.split)
  qed
qed

text \<open>
  Key usage names. A comma-separated list of names gives the union of their bits, and -1
  with the first name that is not one of the nine when there is one.
\<close>

theorem convertMethod_names:
  assumes "list_all bit_name ns"
  shows "convertMethod (join_names ns) =
     (case find (\<lambda>n. getBitValue n = 0) ns of
        Some n \<Rightarrow> (-1, Some n)
      | None \<Rightarrow> (foldl (OR) 0 (map getBitValue ns), None))"
  using convert_loop_names [OF assms] by (simp add: convertMethod_def)

lemma convertMethod_names_witness:
  "convertMethod ''digitalSignature,cRLSign'' = (0x82, None) \<and> convertMethod ''cRLSign,x'' = (-1, Some ''x'')"
  using convertMethod_names [of "[''digitalSignature'', ''cRLSign'']"] convertMethod_names [of "[''cRLSign'', ''x'']"]
  by (simp add: bit_name_def getBitValue_def ku_defs)

lemma char_NUL: "char_of (n :: nat) = NUL \<longleftrightarrow> n mod 256 = 0"
  by (simp add: NUL_def char_of_eq_iff take_bit_eq_mod)

lemma mask_byte: "(f :: int) AND 0xff = f mod 256"
  using take_bit_eq_mask [of 8 f] by (simp add: take_bit_eq_mod mask_eq_exp_minus_1)

lemma high_byte: "drop_bit 8 ((f :: int) AND 0xff00) = f div 256 mod 256"
proof -
  have "drop_bit 8 (0xff00 :: int) = 0xff" by (simp add: drop_bit_eq_div)
  then show ?thesis by (simp add: drop_bit_and mask_byte) (simp add: drop_bit_eq_div)
qed

lemma ku_bytes_mod:
  assumes "0 \<le> f" "f < 2 ^ 16"
  shows "ku_bytes f =
    (if f div 256 = 0 then [char_of (nat (f mod 256))] else [char_of (nat (f mod 256)), char_of (nat (f div 256))])"
proof -
  have "f div 256 < 256" using assms by simp
  then have "f div 256 mod 256 = f div 256" using assms by simp
  moreover have "char_of (nat (f div 256)) = NUL \<longleftrightarrow> f div 256 = 0"
    using assms \<open>f div 256 < 256\<close> by (auto simp: char_NUL nat_mod_distrib [symmetric])
  ultimately show ?thesis unfolding ku_bytes_def Let_def mask_byte high_byte by simp
qed

lemma or_bytes: "0 \<le> a \<Longrightarrow> a < 256 \<Longrightarrow> (a :: int) OR push_bit 8 b = a + 256 * b"
proof -
  assume "0 \<le> a" "a < 256"
  then have "take_bit 8 a = a" by (simp add: take_bit_eq_mod)
  then have small: "n < 8" if "bit a n" for n using that by (metis bit_take_bit_iff)
  have "a AND push_bit 8 b = 0"
    by (rule bit_eqI) (auto simp: bit_and_iff bit_push_bit_iff dest: small)
  then show ?thesis using disjunctive_add_eq_or [of a "push_bit 8 b"] by (simp add: push_bit_eq_mult)
qed

lemma of_char_byte: "0 \<le> f \<Longrightarrow> f < 256 \<Longrightarrow> int (of_char (char_of (nat f))) = f"
  by (simp add: nat_mod_distrib [symmetric])

text \<open>
  Key usage flags survive their encoding. Sixteen bits of flags that are written as a bit
  string, which drops zero bytes at its end, are read back unchanged.
\<close>

theorem key_usage_round_trip:
  assumes "0 \<le> f" "f < 2 ^ 16"
  shows "ku_flags (Some (trim_zeros (ku_bytes f))) = f"
proof -
  have b: "0 \<le> f mod 256" "f mod 256 < 256" "0 \<le> f div 256" "f div 256 < 256" using assms by simp_all
  have z: "char_of (nat x) = NUL \<longleftrightarrow> x = 0" if "0 \<le> x" "x < 256" for x :: int
    using that by (auto simp: char_NUL nat_mod_distrib [symmetric])
  have f: "f = f mod 256 + 256 * (f div 256)" by simp
  show ?thesis
  proof (cases "f div 256 = 0")
    case True
    then have k: "ku_bytes f = [char_of (nat (f mod 256))]" "f mod 256 = f"
      using ku_bytes_mod [OF assms] f by simp_all
    show ?thesis
      unfolding k(1) using z [OF b(1,2)] of_char_byte [OF b(1,2)]
      by (cases "f = 0") (simp_all add: k(2) trim_zeros_def ku_flags_def)
  next
    case False
    have e: "ku_flags (Some (trim_zeros (ku_bytes f))) =
        int (of_char (char_of (nat (f mod 256)))) OR push_bit 8 (int (of_char (char_of (nat (f div 256)))))"
      using False z [OF b(3,4)] by (simp add: ku_bytes_mod [OF assms] trim_zeros_def ku_flags_def)
    show ?thesis unfolding e of_char_byte [OF b(1,2)] of_char_byte [OF b(3,4)] or_bytes [OF b(1,2)] using f by simp
  qed
qed

lemma key_usage_round_trip_witness: "ku_flags (Some (trim_zeros (ku_bytes 0x80A0))) = 0x80A0"
  by (rule key_usage_round_trip) simp_all

section \<open>What a proxy holds\<close>

text \<open>A step that goes on only adds extensions.\<close>

definition grows :: "(mstate \<Rightarrow> mres) \<Rightarrow> bool" where
  "grows f \<longleftrightarrow> (\<forall>s t. f s = Cont t \<longrightarrow> set (ms_exts s) \<subseteq> set (ms_exts t))"

named_theorems step_exts \<open>what a step that goes on adds\<close>

lemma setters_exts [simp]:
  "ms_exts (add_err r s) = ms_exts s" "ms_exts (setWarning v s) = ms_exts s" "ms_exts (setAdditional d s) = ms_exts s"
  by (simp_all add: add_err_def setWarning_def setAdditional_def)

lemma set_ext_Cont [step_exts]: "set_ext mem e s = Cont t \<longleftrightarrow> mem \<and> t = s\<lparr>ms_exts := ms_exts s @ [e]\<rparr>"
  by (auto simp: set_ext_def)

lemma add_made_Cont [step_exts]:
  "add_made mem e s = Cont t \<longleftrightarrow> mem \<and> (\<exists>x. e = Some x \<and> t = s\<lparr>ms_exts := ms_exts s @ [x]\<rparr>)"
  by (auto simp: add_made_def set_ext_Cont split: option.splits)

lemma created_exts: "CreateProxyExtension env m1 m2 name data crit s = (e, t) \<Longrightarrow> ms_exts t = ms_exts s"
  by (auto simp: CreateProxyExtension_def split: option.splits if_splits)

lemma add_created_grows: "add_created env k name data s = Cont t \<Longrightarrow> set (ms_exts s) \<subseteq> set (ms_exts t)"
  by (auto simp: add_created_def step_exts dest: created_exts split: prod.splits)

lemma passed_loop_exts:
  "passed_loop env k n exts s = Cont t \<Longrightarrow> ms_exts t = ms_exts s @ replicate n (exts ! 0)"
proof (induction n arbitrary: k s)
  case (Suc n)
  then show ?case by (auto simp: mthen_Cont step_exts split: if_splits)
qed simp

lemma usage_flags_exts: "usage_flags env a s = Some (f, t) \<Longrightarrow> ms_exts t = ms_exts s"
  by (auto simp: usage_flags_def Let_def split: option.splits prod.splits if_splits)

lemma read_policy_exts: "read_policy env a s = Inl (Some (b, t)) \<Longrightarrow> ms_exts t = ms_exts s"
  by (auto simp: read_policy_def split: option.splits prod.splits if_splits)

lemma choose_language_exts: "choose_language a s = (l, t) \<Longrightarrow> ms_exts t = ms_exts s"
  by (auto simp: choose_language_def Let_def split: option.splits if_splits)

lemma pci_ext_Cont:
  assumes "pci_ext env a s = Cont t" "pa_proxyversion a \<ge> 3"
  shows "\<exists>l policy e. make_pci env a l policy = Some (Some e) \<and>
    ms_exts t = ms_exts s @ [if pa_proxyversion a = 4 then with_critical True e else e]"
  using assms
  by (auto simp: pci_ext_def step_exts split: sum.splits option.splits prod.splits if_splits
      dest!: read_policy_exts choose_language_exts) blast

lemma pci_ext_grows: "pci_ext env a s = Cont t \<Longrightarrow> set (ms_exts s) \<subseteq> set (ms_exts t)"
  using pci_ext_Cont [of env a s t] by (cases "pa_proxyversion a \<ge> 3") (auto simp: pci_ext_def)

lemma keyid_grows: "keyid_exts env a req s = Cont t \<Longrightarrow> set (ms_exts s) \<subseteq> set (ms_exts t)"
  by (auto simp: keyid_exts_def mthen_Cont step_exts split: if_splits)

lemma usage_ext_Cont:
  assumes "usage_ext env a s = Cont t"
  shows "\<exists>f u. usage_flags env a s = Some (f, u) \<and>
    (f = 0 \<and> ms_exts t = ms_exts s \<or>
     (\<exists>e. mk_ku env (ku_bytes f) = Some e \<and> ms_exts t = ms_exts s @ [with_critical True e]))"
  using assms by (auto simp: usage_ext_def step_exts split: option.splits prod.splits if_splits dest: usage_flags_exts)

lemma usage_grows: "usage_ext env a s = Cont t \<Longrightarrow> set (ms_exts s) \<subseteq> set (ms_exts t)"
  using usage_ext_Cont [of env a s t] by auto

lemma steps_grow: "list_all grows (proxy_steps env a req)"
proof -
  have "passed_exts env a s = Cont t \<Longrightarrow> set (ms_exts s) \<subseteq> set (ms_exts t)" for s t
    by (auto simp: passed_exts_def dest: passed_loop_exts split: option.splits)
  moreover have "voms_ext env a s = Cont t \<Longrightarrow> set (ms_exts s) \<subseteq> set (ms_exts t)" for s t
    by (auto simp: voms_ext_def dest!: add_created_grows split: if_splits)
  moreover have "incfile_ext env a s = Cont t \<Longrightarrow> set (ms_exts s) \<subseteq> set (ms_exts t)" for s t
    by (auto simp: incfile_ext_def dest!: add_created_grows split: option.splits prod.splits if_splits)
  moreover have "vo_ext env a s = Cont t \<Longrightarrow> set (ms_exts s) \<subseteq> set (ms_exts t)" for s t
    by (auto simp: vo_ext_def dest!: add_created_grows split: option.splits if_splits)
  moreover have "ac_ext env a s = Cont t \<Longrightarrow> set (ms_exts s) \<subseteq> set (ms_exts t)"
    "netscape_ext env a s = Cont t \<Longrightarrow> set (ms_exts s) \<subseteq> set (ms_exts t)"
    "exkusage_ext env a s = Cont t \<Longrightarrow> set (ms_exts s) \<subseteq> set (ms_exts t)"
    "basic_ext env a s = Cont t \<Longrightarrow> set (ms_exts s) \<subseteq> set (ms_exts t)" for s t
    by (auto simp: ac_ext_def netscape_ext_def exkusage_ext_def basic_ext_def step_exts split: option.splits)
  ultimately show ?thesis
    using pci_ext_grows keyid_grows usage_grows by (simp add: proxy_steps_def grows_def)
qed

lemma run_steps_grow:
  "list_all grows fs \<Longrightarrow> run_steps fs s = Cont t \<Longrightarrow> set (ms_exts s) \<subseteq> set (ms_exts t)"
proof (induction fs arbitrary: s)
  case (Cons f fs)
  from Cons.prems(2) obtain u where "f s = Cont u" "run_steps fs u = Cont t" by (auto simp: mthen_Cont)
  with Cons.prems(1) Cons.IH [of u] show ?case unfolding list.pred_inject grows_def by (blast dest: subset_trans)
qed simp

text \<open>Each step of a run that goes on to the end was passed, and what it added is there.\<close>

lemma run_steps_member:
  assumes "list_all grows fs" "run_steps fs s = Cont t" "f \<in> set fs"
  obtains u v where "f u = Cont v" "set (ms_exts v) \<subseteq> set (ms_exts t)"
  using assms
proof (induction fs arbitrary: s thesis)
  case (Cons g fs)
  from Cons.prems(3) obtain u where u: "g s = Cont u" "run_steps fs u = Cont t" by (auto simp: mthen_Cont)
  show ?case
  proof (cases "f = g")
    case True
    with u Cons.prems run_steps_grow [of fs u t] show ?thesis by auto
  next
    case False
    with Cons.IH [OF _ _ u(2)] Cons.prems show ?thesis by auto
  qed
qed simp

text \<open>The parts of a successful call.\<close>

lemma MakeProxy_parts:
  assumes "VOMS_MakeProxy env a = Some (Some p, s)"
  obtains req npkey t t0 es req' where "run_steps (proxy_steps env a req) t0 = Cont t"
    "sign_proxy env a req npkey (ms_exts t) = Some (0, New_cert (vp_cert p), req', es)"
    "vp_key p = npkey" "vp_chain p = (case pa_cert a of Some u \<Rightarrow> [u] | None \<Rightarrow> []) @ pa_chain a"
    "ms_exts t0 = []"
proof -
  from assms obtain req npkey t0 t where r: "run_steps (proxy_steps env a req) t0 = Cont t"
    "finish_proxy env a req npkey t = Some (Some p, s)" "ms_exts t0 = []"
    by (auto simp: VOMS_MakeProxy_def Let_def split: option.splits prod.splits if_splits mres.splits)
  from r(2) obtain c req' es where "sign_proxy env a req npkey (ms_exts t) = Some (0, New_cert c, req', es)"
    "p = \<lparr>vp_cert = c, vp_key = npkey, vp_chain = (case pa_cert a of Some u \<Rightarrow> [u] | None \<Rightarrow> []) @ pa_chain a\<rparr>"
    by (auto simp: finish_proxy_def Let_def split: option.splits prod.splits if_splits out_cert.splits)
  with r(1,3) show ?thesis by (intro that) auto
qed

lemma sign_proxy_made:
  assumes "sign_proxy env a req npkey exts = Some (0, New_cert c, req', es)"
  shows "x_exts c = exts" "pa_selfsigned a = 0 \<longrightarrow> pa_cert a \<noteq> None"
    "\<exists>k m. n_sig c = Some (m, k) \<and> (if pa_selfsigned a = 0 then k = pa_key a else npkey = Some k)"
proof -
  have "x_exts c = exts \<and> (pa_selfsigned a = 0 \<longrightarrow> pa_cert a \<noteq> None) \<and>
    (\<exists>k m. n_sig c = Some (m, k) \<and> (if pa_selfsigned a = 0 then k = pa_key a else npkey = Some k))"
  proof (cases "pa_selfsigned a = 0")
    case True
    with assms obtain secs where "proxy_sign (mk_sign env) (pa_cert a) (pa_key a) req secs (Some exts) (pa_limited a)
        (pa_proxyversion a) (pa_newsubject a) (pa_newissuer a) (pa_pastproxy a) (pa_newserial a) (pa_selfsigned a) =
        Some (0, New_cert c, req', es)"
      by (auto simp: sign_proxy_def Option.bind_eq_Some_conv)
    then show ?thesis by (rule proxy_sign_fields) (use True in auto)
  next
    case False
    with assms obtain secs k where k: "npkey = Some k" "proxy_sign (mk_sign env) None k req secs (Some exts) (pa_limited a) 0
        (pa_newsubject a) (pa_newsubject a) (pa_pastproxy a) None (pa_selfsigned a) = Some (0, New_cert c, req', es)"
      by (auto simp: sign_proxy_def Option.bind_eq_Some_conv)
    from k(2) show ?thesis by (rule proxy_sign_fields) (use False k(1) in auto)
  qed
  then show "x_exts c = exts" "pa_selfsigned a = 0 \<longrightarrow> pa_cert a \<noteq> None"
    "\<exists>k m. n_sig c = Some (m, k) \<and> (if pa_selfsigned a = 0 then k = pa_key a else npkey = Some k)" by auto
qed

text \<open>What each step of a successful call left in the certificate.\<close>

lemma made_proxy_step:
  assumes "VOMS_MakeProxy env a = Some (Some p, s)"
  obtains req where "vp_chain p = (case pa_cert a of Some u \<Rightarrow> [u] | None \<Rightarrow> []) @ pa_chain a"
    "\<And>f. f \<in> set (proxy_steps env a req) \<Longrightarrow>
       \<exists>b c. f b = Cont c \<and> set (ms_exts c) \<subseteq> set (x_exts (vp_cert p))"
    "pa_selfsigned a = 0 \<longrightarrow> pa_cert a \<noteq> None"
    "\<exists>k m. n_sig (vp_cert p) = Some (m, k) \<and> (if pa_selfsigned a = 0 then k = pa_key a else vp_key p = Some k)"
proof -
  from assms obtain req npkey t t0 es req' where r: "run_steps (proxy_steps env a req) t0 = Cont t"
    "sign_proxy env a req npkey (ms_exts t) = Some (0, New_cert (vp_cert p), req', es)" "vp_key p = npkey"
    "vp_chain p = (case pa_cert a of Some u \<Rightarrow> [u] | None \<Rightarrow> []) @ pa_chain a"
    by (rule MakeProxy_parts)
  note m = sign_proxy_made [OF r(2)]
  have "\<exists>b c. f b = Cont c \<and> set (ms_exts c) \<subseteq> set (x_exts (vp_cert p))" if "f \<in> set (proxy_steps env a req)" for f
    using run_steps_member [OF steps_grow r(1) that] m(1) by metis
  with m r(3,4) show ?thesis by (intro that) auto
qed

text \<open>The key usage of a proxy: what was asked for, that of an authority, or the user's less two flags.\<close>

definition made_usage :: "mk_env \<Rightarrow> proxy_args \<Rightarrow> int" where
  "made_usage env a =
     (case pa_keyusage a of
        Some bits \<Rightarrow> fst (convertMethod bits)
      | None \<Rightarrow>
          if pa_selfsigned a \<noteq> 0 then KU_DIGITAL_SIGNATURE OR KU_KEY_CERT_SIGN OR KU_CRL_SIGN
          else (case pa_cert a of
                  None \<Rightarrow> 0
                | Some u \<Rightarrow> (ku_flags (mk_ku_of env u) AND NOT KU_KEY_CERT_SIGN) AND NOT KU_NON_REPUDIATION))"

lemma usage_flags_made:
  assumes "usage_flags env a s = Some (f, t)"
  shows "f = made_usage env a"
  using assms by (auto simp: usage_flags_def made_usage_def Let_def split: option.splits prod.splits if_splits)

text \<open>
  C17: what a proxy holds. A proxy is followed by the user's certificate, when there is one, and its chain; it is signed
  with the key given, or with its own key when it is self-signed; a critical basicConstraints extension says that it
  is no authority, or that it is one when it is self-signed; and it has a critical key usage, unless
  no flag is left: the flags asked for, or else those of an authority when it is self-signed, or
  else the user's flags without keyCertSign and nonRepudiation.
\<close>

theorem made_proxy_contents:
  assumes "VOMS_MakeProxy env a = Some (Some p, s)"
  shows "vp_chain p = (case pa_cert a of Some u \<Rightarrow> [u] | None \<Rightarrow> []) @ pa_chain a \<and>
    (pa_selfsigned a = 0 \<longrightarrow> pa_cert a \<noteq> None) \<and>
    (\<exists>k m. n_sig (vp_cert p) = Some (m, k) \<and> (if pa_selfsigned a = 0 then k = pa_key a else vp_key p = Some k)) \<and>
    (\<exists>e. mk_conf env ''basicConstraints'' (if pa_selfsigned a = 0 then ''CA:false'' else ''CA:true'') = Some e \<and>
       with_critical True e \<in> set (x_exts (vp_cert p))) \<and>
    (made_usage env a = 0 \<or>
      (\<exists>k. mk_ku env (ku_bytes (made_usage env a)) = Some k \<and> with_critical True k \<in> set (x_exts (vp_cert p)))) \<and>
    (pa_selfsigned a = 0 \<and> pa_keyusage a = None \<longrightarrow> \<not> bit (made_usage env a) 2 \<and> \<not> bit (made_usage env a) 6)"
proof -
  from assms obtain req where c: "vp_chain p = (case pa_cert a of Some u \<Rightarrow> [u] | None \<Rightarrow> []) @ pa_chain a"
    and step: "\<And>f. f \<in> set (proxy_steps env a req) \<Longrightarrow>
       \<exists>b c. f b = Cont c \<and> set (ms_exts c) \<subseteq> set (x_exts (vp_cert p))"
    and u: "pa_selfsigned a = 0 \<longrightarrow> pa_cert a \<noteq> None"
    and k: "\<exists>k m. n_sig (vp_cert p) = Some (m, k) \<and> (if pa_selfsigned a = 0 then k = pa_key a else vp_key p = Some k)"
    by (rule made_proxy_step) blast
  have "basic_ext env a \<in> set (proxy_steps env a req)" by (simp add: proxy_steps_def)
  from step [OF this] have e: "\<exists>e. mk_conf env ''basicConstraints'' (if pa_selfsigned a = 0 then ''CA:false'' else ''CA:true'') = Some e \<and>
      with_critical True e \<in> set (x_exts (vp_cert p))"
    by (auto simp: basic_ext_def step_exts split: if_splits)
  have "usage_ext env a \<in> set (proxy_steps env a req)" by (simp add: proxy_steps_def)
  from step [OF this] obtain b d where d: "usage_ext env a b = Cont d" "set (ms_exts d) \<subseteq> set (x_exts (vp_cert p))"
    by blast
  from usage_ext_Cont [OF d(1)] d(2) usage_flags_made have f: "made_usage env a = 0 \<or>
      (\<exists>k. mk_ku env (ku_bytes (made_usage env a)) = Some k \<and> with_critical True k \<in> set (x_exts (vp_cert p)))"
    by fastforce
  have "pa_selfsigned a = 0 \<and> pa_keyusage a = None \<longrightarrow> \<not> bit (made_usage env a) 2 \<and> \<not> bit (made_usage env a) 6"
    by (auto simp: made_usage_def bit_and_iff bit_not_iff ku_defs split: option.split)
  with c u k e f show ?thesis by blast
qed

text \<open>
  C18: proxies of version 3 and 4, self-signed or not, carry a ProxyCertInfo extension, critical in version 4, and
  are classified as full proxies wherever its identifier is registered, whether a limited proxy was
  asked for or not. Where version 4 is left to OpenSSL's native extension, that makes an extension
  with the standard's identifier.
\<close>

theorem made_proxy_classified:
  assumes "VOMS_MakeProxy env a = Some (Some p, s)" "pa_proxyversion a = 3 \<or> pa_proxyversion a = 4"
    and "\<And>text e. mk_native env \<Longrightarrow> mk_native_pci env text = Some e \<Longrightarrow> ext_object e = PROXYCERTINFO_V4"
    and "v = (if pa_proxyversion a = 3 then PROXYCERTINFO_V3 else PROXYCERTINFO_V4)" "o_obj2nid o1 v \<noteq> NID_undef"
  shows "map_option fst (proxy_check_proxy_name o1 (x509.truncate (vp_cert p)) errs) = Some 1 \<and>
    (\<exists>e \<in> set (x_exts (vp_cert p)). ext_object e = v \<and> (pa_proxyversion a = 4 \<longrightarrow> ext_critical e) \<and>
       (pa_proxyversion a = 3 \<longrightarrow> \<not> ext_critical e))"
proof -
  from assms(1) obtain req where
    step: "\<And>f. f \<in> set (proxy_steps env a req) \<Longrightarrow>
       \<exists>b c. f b = Cont c \<and> set (ms_exts c) \<subseteq> set (x_exts (vp_cert p))"
    by (rule made_proxy_step) blast
  have "pci_ext env a \<in> set (proxy_steps env a req)" by (simp add: proxy_steps_def)
  from step [OF this] obtain b c where c: "pci_ext env a b = Cont c" "set (ms_exts c) \<subseteq> set (x_exts (vp_cert p))"
    by blast
  from assms(2) have "pa_proxyversion a \<ge> 3" by auto
  from pci_ext_Cont [OF c(1) this] obtain l policy e where e: "make_pci env a l policy = Some (Some e)"
    "(if pa_proxyversion a = 4 then with_critical True e else e) \<in> set (x_exts (vp_cert p))"
    using c(2) by auto
  from e(1) assms(2,3,4) have "ext_object e = v \<and> (pa_proxyversion a = 3 \<longrightarrow> \<not> ext_critical e)"
    by (auto simp: make_pci_def struct_ext_def split: option.splits if_splits)
  then have x: "\<exists>e \<in> set (x_exts (vp_cert p)). ext_object e = v \<and> (pa_proxyversion a = 4 \<longrightarrow> ext_critical e) \<and>
       (pa_proxyversion a = 3 \<longrightarrow> \<not> ext_critical e)"
    using e(2) by (intro bexI [OF _ e(2)]) (auto simp: with_critical_def)
  have "o_obj2nid o1 v \<in> {my_txt2nid o1 PROXYCERTINFO_V3, my_txt2nid o1 PROXYCERTINFO_V4}"
    using assms(4) by (simp add: my_txt2nid_def)
  with x assms(5) have h: "has_pci o1 (x509.truncate (vp_cert p))"
    unfolding has_pci_def by (intro bexI [of _ "o_obj2nid o1 v"]) (auto simp: x509.truncate_def)
  then have "proxy_kind o1 (x509.truncate (vp_cert p)) = 1" by (simp add: proxy_kind_def)
  with h x show ?thesis by (simp add: proxy_check_kind)
qed

section \<open>A sample proxy\<close>

definition sample_ext :: "cstring \<Rightarrow> bytes \<Rightarrow> x509_extension" where
  "sample_ext n v = \<lparr>ext_object = n, ext_critical = False, ext_data = v\<rparr>"

definition sample_mk_env :: mk_env where
  "sample_mk_env = \<lparr>mk_sign = sample_sign_env, mk_gen = sample_gen_env, mk_cert_alg = ''rsa-sha1'', mk_mem = (\<lambda>_. True),
     mk_txt2obj = Some, mk_conf = (\<lambda>n v. Some (sample_ext n v)), mk_ku = (\<lambda>b. Some (sample_ext ''2.5.29.15'' b)),
     mk_ku_of = (\<lambda>_. Some [CHR 0xE4]), mk_ski = (\<lambda>_. None), mk_aki = (\<lambda>_ _. Some (sample_ext ''2.5.29.35'' [])),
     mk_aki_self = (\<lambda>_. None), mk_file = (\<lambda>_. None), mk_lang = Some, mk_impersonation = IMPERSONATION_PROXY_OID,
     mk_native = False, mk_method = (\<lambda>_. True), mk_der = (\<lambda>_. ''der''), mk_native_pci = (\<lambda>_. None)\<rparr>"

text \<open>A limited proxy of version 3 for ten minutes.\<close>

definition sample_args :: proxy_args where
  "sample_args = \<lparr>pa_proxyrequest = Some sample_req, pa_filename = None, pa_aclist = None, pa_proxyversion = 3,
     pa_data = [], pa_newsubject = None, pa_cert = Some sample_user, pa_key = sample_key 77, pa_bits = 1024,
     pa_policyfile = None, pa_policylang = None, pa_policytext = None, pa_pathlength = -1, pa_hours = 0,
     pa_minutes = 10, pa_limited = 1, pa_voID = Some [], pa_extensions = None, pa_chain = [], pa_pastproxy = 300,
     pa_keyusage = None, pa_netscape = None, pa_exkusage = None, pa_newissuer = None, pa_newserial = None,
     pa_selfsigned = 0\<rparr>"

lemma sample_copy: "copy_exts sample_sign_env True i es = Go es"
  by (induction es arbitrary: i) (simp_all add: sample_sign_env_def need_def)

lemma sample_sign_exts:
  "\<exists>c. proxy_sign sample_sign_env (Some sample_user) (sample_key 77) sample_req 600 (Some exts) l 3 None None 300 None 0 =
     Some (0, New_cert c, sample_req\<lparr>rq_pubkey := None\<rparr>, [])"
proof -
  have t: "ASN1_UTCTIME_mktime (sample_gmtime 1234567590) = Some 1234567590"
    "ASN1_UTCTIME_mktime (sample_gmtime 1234567990) = Some 1234567990"
    by (rule sample_gmtime_mktime; simp)+
  have d: "new_dates sample_sign_env (Some sample_user) 600 300 0 = Go (sample_gmtime 1234567290, sample_gmtime 1234568190)"
    using t by (simp add: new_dates_def sample_sign_env_def sample_user_def int32_def trust_def)
  have k: "check_request sample_sign_env sample_req = Go (sample_key 91)"
    by (simp add: check_request_def sample_sign_env_def sample_req_def)
  have m: "request_md sample_sign_env sample_req = ''SHA1''" by (simp add: request_md_def sample_sign_env_def)
  have "\<exists>c. start_cert sample_sign_env (Some sample_user) md key (Some n) None 600 3 300 None 0 = Go c" for md key n
    using d by (simp add: start_cert_def new_serial_def new_issuer_def need_def trust_def sample_sign_env_def
        sample_user_def sample_cert_def SHA_DIGEST_LENGTH_def)
  then obtain c where c: "\<And>md key n. start_cert sample_sign_env (Some sample_user) md key (Some n) None 600 3 300 None 0 =
      Go (c md key n)" by metis
  have mem: "se_mem sample_sign_env n" "se_sign_ok sample_sign_env x y" for n x y by (simp_all add: sample_sign_env_def)
  have e: "\<exists>c. proxy_sign_ext sample_sign_env (Some sample_user) (sample_key 77) ''SHA1'' sample_req (Some n) None 600
      (Some exts) 3 300 None 0 = Some (0, New_cert c, sample_req\<lparr>rq_pubkey := None\<rparr>, [])" for n
    by (simp add: proxy_sign_ext_def k m c need_def finish_cert_def mem sample_copy)
  have "\<exists>cn. new_cn sample_sign_env ''SHA1'' (Some sample_user) 3 l = Some cn"
    by (simp add: new_cn_def sample_user_def sample_sign_env_def SHA_DIGEST_LENGTH_def Let_def)
  then obtain cn where cn: "new_cn sample_sign_env ''SHA1'' (Some sample_user) 3 l = Some cn" by blast
  obtain n where n: "proxy_construct_name True True sample_user cn UINT_MAX = (0, Some n)"
    by (cases cn) (auto simp: proxy_construct_name_def)
  from e [of n] show ?thesis by (auto simp: proxy_sign_def m cn mem n)
qed

lemma run_steps_through:
  assumes "\<And>f s. f \<in> set fs \<Longrightarrow> \<exists>t. f s = Cont t"
  shows "\<exists>t. run_steps fs s = Cont t"
  using assms
proof (induction fs arbitrary: s)
  case (Cons f fs)
  then obtain u where "f s = Cont u" by fastforce
  with Cons show ?case by simp
qed simp

lemma sample_made: "\<exists>p s. VOMS_MakeProxy sample_mk_env sample_args = Some (Some p, s)"
proof -
  have e: "mk_mem sample_mk_env n" "mk_conf sample_mk_env a b = Some (sample_ext a b)" "mk_lang sample_mk_env l = Some l"
    "mk_ku sample_mk_env k = Some (sample_ext ''2.5.29.15'' k)" "mk_ku_of sample_mk_env c = Some [CHR 0xE4]"
    "mk_aki sample_mk_env x y = Some (sample_ext ''2.5.29.35'' [])" "mk_sign sample_mk_env = sample_sign_env"
    "\<not> mk_native sample_mk_env" "mk_method sample_mk_env i" for n a b c k l x y i
    by (simp_all add: sample_mk_env_def)
  have a: "pa_proxyrequest sample_args = Some sample_req" "pa_filename sample_args = None" "pa_aclist sample_args = None"
    "pa_proxyversion sample_args = 3" "pa_data sample_args = []" "pa_newsubject sample_args = None"
    "pa_cert sample_args = Some sample_user" "pa_key sample_args = sample_key 77" "pa_policyfile sample_args = None"
    "pa_policylang sample_args = None" "pa_policytext sample_args = None" "pa_pathlength sample_args = -1"
    "pa_hours sample_args = 0" "pa_minutes sample_args = 10" "pa_limited sample_args = 1" "pa_voID sample_args = Some []"
    "pa_extensions sample_args = None" "pa_pastproxy sample_args = 300" "pa_keyusage sample_args = None"
    "pa_netscape sample_args = None" "pa_exkusage sample_args = None" "pa_newissuer sample_args = None"
    "pa_newserial sample_args = None" "pa_selfsigned sample_args = 0"
    by (simp_all add: sample_args_def)
  have u: "\<exists>t. usage_ext sample_mk_env sample_args s = Cont t" for s
    by (simp add: usage_ext_def usage_flags_def a e Let_def add_made_def set_ext_def)
  have x: "\<exists>x. make_pci sample_mk_env sample_args l None = Some (Some x)" for l
    by (simp add: make_pci_def a e struct_pci_def struct_ext_def i2d_myPROXYCERTINFO_def myPROXYPOLICY_new_def
        myPROXYCERTINFO_new_def myPROXYCERTINFO_set_version_def myPROXYCERTINFO_set_proxypolicy_def)
  have p: "\<exists>t. pci_ext sample_mk_env sample_args s = Cont t" for s
    using x [of LIMITED_PROXY_OID] by (auto simp: pci_ext_def a e read_policy_def choose_language_def set_ext_def)
  have "\<exists>t. run_steps (proxy_steps sample_mk_env sample_args req) s = Cont t" for req s
  proof (rule run_steps_through)
    show "\<exists>t. f s = Cont t" if "f \<in> set (proxy_steps sample_mk_env sample_args req)" for f s
      using that u [of s] p [of s]
      by (auto simp: proxy_steps_def a e passed_exts_def voms_ext_def incfile_ext_def ac_ext_def netscape_ext_def
          exkusage_ext_def basic_ext_def vo_ext_def keyid_exts_def add_made_def set_ext_def)
  qed
  then obtain t where t: "\<And>req s. run_steps (proxy_steps sample_mk_env sample_args req) s = Cont (t req s)" by metis
  have "\<exists>p v. finish_proxy sample_mk_env sample_args sample_req None s = Some (Some p, v)" for s
    using sample_sign_exts [of "ms_exts s" 1]
    by (auto simp: finish_proxy_def sign_proxy_def proxy_seconds_def int32_def a e)
  then show ?thesis by (simp add: VOMS_MakeProxy_def a e t)
qed

lemma made_proxy_contents_witness:
  "\<exists>p s. VOMS_MakeProxy sample_mk_env sample_args = Some (Some p, s) \<and> vp_chain p = [sample_user] \<and>
    with_critical True (sample_ext ''basicConstraints'' ''CA:false'') \<in> set (x_exts (vp_cert p)) \<and>
    with_critical True (sample_ext ''2.5.29.15'' [CHR 0xA0]) \<in> set (x_exts (vp_cert p))"
proof -
  obtain p s where p: "VOMS_MakeProxy sample_mk_env sample_args = Some (Some p, s)" using sample_made by blast
  have "pa_selfsigned sample_args = 0" "pa_keyusage sample_args = None" "pa_cert sample_args = Some sample_user"
    "pa_chain sample_args = []" by (simp_all add: sample_args_def)
  moreover have "mk_conf sample_mk_env n v = Some (sample_ext n v)"
    "mk_ku sample_mk_env b = Some (sample_ext ''2.5.29.15'' b)" "mk_ku_of sample_mk_env u = Some [CHR 0xE4]" for n v b u
    by (simp_all add: sample_mk_env_def)
  moreover have "(ku_flags (Some [CHR 0xE4]) AND NOT KU_KEY_CERT_SIGN) AND NOT KU_NON_REPUDIATION = 0xA0"
    by (simp add: ku_flags_def ku_defs)
  moreover have "ku_bytes 0xA0 = [CHR 0xA0]"
    using char_of_char [where 'a = nat, of "CHR 0xA0"] by (simp add: ku_bytes_mod)
  ultimately have "made_usage sample_mk_env sample_args = 0xA0" "ku_bytes 0xA0 = [CHR 0xA0]" by (simp_all add: made_usage_def)
  with made_proxy_contents [OF p] p show ?thesis
    by (auto simp: sample_args_def sample_mk_env_def)
qed

lemma made_proxy_classified_witness:
  "\<exists>p s. VOMS_MakeProxy sample_mk_env sample_args = Some (Some p, s) \<and>
    map_option fst (proxy_check_proxy_name (sample_ossl\<lparr>o_obj2nid := \<lambda>_. 900\<rparr>) (x509.truncate (vp_cert p)) ([] :: nat list)) = Some 1"
proof -
  obtain p s where p: "VOMS_MakeProxy sample_mk_env sample_args = Some (Some p, s)" using sample_made by blast
  have "pa_proxyversion sample_args = 3" "\<not> mk_native sample_mk_env" by (simp_all add: sample_args_def sample_mk_env_def)
  with made_proxy_classified [OF p, of PROXYCERTINFO_V3 "sample_ossl\<lparr>o_obj2nid := \<lambda>_. 900\<rparr>" "[] :: nat list"] p show ?thesis
    by (auto simp: NID_undef_def)
qed

end
