(* ===== verification/Credentials.thy ===== *)
theory Credentials
  imports FileNames ProxyName MakeProxy
begin

text \<open>
  The writing of proxies to files and the loading of credentials: \<open>proxy_marshal_bp\<close>,
  \<open>proxy_load_user_proxy\<close>, \<open>proxy_load_user_cert\<close>, \<open>proxy_load_user_key\<close>, \<open>load_credentials\<close>,
  \<open>load_certificate_from_file\<close> and \<open>load_chain\<close> of src/src/sslutils/sslutils.c, \<open>VOMS_WriteProxy\<close> of
  src/src/sslutils/proxy.c and src/src/common/credentials.c, without USE_PKCS11.

  The error queue of OpenSSL is a list, its earliest error first, which is the one
  \<open>ERR_peek_error\<close> gives. The PEM routines, the files and the prompts are the record \<open>pem_lib\<close>: a
  file is a list of its parts, a reader takes what it needs off the front or gives the errors it
  queues. A key of type RSA has its RSA structure.
\<close>

section \<open>The error queue and the library\<close>

record queued =
  q_lib :: int
  q_func :: int
  q_reason :: int
  q_data :: cstring

record cred_state =
  cs_errs :: "queued list"
  cs_prompt :: cstring

definition PEM_R_NO_START_LINE :: int where "PEM_R_NO_START_LINE = 108"
definition PRXYERR_F_PROXY_LOAD :: int where "PRXYERR_F_PROXY_LOAD = 103"
definition PRXYERR_R_PROCESS_KEY :: int where "PRXYERR_R_PROCESS_KEY = 1013"
definition PRXYERR_R_PROCESS_CERT :: int where "PRXYERR_R_PROCESS_CERT = 1014"
definition PRXYERR_R_PROBLEM_KEY_FILE :: int where "PRXYERR_R_PROBLEM_KEY_FILE = 1017"
definition PRXYERR_R_USER_ZERO_LENGTH_KEY_FILE :: int where "PRXYERR_R_USER_ZERO_LENGTH_KEY_FILE = 1018"
definition PRXYERR_R_PROBLEM_USER_NOCERT_FILE :: int where "PRXYERR_R_PROBLEM_USER_NOCERT_FILE = 1021"
definition PRXYERR_R_PROBLEM_USER_NOKEY_FILE :: int where "PRXYERR_R_PROBLEM_USER_NOKEY_FILE = 1023"
definition PRXYERR_R_KEY_CERT_MISMATCH :: int where "PRXYERR_R_KEY_CERT_MISMATCH = 1034"
definition PRXYERR_R_WRONG_PASSPHRASE :: int where "PRXYERR_R_WRONG_PASSPHRASE = 1035"
definition PRXYERR_R_INVALID_CERT :: int where "PRXYERR_R_INVALID_CERT = 1056"

lemmas cred_codes = PRXYERR_R_PROCESS_KEY_def PRXYERR_R_PROCESS_CERT_def PRXYERR_R_PROBLEM_KEY_FILE_def
  PRXYERR_R_USER_ZERO_LENGTH_KEY_FILE_def PRXYERR_R_PROBLEM_USER_NOCERT_FILE_def
  PRXYERR_R_PROBLEM_USER_NOKEY_FILE_def PRXYERR_R_KEY_CERT_MISMATCH_def PRXYERR_R_WRONG_PASSPHRASE_def
  PRXYERR_R_INVALID_CERT_def

text \<open>The errors of the PEM and EVP parts of OpenSSL that the code tells apart.\<close>

definition no_start_line :: queued where
  "no_start_line = \<lparr>q_lib = 9, q_func = 109, q_reason = PEM_R_NO_START_LINE, q_data = []\<rparr>"

definition ERR_PACK :: "queued \<Rightarrow> int \<times> int \<times> int" where
  "ERR_PACK e = (q_lib e, q_func e, q_reason e)"

definition password_error :: "int \<times> int \<times> int" where "password_error = (9, 100, 104)"
definition decrypt_error :: "int \<times> int \<times> int" where "decrypt_error = (6, 101, 100)"

text \<open>\<open>ERR_peek_error\<close> is 0 when nothing is queued.\<close>

definition peek :: "queued list \<Rightarrow> int \<times> int \<times> int" where
  "peek q = (case q of [] \<Rightarrow> (0, 0, 0) | e # _ \<Rightarrow> ERR_PACK e)"

definition PRXYerr :: "int \<Rightarrow> int \<Rightarrow> cstring \<Rightarrow> queued" where
  "PRXYerr f r data = \<lparr>q_lib = 128, q_func = f, q_reason = r, q_data = data\<rparr>"

definition X509err :: "int \<Rightarrow> int \<Rightarrow> queued" where
  "X509err f r = \<lparr>q_lib = 11, q_func = f, q_reason = r, q_data = []\<rparr>"

definition fails :: "cred_state \<Rightarrow> queued \<Rightarrow> cred_state" where
  "fails st e = st\<lparr>cs_errs := cs_errs st @ [e]\<rparr>"

definition clear :: "cred_state \<Rightarrow> cred_state" where
  "clear st = st\<lparr>cs_errs := []\<rparr>"

text \<open>
  A callback for passwords: what it returns and the string it leaves in the buffer, \<open>None\<close> when
  there is none. A PKCS#12 file answers for each password whether its code is right and what
  parsing it with the password gives.
\<close>

type_synonym pw_cb = "int \<times> cstring option"

record p12 =
  p12_mac :: "cstring \<Rightarrow> bool"
  p12_parse :: "cstring \<Rightarrow> (x509 option \<times> pkey option \<times> x509 list option) + queued list"

record 'b pem_lib =
  pl_bio :: "cstring \<Rightarrow> 'b list + queued list"
  pl_fopen :: "cstring \<Rightarrow> 'b list option"
  pl_cert :: "'b list \<Rightarrow> (x509 \<times> 'b list) + queued list"
  pl_key :: "pw_cb option \<Rightarrow> cstring \<Rightarrow> 'b list \<Rightarrow> pkey + queued list"
  pl_infos :: "'b list \<Rightarrow> x509 option list + queued list"
  pl_p12 :: "cstring \<Rightarrow> p12 + queued list"
  pl_read_pw :: "cstring \<Rightarrow> int \<times> cstring option"
  pl_put_cert :: "x509 \<Rightarrow> 'b list"
  pl_put_key :: "pkey \<Rightarrow> 'b list"
  pl_ok :: "nat \<Rightarrow> bool"

section \<open>Writing a proxy\<close>

text \<open>The certificates left out: those named like the proxy or the user, and self-signed ones.\<close>

definition left_out :: "x509 \<Rightarrow> x509 option \<Rightarrow> x509 \<Rightarrow> bool" where
  "left_out ncert ucert c \<longleftrightarrow>
     X509_NAME_cmp_no_set (x_subject c) (x_subject ncert) = 0 \<or>
     (\<exists>u. ucert = Some u \<and> X509_NAME_cmp_no_set (x_subject c) (x_subject u) = 0) \<or>
     X509_NAME_cmp_no_set (x_subject c) (x_issuer c) = 0"

text \<open>\<open>k\<close> numbers the writes.\<close>

fun marshal_chain :: "'b pem_lib \<Rightarrow> x509 \<Rightarrow> x509 option \<Rightarrow> nat \<Rightarrow> x509 list \<Rightarrow> 'b list \<Rightarrow> int \<times> 'b list" where
  "marshal_chain lib ncert ucert k [] out = (0, out)"
| "marshal_chain lib ncert ucert k (c # cs) out =
     (if left_out ncert ucert c then marshal_chain lib ncert ucert k cs out
      else if \<not> pl_ok lib k then (4, out)
      else marshal_chain lib ncert ucert (Suc k) cs (out @ pl_put_cert lib c))"

definition proxy_marshal_bp ::
  "'b pem_lib \<Rightarrow> x509 \<Rightarrow> pkey option \<Rightarrow> x509 option \<Rightarrow> x509 list option \<Rightarrow> (int \<times> 'b list) option" where
  "proxy_marshal_bp lib ncert npkey ucert cert_chain =
     (if \<not> pl_ok lib 0 then Some (1, [])
      else (case npkey of None \<Rightarrow> None
        | Some key \<Rightarrow>
            if pk_type key \<noteq> EVP_PKEY_RSA then None
            else if \<not> pl_ok lib 1 then Some (2, pl_put_cert lib ncert)
            else (let out = pl_put_cert lib ncert @ pl_put_key lib key
                  in if ucert \<noteq> None \<and> \<not> pl_ok lib 2 then Some (3, out)
                     else Some (marshal_chain lib ncert ucert (if ucert = None then 2 else 3)
                            (case cert_chain of None \<Rightarrow> [] | Some cs \<Rightarrow> cs)
                            (out @ (case ucert of None \<Rightarrow> [] | Some u \<Rightarrow> pl_put_cert lib u))))))"

text \<open>
  The calls \<open>VOMS_WriteProxy\<close> makes: \<open>op i\<close> is what the i-th \<open>open\<close> returns. The flags are O_WRONLY,
  O_CREAT, O_EXCL and O_TRUNC.
\<close>

datatype 'b file_call = Unlink cstring | Create cstring nat nat int | Chmod int nat | Put int "'b list" | Close int

definition O_EXCL :: nat where "O_EXCL = 128"
definition create_flags :: nat where "create_flags = 1 + 64 + O_EXCL + 512"

fun create_loop :: "(nat \<Rightarrow> int) \<Rightarrow> cstring \<Rightarrow> int \<Rightarrow> nat \<Rightarrow> nat \<Rightarrow> 'b file_call list \<Rightarrow> int \<times> 'b file_call list" where
  "create_loop op f fd i 0 calls = (fd, calls)"
| "create_loop op f fd i (Suc retry) calls =
     (if fd < 0 then create_loop op f (op i) (Suc i) retry (calls @ [Unlink f, Create f create_flags 384 (op i)])
      else (fd, calls))"

definition VOMS_WriteProxy ::
  "'b pem_lib \<Rightarrow> (nat \<Rightarrow> int) \<Rightarrow> bool \<Rightarrow> bool \<Rightarrow> cstring \<Rightarrow> voms_proxy \<Rightarrow> (int \<times> 'b file_call list) option" where
  "VOMS_WriteProxy lib op chmod_ok bio_ok filename proxy =
     (case create_loop op filename (-1) 0 3 [] of (fd, calls) \<Rightarrow>
        if fd = -1 then Some (-1, calls)
        else if \<not> chmod_ok then Some (-1, calls @ [Chmod fd 384, Close fd])
        else if \<not> bio_ok then Some (-1, calls @ [Chmod fd 384, Close fd])
        else (case proxy_marshal_bp lib (x509.truncate (vp_cert proxy)) (vp_key proxy) None (Some (vp_chain proxy)) of
                None \<Rightarrow> None
              | Some (ret, out) \<Rightarrow> Some (ret, calls @ [Chmod fd 384, Put fd out, Close fd])))"

section \<open>Loading certificates and keys\<close>

text \<open>The loop of \<open>proxy_load_user_proxy\<close>: \<open>None\<close> when it does not end.\<close>

partial_function (option) load_loop ::
  "'b pem_lib \<Rightarrow> 'b list \<Rightarrow> nat \<Rightarrow> x509 list \<Rightarrow> queued list \<Rightarrow> (int \<times> x509 list \<times> queued list) option" where
  "load_loop lib t count chain q =
     (case pl_cert lib t of
        Inl (x, t') \<Rightarrow> load_loop lib t' (Suc count) (if count > 0 then chain @ [x] else chain) q
      | Inr es \<Rightarrow>
          if snd (snd (peek (q @ es))) = PEM_R_NO_START_LINE \<and> count > 0 then Some (int count, chain, [])
          else Some (-1, chain, q @ es @ [X509err PRXYERR_F_PROXY_LOAD PRXYERR_R_PROCESS_PROXY]))"

definition proxy_load_user_proxy ::
  "'b pem_lib \<Rightarrow> x509 list \<Rightarrow> cstring option \<Rightarrow> cred_state \<Rightarrow> (int \<times> x509 list \<times> cred_state) option" where
  "proxy_load_user_proxy lib cert_chain file st =
     (case file of None \<Rightarrow> Some (1, cert_chain, st)
      | Some f \<Rightarrow>
          (case pl_bio lib f of
             Inr es \<Rightarrow> Some (-1, cert_chain, st\<lparr>cs_errs := cs_errs st @ es @ [X509err PRXYERR_F_PROXY_LOAD PRXYERR_R_PROCESS_PROXY]\<rparr>)
           | Inl t \<Rightarrow> map_option (\<lambda>(r, c, q). (r, c, st\<lparr>cs_errs := q\<rparr>)) (load_loop lib t 0 cert_chain (cs_errs st))))"

text \<open>The status of \<open>proxy_load_user_cert\<close> and the certificate it stores.\<close>

definition smart_card :: "cstring \<Rightarrow> bool" where
  "smart_card name \<longleftrightarrow> strncmp name ''SC:'' 3 = 0"

definition bad_cert :: "cred_state \<Rightarrow> cstring \<Rightarrow> int \<times> cred_state" where
  "bad_cert st f =
     (if peek (cs_errs st) = ERR_PACK no_start_line
      then (PRXYERR_R_INVALID_CERT, fails (clear st) (PRXYerr PRXYERR_F_INIT_CRED PRXYERR_R_INVALID_CERT (''\<newline>        File='' @ f)))
      else (PRXYERR_R_PROCESS_CERT, fails st (PRXYerr PRXYERR_F_INIT_CRED PRXYERR_R_PROCESS_CERT (''\<newline>        File='' @ f))))"

definition proxy_load_user_cert ::
  "'b pem_lib \<Rightarrow> cstring option \<Rightarrow> cred_state \<Rightarrow> int \<times> x509 option \<times> cred_state" where
  "proxy_load_user_cert lib user_cert st =
     (case user_cert of
        None \<Rightarrow> (PRXYERR_R_PROBLEM_USER_NOCERT_FILE, None,
          fails st (PRXYerr PRXYERR_F_INIT_CRED PRXYERR_R_PROBLEM_USER_NOCERT_FILE ''\<newline>        No certificate file found''))
      | Some f \<Rightarrow>
          if smart_card f then (PRXYERR_R_PROCESS_CERT, None,
            fails st (PRXYerr PRXYERR_F_INIT_CRED PRXYERR_R_PROCESS_CERT ''\<newline>       Smartcard support not compiled with this program''))
          else (case pl_fopen lib f of
             None \<Rightarrow> (PRXYERR_R_PROBLEM_USER_NOCERT_FILE, None,
               fails st (PRXYerr PRXYERR_F_INIT_CRED PRXYERR_R_PROBLEM_USER_NOCERT_FILE (''\<newline>        Cert File='' @ f)))
           | Some t \<Rightarrow>
               (case pl_cert lib t of
                  Inl (x, _) \<Rightarrow> (0, Some x, st)
                | Inr es \<Rightarrow> (case bad_cert (st\<lparr>cs_errs := cs_errs st @ es\<rparr>) f of (s, st) \<Rightarrow> (s, None, st)))))"

text \<open>The check of a key against the public key of its certificate: the key, or \<open>None\<close> on a mismatch.\<close>

definition match_key :: "x509 \<Rightarrow> pkey \<Rightarrow> pkey option" where
  "match_key ucert key =
     (case x_pubkey ucert of
        None \<Rightarrow> None
      | Some pub \<Rightarrow>
          if pk_type pub \<noteq> pk_type key then None
          else if pk_type pub \<noteq> EVP_PKEY_RSA then Some key
          else (case pk_modulus pub of
             None \<Rightarrow> Some key
           | Some n \<Rightarrow>
               if pk_modulus key \<noteq> None \<and> pk_modulus key \<noteq> Some 0
               then if pk_modulus key = Some n then Some key else None
               else Some (key\<lparr>pk_modulus := Some n, pk_bits := pk_bits pub\<rparr>)))"

definition bad_key :: "cred_state \<Rightarrow> cstring \<Rightarrow> int \<times> cred_state" where
  "bad_key st f =
     (if peek (cs_errs st) = password_error then (-1, clear st)
      else if peek (cs_errs st) = decrypt_error
      then (PRXYERR_R_WRONG_PASSPHRASE, fails (clear st) (PRXYerr PRXYERR_F_INIT_CRED PRXYERR_R_WRONG_PASSPHRASE []))
      else (PRXYERR_R_PROCESS_KEY, fails st (PRXYerr PRXYERR_F_INIT_CRED PRXYERR_R_PROCESS_KEY (''\<newline>        File='' @ f))))"

definition proxy_load_user_key ::
  "'b pem_lib \<Rightarrow> sys_env \<Rightarrow> bool \<Rightarrow> x509 option \<Rightarrow> cstring option \<Rightarrow> pw_cb option \<Rightarrow> cred_state \<Rightarrow>
     int \<times> pkey option \<times> cred_state" where
  "proxy_load_user_key lib env wanted ucert user_key cb st =
     (if \<not> wanted then (0, None, st)
      else (case user_key of
        None \<Rightarrow> (PRXYERR_R_PROBLEM_USER_NOKEY_FILE, None,
          fails st (PRXYerr PRXYERR_F_INIT_CRED PRXYERR_R_PROBLEM_USER_NOKEY_FILE ''\<newline>        No key file found''))
      | Some f \<Rightarrow>
          if smart_card f then (PRXYERR_R_PROCESS_KEY, None,
            fails st (PRXYerr PRXYERR_F_INIT_CRED PRXYERR_R_PROCESS_KEY ''\<newline>       Smartcard support not compiled with this program''))
          else (case pl_fopen lib f of
             None \<Rightarrow> (PRXYERR_R_PROBLEM_USER_NOKEY_FILE, None,
               fails st (PRXYerr PRXYERR_F_INIT_CRED PRXYERR_R_PROBLEM_USER_NOKEY_FILE (''\<newline>        File='' @ f)))
           | Some t \<Rightarrow>
               if checkstat env f \<noteq> 0
               then (let r = (if checkstat env f = 4 then PRXYERR_R_USER_ZERO_LENGTH_KEY_FILE else PRXYERR_R_PROBLEM_KEY_FILE)
                     in (r, None, fails st (PRXYerr PRXYERR_F_INIT_CRED r (''\<newline>        File='' @ f))))
               else (case pl_key lib cb (cs_prompt st) t of
                  Inr es \<Rightarrow> (case bad_key (st\<lparr>cs_errs := cs_errs st @ es\<rparr>) f of (s, st) \<Rightarrow> (s, None, st))
                | Inl key \<Rightarrow>
                    (case ucert of None \<Rightarrow> (0, Some key, st)
                     | Some u \<Rightarrow>
                         (case match_key u key of
                            None \<Rightarrow> (PRXYERR_R_KEY_CERT_MISMATCH, Some key,
                              fails st (PRXYerr PRXYERR_F_INIT_CRED PRXYERR_R_KEY_CERT_MISMATCH []))
                          | Some key \<Rightarrow> (0, Some key, st)))))))"

text \<open>PKCS#12 files: the certificate, the key and the chain they hold.\<close>

type_synonym p12_parts = "x509 option \<times> pkey option \<times> x509 list option"

definition parse_with :: "p12 \<Rightarrow> cstring \<Rightarrow> cred_state \<Rightarrow> int \<times> p12_parts \<times> cred_state" where
  "parse_with p pw st =
     (case p12_parse p pw of
        Inl parts \<Rightarrow> (1, parts, st)
      | Inr es \<Rightarrow> (0, (None, None, None), st\<lparr>cs_errs := cs_errs st @ es\<rparr>))"

text \<open>The number and the buffer after the password was asked for; \<open>None\<close> reads what nobody wrote.\<close>

definition ask_password :: "'b pem_lib \<Rightarrow> pw_cb option \<Rightarrow> cstring \<Rightarrow> (int \<times> cstring option) option" where
  "ask_password lib cb prompt =
     (case cb of Some r \<Rightarrow> Some r
      | None \<Rightarrow> (case pl_read_pw lib prompt of (r, buf) \<Rightarrow>
          if r = -1 then Some (0, None)
          else map_option (\<lambda>s. (int (length s), Some s)) buf))"

definition cert_load_pkcs12 ::
  "'b pem_lib \<Rightarrow> cstring \<Rightarrow> pw_cb option \<Rightarrow> cred_state \<Rightarrow> (int \<times> p12_parts \<times> cred_state) option" where
  "cert_load_pkcs12 lib f cb st =
     (case pl_p12 lib f of
        Inr es \<Rightarrow> Some (0, (None, None, None), st\<lparr>cs_errs := cs_errs st @ es\<rparr>)
      | Inl p \<Rightarrow>
          if p12_mac p [] then Some (parse_with p [] st)
          else (case ask_password lib cb (cs_prompt st) of
             None \<Rightarrow> None
           | Some (sz, buf) \<Rightarrow>
               if sz = 0 then Some (0, (None, None, None), st)
               else map_option (\<lambda>pw. parse_with p pw st) buf))"

definition proxy_load_user_cert_and_key_pkcs12 ::
  "'b pem_lib \<Rightarrow> cstring \<Rightarrow> pw_cb option \<Rightarrow> cred_state \<Rightarrow> (int \<times> p12_parts \<times> cred_state) option" where
  "proxy_load_user_cert_and_key_pkcs12 lib f cb st =
     map_option (\<lambda>(r, parts, st). if r \<noteq> 0 then (1, parts, st) else (0, parts, snd (bad_cert st f)))
       (cert_load_pkcs12 lib f cb st)"

text \<open>
  \<open>load_credentials\<close>: the answer, \<open>*cert\<close>, \<open>*stack\<close>, \<open>*key\<close> and the state. The flags \<open>wc\<close>, \<open>ws\<close>
  and \<open>wk\<close> say which of the three pointers are given; they point to NULL. Names shorter than four
  characters are read before their start.
\<close>

definition set_prompt :: "cstring \<Rightarrow> cred_state \<Rightarrow> cred_state" where
  "set_prompt p st = st\<lparr>cs_prompt := p\<rparr>"

definition load_key_step ::
  "'b pem_lib \<Rightarrow> sys_env \<Rightarrow> cstring option \<Rightarrow> bool \<Rightarrow> bool \<Rightarrow> x509 option \<Rightarrow> pw_cb option \<Rightarrow> cred_state \<Rightarrow>
     (int \<times> pkey option \<times> cred_state) option" where
  "load_key_step lib env keyname wc wk cert cb st =
     (case keyname of
        None \<Rightarrow> Some (0, None, st)
      | Some kn \<Rightarrow>
          if \<not> wc then None
          else Some (proxy_load_user_key lib env wk cert (Some kn) cb
                  (if smart_card kn then set_prompt ''Enter card pin:'' st else st)))"

definition load_pem ::
  "'b pem_lib \<Rightarrow> sys_env \<Rightarrow> cstring \<Rightarrow> cstring option \<Rightarrow> bool \<Rightarrow> bool \<Rightarrow> bool \<Rightarrow> pw_cb option \<Rightarrow> cred_state \<Rightarrow>
     (int \<times> x509 option \<times> x509 list option \<times> pkey option \<times> cred_state) option" where
  "load_pem lib env certname keyname wc ws wk cb st =
     (case proxy_load_user_cert lib (Some certname) st of (s, cert, st) \<Rightarrow>
        if s \<noteq> 0 then Some (0, None, None, None, st)
        else (case load_key_step lib env keyname wc wk cert cb (set_prompt ''Enter GRID pass phrase:'' st) of
                None \<Rightarrow> None
              | Some (s, key, st) \<Rightarrow>
                  if s \<noteq> 0 then Some (0, None, None, None, st)
                  else if ws \<and> \<not> smart_card certname \<and> (keyname = None \<or> strcmp certname (the keyname) = 0)
                  then (case proxy_load_user_proxy lib [] (Some certname) st of
                          None \<Rightarrow> None
                        | Some (r, chain, st) \<Rightarrow>
                            if r < 0 then Some (0, None, None, None, st)
                            else Some (1, (if wc then cert else None), Some chain, key, st))
                  else Some (1, (if wc then cert else None), None, key, st)))"

definition load_p12 ::
  "'b pem_lib \<Rightarrow> cstring \<Rightarrow> bool \<Rightarrow> bool \<Rightarrow> bool \<Rightarrow> pw_cb option \<Rightarrow> cred_state \<Rightarrow>
     (int \<times> x509 option \<times> x509 list option \<times> pkey option \<times> cred_state) option" where
  "load_p12 lib certname wc ws wk cb st =
     map_option (\<lambda>(r, (cert, key, chain), st).
         if r = 0 then (0, None, None, None, st)
         else (1, (if wc then cert else None), (if ws then chain else None), (if wk then key else None), st))
       (proxy_load_user_cert_and_key_pkcs12 lib certname cb st)"

definition load_credentials ::
  "'b pem_lib \<Rightarrow> sys_env \<Rightarrow> cstring option \<Rightarrow> cstring option \<Rightarrow> bool \<Rightarrow> bool \<Rightarrow> bool \<Rightarrow> pw_cb option \<Rightarrow> cred_state \<Rightarrow>
     (int \<times> x509 option \<times> x509 list option \<times> pkey option \<times> cred_state) option" where
  "load_credentials lib env certname keyname wc ws wk cb st =
     (case certname of
        None \<Rightarrow> Some (0, None, None, None, st)
      | Some cn \<Rightarrow>
          (let st = set_prompt (if smart_card cn then ''Enter card pin:''
                      else ''Enter GRID pass phrase for this identity:'') st
           in if length cn < 4 then None
              else if strcmp (drop (length cn - 4) cn) ''.p12'' \<noteq> 0
              then load_pem lib env cn keyname wc ws wk cb st
              else load_p12 lib cn wc ws wk cb st))"

section \<open>Chains in one file\<close>

text \<open>The loop over the objects of a file: the first turn leaves the objects as they are.\<close>

function load_chain_loop :: "bool \<Rightarrow> x509 option list \<Rightarrow> x509 list \<Rightarrow> x509 list" where
  "load_chain_loop first sk stack =
     (if sk = [] then stack
      else if first then load_chain_loop False sk stack
      else load_chain_loop False (tl sk) (case hd sk of Some x \<Rightarrow> stack @ [x] | None \<Rightarrow> stack))"
  by pat_completeness auto
termination
  by (relation "measure (\<lambda>(first, sk, stack). 2 * length sk + of_bool first)") auto

declare load_chain_loop.simps [simp del]

text \<open>The chain or NULL, what is printed and the state.\<close>

definition load_chain ::
  "bool \<Rightarrow> x509 option list + queued list \<Rightarrow> cstring option \<Rightarrow> cred_state \<Rightarrow> x509 list option \<times> cstring \<times> cred_state" where
  "load_chain mem infos certfile st =
     (if \<not> mem then (None, (if certfile \<noteq> None then ''memory allocation failure\<newline>'' else []), st)
      else (case infos of
        Inr es \<Rightarrow> (None, (case certfile of None \<Rightarrow> [] | Some f \<Rightarrow> ''error reading the file, '' @ f @ ''\<newline>''),
          st\<lparr>cs_errs := cs_errs st @ es\<rparr>)
      | Inl sk \<Rightarrow>
          (let stack = load_chain_loop True sk []
           in if stack = [] then (None, (case certfile of None \<Rightarrow> [] | Some f \<Rightarrow> ''no certificates in file, '' @ f @ ''\<newline>''), st)
              else (Some stack, [], st))))"

datatype 'a ptr = Null | Dangling | To 'a

text \<open>\<open>*p\<close> after it was freed; freeing what was freed is \<open>None\<close>.\<close>

fun freed :: "'a ptr \<Rightarrow> 'a ptr option" where
  "freed Null = Some Null"
| "freed (To x) = Some Dangling"
| "freed Dangling = None"

text \<open>The answer, \<open>*cert\<close>, \<open>*stack\<close> and the state; \<open>None\<close> for \<open>cert\<close> and \<open>stack\<close> is a NULL argument.\<close>

definition load_certificate_from_file ::
  "'b pem_lib \<Rightarrow> bool \<Rightarrow> bool \<Rightarrow> 'b list \<Rightarrow> x509 ptr option \<Rightarrow> x509 list ptr option \<Rightarrow> cred_state \<Rightarrow>
     (int \<times> x509 ptr option \<times> x509 list ptr option \<times> cred_state) option" where
  "load_certificate_from_file lib bio_ok mem file cert stack st =
     (if cert = None then Some (0, cert, stack, st)
      else if \<not> bio_ok then Some (1, cert, stack, st)
      else (case pl_cert lib file of
        Inr es \<Rightarrow>
          (let st = st\<lparr>cs_errs := cs_errs st @ es\<rparr>
           in case stack of
                None \<Rightarrow> Some (0, Some Null, None, st)
              | Some s \<Rightarrow> map_option (\<lambda>s. (0, Some Null, Some s, st)) (freed s))
      | Inl (x, rest) \<Rightarrow>
          if stack = None then Some (1, Some (To x), None, st)
          else (case load_chain mem (pl_infos lib rest) None st of
             (Some s, _, st) \<Rightarrow> Some (1, Some (To x), Some (To s), st)
           | (None, _, st) \<Rightarrow> Some (0, Some Dangling, Some Null, st))))"

section \<open>The helpers of common/credentials.c\<close>

text \<open>\<open>globus\<close> for the value of GLOBUS_VERSION.\<close>

definition globus :: "cstring option \<Rightarrow> int \<Rightarrow> int" where
  "globus gver version =
     (let last = (\<lambda>v. if v \<ge> 42 \<or> v = 0 then 22 else v)
      in if version = 0
         then (case gver of
            None \<Rightarrow> last version
          | Some g \<Rightarrow> (case strtol g of (v, tmp) \<Rightarrow> if tmp = [] then 22 else last (sint (word_of_int v :: 32 word))))
         else last version)"

text \<open>The certificate a chain of proxies is for: the checks leave their flags in those they look at.\<close>

fun real_loop :: "ossl \<Rightarrow> x509 list \<Rightarrow> 'e list \<Rightarrow> (x509 option \<times> x509 list \<times> 'e list) option" where
  "real_loop o1 [] errs = Some (None, [], errs)"
| "real_loop o1 (c # cs) errs =
     (case proxy_check_proxy_name o1 c errs of
        None \<Rightarrow> None
      | Some (r, c, errs) \<Rightarrow>
          if r = 0 then Some (Some c, c # cs, errs)
          else map_option (\<lambda>(x, cs, errs). (x, c # cs, errs)) (real_loop o1 cs errs))"

definition get_real_cert :: "ossl \<Rightarrow> x509 \<Rightarrow> x509 list \<Rightarrow> 'e list \<Rightarrow> (x509 option \<times> x509 \<times> x509 list \<times> 'e list) option" where
  "get_real_cert o1 base stk errs =
     (case proxy_check_proxy_name o1 base errs of
        None \<Rightarrow> None
      | Some (r, base, errs) \<Rightarrow>
          if r = 0 then Some (Some base, base, stk, errs)
          else map_option (\<lambda>(x, stk, errs). (x, base, stk, errs)) (real_loop o1 stk errs))"

text \<open>\<open>bn2hex\<close> is \<open>BN_bn2hex\<close>.\<close>

definition get_peer_serial :: "(int \<Rightarrow> cstring option) \<Rightarrow> x509 option \<Rightarrow> cstring option" where
  "get_peer_serial bn2hex cert =
     (case cert of None \<Rightarrow> None | Some c \<Rightarrow> bn2hex (x_serial c))"

section \<open>What the loops do\<close>

definition put_certs :: "'b pem_lib \<Rightarrow> x509 list \<Rightarrow> 'b list" where
  "put_certs lib cs = concat (map (pl_put_cert lib) cs)"

lemma put_certs_simps [simp]:
  "put_certs lib [] = []" "put_certs lib (c # cs) = pl_put_cert lib c @ put_certs lib cs"
  by (simp_all add: put_certs_def)

lemma marshal_chain_complete:
  "marshal_chain lib ncert ucert k cs out = (0, out') \<Longrightarrow>
     out' = out @ put_certs lib (filter (\<lambda>c. \<not> left_out ncert ucert c) cs)"
  by (induction lib ncert ucert k cs out rule: marshal_chain.induct) (auto split: if_splits)

lemma marshal_complete:
  assumes "proxy_marshal_bp lib ncert npkey ucert chain = Some (0, out)"
  obtains key where "npkey = Some key" "pk_type key = EVP_PKEY_RSA"
    "out = pl_put_cert lib ncert @ pl_put_key lib key @
       put_certs lib (case ucert of None \<Rightarrow> [] | Some u \<Rightarrow> [u]) @
       put_certs lib (filter (\<lambda>c. \<not> left_out ncert ucert c) (case chain of None \<Rightarrow> [] | Some cs \<Rightarrow> cs))"
  using assms
  by (auto simp: proxy_marshal_bp_def Let_def split: if_splits option.splits
      dest!: marshal_chain_complete)

lemma create_loop_opened: "fd \<noteq> -1 \<Longrightarrow> 0 \<le> fd \<Longrightarrow> create_loop op f fd i n calls = (fd, calls)"
  by (cases n) simp_all

text \<open>
  The calls of the first \<open>n\<close> attempts to create the file, with the values POSIX systems give to
  O_WRONLY (1), O_CREAT (64), O_EXCL (128) and O_TRUNC (512), and 384 for the mode 0600.
\<close>

definition tries :: "(nat \<Rightarrow> int) \<Rightarrow> cstring \<Rightarrow> nat \<Rightarrow> 'b file_call list" where
  "tries op f n = concat (map (\<lambda>i. [Unlink f, Create f 705 384 (op i)]) [0..<n])"

text \<open>A call that opens a file does so with O_CREAT and O_EXCL, for reading and writing by the owner.\<close>

fun exclusive :: "'b file_call \<Rightarrow> bool" where
  "exclusive (Create f flags mode fd) \<longleftrightarrow> bit flags 7 \<and> bit flags 6 \<and> mode = 384"
| "exclusive c \<longleftrightarrow> True"

lemma create_flags_value: "create_flags = 705"
  by (simp add: create_flags_def O_EXCL_def)

lemma tries_exclusive: "\<forall>c\<in>set (tries op f n). exclusive c"
  by (auto simp: tries_def bit_numeral_simps)

text \<open>The first successful attempt, out of three.\<close>

lemma create_loop_outcome:
  assumes "\<And>i. -1 \<le> op i"
  shows "(\<forall>i<3. op i = -1) \<and> create_loop op f (-1) 0 3 [] = (-1, tries op f 3) \<or>
    (\<exists>n<3. (\<forall>i<n. op i = -1) \<and> 0 \<le> op n \<and> create_loop op f (-1) 0 3 [] = (op n, tries op f (Suc n)))"
proof -
  have failed: "op i = -1 \<or> 0 \<le> op i" for i using assms [of i] by linarith
  have three: "create_loop op f (-1) 0 3 [] = create_loop op f (-1) 0 (Suc (Suc (Suc 0))) []"
    by (simp add: numeral_3_eq_3)
  consider "op 0 \<noteq> -1" | "op 0 = -1" "op (Suc 0) \<noteq> -1" | "op 0 = -1" "op (Suc 0) = -1" "op (Suc (Suc 0)) \<noteq> -1"
    | "op 0 = -1" "op (Suc 0) = -1" "op (Suc (Suc 0)) = -1" by blast
  then show ?thesis
  proof cases
    case 1
    then show ?thesis using failed [of 0] unfolding three
      by (intro disjI2 exI [of _ 0]) (simp add: tries_def create_loop_opened create_flags_value)
  next
    case 2
    then show ?thesis using failed [of "Suc 0"] unfolding three
      by (intro disjI2 exI [of _ "Suc 0"]) (simp add: tries_def create_loop_opened create_flags_value)
  next
    case 3
    then show ?thesis using failed [of "Suc (Suc 0)"] unfolding three
      by (intro disjI2 exI [of _ "Suc (Suc 0)"]) (auto simp: tries_def create_loop_opened create_flags_value less_Suc_eq)
  next
    case 4
    then show ?thesis unfolding three
      by (intro disjI1) (simp add: tries_def create_flags_value numeral_3_eq_3 less_Suc_eq)
  qed
qed

section \<open>The properties\<close>

text \<open>
  C9: the file of a proxy. Every call of open in VOMS_WriteProxy has O_CREAT and O_EXCL and the mode
  0600, and comes right after the removal of the file of that name; there are at most three, each
  after one that failed; nothing is written before fchmod gave the file the mode 0600; and once the
  file was opened it is closed, whatever happens.
\<close>

theorem VOMS_WriteProxy_exclusive:
  assumes "VOMS_WriteProxy lib op chmod_ok bio_ok f proxy = Some (r, calls)"
    and "\<And>i. -1 \<le> op i"
  shows "(\<forall>c\<in>set calls. exclusive c) \<and>
    ((\<forall>i<3. op i = -1) \<and> r = -1 \<and> calls = tries op f 3 \<or>
     (\<exists>n<3. \<exists>body. (\<forall>i<n. op i = -1) \<and> 0 \<le> op n \<and>
       calls = tries op f (Suc n) @ [Chmod (op n) 384] @ body @ [Close (op n)] \<and>
       (body = [] \<and> r = -1 \<or> chmod_ok \<and> (\<exists>text. body = [Put (op n) text]))))"
  using create_loop_outcome [of op f, OF assms(2)]
proof (elim disjE exE conjE)
  assume "create_loop op f (-1) 0 3 [] = (-1, tries op f 3 :: 'a file_call list)" "\<forall>i<3. op i = -1"
  then show ?thesis using assms(1) tries_exclusive [where 'a = 'a, of op f 3] by (auto simp: VOMS_WriteProxy_def)
next
  fix n assume n: "n < 3" "\<forall>i<n. op i = -1" "0 \<le> op n"
    and l: "create_loop op f (-1) 0 3 [] = (op n, tries op f (Suc n) :: 'a file_call list)"
  from n(3) have "op n \<noteq> -1" by simp
  then have "\<exists>body. calls = tries op f (Suc n) @ [Chmod (op n) 384] @ body @ [Close (op n)] \<and>
      (body = [] \<and> r = -1 \<or> chmod_ok \<and> (\<exists>text. body = [Put (op n) text]))"
    using assms(1) l by (auto simp: VOMS_WriteProxy_def split: if_splits option.splits)
  moreover from this have "\<forall>c\<in>set calls. exclusive c" using tries_exclusive [of op f "Suc n"] by auto
  ultimately show ?thesis using n by blast
qed

text \<open>
  What the PEM routines are documented to do: a certificate that was written is read back and the
  rest of the file is left; the reader of certificates skips keys and the reader of keys
  certificates; at the end of the file there is no start line.
\<close>

definition pem_ok :: "'b pem_lib \<Rightarrow> bool" where
  "pem_ok lib \<longleftrightarrow>
     (\<forall>x t. pl_cert lib (pl_put_cert lib x @ t) = Inl (x, t)) \<and>
     (\<forall>k t. pl_cert lib (pl_put_key lib k @ t) = pl_cert lib t) \<and>
     pl_cert lib [] = Inr [no_start_line] \<and>
     (\<forall>cb p x t. pl_key lib cb p (pl_put_cert lib x @ t) = pl_key lib cb p t) \<and>
     (\<forall>cb p k t. pl_key lib cb p (pl_put_key lib k @ t) = Inl k)"

lemma peek_no_start [simp]: "snd (snd (peek [no_start_line])) = PEM_R_NO_START_LINE"
  by (simp add: peek_def ERR_PACK_def no_start_line_def)

lemma load_loop_more:
  "pem_ok lib \<Longrightarrow> 0 < n \<Longrightarrow> load_loop lib (put_certs lib cs) n chain [] = Some (int (n + length cs), chain @ cs, [])"
proof (induction cs arbitrary: n chain)
  case Nil
  then show ?case by (subst load_loop.simps) (simp add: pem_ok_def)
next
  case (Cons c cs)
  then show ?case by (subst load_loop.simps) (simp add: pem_ok_def)
qed

text \<open>A file with a certificate, a key and more certificates.\<close>

lemma load_loop_file:
  assumes "pem_ok lib"
  shows "load_loop lib (pl_put_cert lib x @ pl_put_key lib k @ put_certs lib cs) 0 chain [] =
    Some (int (Suc (length cs)), chain @ cs, [])"
proof -
  have "load_loop lib (pl_put_key lib k @ put_certs lib cs) (Suc 0) chain [] = load_loop lib (put_certs lib cs) (Suc 0) chain []"
    using assms by (subst (1 2) load_loop.simps) (simp add: pem_ok_def)
  moreover have "load_loop lib (pl_put_cert lib x @ pl_put_key lib k @ put_certs lib cs) 0 chain [] =
      load_loop lib (pl_put_key lib k @ put_certs lib cs) (Suc 0) chain []"
    using assms by (subst load_loop.simps) (simp add: pem_ok_def)
  ultimately show ?thesis using load_loop_more [OF assms, of "Suc 0" cs chain] by simp
qed

text \<open>What a list of calls wrote.\<close>

fun put_of :: "'b file_call \<Rightarrow> 'b list" where
  "put_of (Put fd t) = t"
| "put_of c = []"

definition file_text :: "'b file_call list \<Rightarrow> 'b list" where
  "file_text calls = concat (map put_of calls)"

lemma tries_text [simp]: "concat (map put_of (tries op f n)) = []"
  by (simp add: tries_def map_concat comp_def)

text \<open>A name that is read as the name of a PEM file.\<close>

definition pem_name :: "cstring \<Rightarrow> bool" where
  "pem_name f \<longleftrightarrow> 4 \<le> length f \<and> strcmp (drop (length f - 4) f) ''.p12'' \<noteq> 0 \<and> \<not> smart_card f"

lemma create_loop_text: "create_loop op f fd i n calls = (r, calls') \<Longrightarrow> file_text calls' = file_text calls"
  by (induction op f fd i n calls rule: create_loop.induct) (auto simp: file_text_def split: if_splits)

lemma written_text:
  assumes "VOMS_WriteProxy lib op chmod_ok bio_ok f proxy = Some (0, calls)"
  obtains key where "vp_key proxy = Some key" "pk_type key = EVP_PKEY_RSA"
    "file_text calls = pl_put_cert lib (x509.truncate (vp_cert proxy)) @ pl_put_key lib key @
       put_certs lib (filter (\<lambda>c. \<not> left_out (x509.truncate (vp_cert proxy)) None c) (vp_chain proxy))"
proof -
  obtain fd cs where l: "create_loop op f (-1) 0 3 ([] :: 'a file_call list) = (fd, cs)" by fastforce
  have cs: "file_text cs = []" using create_loop_text [OF l] by (simp add: file_text_def)
  with assms l obtain out where
    m: "proxy_marshal_bp lib (x509.truncate (vp_cert proxy)) (vp_key proxy) None (Some (vp_chain proxy)) = Some (0, out)"
    and c: "file_text calls = out"
    by (auto simp: VOMS_WriteProxy_def file_text_def split: if_splits option.splits)
  show ?thesis by (rule marshal_complete [OF m]) (rule that, assumption, assumption, simp add: c)
qed

lemma match_key_same:
  assumes "x_pubkey u = Some pub" "pk_type pub = EVP_PKEY_RSA" "pk_type key = EVP_PKEY_RSA"
    "pk_modulus pub = Some n" "pk_modulus key = Some n" "n \<noteq> 0"
  shows "match_key u key = Some key"
  using assms by (simp add: match_key_def)

text \<open>
  C7: a proxy that was written is loaded. When VOMS_WriteProxy succeeds, load_credentials with the
  name of the file for the certificate and the key gives the certificate, the key and the chain
  without the certificates named like the proxy and the self-signed ones, whatever the password
  callback, provided the file belongs to the user and nobody else has access, and no error is
  queued before.
\<close>

theorem write_load_round_trip:
  assumes written: "VOMS_WriteProxy lib op chmod_ok bio_ok f proxy = Some (0, calls)"
    and pem: "pem_ok lib" and name: "pem_name f" "checkstat env f = 0" "cs_errs st = []"
    and stored: "pl_fopen lib f = Some (file_text calls)" "pl_bio lib f = Inl (file_text calls)"
    and pub: "x_pubkey (x509.truncate (vp_cert proxy)) = Some pub" "pk_type pub = EVP_PKEY_RSA"
    and key: "vp_key proxy = Some key" "pk_modulus pub = Some n" "pk_modulus key = Some n" "n \<noteq> 0"
  shows "load_credentials lib env (Some f) (Some f) True True True cb st =
    Some (1, Some (x509.truncate (vp_cert proxy)),
      Some (filter (\<lambda>c. \<not> left_out (x509.truncate (vp_cert proxy)) None c) (vp_chain proxy)), Some key,
      \<lparr>cs_errs = [], cs_prompt = ''Enter GRID pass phrase:''\<rparr>)"
proof -
  let ?x = "x509.truncate (vp_cert proxy)" and ?st = "\<lparr>cs_errs = [], cs_prompt = ''Enter GRID pass phrase:''\<rparr> :: cred_state"
  let ?cs = "filter (\<lambda>c. \<not> left_out ?x None c) (vp_chain proxy)"
  from written_text [OF written] key(1) have rsa: "pk_type key = EVP_PKEY_RSA"
    and whole: "file_text calls = pl_put_cert lib ?x @ pl_put_key lib key @ put_certs lib ?cs" by auto
  have sc: "\<not> smart_card f" "4 \<le> length f" "strcmp (drop (length f - 4) f) ''.p12'' \<noteq> 0"
    using name(1) by (simp_all add: pem_name_def)
  have c: "proxy_load_user_cert lib (Some f) s = (0, Some ?x, s)" for s
    using pem sc(1) by (simp add: proxy_load_user_cert_def stored whole pem_ok_def)
  have k: "proxy_load_user_key lib env True (Some ?x) (Some f) cb s = (0, Some key, s)" for s
    using pem sc(1) name(2) match_key_same [OF pub rsa key(2-4)]
    by (simp add: proxy_load_user_key_def stored whole pem_ok_def)
  have p: "proxy_load_user_proxy lib [] (Some f) ?st = Some (int (Suc (length ?cs)), ?cs, ?st)"
    using load_loop_file [OF pem, of ?x key ?cs "[]"] by (simp add: proxy_load_user_proxy_def stored whole)
  have "set_prompt ''Enter GRID pass phrase:'' (set_prompt q st) = ?st" for q
    using name(3) by (cases st) (simp add: set_prompt_def)
  then show ?thesis using sc
    by (simp add: load_credentials_def load_pem_def load_key_step_def c k p)
qed

text \<open>What passes the check of a key.\<close>

lemma match_key_passed:
  assumes "match_key u key = Some key'"
  obtains pub where "x_pubkey u = Some pub" "pk_type key' = pk_type pub"
    "pk_type pub = EVP_PKEY_RSA \<and> pk_modulus pub \<noteq> None \<longrightarrow> pk_modulus key' = pk_modulus pub"
  using assms by (auto simp: match_key_def split: option.splits if_splits)

lemma proxy_load_user_key_passed:
  assumes "proxy_load_user_key lib env True (Some u) (Some f) cb st = (0, k, st')"
  obtains key pub where "k = Some key" "checkstat env f = 0" "\<not> smart_card f" "x_pubkey u = Some pub" "pk_type key = pk_type pub"
    "pk_type pub = EVP_PKEY_RSA \<and> pk_modulus pub \<noteq> None \<longrightarrow> pk_modulus key = pk_modulus pub"
proof -
  from assms obtain key0 key where "k = Some key" "checkstat env f = 0" "\<not> smart_card f" "match_key u key0 = Some key"
    by (auto simp: proxy_load_user_key_def cred_codes bad_key_def Let_def split: option.splits sum.splits if_splits) metis
  then show thesis using match_key_passed that by metis
qed

lemma proxy_load_user_cert_passed:
  "proxy_load_user_cert lib (Some f) st = (0, c, st') \<Longrightarrow> c \<noteq> None"
  by (auto simp: proxy_load_user_cert_def cred_codes bad_cert_def split: option.splits sum.splits if_splits)

lemma checkstat_passed:
  "checkstat env f = 0 \<longleftrightarrow>
     (\<exists>s. sy_stat env f = Some s \<and> fst_uid s = int (sy_uid env) \<and> and (fst_mode s) 0x36 = 0 \<and> fst_size s \<noteq> 0)"
  by (simp add: checkstat_def split: option.splits)

lemma load_pem_passed:
  assumes "load_pem lib env cn (Some kn) True ws True cb st = Some (1, cert, stack, key, st')"
  obtains x st2 st3 where "proxy_load_user_key lib env True (Some x) (Some kn) cb st2 = (0, key, st3)" "cert = Some x"
proof -
  obtain s c st1 where c: "proxy_load_user_cert lib (Some cn) st = (s, c, st1)"
    by (cases "proxy_load_user_cert lib (Some cn) st")
  have s: "s = 0" using assms c by (auto simp: load_pem_def split: if_splits)
  obtain x where x: "c = Some x" using proxy_load_user_cert_passed [of lib cn st c st1] c s by auto
  define st2 where "st2 = (if smart_card kn then set_prompt ''Enter card pin:'' (set_prompt ''Enter GRID pass phrase:'' st1)
    else set_prompt ''Enter GRID pass phrase:'' st1)"
  obtain s' k st3 where k: "proxy_load_user_key lib env True (Some x) (Some kn) cb st2 = (s', k, st3)"
    by (cases "proxy_load_user_key lib env True (Some x) (Some kn) cb st2")
  note run = assms [unfolded load_pem_def c prod.case load_key_step_def option.case, simplified s x, folded st2_def]
  have "s' = 0" by (rule ccontr) (use run k in \<open>simp\<close>)
  with run k have "k = key \<and> cert = Some x" by (auto split: if_splits option.splits)
  with k \<open>s' = 0\<close> show thesis using that by simp
qed

lemma parse_with_passed: "parse_with p pw st = (r, parts, st') \<Longrightarrow> r \<noteq> 0 \<Longrightarrow> p12_parse p pw = Inl parts"
  by (auto simp: parse_with_def split: sum.splits)

lemma cert_load_pkcs12_passed:
  assumes "cert_load_pkcs12 lib f cb st = Some (r, parts, st')" and "r \<noteq> 0"
  obtains p pw where "pl_p12 lib f = Inl p" "p12_parse p pw = Inl parts"
  using assms that by (fastforce simp: cert_load_pkcs12_def split: sum.splits option.splits if_splits dest: parse_with_passed)

lemma load_p12_passed:
  assumes "load_p12 lib cn True ws True cb st = Some (1, cert, stack, key, st')"
  obtains p pw chain where "pl_p12 lib cn = Inl p" "p12_parse p pw = Inl (cert, key, chain)"
proof -
  from assms obtain r chain st1 where "cert_load_pkcs12 lib cn cb st = Some (r, (cert, key, chain), st1)" "r \<noteq> 0"
    by (auto simp: load_p12_def proxy_load_user_cert_and_key_pkcs12_def split: if_splits)
  then show thesis by (rule cert_load_pkcs12_passed) (rule that)
qed

text \<open>
  C8: credentials that fit, with the names of a certificate and of a key and pointers for both, when
  load_credentials succeeds. If the name of the certificate does not end in .p12, the certificate
  and the key were loaded, the key's file belongs to the user, is not empty and gives nobody else
  the permission to read or write it (the permission to execute is not looked at), and the key is
  of the type of the certificate's public key, with its modulus when they are RSA keys. If it ends
  in .p12, none of this is looked at: the certificate and the key are what PKCS12_parse makes of the
  file, and the answer is the same for any name of the key and any state of the file system.
\<close>

theorem load_credentials_fit:
  assumes "load_credentials lib env (Some cn) (Some kn) True ws True cb st = Some (1, cert, stack, key, st')"
  shows "if strcmp (drop (length cn - 4) cn) ''.p12'' \<noteq> 0
    then \<exists>x k pub s. cert = Some x \<and> key = Some k \<and> x_pubkey x = Some pub \<and> pk_type k = pk_type pub \<and>
      (pk_type pub = EVP_PKEY_RSA \<and> pk_modulus pub \<noteq> None \<longrightarrow> pk_modulus k = pk_modulus pub) \<and>
      sy_stat env kn = Some s \<and> fst_uid s = int (sy_uid env) \<and> and (fst_mode s) 0x36 = 0 \<and> fst_size s \<noteq> 0
    else (\<exists>p pw chain. pl_p12 lib cn = Inl p \<and> p12_parse p pw = Inl (cert, key, chain)) \<and>
      (\<forall>env' kn'. load_credentials lib env' (Some cn) kn' True ws True cb st = Some (1, cert, stack, key, st'))"
proof (cases "strcmp (drop (length cn - 4) cn) ''.p12'' \<noteq> 0")
  case True
  with assms obtain st0 where "load_pem lib env cn (Some kn) True ws True cb st0 = Some (1, cert, stack, key, st')"
    by (auto simp: load_credentials_def Let_def split: if_splits)
  then obtain x st2 st3 where k: "proxy_load_user_key lib env True (Some x) (Some kn) cb st2 = (0, key, st3)" and cert: "cert = Some x"
    by (rule load_pem_passed)
  from k have "\<exists>x k pub s. cert = Some x \<and> key = Some k \<and> x_pubkey x = Some pub \<and> pk_type k = pk_type pub \<and>
      (pk_type pub = EVP_PKEY_RSA \<and> pk_modulus pub \<noteq> None \<longrightarrow> pk_modulus k = pk_modulus pub) \<and>
      sy_stat env kn = Some s \<and> fst_uid s = int (sy_uid env) \<and> and (fst_mode s) 0x36 = 0 \<and> fst_size s \<noteq> 0"
    by (rule proxy_load_user_key_passed) (use cert in \<open>auto simp: checkstat_passed\<close>)
  then show ?thesis by (simp only: if_P [OF True])
next
  case False
  with assms obtain st0 where "load_p12 lib cn True ws True cb st0 = Some (1, cert, stack, key, st')"
    by (auto simp: load_credentials_def Let_def split: if_splits)
  then have "\<exists>p pw chain. pl_p12 lib cn = Inl p \<and> p12_parse p pw = Inl (cert, key, chain)"
    by (rule load_p12_passed) blast
  moreover have "load_credentials lib env' (Some cn) kn' True ws True cb st = Some (1, cert, stack, key, st')" for env' kn'
    using False assms by (auto simp: load_credentials_def Let_def split: if_splits)
  ultimately show ?thesis unfolding if_not_P [OF False] by blast
qed

text \<open>Every certificate that is read takes something off the file.\<close>

definition consumes :: "'b pem_lib \<Rightarrow> bool" where
  "consumes lib \<longleftrightarrow> (\<forall>t x t'. pl_cert lib t = Inl (x, t') \<longrightarrow> length t' < length t)"

lemma load_loop_returns:
  assumes "consumes lib"
  shows "\<exists>r c q'. load_loop lib t n chain q = Some (r, c, q') \<and>
    (r = -1 \<or> 0 < r \<and> int n \<le> r \<and> q' = [] \<and> (\<exists>new. c = chain @ new \<and> int (length new) = r - (if n = 0 then 1 else int n)))"
proof (induction "length t" arbitrary: t n chain rule: less_induct)
  case less
  show ?case
  proof (cases "pl_cert lib t")
    case (Inl p)
    obtain x t' where p: "p = (x, t')" by fastforce
    let ?chain = "if 0 < n then chain @ [x] else chain"
    from assms Inl p have "length t' < length t" by (simp add: consumes_def)
    from less.hyps [OF this, of "Suc n" ?chain] obtain r c q' where h: "load_loop lib t' (Suc n) ?chain q = Some (r, c, q')"
      "r = -1 \<or> 0 < r \<and> int (Suc n) \<le> r \<and> q' = [] \<and> (\<exists>new. c = ?chain @ new \<and> int (length new) = r - int (Suc n))"
      by auto
    have "load_loop lib t n chain q = Some (r, c, q')"
      by (subst load_loop.simps) (use Inl p h in simp)
    with h(2) show ?thesis by (cases n) auto
  next
    case (Inr es)
    then show ?thesis by (subst load_loop.simps) (auto simp: Let_def)
  qed
qed

text \<open>
  C37: the loading of a chain ends. When every certificate that is read takes something off the
  file, \<open>proxy_load_user_proxy\<close> returns; its answer is -1, or the number of certificates of the file,
  of which all but the first were appended to the chain and after which no error is queued.
\<close>

theorem proxy_load_user_proxy_returns:
  assumes "consumes lib"
  shows "\<exists>r c st'. proxy_load_user_proxy lib chain (Some f) st = Some (r, c, st') \<and>
    (r = -1 \<or> 0 < r \<and> cs_errs st' = [] \<and> (\<exists>new. c = chain @ new \<and> int (length new) = r - 1))"
proof (cases "pl_bio lib f")
  case (Inl t)
  from load_loop_returns [of lib t 0 chain "cs_errs st"] assms obtain r c q' where
    "load_loop lib t 0 chain (cs_errs st) = Some (r, c, q')"
    "r = -1 \<or> 0 < r \<and> q' = [] \<and> (\<exists>new. c = chain @ new \<and> int (length new) = r - 1)" by auto
  then show ?thesis using Inl by (auto simp: proxy_load_user_proxy_def)
qed (simp add: proxy_load_user_proxy_def)

lemma load_loop_old_error:
  assumes "load_loop lib t n chain (e # q) = Some (r, c, q')"
    and "q_reason e \<noteq> PEM_R_NO_START_LINE"
  shows "r = -1"
proof -
  let ?P = "\<lambda>lib t n chain q y. q \<noteq> [] \<and> q_reason (hd q) \<noteq> PEM_R_NO_START_LINE \<longrightarrow> fst y = -1"
  have "?P lib t n chain (e # q) (r, c, q')"
  proof (rule load_loop.raw_induct [where P = ?P, OF _ assms(1)])
    fix f :: "'a pem_lib \<Rightarrow> 'a list \<Rightarrow> nat \<Rightarrow> x509 list \<Rightarrow> queued list \<Rightarrow> (int \<times> x509 list \<times> queued list) option"
      and lib t n chain q y
    assume ih: "\<And>lib t n chain q y. f lib t n chain q = Some y \<Longrightarrow> ?P lib t n chain q y"
      and body: "(case pl_cert lib t of
        Inl (x, t') \<Rightarrow> f lib t' (Suc n) (if n > 0 then chain @ [x] else chain) q
      | Inr es \<Rightarrow>
          if snd (snd (peek (q @ es))) = PEM_R_NO_START_LINE \<and> n > 0 then Some (int n, chain, [])
          else Some (-1, chain, q @ es @ [X509err PRXYERR_F_PROXY_LOAD PRXYERR_R_PROCESS_PROXY])) = Some y"
    show "?P lib t n chain q y"
    proof (cases "pl_cert lib t")
      case (Inl p)
      then show ?thesis using body ih by (cases p) (auto)
    next
      case (Inr es)
      then show ?thesis using body by (cases q) (auto simp: peek_def ERR_PACK_def)
    qed
  qed
  then show ?thesis using assms(2) by simp
qed

lemma cert_keeps_old:
  "proxy_load_user_cert lib (Some f) st = (0, c, st') \<Longrightarrow> cs_errs st' = cs_errs st"
  by (auto simp: proxy_load_user_cert_def cred_codes bad_cert_def split: option.splits sum.splits if_splits)

text \<open>
  Old errors spoil the loading. An error that is queued from before, other than a missing start
  line, makes the loading of the chain fail whatever the file holds, because the loop looks at the
  earliest error and not at its own; then \<open>load_credentials\<close> with one file for the certificate and
  the chain never succeeds.
\<close>

theorem load_credentials_old_error:
  assumes "cs_errs st = e # q" "q_reason e \<noteq> PEM_R_NO_START_LINE" "pem_name f"
    and "load_credentials lib env (Some f) None True True wk cb st = Some (r, res)"
  shows "r = 0"
proof (rule ccontr)
  assume r: "r \<noteq> 0"
  have sc: "\<not> smart_card f" "4 \<le> length f" "strcmp (drop (length f - 4) f) ''.p12'' \<noteq> 0"
    using assms(3) by (simp_all add: pem_name_def)
  let ?st = "set_prompt ''Enter GRID pass phrase for this identity:'' st"
  obtain s c st1 where c: "proxy_load_user_cert lib (Some f) ?st = (s, c, st1)" by (cases "proxy_load_user_cert lib (Some f) ?st")
  have s: "s = 0" using assms(4) r sc c
    by (auto simp: load_credentials_def load_pem_def split: if_splits)
  have q: "cs_errs (set_prompt ''Enter GRID pass phrase:'' st1) = e # q"
    using cert_keeps_old [of lib f ?st c st1] c s assms(1) by (simp add: set_prompt_def)
  from assms(4) r sc c s obtain n ch st2 where
    "proxy_load_user_proxy lib [] (Some f) (set_prompt ''Enter GRID pass phrase:'' st1) = Some (n, ch, st2)" "\<not> n < 0"
    by (auto simp: load_credentials_def load_pem_def load_key_step_def split: option.splits if_splits)
  moreover from this obtain t q' where "load_loop lib t 0 [] (e # q) = Some (n, ch, q')"
    using q by (auto simp: proxy_load_user_proxy_def split: sum.splits)
  then have "n = -1" using load_loop_old_error assms(2) by blast
  ultimately show False by simp
qed

text \<open>The first turn of the loop takes nothing away.\<close>

lemma load_chain_loop_all: "load_chain_loop first sk stack = stack @ List.map_filter id sk"
proof (induction first sk stack rule: load_chain_loop.induct)
  case (1 first sk stack)
  show ?case
  proof (cases sk)
    case Nil
    then show ?thesis by (subst load_chain_loop.simps) (simp add: List.map_filter_def)
  next
    case (Cons x xs)
    then show ?thesis using 1
      by (subst load_chain_loop.simps) (cases first; cases x; simp add: List.map_filter_def)
  qed
qed

text \<open>
  Chains in a file. After the first certificate was read, all the certificates of the rest are
  the chain, also the first of them, which the comment says is skipped; a file without others is
  refused and the certificate freed.
\<close>

theorem load_certificate_from_file_chain:
  assumes "pl_cert lib file = Inl (x, rest)" "pl_infos lib rest = Inl sk"
  shows "load_certificate_from_file lib True True file (Some c) (Some s) st =
    Some (if set sk \<subseteq> {None} then (0, Some Dangling, Some Null, st)
          else (1, Some (To x), Some (To (List.map_filter id sk)), st))"
proof -
  have "List.map_filter id sk = [] \<longleftrightarrow> set sk \<subseteq> {None}"
    by (induction sk) (auto simp: List.map_filter_def split: option.splits)
  then show ?thesis
    using assms by (simp add: load_certificate_from_file_def load_chain_def load_chain_loop_all)
qed

text \<open>
  When the first certificate cannot be read, the code frees what the caller left in \<open>*stack\<close>:
  undefined for a pointer that is not NULL and not to a stack.
\<close>

lemma load_certificate_from_file_stack:
  assumes "pl_cert lib file = Inr es"
  shows "load_certificate_from_file lib True mem file (Some c) (Some Dangling) st = None"
    "load_certificate_from_file lib True mem file (Some c) (Some (To s)) st =
       Some (0, Some Null, Some Dangling, st\<lparr>cs_errs := cs_errs st @ es\<rparr>)"
  using assms by (simp_all add: load_certificate_from_file_def)

definition named :: "ossl \<Rightarrow> x509 \<Rightarrow> bool" where
  "named o1 c \<longleftrightarrow> has_pci o1 c \<or> x_subject c \<noteq> []"

lemma not_proxy_unmarked: "proxy_kind o1 c = 0 \<Longrightarrow> proxy_marked o1 c = c"
proof -
  assume "proxy_kind o1 c = 0"
  moreover from this have "\<not> has_pci o1 c" by (rule contrapos_pn) (simp add: proxy_kind_def)
  ultimately show ?thesis by (simp add: proxy_marked_def mark_proxy_def)
qed

lemma named_check:
  "named o1 c \<Longrightarrow> proxy_check_proxy_name o1 c errs = Some (proxy_kind o1 c, proxy_marked o1 c, errs_kept o1 errs)"
  unfolding named_def by (rule proxy_check_kind)

lemma real_loop_first:
  "list_all (named o1) cs \<Longrightarrow> \<exists>cs' errs'. real_loop o1 cs errs = Some (find (\<lambda>c. proxy_kind o1 c = 0) cs, cs', errs')"
proof (induction cs arbitrary: errs)
  case (Cons c cs)
  then obtain cs' errs' where "real_loop o1 cs (errs_kept o1 errs) = Some (find (\<lambda>c. proxy_kind o1 c = 0) cs, cs', errs')"
    by fastforce
  then show ?case using Cons.prems
    by (cases "proxy_kind o1 c = 0") (auto simp: named_check not_proxy_unmarked)
qed simp

text \<open>
  Whom a chain is for. \<open>get_real_cert\<close> gives the first certificate, from the base on, that is not
  classified as a proxy, nor as a bad one, and NULL when there is none.
\<close>

theorem get_real_cert_first:
  assumes "list_all (named o1) (base # stk)"
  shows "\<exists>base' stk' errs'. get_real_cert o1 base stk errs =
    Some (find (\<lambda>c. proxy_kind o1 c = 0) (base # stk), base', stk', errs')"
  using assms real_loop_first [of o1 stk "errs_kept o1 errs"]
  by (cases "proxy_kind o1 base = 0") (auto simp: get_real_cert_def named_check not_proxy_unmarked)

text \<open>
  The Globus version. The answer is never 0 and always below 42; a well-formed number in the
  environment is not used, whatever its value, and one that other text follows is.
\<close>

theorem globus_version:
  "globus gver version < 42 \<and> globus gver version \<noteq> 0 \<and>
   (gver = Some g \<and> snd (strtol g) = [] \<longrightarrow> globus gver 0 = 22)"
  by (simp add: globus_def Let_def split: prod.splits option.splits)

section \<open>Applications\<close>

datatype pem_block = B_cert x509 | B_key pkey

fun next_cert :: "pem_block list \<Rightarrow> (x509 \<times> pem_block list) + queued list" where
  "next_cert [] = Inr [no_start_line]"
| "next_cert (B_cert x # t) = Inl (x, t)"
| "next_cert (B_key k # t) = next_cert t"

fun next_key :: "pem_block list \<Rightarrow> pkey + queued list" where
  "next_key [] = Inr [no_start_line]"
| "next_key (B_cert x # t) = next_key t"
| "next_key (B_key k # t) = Inl k"

definition cert_of :: "pem_block \<Rightarrow> x509 option" where
  "cert_of b = (case b of B_cert x \<Rightarrow> Some x | B_key k \<Rightarrow> None)"

definition sample_pem :: "pem_block list \<Rightarrow> pem_block pem_lib" where
  "sample_pem t = \<lparr>pl_bio = (\<lambda>_. Inl t), pl_fopen = (\<lambda>_. Some t), pl_cert = next_cert, pl_key = (\<lambda>_ _. next_key),
     pl_infos = (\<lambda>t. Inl (map cert_of t)), pl_p12 = (\<lambda>_. Inr []), pl_read_pw = (\<lambda>_. (-1, None)),
     pl_put_cert = (\<lambda>x. [B_cert x]), pl_put_key = (\<lambda>k. [B_key k]), pl_ok = (\<lambda>_. True)\<rparr>"

lemma sample_pem_fields [simp]:
  "pl_bio (sample_pem t) f = Inl t" "pl_fopen (sample_pem t) f = Some t" "pl_cert (sample_pem t) = next_cert"
  "pl_key (sample_pem t) cb p = next_key" "pl_infos (sample_pem t) u = Inl (map cert_of u)"
  "pl_put_cert (sample_pem t) x = [B_cert x]" "pl_put_key (sample_pem t) k = [B_key k]" "pl_ok (sample_pem t) n"
  by (simp_all add: sample_pem_def)

lemma sample_pem_ok: "pem_ok (sample_pem t)"
  by (simp add: pem_ok_def)

lemma next_cert_shorter: "next_cert t = Inl (x, t') \<Longrightarrow> length t' < length t"
  by (induction t rule: next_cert.induct) auto

lemma sample_pem_consumes: "consumes (sample_pem t)"
  using next_cert_shorter by (auto simp: consumes_def)

definition sample_ca :: x509 where
  "sample_ca = sample_cert [sample_cn ''ca''] [sample_cn ''ca''] []"

definition sample_voms_proxy :: voms_proxy where
  "sample_voms_proxy = \<lparr>vp_cert = sample_signed 0, vp_key = Some (sample_key 91), vp_chain = [sample_user, sample_ca]\<rparr>"

definition sample_new_proxy :: x509 where
  "sample_new_proxy = x509.truncate (sample_signed 0)"

lemma sample_new_proxy_fields:
  "name_key (x_subject sample_new_proxy) = [(oid_commonName, ''user''), (oid_commonName, ''proxy'')]"
  "x_pubkey sample_new_proxy = Some (sample_key 91)"
  by (simp_all add: sample_new_proxy_def sample_signed_def blank_cert_def sample_cn_def x509.truncate_def name_key_def add_entry_def)

lemma sample_left_out: "left_out sample_new_proxy None sample_ca" "\<not> left_out sample_new_proxy None sample_user"
  by (simp_all add: left_out_def sample_new_proxy_fields cmp_no_set_key)
     (simp_all add: sample_ca_def sample_user_def sample_cert_def sample_cn_def name_key_def)

definition sample_calls :: "pem_block file_call list" where
  "sample_calls = [Unlink ''/tmp/x509up_u500'', Create ''/tmp/x509up_u500'' create_flags 384 (-1),
     Unlink ''/tmp/x509up_u500'', Create ''/tmp/x509up_u500'' create_flags 384 5, Chmod 5 384,
     Put 5 [B_cert sample_new_proxy, B_key (sample_key 91), B_cert sample_user], Close 5]"

definition sample_open :: "nat \<Rightarrow> int" where
  "sample_open i = (if i = 0 then -1 else 5)"

lemma sample_proxy_written:
  "VOMS_WriteProxy (sample_pem t) sample_open True True ''/tmp/x509up_u500'' sample_voms_proxy = Some (0, sample_calls)"
proof -
  have "proxy_marshal_bp (sample_pem t) sample_new_proxy (Some (sample_key 91)) None (Some [sample_user, sample_ca]) =
      Some (0, [B_cert sample_new_proxy, B_key (sample_key 91), B_cert sample_user])"
    by (simp add: proxy_marshal_bp_def sample_key_def sample_left_out)
  then show ?thesis
    by (simp add: VOMS_WriteProxy_def sample_voms_proxy_def sample_new_proxy_def sample_calls_def sample_open_def
        numeral_3_eq_3)
qed

lemma VOMS_WriteProxy_exclusive_witness:
  "list_all exclusive sample_calls \<and> (\<exists>n<3. \<exists>body. 0 \<le> sample_open n \<and>
     sample_calls = tries sample_open ''/tmp/x509up_u500'' (Suc n) @ [Chmod (sample_open n) 384] @ body @ [Close (sample_open n)])"
proof -
  have "\<not> (\<forall>i<3. sample_open i = -1)" by (auto simp: sample_open_def intro!: exI [of _ 1])
  moreover have "-1 \<le> sample_open i" for i by (simp add: sample_open_def)
  ultimately show ?thesis
    using VOMS_WriteProxy_exclusive [OF sample_proxy_written [of "[]"]] unfolding list_all_iff by blast
qed

definition sample_state :: cred_state where
  "sample_state = \<lparr>cs_errs = [], cs_prompt = []\<rparr>"

lemma sample_pem_name: "pem_name ''/tmp/x509up_u500''"
  by (simp add: pem_name_def smart_card_def strncmp_def)

lemma write_load_round_trip_witness:
  "load_credentials (sample_pem (file_text sample_calls)) sample_sys (Some ''/tmp/x509up_u500'') (Some ''/tmp/x509up_u500'')
     True True True None sample_state =
   Some (1, Some sample_new_proxy, Some [sample_user], Some (sample_key 91),
     \<lparr>cs_errs = [], cs_prompt = ''Enter GRID pass phrase:''\<rparr>)"
proof -
  have made: "x509.truncate (vp_cert sample_voms_proxy) = sample_new_proxy"
    by (simp add: sample_voms_proxy_def sample_new_proxy_def)
  have chain: "vp_key sample_voms_proxy = Some (sample_key 91)"
    "filter (\<lambda>c. \<not> left_out sample_new_proxy None c) (vp_chain sample_voms_proxy) = [sample_user]"
    by (simp_all add: sample_voms_proxy_def sample_left_out)
  show ?thesis
    using write_load_round_trip [OF sample_proxy_written sample_pem_ok sample_pem_name, where pub = "sample_key 91"
        and key = "sample_key 91" and n = 91 and env = sample_sys and st = sample_state and cb = None]
    by (simp add: made sample_new_proxy_fields sample_sys_simps sample_state_def chain sample_key_def)
qed

definition sample_file :: "pem_block list" where
  "sample_file = [B_cert sample_new_proxy, B_key (sample_key 91), B_cert sample_user]"

lemma sample_loaded:
  "load_credentials (sample_pem sample_file) sample_sys (Some ''/tmp/x509up_u500'') (Some ''/tmp/x509up_u500'')
     True False True None sample_state =
   Some (1, Some sample_new_proxy, None, Some (sample_key 91), \<lparr>cs_errs = [], cs_prompt = ''Enter GRID pass phrase:''\<rparr>)"
  by (simp add: load_credentials_def load_pem_def load_key_step_def proxy_load_user_cert_def proxy_load_user_key_def
      sample_file_def sample_sys_simps sample_state_def set_prompt_def smart_card_def strncmp_def
      match_key_def sample_new_proxy_fields sample_key_def)

lemma load_credentials_fit_witness:
  "\<exists>k s. k = sample_key 91 \<and> (\<exists>pub. x_pubkey sample_new_proxy = Some pub \<and> pk_modulus k = pk_modulus pub) \<and>
     sy_stat sample_sys ''/tmp/x509up_u500'' = Some s \<and> and (fst_mode s) 0x36 = 0"
proof -
  have "strcmp (drop (length ''/tmp/x509up_u500'' - 4) ''/tmp/x509up_u500'') ''.p12'' \<noteq> 0" by code_simp
  with load_credentials_fit [OF sample_loaded] show ?thesis by (auto simp: sample_new_proxy_fields sample_key_def)
qed

lemma proxy_load_user_proxy_returns_witness:
  "\<exists>r c st'. proxy_load_user_proxy (sample_pem sample_file) [] (Some ''f'') sample_state = Some (r, c, st')"
  using proxy_load_user_proxy_returns [OF sample_pem_consumes] by blast

text \<open>An error of a lookup that nobody removed.\<close>

definition stale_state :: cred_state where
  "stale_state = \<lparr>cs_errs = [X509err 1 101], cs_prompt = []\<rparr>"

lemma load_credentials_old_error_witness:
  "\<exists>r res. load_credentials (sample_pem sample_file) sample_sys (Some ''/tmp/x509up_u500'') None True True True None
     stale_state = Some (r, res) \<and> r = 0"
proof -
  from load_loop_returns [OF sample_pem_consumes [of sample_file], of sample_file 0 "[]" "[X509err 1 101]"]
  have "\<exists>y. load_credentials (sample_pem sample_file) sample_sys (Some ''/tmp/x509up_u500'') None True True True None
      stale_state = Some y"
    by (auto simp: load_credentials_def load_pem_def load_key_step_def proxy_load_user_cert_def proxy_load_user_proxy_def
        sample_file_def stale_state_def set_prompt_def smart_card_def strncmp_def)
  then obtain r res where run: "load_credentials (sample_pem sample_file) sample_sys (Some ''/tmp/x509up_u500'') None
      True True True None stale_state = Some (r, res)" by auto
  have "cs_errs stale_state = [X509err 1 101]" "q_reason (X509err 1 101) \<noteq> PEM_R_NO_START_LINE"
    by (simp_all add: stale_state_def X509err_def PEM_R_NO_START_LINE_def)
  from load_credentials_old_error [OF this sample_pem_name run] run show ?thesis by blast
qed

lemma load_certificate_from_file_chain_witness:
  "load_certificate_from_file (sample_pem []) True True sample_file (Some Null) (Some Null) sample_state =
     Some (1, Some (To sample_new_proxy), Some (To [sample_user]), sample_state)"
  by (subst load_certificate_from_file_chain [where x = sample_new_proxy and rest = "tl sample_file"
        and sk = "map cert_of (tl sample_file)"])
     (simp_all add: sample_file_def cert_of_def List.map_filter_def)

lemma get_real_cert_first_witness:
  "\<exists>base' stk' errs'. get_real_cert sample_ossl sample_new_proxy [sample_user, sample_ca] ([] :: queued list) =
     Some (find (\<lambda>c. proxy_kind sample_ossl c = 0) [sample_new_proxy, sample_user, sample_ca], base', stk', errs')"
proof -
  have "x_subject sample_new_proxy \<noteq> []" using sample_new_proxy_fields(1) by (auto simp: name_key_def)
  then have "list_all (named sample_ossl) [sample_new_proxy, sample_user, sample_ca]"
    by (simp add: named_def sample_user_def sample_ca_def sample_cert_def)
  from get_real_cert_first [OF this] show ?thesis .
qed

lemma globus_version_witness:
  "globus (Some ''24'') 0 = 22 \<and> globus (Some ''24x'') 0 = 24 \<and> globus None 50 = 22"
  using globus_version [of "Some ''24''" 0 "''24''"]
  by (simp add: globus_def strtol_def isdigit_def isspace_def digit_val_def read_digits.simps)

end
