(* ===== verification/Der.thy ===== *)
theory Der
  imports X509Model "HOL-Library.Monad_Syntax"
begin

text \<open>
  Encoded values as trees, with the macros of OpenSSL the attribute certificates are written and
  read with. A primitive value holds its bytes, a constructed one its parts. A writer gives the
  parts it wrote (none for a NULL pointer), or \<open>None\<close> when it returned an error; a reader takes
  parts from the front of a sequence.

  The values OpenSSL itself writes and reads (integers, names, certificates) go through codecs,
  pairs of a writer and a reader, which are parameters.
\<close>

datatype tag = Universal nat | Context nat

datatype der = Prim tag bytes | Parts tag "der list"

fun der_tag :: "der \<Rightarrow> tag" where
  "der_tag (Prim t b) = t"
| "der_tag (Parts t ds) = t"

fun retag :: "tag \<Rightarrow> der \<Rightarrow> der" where
  "retag t (Prim u b) = Prim t b"
| "retag t (Parts u ds) = Parts t ds"

lemma retag_simps [simp]:
  "der_tag (retag t d) = t" "retag t (retag u d) = retag t d" "retag (der_tag d) d = d"
  by (cases d; simp)+

definition V_ASN1_INTEGER :: nat where "V_ASN1_INTEGER = 2"
definition V_ASN1_BIT_STRING :: nat where "V_ASN1_BIT_STRING = 3"
definition V_ASN1_OCTET_STRING :: nat where "V_ASN1_OCTET_STRING = 4"
definition V_ASN1_OBJECT :: nat where "V_ASN1_OBJECT = 6"
definition V_ASN1_ENUMERATED :: nat where "V_ASN1_ENUMERATED = 10"
definition V_ASN1_UTF8STRING :: nat where "V_ASN1_UTF8STRING = 12"
definition V_ASN1_SEQUENCE :: nat where "V_ASN1_SEQUENCE = 16"
definition V_ASN1_SET :: nat where "V_ASN1_SET = 17"

lemmas asn1_tags = V_ASN1_INTEGER_def V_ASN1_BIT_STRING_def V_ASN1_OCTET_STRING_def V_ASN1_OBJECT_def
  V_ASN1_ENUMERATED_def V_ASN1_UTF8STRING_def V_ASN1_SEQUENCE_def V_ASN1_SET_def

section \<open>Codecs\<close>

type_synonym 'a codec = "('a \<Rightarrow> der) \<times> (der \<Rightarrow> 'a option)"

abbreviation enc :: "'a codec \<Rightarrow> 'a \<Rightarrow> der" where "enc \<equiv> fst"
abbreviation dec :: "'a codec \<Rightarrow> der \<Rightarrow> 'a option" where "dec \<equiv> snd"

text \<open>A codec that reads what it wrote, and writes the given universal tag.\<close>

definition reads_back :: "'a codec \<Rightarrow> bool" where
  "reads_back c \<longleftrightarrow> (\<forall>x. dec c (enc c x) = Some x)"

definition codec :: "nat \<Rightarrow> 'a codec \<Rightarrow> bool" where
  "codec n c \<longleftrightarrow> reads_back c \<and> (\<forall>x. der_tag (enc c x) = Universal n)"

section \<open>Writing\<close>

type_synonym written = "der list option"

text \<open>\<open>M_ASN1_I2D_put\<close> of a value that is there, of a pointer, and of the value under a tag.\<close>

definition put :: "'a codec \<Rightarrow> 'a \<Rightarrow> written" where
  "put c x = Some [enc c x]"

definition put_ptr :: "('a \<Rightarrow> written) \<Rightarrow> 'a option \<Rightarrow> written" where
  "put_ptr f x = (case x of None \<Rightarrow> Some [] | Some a \<Rightarrow> f a)"

definition put_IMP_opt :: "('a \<Rightarrow> written) \<Rightarrow> nat \<Rightarrow> 'a option \<Rightarrow> written" where
  "put_IMP_opt f n x = (case x of None \<Rightarrow> Some [] | Some a \<Rightarrow> map_option (map (retag (Context n))) (f a))"

definition put_EXP_opt :: "('a \<Rightarrow> written) \<Rightarrow> nat \<Rightarrow> 'a option \<Rightarrow> written" where
  "put_EXP_opt f n x =
     (case x of None \<Rightarrow> Some [] | Some a \<Rightarrow> map_option (\<lambda>ds. [Parts (Context n) ds]) (f a))"

text \<open>The parts of a list, and the sequence around what several writers wrote.\<close>

definition put_all :: "written list \<Rightarrow> written" where
  "put_all ws = map_option concat (those ws)"

definition sequence :: "written list \<Rightarrow> written" where
  "sequence ws = map_option (\<lambda>ds. [Parts (Universal V_ASN1_SEQUENCE) ds]) (put_all ws)"

definition put_SEQUENCE :: "('a \<Rightarrow> written) \<Rightarrow> 'a list \<Rightarrow> written" where
  "put_SEQUENCE f xs = sequence (map f xs)"

text \<open>A set of more than one value is written in the order of the encodings (\<open>order\<close>).\<close>

definition put_SET :: "(der list \<Rightarrow> der list) \<Rightarrow> ('a \<Rightarrow> written) \<Rightarrow> 'a list \<Rightarrow> written" where
  "put_SET order f xs =
     map_option (\<lambda>ds. [Parts (Universal V_ASN1_SET) (if length xs < 2 then ds else order ds)]) (put_all (map f xs))"

definition put_SEQUENCE_opt :: "('a \<Rightarrow> written) \<Rightarrow> 'a list option \<Rightarrow> written" where
  "put_SEQUENCE_opt f xs = (case xs of None \<Rightarrow> Some [] | Some l \<Rightarrow> if l = [] then Some [] else put_SEQUENCE f l)"

section \<open>Reading\<close>

type_synonym 'a reader = "der list \<Rightarrow> ('a \<times> der list) option"

definition get :: "(der \<Rightarrow> 'a option) \<Rightarrow> 'a reader" where
  "get f ds = (case ds of [] \<Rightarrow> None | d # r \<Rightarrow> map_option (\<lambda>x. (x, r)) (f d))"

definition next_is :: "tag \<Rightarrow> der list \<Rightarrow> bool" where
  "next_is t ds = (case ds of [] \<Rightarrow> False | d # r \<Rightarrow> der_tag d = t)"

text \<open>An optional value keeps what the object held before.\<close>

definition get_opt :: "(der \<Rightarrow> 'a option) \<Rightarrow> nat \<Rightarrow> 'a \<Rightarrow> 'a reader" where
  "get_opt f n old ds = (if next_is (Universal n) ds then get f ds else Some (old, ds))"

definition get_IMP_opt :: "(der \<Rightarrow> 'a option) \<Rightarrow> nat \<Rightarrow> nat \<Rightarrow> 'a \<Rightarrow> 'a reader" where
  "get_IMP_opt f n u old ds =
     (if next_is (Context n) ds then get (\<lambda>d. f (retag (Universal u) d)) ds else Some (old, ds))"

text \<open>What follows the value inside an explicit tag is read as if it came after the tag.\<close>

definition get_EXP_opt :: "(der \<Rightarrow> 'a option) \<Rightarrow> nat \<Rightarrow> 'a \<Rightarrow> 'a reader" where
  "get_EXP_opt f n old ds =
     (case ds of
        Parts t xs # r \<Rightarrow>
          if t = Context n then (case get f xs of None \<Rightarrow> None | Some (x, ys) \<Rightarrow> Some (x, ys @ r)) else Some (old, ds)
      | _ \<Rightarrow> Some (old, ds))"

text \<open>The elements of a sequence or a set are pushed to the stack that is there.\<close>

definition read_elements :: "nat \<Rightarrow> (der \<Rightarrow> 'a option) \<Rightarrow> 'a list \<Rightarrow> der \<Rightarrow> 'a list option" where
  "read_elements u f old d =
     (case d of
        Prim _ _ \<Rightarrow> None
      | Parts t xs \<Rightarrow> if t = Universal u then map_option (\<lambda>ys. old @ ys) (those (map f xs)) else None)"

definition get_seq :: "(der \<Rightarrow> 'a option) \<Rightarrow> 'a list \<Rightarrow> 'a list reader" where
  "get_seq f old = get (read_elements V_ASN1_SEQUENCE f old)"

definition get_set :: "(der \<Rightarrow> 'a option) \<Rightarrow> 'a list \<Rightarrow> 'a list reader" where
  "get_set f old = get (read_elements V_ASN1_SET f old)"

definition get_seq_opt :: "(der \<Rightarrow> 'a option) \<Rightarrow> 'a list \<Rightarrow> 'a list reader" where
  "get_seq_opt f old ds =
     (case ds of
        Parts t xs # r \<Rightarrow> if t = Universal V_ASN1_SEQUENCE then get_seq f old ds else Some (old, ds)
      | _ \<Rightarrow> Some (old, ds))"

text \<open>The parts of a sequence, and the end of the reading: nothing may be left.\<close>

definition start_sequence :: "der \<Rightarrow> der list option" where
  "start_sequence d =
     (case d of Prim _ _ \<Rightarrow> None | Parts t xs \<Rightarrow> if t = Universal V_ASN1_SEQUENCE then Some xs else None)"

definition finish :: "'a \<Rightarrow> der list \<Rightarrow> 'a option" where
  "finish x ds = (if ds = [] then Some x else None)"

section \<open>Laws\<close>

named_theorems der_laws \<open>what readers make of what writers wrote\<close>

text \<open>A function pair on one value: the reader undoes the writer, which writes one part.\<close>

definition inverse :: "('a \<Rightarrow> written) \<Rightarrow> (der \<Rightarrow> 'b option) \<Rightarrow> tag \<Rightarrow> 'a \<Rightarrow> 'b \<Rightarrow> bool" where
  "inverse w r t x y \<longleftrightarrow> (\<exists>d. w x = Some [d] \<and> der_tag d = t \<and> r d = Some y)"

lemma inverse_codec: "codec n c \<Longrightarrow> inverse (put c) (dec c) (Universal n) x x"
  by (simp add: inverse_def put_def codec_def reads_back_def)

text \<open>A written value as one part of a sequence, with the parts the next writers gave.\<close>

lemma those_Cons: "those (w # ws) = (case w of None \<Rightarrow> None | Some d \<Rightarrow> map_option ((#) d) (those ws))"
  by (simp split: option.split)

lemma put_all_Nil [simp]: "put_all [] = Some []"
  by (simp add: put_all_def)

lemma put_all_Cons [simp]:
  "put_all (w # ws) = (case w of None \<Rightarrow> None | Some ds \<Rightarrow> map_option ((@) ds) (put_all ws))"
  by (simp add: put_all_def option.map_comp comp_def split: option.split)

lemma get_inverse [der_laws]:
  "get f (d # r) = map_option (\<lambda>x. (x, r)) (f d)"
  by (simp add: get_def)

lemma put_all_inverse:
  assumes "list_all2 (\<lambda>x y. inverse w r t x y) xs ys"
  shows "\<exists>ds. put_all (map w xs) = Some ds \<and> those (map r ds) = Some ys \<and> length ds = length xs"
  using assms
proof (induction rule: list_all2_induct)
  case (Cons x xs y ys)
  then obtain d ds where "w x = Some [d]" "r d = Some y" "put_all (map w xs) = Some ds" "those (map r ds) = Some ys"
    "length ds = length xs"
    by (auto simp: inverse_def)
  then show ?case by simp
qed simp

lemma inverse_SEQUENCE:
  assumes "list_all2 (\<lambda>x y. inverse w r t x y) xs ys"
  shows "inverse (put_SEQUENCE w) (read_elements V_ASN1_SEQUENCE r []) (Universal V_ASN1_SEQUENCE) xs ys"
  using put_all_inverse [OF assms]
  by (auto simp: inverse_def put_SEQUENCE_def sequence_def read_elements_def)

lemma inverse_SET:
  assumes "list_all2 (\<lambda>x y. inverse w r t x y) xs ys"
    and "\<And>ds. put_all (map w xs) = Some ds \<Longrightarrow> length xs \<ge> 2 \<Longrightarrow> order ds = ds"
  shows "inverse (put_SET order w) (read_elements V_ASN1_SET r []) (Universal V_ASN1_SET) xs ys"
  using put_all_inverse [OF assms(1)] assms(2)
  by (cases "length xs < 2") (auto simp: inverse_def put_SET_def read_elements_def not_less)

end
