(* ===== verification/AttrCert.thy ===== *)
theory AttrCert
  imports Der
begin

text \<open>
  The attribute certificate (src/src/ac/newformat.c with src/src/include/newformat.h): its
  structures, the functions that write and read them, and what reading makes of what was written.

  A reader fills an object that exists already: the one its constructor made, whose values remain
  where an optional part is absent.
\<close>

section \<open>Structures\<close>

datatype general_name = Gen_uri bytes | Gen_dirname xname | Gen_other der

record x509_algor =
  xa_algorithm :: oid
  xa_parameter :: "der option"

record AC_DIGEST =
  dg_type :: int
  dg_oid :: "oid option"
  dg_algor :: x509_algor
  dg_digest :: bytes

record AC_IS =
  is_issuer :: "general_name list"
  is_serial :: int
  is_uid :: "bytes option"

record AC_FORM =
  fm_names :: "general_name list"
  fm_is :: "AC_IS option"
  fm_digest :: "AC_DIGEST option"

record AC_HOLDER =
  hd_baseid :: "AC_IS option"
  hd_name :: "general_name list option"
  hd_digest :: "AC_DIGEST option"

record AC_VAL =
  va_notBefore :: "cstring option"
  va_notAfter :: "cstring option"

text \<open>
  A value is a string with its type, or, after reading an object identifier, an object that is
  taken for a string.
\<close>

datatype AC_IETFATTRVAL = String_val nat bytes | Object_val oid

record AC_IETFATTR =
  ia_names :: "general_name list option"
  ia_values :: "AC_IETFATTRVAL list"

definition GET_TYPE_FQAN :: int where "GET_TYPE_FQAN = 1"

text \<open>\<open>get_type\<close> is not written and not set by the constructor: \<open>None\<close>.\<close>

record AC_ATTR =
  aa_type :: oid
  aa_get_type :: "int option"
  aa_ietfattr :: "AC_IETFATTR list"

record AC_INFO =
  in_version :: int
  in_holder :: AC_HOLDER
  in_form :: "AC_FORM option"
  in_alg :: x509_algor
  in_serial :: int
  in_validity :: AC_VAL
  in_attrib :: "AC_ATTR list"
  in_id :: "bytes option"
  in_exts :: "x509_extension list option"

record AC =
  acinfo :: AC_INFO
  sig_alg :: x509_algor
  signature :: bytes

section \<open>Constructors\<close>

definition X509_ALGOR_new :: x509_algor where
  "X509_ALGOR_new = \<lparr>xa_algorithm = [], xa_parameter = None\<rparr>"

definition AC_DIGEST_new :: AC_DIGEST where
  "AC_DIGEST_new = \<lparr>dg_type = 0, dg_oid = None, dg_algor = X509_ALGOR_new, dg_digest = []\<rparr>"

definition AC_IS_new :: AC_IS where
  "AC_IS_new = \<lparr>is_issuer = [], is_serial = 0, is_uid = None\<rparr>"

definition AC_FORM_new :: AC_FORM where
  "AC_FORM_new = \<lparr>fm_names = [], fm_is = None, fm_digest = None\<rparr>"

definition AC_HOLDER_new :: AC_HOLDER where
  "AC_HOLDER_new = \<lparr>hd_baseid = Some AC_IS_new, hd_name = None, hd_digest = None\<rparr>"

definition AC_VAL_new :: AC_VAL where
  "AC_VAL_new = \<lparr>va_notBefore = None, va_notAfter = None\<rparr>"

definition AC_IETFATTRVAL_new :: AC_IETFATTRVAL where
  "AC_IETFATTRVAL_new = String_val V_ASN1_UTF8STRING []"

definition AC_IETFATTR_new :: AC_IETFATTR where
  "AC_IETFATTR_new = \<lparr>ia_names = Some [], ia_values = []\<rparr>"

definition AC_ATTR_new :: AC_ATTR where
  "AC_ATTR_new = \<lparr>aa_type = [], aa_get_type = None, aa_ietfattr = []\<rparr>"

definition AC_INFO_new :: AC_INFO where
  "AC_INFO_new = \<lparr>in_version = 0, in_holder = AC_HOLDER_new, in_form = Some AC_FORM_new, in_alg = X509_ALGOR_new,
     in_serial = 0, in_validity = AC_VAL_new, in_attrib = [], in_id = None, in_exts = Some []\<rparr>"

definition AC_new :: AC where
  "AC_new = \<lparr>acinfo = AC_INFO_new, sig_alg = X509_ALGOR_new, signature = []\<rparr>"

section \<open>What OpenSSL writes and reads\<close>

text \<open>
  \<open>c_name\<close> is a choice: its tag depends on the name. \<open>p_text\<close> is the text of \<open>i2t_ASN1_OBJECT\<close>,
  \<open>p_order\<close> the order of the elements of a set.
\<close>

record prims =
  c_int :: "int codec"
  c_enum :: "int codec"
  c_bits :: "bytes codec"
  c_octets :: "bytes codec"
  c_utf8 :: "bytes codec"
  c_object :: "oid codec"
  c_time :: "cstring codec"
  c_alg :: "x509_algor codec"
  c_names :: "general_name list codec"
  c_name :: "general_name codec"
  c_ext :: "x509_extension codec"
  c_cert :: "x509 codec"
  p_text :: "oid \<Rightarrow> cstring"
  p_order :: "der list \<Rightarrow> der list"

text \<open>The documented behaviour of these functions: they read back what they write.\<close>

definition prims_ok :: "prims \<Rightarrow> bool" where
  "prims_ok p \<longleftrightarrow>
     codec V_ASN1_INTEGER (c_int p) \<and> codec V_ASN1_ENUMERATED (c_enum p) \<and> codec V_ASN1_BIT_STRING (c_bits p) \<and>
     codec V_ASN1_OCTET_STRING (c_octets p) \<and> codec V_ASN1_UTF8STRING (c_utf8 p) \<and>
     codec V_ASN1_OBJECT (c_object p) \<and> codec (nat V_ASN1_GENERALIZEDTIME) (c_time p) \<and>
     codec V_ASN1_SEQUENCE (c_alg p) \<and> codec V_ASN1_SEQUENCE (c_names p) \<and> reads_back (c_name p) \<and>
     codec V_ASN1_SEQUENCE (c_ext p) \<and> codec V_ASN1_SEQUENCE (c_cert p) \<and>
     (\<forall>b. enc (c_octets p) b = Prim (Universal V_ASN1_OCTET_STRING) b) \<and>
     (\<forall>b. enc (c_utf8 p) b = Prim (Universal V_ASN1_UTF8STRING) b)"

section \<open>Digests, issuers and holders\<close>

definition i2d_AC_DIGEST :: "prims \<Rightarrow> AC_DIGEST \<Rightarrow> written" where
  "i2d_AC_DIGEST p a =
     sequence [put (c_enum p) (dg_type a), put_ptr (put (c_object p)) (dg_oid a), put (c_alg p) (dg_algor a),
       put (c_bits p) (dg_digest a)]"

definition d2i_AC_DIGEST :: "prims \<Rightarrow> der \<Rightarrow> AC_DIGEST option" where
  "d2i_AC_DIGEST p d = do {
     ds \<leftarrow> start_sequence d;
     (t, ds) \<leftarrow> get (dec (c_enum p)) ds;
     (ob, ds) \<leftarrow> get (dec (c_object p)) ds;
     (al, ds) \<leftarrow> get (dec (c_alg p)) ds;
     (dg, ds) \<leftarrow> get (dec (c_bits p)) ds;
     finish \<lparr>dg_type = t, dg_oid = Some ob, dg_algor = al, dg_digest = dg\<rparr> ds
   }"

text \<open>The unique identifier is written with a tag of its own and read without it.\<close>

definition i2d_AC_IS :: "prims \<Rightarrow> AC_IS \<Rightarrow> written" where
  "i2d_AC_IS p a =
     sequence [put (c_names p) (is_issuer a), put (c_int p) (is_serial a),
       put_IMP_opt (put (c_bits p)) V_ASN1_BIT_STRING (is_uid a)]"

definition d2i_AC_IS :: "prims \<Rightarrow> AC_IS \<Rightarrow> der \<Rightarrow> AC_IS option" where
  "d2i_AC_IS p ret d = do {
     ds \<leftarrow> start_sequence d;
     (n, ds) \<leftarrow> get (dec (c_names p)) ds;
     (s, ds) \<leftarrow> get (dec (c_int p)) ds;
     (u, ds) \<leftarrow> get_opt (map_option Some \<circ> dec (c_bits p)) V_ASN1_BIT_STRING (is_uid ret) ds;
     finish \<lparr>is_issuer = n, is_serial = s, is_uid = u\<rparr> ds
   }"

definition i2d_AC_FORM :: "prims \<Rightarrow> AC_FORM \<Rightarrow> written" where
  "i2d_AC_FORM p a =
     sequence [put (c_names p) (fm_names a), put_IMP_opt (i2d_AC_IS p) 0 (fm_is a),
       put_IMP_opt (i2d_AC_DIGEST p) 1 (fm_digest a)]"

definition the_or :: "'a \<Rightarrow> 'a option \<Rightarrow> 'a" where
  "the_or x y = (case y of None \<Rightarrow> x | Some a \<Rightarrow> a)"

definition d2i_AC_FORM :: "prims \<Rightarrow> AC_FORM \<Rightarrow> der \<Rightarrow> AC_FORM option" where
  "d2i_AC_FORM p ret d = do {
     ds \<leftarrow> start_sequence d;
     (n, ds) \<leftarrow> get (dec (c_names p)) ds;
     (i, ds) \<leftarrow> get_IMP_opt (map_option Some \<circ> d2i_AC_IS p (the_or AC_IS_new (fm_is ret))) 0 V_ASN1_SEQUENCE (fm_is ret) ds;
     (g, ds) \<leftarrow> get_IMP_opt (map_option Some \<circ> d2i_AC_DIGEST p) 1 V_ASN1_SEQUENCE (fm_digest ret) ds;
     finish \<lparr>fm_names = n, fm_is = i, fm_digest = g\<rparr> ds
   }"

definition i2d_AC_HOLDER :: "prims \<Rightarrow> AC_HOLDER \<Rightarrow> written" where
  "i2d_AC_HOLDER p a =
     sequence [put_IMP_opt (i2d_AC_IS p) 0 (hd_baseid a), put_IMP_opt (put (c_names p)) 1 (hd_name a),
       put_IMP_opt (i2d_AC_DIGEST p) 2 (hd_digest a)]"

definition d2i_AC_HOLDER :: "prims \<Rightarrow> AC_HOLDER \<Rightarrow> der \<Rightarrow> AC_HOLDER option" where
  "d2i_AC_HOLDER p ret d = do {
     ds \<leftarrow> start_sequence d;
     (b, ds) \<leftarrow> get_IMP_opt (map_option Some \<circ> d2i_AC_IS p (the_or AC_IS_new (hd_baseid ret))) 0 V_ASN1_SEQUENCE (hd_baseid ret) ds;
     (n, ds) \<leftarrow> get_IMP_opt (map_option Some \<circ> dec (c_names p)) 1 V_ASN1_SEQUENCE (hd_name ret) ds;
     (g, ds) \<leftarrow> get_IMP_opt (map_option Some \<circ> d2i_AC_DIGEST p) 2 V_ASN1_SEQUENCE (hd_digest ret) ds;
     finish \<lparr>hd_baseid = b, hd_name = n, hd_digest = g\<rparr> ds
   }"

definition i2d_AC_VAL :: "prims \<Rightarrow> AC_VAL \<Rightarrow> written" where
  "i2d_AC_VAL p a = sequence [put_ptr (put (c_time p)) (va_notBefore a), put_ptr (put (c_time p)) (va_notAfter a)]"

definition d2i_AC_VAL :: "prims \<Rightarrow> der \<Rightarrow> AC_VAL option" where
  "d2i_AC_VAL p d = do {
     ds \<leftarrow> start_sequence d;
     (b, ds) \<leftarrow> get (dec (c_time p)) ds;
     (e, ds) \<leftarrow> get (dec (c_time p)) ds;
     finish \<lparr>va_notBefore = Some b, va_notAfter = Some e\<rparr> ds
   }"

section \<open>Attributes\<close>

text \<open>A string of one of three types is written with its bytes, any other value is an error.\<close>

definition i2d_AC_IETFATTRVAL :: "AC_IETFATTRVAL \<Rightarrow> written" where
  "i2d_AC_IETFATTRVAL v =
     (case v of
        String_val t b \<Rightarrow>
          if t = V_ASN1_OCTET_STRING \<or> t = V_ASN1_OBJECT \<or> t = V_ASN1_UTF8STRING then Some [Prim (Universal t) b]
          else None
      | Object_val _ \<Rightarrow> None)"

definition d2i_AC_IETFATTRVAL :: "prims \<Rightarrow> der \<Rightarrow> AC_IETFATTRVAL option" where
  "d2i_AC_IETFATTRVAL p d =
     (if der_tag d = Universal V_ASN1_OCTET_STRING then map_option (String_val V_ASN1_OCTET_STRING) (dec (c_octets p) d)
      else if der_tag d = Universal V_ASN1_OBJECT then map_option Object_val (dec (c_object p) d)
      else if der_tag d = Universal V_ASN1_UTF8STRING then map_option (String_val V_ASN1_UTF8STRING) (dec (c_utf8 p) d)
      else None)"

definition i2d_AC_IETFATTR :: "prims \<Rightarrow> AC_IETFATTR \<Rightarrow> written" where
  "i2d_AC_IETFATTR p a =
     sequence [put_IMP_opt (put (c_names p)) 0 (ia_names a), put_SEQUENCE i2d_AC_IETFATTRVAL (ia_values a)]"

definition d2i_AC_IETFATTR :: "prims \<Rightarrow> der \<Rightarrow> AC_IETFATTR option" where
  "d2i_AC_IETFATTR p d = do {
     ds \<leftarrow> start_sequence d;
     (n, ds) \<leftarrow> get_IMP_opt (map_option Some \<circ> dec (c_names p)) 0 V_ASN1_SEQUENCE (ia_names AC_IETFATTR_new) ds;
     (v, ds) \<leftarrow> get_seq (d2i_AC_IETFATTRVAL p) (ia_values AC_IETFATTR_new) ds;
     finish \<lparr>ia_names = n, ia_values = v\<rparr> ds
   }"

text \<open>An attribute of another type than the two is not written at all.\<close>

definition i2d_AC_ATTR :: "prims \<Rightarrow> AC_ATTR \<Rightarrow> written" where
  "i2d_AC_ATTR p a =
     (let text = p_text p (aa_type a)
      in if text = [] \<or> \<not> (text = ''idacagroup'' \<or> text = ''idatcap'') then Some []
         else sequence [put (c_object p) (aa_type a), put_SET (p_order p) (i2d_AC_IETFATTR p) (aa_ietfattr a)])"

definition d2i_AC_ATTR :: "prims \<Rightarrow> der \<Rightarrow> AC_ATTR option" where
  "d2i_AC_ATTR p d = do {
     ds \<leftarrow> start_sequence d;
     (t, ds) \<leftarrow> get (dec (c_object p)) ds;
     (v, ds) \<leftarrow> (if p_text p t = [] then None
                 else if p_text p t = ''idatcap'' then get_set (d2i_AC_IETFATTR p) (aa_ietfattr AC_ATTR_new) ds
                 else Some (aa_ietfattr AC_ATTR_new, ds));
     finish \<lparr>aa_type = t, aa_get_type = aa_get_type AC_ATTR_new, aa_ietfattr = v\<rparr> ds
   }"

section \<open>The certificate\<close>

definition i2d_AC_INFO :: "prims \<Rightarrow> AC_INFO \<Rightarrow> written" where
  "i2d_AC_INFO p a =
     sequence [put (c_int p) (in_version a), i2d_AC_HOLDER p (in_holder a), put_IMP_opt (i2d_AC_FORM p) 0 (in_form a),
       put (c_alg p) (in_alg a), put (c_int p) (in_serial a), i2d_AC_VAL p (in_validity a),
       put_SEQUENCE (i2d_AC_ATTR p) (in_attrib a), put_IMP_opt (put (c_bits p)) V_ASN1_BIT_STRING (in_id a),
       put_SEQUENCE_opt (put (c_ext p)) (in_exts a)]"

definition d2i_AC_INFO :: "prims \<Rightarrow> AC_INFO \<Rightarrow> der \<Rightarrow> AC_INFO option" where
  "d2i_AC_INFO p ret d = do {
     ds \<leftarrow> start_sequence d;
     (ve, ds) \<leftarrow> get (dec (c_int p)) ds;
     (ho, ds) \<leftarrow> get (d2i_AC_HOLDER p (in_holder ret)) ds;
     (fo, ds) \<leftarrow> get_IMP_opt (map_option Some \<circ> d2i_AC_FORM p (the_or AC_FORM_new (in_form ret))) 0 V_ASN1_SEQUENCE (in_form ret) ds;
     (al, ds) \<leftarrow> get (dec (c_alg p)) ds;
     (se, ds) \<leftarrow> get (dec (c_int p)) ds;
     (va, ds) \<leftarrow> get (d2i_AC_VAL p) ds;
     (at, ds) \<leftarrow> get_seq (d2i_AC_ATTR p) (in_attrib ret) ds;
     (id1, ds) \<leftarrow> get_opt (map_option Some \<circ> dec (c_bits p)) V_ASN1_BIT_STRING (in_id ret) ds;
     (ex, ds) \<leftarrow> get_seq_opt (dec (c_ext p)) (the_or [] (in_exts ret)) ds;
     finish \<lparr>in_version = ve, in_holder = ho, in_form = fo, in_alg = al, in_serial = se, in_validity = va,
       in_attrib = at, in_id = id1, in_exts = Some ex\<rparr> ds
   }"

definition i2d_AC :: "prims \<Rightarrow> AC \<Rightarrow> written" where
  "i2d_AC p a = sequence [i2d_AC_INFO p (acinfo a), put (c_alg p) (sig_alg a), put (c_bits p) (signature a)]"

text \<open>\<open>d2i_AC (NULL, \<dots>)\<close>.\<close>

definition d2i_AC :: "prims \<Rightarrow> der \<Rightarrow> AC option" where
  "d2i_AC p d = do {
     ds \<leftarrow> start_sequence d;
     (i, ds) \<leftarrow> get (d2i_AC_INFO p (acinfo AC_new)) ds;
     (al, ds) \<leftarrow> get (dec (c_alg p)) ds;
     (si, ds) \<leftarrow> get (dec (c_bits p)) ds;
     finish \<lparr>acinfo = i, sig_alg = al, signature = si\<rparr> ds
   }"

text \<open>\<open>AC_dup\<close> writes and reads.\<close>

definition AC_dup :: "prims \<Rightarrow> AC \<Rightarrow> AC option" where
  "AC_dup p a = (case i2d_AC p a of Some [d] \<Rightarrow> d2i_AC p d | _ \<Rightarrow> None)"

section \<open>What is read of what was written\<close>

lemma prims_codecs:
  assumes "prims_ok p"
  shows "codec V_ASN1_INTEGER (c_int p)" "codec V_ASN1_ENUMERATED (c_enum p)" "codec V_ASN1_BIT_STRING (c_bits p)"
    "codec V_ASN1_OCTET_STRING (c_octets p)" "codec V_ASN1_UTF8STRING (c_utf8 p)" "codec V_ASN1_OBJECT (c_object p)"
    "codec (nat V_ASN1_GENERALIZEDTIME) (c_time p)" "codec V_ASN1_SEQUENCE (c_alg p)"
    "codec V_ASN1_SEQUENCE (c_names p)" "codec V_ASN1_SEQUENCE (c_ext p)" "codec V_ASN1_SEQUENCE (c_cert p)"
    "reads_back (c_name p)"
  using assms by (simp_all add: prims_ok_def)

text \<open>Rewriting with the laws of the codecs of \<open>p\<close>.\<close>

lemma prims_dec:
  assumes "prims_ok p"
  shows "dec (c_int p) (enc (c_int p) i) = Some i" "dec (c_enum p) (enc (c_enum p) i) = Some i"
    "dec (c_bits p) (enc (c_bits p) b) = Some b" "dec (c_octets p) (enc (c_octets p) b) = Some b"
    "dec (c_utf8 p) (enc (c_utf8 p) b) = Some b" "dec (c_object p) (enc (c_object p) ob) = Some ob"
    "dec (c_time p) (enc (c_time p) t) = Some t" "dec (c_alg p) (enc (c_alg p) al) = Some al"
    "dec (c_names p) (enc (c_names p) n) = Some n" "dec (c_ext p) (enc (c_ext p) e) = Some e"
    "dec (c_cert p) (enc (c_cert p) c) = Some c" "dec (c_name p) (enc (c_name p) g) = Some g"
  using prims_codecs [OF assms] by (simp_all add: codec_def reads_back_def)

lemma prims_tag:
  assumes "prims_ok p"
  shows "der_tag (enc (c_int p) i) = Universal V_ASN1_INTEGER"
    "der_tag (enc (c_enum p) i) = Universal V_ASN1_ENUMERATED" "der_tag (enc (c_bits p) b) = Universal V_ASN1_BIT_STRING"
    "der_tag (enc (c_octets p) b) = Universal V_ASN1_OCTET_STRING"
    "der_tag (enc (c_utf8 p) b) = Universal V_ASN1_UTF8STRING" "der_tag (enc (c_object p) ob) = Universal V_ASN1_OBJECT"
    "der_tag (enc (c_alg p) al) = Universal V_ASN1_SEQUENCE"
    "der_tag (enc (c_names p) n) = Universal V_ASN1_SEQUENCE" "der_tag (enc (c_ext p) e) = Universal V_ASN1_SEQUENCE"
    "der_tag (enc (c_cert p) c) = Universal V_ASN1_SEQUENCE"
  using prims_codecs [OF assms] by (simp_all add: codec_def)

lemma prims_retag:
  assumes "prims_ok p"
  shows "retag (Universal V_ASN1_SEQUENCE) (enc (c_names p) n) = enc (c_names p) n"
  using retag_simps(3) [of "enc (c_names p) n"] by (simp only: prims_tag [OF assms])

lemma retag_back: "der_tag d = t \<Longrightarrow> retag t d = d"
  by auto

text \<open>The shape of a sequence of parts, and the readers on lists of parts.\<close>

lemma next_is_simps [simp]: "next_is t [] = False" "next_is t (d # r) = (der_tag d = t)"
  by (simp_all add: next_is_def)

lemma start_sequence_Parts [simp]: "start_sequence (Parts (Universal V_ASN1_SEQUENCE) ds) = Some ds"
  by (simp add: start_sequence_def)

lemma finish_simps [simp]: "finish x [] = Some x" "finish x (d # ds) = None"
  by (simp_all add: finish_def)

lemmas put_simps = put_def put_ptr_def put_IMP_opt_def put_EXP_opt_def sequence_def
lemmas get_simps = get_inverse get_opt_def get_IMP_opt_def

lemma digest_inverse:
  assumes "prims_ok p" "dg_oid a \<noteq> None"
  shows "inverse (i2d_AC_DIGEST p) (d2i_AC_DIGEST p) (Universal V_ASN1_SEQUENCE) a a"
  using assms(2) by (auto simp: inverse_def i2d_AC_DIGEST_def d2i_AC_DIGEST_def put_simps get_simps prims_dec [OF assms(1)])

lemma is_inverse:
  assumes "prims_ok p" "is_uid a = None" "is_uid ret = None"
  shows "inverse (i2d_AC_IS p) (d2i_AC_IS p ret) (Universal V_ASN1_SEQUENCE) a a"
  using assms(2,3) by (auto simp: inverse_def i2d_AC_IS_def d2i_AC_IS_def put_simps get_simps prims_dec [OF assms(1)])

text \<open>An optional part that can be read back.\<close>

lemma opt_cases:
  assumes "\<forall>v. x = Some v \<longrightarrow> inverse w r t v v"
  obtains "x = None" | v d where "x = Some v" "w v = Some [d]" "der_tag d = t" "r d = Some v"
  using assms by (cases x) (auto simp: inverse_def)

definition good_is :: "AC_IS \<Rightarrow> bool" where "good_is a \<longleftrightarrow> is_uid a = None"

definition good_form :: "AC_FORM \<Rightarrow> bool" where
  "good_form a \<longleftrightarrow> pred_option good_is (fm_is a) \<and> pred_option (\<lambda>d. dg_oid d \<noteq> None) (fm_digest a)"

definition good_holder :: "AC_HOLDER \<Rightarrow> bool" where
  "good_holder a \<longleftrightarrow> pred_option good_is (hd_baseid a) \<and> pred_option (\<lambda>d. dg_oid d \<noteq> None) (hd_digest a)"

lemma form_inverse:
  assumes "prims_ok p" "good_form a"
  shows "inverse (i2d_AC_FORM p) (d2i_AC_FORM p AC_FORM_new) (Universal V_ASN1_SEQUENCE) a a"
proof -
  have i: "\<forall>v. fm_is a = Some v \<longrightarrow> inverse (i2d_AC_IS p) (d2i_AC_IS p AC_IS_new) (Universal V_ASN1_SEQUENCE) v v"
    using assms by (intro allI impI is_inverse) (auto simp: good_form_def good_is_def AC_IS_new_def)
  have g: "\<forall>v. fm_digest a = Some v \<longrightarrow> inverse (i2d_AC_DIGEST p) (d2i_AC_DIGEST p) (Universal V_ASN1_SEQUENCE) v v"
    using assms by (intro allI impI digest_inverse) (auto simp: good_form_def)
  show ?thesis
    unfolding inverse_def i2d_AC_FORM_def d2i_AC_FORM_def put_simps get_simps
    by (rule opt_cases [OF i]; rule opt_cases [OF g];
        (simp add: prims_dec [OF assms(1)] AC_FORM_new_def the_or_def retag_back get_inverse)+)
qed

text \<open>A holder without an issuer and serial number is read with empty ones.\<close>

definition read_holder :: "AC_HOLDER \<Rightarrow> AC_HOLDER" where
  "read_holder a = a\<lparr>hd_baseid := Some (the_or AC_IS_new (hd_baseid a))\<rparr>"

lemma holder_inverse:
  assumes "prims_ok p" "good_holder a"
  shows "inverse (i2d_AC_HOLDER p) (d2i_AC_HOLDER p AC_HOLDER_new) (Universal V_ASN1_SEQUENCE) a (read_holder a)"
proof -
  have i: "\<forall>v. hd_baseid a = Some v \<longrightarrow> inverse (i2d_AC_IS p) (d2i_AC_IS p AC_IS_new) (Universal V_ASN1_SEQUENCE) v v"
    using assms by (intro allI impI is_inverse) (auto simp: good_holder_def good_is_def AC_IS_new_def)
  have g: "\<forall>v. hd_digest a = Some v \<longrightarrow> inverse (i2d_AC_DIGEST p) (d2i_AC_DIGEST p) (Universal V_ASN1_SEQUENCE) v v"
    using assms by (intro allI impI digest_inverse) (auto simp: good_holder_def)
  show ?thesis
    unfolding inverse_def i2d_AC_HOLDER_def d2i_AC_HOLDER_def put_simps get_simps
    by (rule opt_cases [OF i]; rule opt_cases [OF g]; cases "hd_name a";
        (simp add: prims_dec [OF assms(1)] prims_retag [OF assms(1)] AC_HOLDER_new_def the_or_def retag_back
          read_holder_def get_inverse)+)
qed

lemma val_inverse:
  assumes "prims_ok p" "va_notBefore a \<noteq> None" "va_notAfter a \<noteq> None"
  shows "inverse (i2d_AC_VAL p) (d2i_AC_VAL p) (Universal V_ASN1_SEQUENCE) a a"
  using assms(2,3)
  by (auto simp: inverse_def i2d_AC_VAL_def d2i_AC_VAL_def put_simps get_simps prims_dec [OF assms(1)])

section \<open>Attributes, read and written\<close>

definition good_value :: "AC_IETFATTRVAL \<Rightarrow> bool" where
  "good_value v \<longleftrightarrow> (\<exists>b. v = String_val V_ASN1_OCTET_STRING b \<or> v = String_val V_ASN1_UTF8STRING b)"

lemma value_inverse:
  assumes "prims_ok p" "good_value v"
  shows "\<exists>t. inverse i2d_AC_IETFATTRVAL (d2i_AC_IETFATTRVAL p) t v v"
proof -
  have "enc (c_octets p) b = Prim (Universal V_ASN1_OCTET_STRING) b" "enc (c_utf8 p) b = Prim (Universal V_ASN1_UTF8STRING) b" for b
    using assms(1) by (simp_all add: prims_ok_def)
  then have "dec (c_octets p) (Prim (Universal V_ASN1_OCTET_STRING) b) = Some b"
    "dec (c_utf8 p) (Prim (Universal V_ASN1_UTF8STRING) b) = Some b" for b
    using prims_dec(4,5) [OF assms(1), of b] by simp_all
  with assms(2) show ?thesis
    by (auto simp: good_value_def inverse_def i2d_AC_IETFATTRVAL_def d2i_AC_IETFATTRVAL_def asn1_tags)
qed

definition read_ietfattr :: "AC_IETFATTR \<Rightarrow> AC_IETFATTR" where
  "read_ietfattr a = a\<lparr>ia_names := Some (the_or [] (ia_names a))\<rparr>"

lemma put_all_map_inverse:
  assumes "\<And>x. x \<in> set xs \<Longrightarrow> \<exists>t. inverse w r t x (f x)"
  obtains ds where "put_all (map w xs) = Some ds" "those (map r ds) = Some (map f xs)" "length ds = length xs"
  using assms
proof (induction xs arbitrary: thesis)
  case (Cons x xs)
  from Cons.prems(2) [of x] obtain d where d: "w x = Some [d]" "r d = Some (f x)" by (auto simp: inverse_def)
  from Cons.IH Cons.prems(2) obtain ds where "put_all (map w xs) = Some ds" "those (map r ds) = Some (map f xs)"
    "length ds = length xs" by (metis list.set_intros(2))
  with d show ?case by (intro Cons.prems(1) [of "d # ds"]) simp_all
qed simp

lemma inverse_list:
  assumes "\<And>x. x \<in> set xs \<Longrightarrow> \<exists>t. inverse w r t x (f x)"
  shows "inverse (put_SEQUENCE w) (read_elements V_ASN1_SEQUENCE r []) (Universal V_ASN1_SEQUENCE) xs (map f xs)"
proof (rule put_all_map_inverse)
  show "\<exists>t. inverse w r t x (f x)" if "x \<in> set xs" for x using that by (rule assms)
qed (simp add: inverse_def put_SEQUENCE_def sequence_def read_elements_def)

lemma put_codec_list: "put_all (map (put c) xs) = Some (map (enc c) xs)"
  by (induction xs) (simp_all add: put_def)

lemma dec_codec_list: "codec n c \<Longrightarrow> those (map (dec c) (map (enc c) xs)) = Some xs"
  by (induction xs) (simp_all add: codec_def reads_back_def)

lemma ietfattr_inverse:
  assumes "prims_ok p" "list_all good_value (ia_values a)"
  shows "inverse (i2d_AC_IETFATTR p) (d2i_AC_IETFATTR p) (Universal V_ASN1_SEQUENCE) a (read_ietfattr a)"
proof -
  have "inverse (put_SEQUENCE i2d_AC_IETFATTRVAL) (read_elements V_ASN1_SEQUENCE (d2i_AC_IETFATTRVAL p) [])
      (Universal V_ASN1_SEQUENCE) (ia_values a) (map id (ia_values a))"
    using assms by (intro inverse_list) (auto simp: list_all_iff intro: value_inverse)
  then obtain d where d: "put_SEQUENCE i2d_AC_IETFATTRVAL (ia_values a) = Some [d]" "der_tag d = Universal V_ASN1_SEQUENCE"
    "read_elements V_ASN1_SEQUENCE (d2i_AC_IETFATTRVAL p) [] d = Some (ia_values a)"
    by (auto simp: inverse_def)
  show ?thesis
    unfolding inverse_def i2d_AC_IETFATTR_def d2i_AC_IETFATTR_def put_simps get_simps get_seq_def
    by (cases "ia_names a") (simp_all add: d prims_dec [OF assms(1)] prims_retag [OF assms(1)] AC_IETFATTR_new_def
        read_ietfattr_def the_or_def get_inverse)
qed

text \<open>An attribute that can be read back: its type, its values and their order are as they should be.\<close>

definition good_attr :: "prims \<Rightarrow> AC_ATTR \<Rightarrow> bool" where
  "good_attr p a \<longleftrightarrow> p_text p (aa_type a) = ''idatcap'' \<and>
     list_all (\<lambda>v. list_all good_value (ia_values v)) (aa_ietfattr a) \<and>
     (length (aa_ietfattr a) < 2 \<or>
      (let ds = the (put_all (map (i2d_AC_IETFATTR p) (aa_ietfattr a))) in p_order p ds = ds))"

definition read_attr :: "AC_ATTR \<Rightarrow> AC_ATTR" where
  "read_attr a = a\<lparr>aa_get_type := None, aa_ietfattr := map read_ietfattr (aa_ietfattr a)\<rparr>"

lemma attr_inverse:
  assumes "prims_ok p" "good_attr p a"
  shows "inverse (i2d_AC_ATTR p) (d2i_AC_ATTR p) (Universal V_ASN1_SEQUENCE) a (read_attr a)"
proof -
  have "\<exists>t. inverse (i2d_AC_IETFATTR p) (d2i_AC_IETFATTR p) t x (read_ietfattr x)" if "x \<in> set (aa_ietfattr a)" for x
    using that assms ietfattr_inverse [of p x] by (auto simp: good_attr_def list_all_iff)
  then obtain ds where ds: "put_all (map (i2d_AC_IETFATTR p) (aa_ietfattr a)) = Some ds"
    "those (map (d2i_AC_IETFATTR p) ds) = Some (map read_ietfattr (aa_ietfattr a))"
    by (rule put_all_map_inverse)
  have "put_SET (p_order p) (i2d_AC_IETFATTR p) (aa_ietfattr a) = Some [Parts (Universal V_ASN1_SET) ds]"
    using assms(2) ds(1) by (auto simp: put_SET_def good_attr_def Let_def)
  then show ?thesis
    using assms(2) ds(2)
    by (simp add: inverse_def i2d_AC_ATTR_def d2i_AC_ATTR_def put_simps get_simps prims_dec [OF assms(1)] get_set_def
        read_elements_def good_attr_def AC_ATTR_new_def read_attr_def)
qed

section \<open>Certificates, read and written\<close>

definition good_info :: "prims \<Rightarrow> AC_INFO \<Rightarrow> bool" where
  "good_info p a \<longleftrightarrow> good_holder (in_holder a) \<and> pred_option good_form (in_form a) \<and>
     va_notBefore (in_validity a) \<noteq> None \<and> va_notAfter (in_validity a) \<noteq> None \<and>
     list_all (good_attr p) (in_attrib a) \<and> in_id a = None"

definition read_info :: "AC_INFO \<Rightarrow> AC_INFO" where
  "read_info a = a\<lparr>in_holder := read_holder (in_holder a), in_form := Some (the_or AC_FORM_new (in_form a)),
     in_attrib := map read_attr (in_attrib a), in_exts := Some (the_or [] (in_exts a))\<rparr>"

lemma info_inverse:
  assumes "prims_ok p" "good_info p a"
  shows "inverse (i2d_AC_INFO p) (d2i_AC_INFO p AC_INFO_new) (Universal V_ASN1_SEQUENCE) a (read_info a)"
proof -
  obtain h where h: "i2d_AC_HOLDER p (in_holder a) = Some [h]"
    "d2i_AC_HOLDER p AC_HOLDER_new h = Some (read_holder (in_holder a))"
    using holder_inverse [OF assms(1)] assms(2) by (auto simp: good_info_def inverse_def)
  obtain v where v: "i2d_AC_VAL p (in_validity a) = Some [v]" "d2i_AC_VAL p v = Some (in_validity a)"
    using val_inverse [OF assms(1)] assms(2) by (auto simp: good_info_def inverse_def)
  have "inverse (put_SEQUENCE (i2d_AC_ATTR p)) (read_elements V_ASN1_SEQUENCE (d2i_AC_ATTR p) [])
      (Universal V_ASN1_SEQUENCE) (in_attrib a) (map read_attr (in_attrib a))"
    using assms attr_inverse [of p] by (intro inverse_list) (auto simp: good_info_def list_all_iff)
  then obtain t where t: "put_SEQUENCE (i2d_AC_ATTR p) (in_attrib a) = Some [t]"
    "read_elements V_ASN1_SEQUENCE (d2i_AC_ATTR p) [] t = Some (map read_attr (in_attrib a))"
    by (auto simp: inverse_def)
  have f: "\<forall>x. in_form a = Some x \<longrightarrow> inverse (i2d_AC_FORM p) (d2i_AC_FORM p AC_FORM_new) (Universal V_ASN1_SEQUENCE) x x"
    using assms by (auto simp: good_info_def intro!: form_inverse)
  have e: "put_SEQUENCE (put (c_ext p)) es = Some [Parts (Universal V_ASN1_SEQUENCE) (map (enc (c_ext p)) es)]"
    "read_elements V_ASN1_SEQUENCE (dec (c_ext p)) [] (Parts (Universal V_ASN1_SEQUENCE) (map (enc (c_ext p)) es)) = Some es" for es
    using dec_codec_list [OF prims_codecs(10) [OF assms(1)]]
    by (simp_all add: put_SEQUENCE_def sequence_def put_codec_list read_elements_def comp_def)
  have tags: "V_ASN1_SEQUENCE \<noteq> V_ASN1_BIT_STRING" by (simp add: asn1_tags)
  have i: "in_id a = None" using assms(2) by (simp add: good_info_def)
  show ?thesis
    unfolding inverse_def i2d_AC_INFO_def d2i_AC_INFO_def put_simps get_simps get_seq_def put_SEQUENCE_opt_def get_seq_opt_def i
    by (rule opt_cases [OF f]; cases "in_exts a";
        simp add: h v t e [unfolded put_def] tags prims_dec [OF assms(1)] prims_tag [OF assms(1)] AC_INFO_new_def the_or_def retag_back get_inverse
          read_info_def i)
qed

definition good_AC :: "prims \<Rightarrow> AC \<Rightarrow> bool" where
  "good_AC p a \<longleftrightarrow> good_info p (acinfo a)"

definition read_AC :: "AC \<Rightarrow> AC" where
  "read_AC a = a\<lparr>acinfo := read_info (acinfo a)\<rparr>"

lemma AC_inverse:
  assumes "prims_ok p" "good_AC p a"
  shows "inverse (i2d_AC p) (d2i_AC p) (Universal V_ASN1_SEQUENCE) a (read_AC a)"
proof -
  obtain i where i: "i2d_AC_INFO p (acinfo a) = Some [i]" "d2i_AC_INFO p AC_INFO_new i = Some (read_info (acinfo a))"
    using info_inverse [OF assms(1)] assms(2) by (auto simp: good_AC_def inverse_def)
  then show ?thesis
    by (simp add: inverse_def i2d_AC_def d2i_AC_def put_simps get_simps prims_dec [OF assms(1)] AC_new_def read_AC_def)
qed

text \<open>
  C11: attribute certificates survive writing and reading. A certificate with a validity, whose
  attributes are of the capability type with octet or UTF-8 strings, in the order of a set, and
  without unique identifiers, is written as one value and read back as it was, with what its
  constructors leave where an optional part was absent; the field \<open>get_type\<close> is lost.
\<close>

theorem ac_round_trip:
  assumes "prims_ok p" "good_AC p a"
  shows "\<exists>d. i2d_AC p a = Some [d] \<and> d2i_AC p d = Some (read_AC a) \<and> AC_dup p a = Some (read_AC a)"
  using AC_inverse [OF assms] by (auto simp: inverse_def AC_dup_def)

text \<open>
  The identifier of an issuer that has one is written with the tag of the context and looked for
  with the universal tag: no certificate with an identifier can be read back.
\<close>

lemma uid_unreadable:
  assumes "prims_ok p" "i2d_AC p a = Some [d]" "in_id (acinfo a) \<noteq> None"
  shows "d2i_AC p d = None"
proof -
  obtain u where u: "in_id (acinfo a) = Some u" using assms(3) by blast
  from assms(2) obtain i where i: "i2d_AC_INFO p (acinfo a) = Some i" "d = Parts (Universal V_ASN1_SEQUENCE)
      (i @ [enc (c_alg p) (sig_alg a), enc (c_bits p) (signature a)])"
    by (auto simp: i2d_AC_def put_simps split: option.splits)
  obtain x where x: "i = [Parts (Universal V_ASN1_SEQUENCE) x]"
    using i(1) by (auto simp: i2d_AC_INFO_def sequence_def)
  have tags: "V_ASN1_SEQUENCE \<noteq> V_ASN1_BIT_STRING" by (simp add: asn1_tags)
  have n: "\<not> next_is (Context 0) (enc (c_alg p) al # r)" for al r by (simp add: prims_tag [OF assms(1)])
  have q: "get_seq_opt f old (retag (Context 3) e # r) = Some (old, retag (Context 3) e # r)"
    for f :: "der \<Rightarrow> x509_extension option" and old e r by (cases e) (simp_all add: get_seq_opt_def)
  have "d2i_AC_INFO p AC_INFO_new (Parts (Universal V_ASN1_SEQUENCE) x) = None"
  proof -
    obtain h f v t e where parts: "i2d_AC_HOLDER p (in_holder (acinfo a)) = Some h"
      "put_IMP_opt (i2d_AC_FORM p) 0 (in_form (acinfo a)) = Some f" "i2d_AC_VAL p (in_validity (acinfo a)) = Some v"
      "put_SEQUENCE (i2d_AC_ATTR p) (in_attrib (acinfo a)) = Some t"
      "x = [enc (c_int p) (in_version (acinfo a))] @ h @ f @ [enc (c_alg p) (in_alg (acinfo a)),
         enc (c_int p) (in_serial (acinfo a))] @ v @ t @ [retag (Context 3) (enc (c_bits p) u)] @ e"
      using i(1) unfolding x i2d_AC_INFO_def sequence_def u
      by (auto simp: put_def put_IMP_opt_def [of "put (c_bits p)"] V_ASN1_BIT_STRING_def split: option.splits)
    obtain h' v' t' where one: "h = [h']" "v = [v']" "t = [t']"
      using parts by (auto simp: i2d_AC_HOLDER_def i2d_AC_VAL_def put_SEQUENCE_def sequence_def)
    have f: "f = [] \<or> (\<exists>g. f = [g] \<and> der_tag g = Context 0)"
      using parts(2) by (auto simp: put_IMP_opt_def i2d_AC_FORM_def sequence_def split: option.splits)
    have "d2i_AC_INFO p AC_INFO_new (Parts (Universal V_ASN1_SEQUENCE) x) \<noteq> Some y" for y
      using f tags unfolding parts(5) one
      by (auto simp: d2i_AC_INFO_def get_simps get_seq_def n q prims_tag [OF assms(1)] finish_def Option.bind_eq_Some_conv
          V_ASN1_BIT_STRING_def)
    then show ?thesis by (cases "d2i_AC_INFO p AC_INFO_new (Parts (Universal V_ASN1_SEQUENCE) x)") auto
  qed
  then show ?thesis unfolding i(2) x by (simp add: d2i_AC_def get_simps AC_new_def)
qed

section \<open>A sample of codecs\<close>

text \<open>Codecs for the values of OpenSSL that satisfy \<open>prims_ok\<close>, built from a few combinators.\<close>

definition conv :: "('a \<Rightarrow> 'b) \<Rightarrow> ('b \<Rightarrow> 'a) \<Rightarrow> 'b codec \<Rightarrow> 'a codec" where
  "conv f g c = (enc c \<circ> f, map_option g \<circ> dec c)"

definition bytes_codec :: "nat \<Rightarrow> bytes codec" where
  "bytes_codec n = (Prim (Universal n), \<lambda>d. case d of Prim t b \<Rightarrow> Some b | _ \<Rightarrow> None)"

definition list_codec :: "'a codec \<Rightarrow> 'a list codec" where
  "list_codec c = (\<lambda>xs. Parts (Universal V_ASN1_SEQUENCE) (map (enc c) xs),
     \<lambda>d. case d of Parts t ds \<Rightarrow> those (map (dec c) ds) | _ \<Rightarrow> None)"

definition pair_codec :: "'a codec \<Rightarrow> 'b codec \<Rightarrow> ('a \<times> 'b) codec" where
  "pair_codec c e = (\<lambda>(x, y). Parts (Universal V_ASN1_SEQUENCE) [enc c x, enc e y],
     \<lambda>d. case d of
           Parts t [u, v] \<Rightarrow> (case (dec c u, dec e v) of (Some x, Some y) \<Rightarrow> Some (x, y) | _ \<Rightarrow> None)
         | _ \<Rightarrow> None)"

definition int_bytes :: "int \<Rightarrow> bytes" where
  "int_bytes i = (if i < 0 then CHR ''-'' # replicate (nat (- i)) NUL else replicate (nat i) NUL)"

definition bytes_int :: "bytes \<Rightarrow> int" where
  "bytes_int b = (if b \<noteq> [] \<and> hd b = CHR ''-'' then - int (length b - 1) else int (length b))"

definition int_codec :: "nat \<Rightarrow> int codec" where
  "int_codec n = conv int_bytes bytes_int (bytes_codec n)"

definition der_codec :: "der codec" where "der_codec = (\<lambda>d. d, Some)"

definition opt_codec :: "'a codec \<Rightarrow> 'a option codec" where
  "opt_codec c = conv (\<lambda>x. case x of None \<Rightarrow> [] | Some a \<Rightarrow> [a]) (\<lambda>l. if l = [] then None else Some (hd l)) (list_codec c)"

named_theorems codec_rules \<open>codecs that read back\<close>

lemma codec_reads_back: "codec n c \<Longrightarrow> reads_back c"
  by (simp add: codec_def)

lemma conv_codec: "codec n c \<Longrightarrow> (\<And>x. g (f x) = x) \<Longrightarrow> codec n (conv f g c)"
  by (simp add: codec_def reads_back_def conv_def)

lemma bytes_codec_ok [codec_rules]: "codec n (bytes_codec n)"
  by (simp add: codec_def reads_back_def bytes_codec_def)

lemma list_codec_ok [codec_rules]: "reads_back c \<Longrightarrow> codec V_ASN1_SEQUENCE (list_codec c)"
proof -
  assume c: "reads_back c"
  have "those (map (dec c) (map (enc c) xs)) = Some xs" for xs
    using c by (induction xs) (simp_all add: reads_back_def)
  then show ?thesis by (simp add: codec_def reads_back_def list_codec_def comp_def)
qed

lemma pair_codec_ok [codec_rules]: "reads_back c \<Longrightarrow> reads_back e \<Longrightarrow> codec V_ASN1_SEQUENCE (pair_codec c e)"
  by (auto simp: codec_def reads_back_def pair_codec_def)

lemma int_codec_ok [codec_rules]: "codec n (int_codec n)"
  unfolding int_codec_def
proof (rule conv_codec [OF bytes_codec_ok])
  fix x :: int
  show "bytes_int (int_bytes x) = x"
    by (cases "nat x") (auto simp: int_bytes_def bytes_int_def NUL_def)
qed

lemma der_codec_ok: "reads_back der_codec"
  by (simp add: reads_back_def der_codec_def)

lemma opt_codec_ok [codec_rules]: "reads_back c \<Longrightarrow> codec V_ASN1_SEQUENCE (opt_codec c)"
  unfolding opt_codec_def by (rule conv_codec [OF list_codec_ok]) (auto split: option.split)

abbreviation seqc :: "'a codec \<Rightarrow> 'b codec \<Rightarrow> ('a \<times> 'b) codec" where "seqc \<equiv> pair_codec"

definition sample_alg :: "x509_algor codec" where
  "sample_alg = conv (\<lambda>a. (xa_algorithm a, xa_parameter a)) (\<lambda>(x, y). \<lparr>xa_algorithm = x, xa_parameter = y\<rparr>)
     (seqc (bytes_codec 6) (opt_codec der_codec))"

definition sample_entry :: "name_entry codec" where
  "sample_entry = conv (\<lambda>e. (ne_object e, ne_value e, ne_set e)) (\<lambda>(x, y, z). \<lparr>ne_object = x, ne_value = y, ne_set = z\<rparr>)
     (seqc (bytes_codec 6) (seqc (bytes_codec 19) (int_codec 2)))"

definition sample_name :: "general_name codec" where
  "sample_name =
     (\<lambda>g. case g of Gen_uri b \<Rightarrow> Prim (Context 6) b
        | Gen_dirname n \<Rightarrow> retag (Context 4) (enc (list_codec sample_entry) n)
        | Gen_other d \<Rightarrow> Parts (Context 0) [d],
      \<lambda>d. case d of Prim t b \<Rightarrow> Some (Gen_uri b)
        | Parts t ds \<Rightarrow> if t = Context 4 then map_option Gen_dirname (dec (list_codec sample_entry) d)
                       else Some (Gen_other (hd ds)))"

definition sample_exts :: "x509_extension codec" where
  "sample_exts = conv (\<lambda>e. (ext_object e, if ext_critical e then 1 else 0, ext_data e))
     (\<lambda>(x, y, z). \<lparr>ext_object = x, ext_critical = (y = 1), ext_data = z\<rparr>)
     (seqc (bytes_codec 6) (seqc (int_codec 1) (bytes_codec 4)))"

definition sample_time :: "asn1_time codec" where
  "sample_time = conv (\<lambda>t. (at_type t, at_data t)) (\<lambda>(x, y). \<lparr>at_type = x, at_data = y\<rparr>)
     (seqc (int_codec 2) (bytes_codec 23))"

definition sample_pkey :: "pkey codec" where
  "sample_pkey = conv (\<lambda>k. (pk_type k, map_option int (pk_modulus k), pk_bits k))
     (\<lambda>(x, y, z). \<lparr>pk_type = x, pk_modulus = map_option nat y, pk_bits = z\<rparr>)
     (seqc (int_codec 2) (seqc (opt_codec (int_codec 2)) (int_codec 2)))"

definition sample_x509 :: "x509 codec" where
  "sample_x509 = conv
     (\<lambda>c. ((x_subject c, x_issuer c, x_serial c, x_notBefore c, x_notAfter c),
           (x_pubkey c, x_exts c, uint (x_ex_flags c), x_ex_pathlen c, x_ex_pcpathlen c)))
     (\<lambda>((a, b, c, d, e), (f, g, h, i, j)). \<lparr>x_subject = a, x_issuer = b, x_serial = c, x_notBefore = d,
        x_notAfter = e, x_pubkey = f, x_exts = g, x_ex_flags = word_of_int h, x_ex_pathlen = i, x_ex_pcpathlen = j\<rparr>)
     (seqc (seqc (list_codec sample_entry) (seqc (list_codec sample_entry) (seqc (int_codec 2)
              (seqc sample_time sample_time))))
           (seqc (opt_codec sample_pkey) (seqc (list_codec sample_exts) (seqc (int_codec 2)
              (seqc (int_codec 2) (int_codec 2))))))"

lemmas seq_ok = codec_rules codec_reads_back [OF bytes_codec_ok] codec_reads_back [OF int_codec_ok] der_codec_ok
  codec_reads_back [OF list_codec_ok] codec_reads_back [OF pair_codec_ok] codec_reads_back [OF opt_codec_ok]

lemma sample_codecs:
  "codec V_ASN1_SEQUENCE sample_alg" "codec V_ASN1_SEQUENCE sample_entry" "codec V_ASN1_SEQUENCE sample_exts"
  "codec V_ASN1_SEQUENCE sample_time" "codec V_ASN1_SEQUENCE sample_pkey"
  unfolding sample_alg_def sample_entry_def sample_exts_def sample_time_def sample_pkey_def
  by (rule conv_codec, (intro seq_ok | simp add: option.map_comp comp_def option.map_ident)+)+

lemma sample_x509_ok: "codec V_ASN1_SEQUENCE sample_x509"
  unfolding sample_x509_def
  by (rule conv_codec, intro seq_ok codec_reads_back [OF sample_codecs(2)] codec_reads_back [OF sample_codecs(3)]
      codec_reads_back [OF sample_codecs(4)] codec_reads_back [OF sample_codecs(5)]) simp

lemma sample_name_ok: "reads_back sample_name"
proof -
  have "codec V_ASN1_SEQUENCE (list_codec sample_entry)"
    by (intro list_codec_ok codec_reads_back [OF sample_codecs(2)])
  then have l: "dec (list_codec sample_entry) (retag (Context 4) (enc (list_codec sample_entry) n)) = Some n" for n
    by (simp add: codec_def reads_back_def list_codec_def)
  have r: "\<exists>ds. retag (Context 4) (enc (list_codec sample_entry) n) = Parts (Context 4) ds" for n
    by (simp add: list_codec_def)
  show ?thesis
    unfolding reads_back_def
  proof
    fix g show "dec sample_name (enc sample_name g) = Some g"
    proof (cases g)
      case (Gen_dirname n)
      with l [of n] r [of n] show ?thesis by (auto simp: sample_name_def)
    qed (simp_all add: sample_name_def)
  qed
qed

definition sample_prims :: prims where
  "sample_prims = \<lparr>c_int = int_codec V_ASN1_INTEGER, c_enum = int_codec V_ASN1_ENUMERATED,
     c_bits = bytes_codec V_ASN1_BIT_STRING, c_octets = bytes_codec V_ASN1_OCTET_STRING,
     c_utf8 = bytes_codec V_ASN1_UTF8STRING, c_object = bytes_codec V_ASN1_OBJECT,
     c_time = bytes_codec (nat V_ASN1_GENERALIZEDTIME), c_alg = sample_alg, c_names = list_codec sample_name,
     c_name = sample_name, c_ext = sample_exts, c_cert = sample_x509,
     p_text = (\<lambda>ob. if ob = ''1.3.6.1.4.1.8005.100.100.4'' then ''idatcap'' else ob), p_order = (\<lambda>ds. ds)\<rparr>"

lemma sample_prims_ok: "prims_ok sample_prims"
  by (simp add: prims_ok_def sample_prims_def codec_rules sample_codecs sample_x509_ok sample_name_ok)
    (simp add: bytes_codec_def)

definition sample_AC :: "bytes option \<Rightarrow> AC" where
  "sample_AC uid = AC_new\<lparr>acinfo := AC_INFO_new\<lparr>in_version := 1, in_serial := 7,
     in_validity := \<lparr>va_notBefore = Some ''20090213233130Z'', va_notAfter = Some ''20090214113130Z''\<rparr>,
     in_attrib := [\<lparr>aa_type = ''1.3.6.1.4.1.8005.100.100.4'', aa_get_type = Some GET_TYPE_FQAN,
        aa_ietfattr = [\<lparr>ia_names = Some [Gen_uri ''vo://host:15000''],
          ia_values = [String_val V_ASN1_OCTET_STRING ''/vo/Role=NULL'']\<rparr>]\<rparr>], in_id := uid\<rparr>\<rparr>"

lemma sample_AC_good: "good_AC sample_prims (sample_AC None)"
  by (simp add: good_AC_def good_info_def sample_AC_def AC_new_def AC_INFO_new_def good_holder_def AC_HOLDER_new_def
        good_is_def AC_IS_new_def good_form_def AC_FORM_new_def good_attr_def sample_prims_def)
      (auto simp: good_value_def)

lemma ac_round_trip_witness:
  "\<exists>d. i2d_AC sample_prims (sample_AC None) = Some [d] \<and> d2i_AC sample_prims d = Some (read_AC (sample_AC None))"
  using ac_round_trip [OF sample_prims_ok sample_AC_good] by blast

end
