(* ===== verification/AcExts.thy ===== *)
theory AcExts
  imports AttrCert CList
begin

text \<open>
  The extensions of attribute certificates and of proxies that carry them
  (src/src/ac/extensions.c with src/src/ac/attributes.h): their structures, written and read, the
  functions that make them from what the callers pass as text, and their registration with OpenSSL;
  and the object identifiers of VOMS (src/src/ac/init.c).

  A stack may hold NULL where a copy failed; such an element is not written.
\<close>

section \<open>Structures\<close>

record AC_SEQ = acs :: "AC list"

record AC_TARGET =
  tg_name :: "general_name option"
  tg_group :: "general_name option"
  tg_cert :: "AC_IS option"

record AC_TARGETS = targets :: "AC_TARGET list"

record AC_CERTS = stackcert :: "x509 option list"

record AC_ATTRIBUTE =
  ab_name :: bytes
  ab_qualifier :: bytes
  ab_value :: bytes

record AC_ATT_HOLDER =
  ah_grantor :: "general_name list"
  ah_attributes :: "AC_ATTRIBUTE list"

record AC_FULL_ATTRIBUTES = providers :: "AC_ATT_HOLDER option list"

definition AC_SEQ_new :: AC_SEQ where "AC_SEQ_new = \<lparr>acs = []\<rparr>"
definition AC_TARGET_new :: AC_TARGET where "AC_TARGET_new = \<lparr>tg_name = None, tg_group = None, tg_cert = None\<rparr>"
definition AC_TARGETS_new :: AC_TARGETS where "AC_TARGETS_new = \<lparr>targets = []\<rparr>"
definition AC_CERTS_new :: AC_CERTS where "AC_CERTS_new = \<lparr>stackcert = []\<rparr>"
definition AC_ATTRIBUTE_new :: AC_ATTRIBUTE where "AC_ATTRIBUTE_new = \<lparr>ab_name = [], ab_qualifier = [], ab_value = []\<rparr>"
definition AC_ATT_HOLDER_new :: AC_ATT_HOLDER where "AC_ATT_HOLDER_new = \<lparr>ah_grantor = [], ah_attributes = []\<rparr>"
definition AC_FULL_ATTRIBUTES_new :: AC_FULL_ATTRIBUTES where "AC_FULL_ATTRIBUTES_new = \<lparr>providers = []\<rparr>"

section \<open>Writing and reading\<close>

text \<open>A structure that is a sequence of one kind of elements.\<close>

definition read_sequence :: "(der \<Rightarrow> 'a option) \<Rightarrow> der \<Rightarrow> 'a list option" where
  "read_sequence f d = do {
     ds \<leftarrow> start_sequence d;
     (xs, ds) \<leftarrow> get_seq f [] ds;
     finish xs ds
   }"

definition i2d_AC_SEQ :: "prims \<Rightarrow> AC_SEQ \<Rightarrow> written" where
  "i2d_AC_SEQ p a = sequence [put_SEQUENCE (i2d_AC p) (acs a)]"

definition d2i_AC_SEQ :: "prims \<Rightarrow> der \<Rightarrow> AC_SEQ option" where
  "d2i_AC_SEQ p d = map_option (\<lambda>xs. \<lparr>acs = xs\<rparr>) (read_sequence (d2i_AC p) d)"

definition i2d_AC_TARGET :: "prims \<Rightarrow> AC_TARGET \<Rightarrow> written" where
  "i2d_AC_TARGET p a =
     sequence [put_EXP_opt (put (c_name p)) 0 (tg_name a), put_EXP_opt (put (c_name p)) 1 (tg_group a),
       put_EXP_opt (i2d_AC_IS p) 2 (tg_cert a)]"

definition d2i_AC_TARGET :: "prims \<Rightarrow> der \<Rightarrow> AC_TARGET option" where
  "d2i_AC_TARGET p d = do {
     ds \<leftarrow> start_sequence d;
     (n, ds) \<leftarrow> get_EXP_opt (map_option Some \<circ> dec (c_name p)) 0 (tg_name AC_TARGET_new) ds;
     (g, ds) \<leftarrow> get_EXP_opt (map_option Some \<circ> dec (c_name p)) 1 (tg_group AC_TARGET_new) ds;
     (c, ds) \<leftarrow> get_EXP_opt (map_option Some \<circ> d2i_AC_IS p AC_IS_new) 2 (tg_cert AC_TARGET_new) ds;
     finish \<lparr>tg_name = n, tg_group = g, tg_cert = c\<rparr> ds
   }"

definition i2d_AC_TARGETS :: "prims \<Rightarrow> AC_TARGETS \<Rightarrow> written" where
  "i2d_AC_TARGETS p a = sequence [put_SEQUENCE (i2d_AC_TARGET p) (targets a)]"

definition d2i_AC_TARGETS :: "prims \<Rightarrow> der \<Rightarrow> AC_TARGETS option" where
  "d2i_AC_TARGETS p d = map_option (\<lambda>xs. \<lparr>targets = xs\<rparr>) (read_sequence (d2i_AC_TARGET p) d)"

definition i2d_AC_CERTS :: "prims \<Rightarrow> AC_CERTS \<Rightarrow> written" where
  "i2d_AC_CERTS p a = sequence [put_SEQUENCE (put_ptr (put (c_cert p))) (stackcert a)]"

definition d2i_AC_CERTS :: "prims \<Rightarrow> der \<Rightarrow> AC_CERTS option" where
  "d2i_AC_CERTS p d = map_option (\<lambda>xs. \<lparr>stackcert = map Some xs\<rparr>) (read_sequence (dec (c_cert p)) d)"

definition i2d_AC_ATTRIBUTE :: "prims \<Rightarrow> AC_ATTRIBUTE \<Rightarrow> written" where
  "i2d_AC_ATTRIBUTE p a =
     sequence [put (c_octets p) (ab_name a), put (c_octets p) (ab_value a), put (c_octets p) (ab_qualifier a)]"

definition d2i_AC_ATTRIBUTE :: "prims \<Rightarrow> der \<Rightarrow> AC_ATTRIBUTE option" where
  "d2i_AC_ATTRIBUTE p d = do {
     ds \<leftarrow> start_sequence d;
     (n, ds) \<leftarrow> get (dec (c_octets p)) ds;
     (v, ds) \<leftarrow> get (dec (c_octets p)) ds;
     (q, ds) \<leftarrow> get (dec (c_octets p)) ds;
     finish \<lparr>ab_name = n, ab_qualifier = q, ab_value = v\<rparr> ds
   }"

definition i2d_AC_ATT_HOLDER :: "prims \<Rightarrow> AC_ATT_HOLDER \<Rightarrow> written" where
  "i2d_AC_ATT_HOLDER p a =
     sequence [put (c_names p) (ah_grantor a), put_SEQUENCE (i2d_AC_ATTRIBUTE p) (ah_attributes a)]"

definition d2i_AC_ATT_HOLDER :: "prims \<Rightarrow> der \<Rightarrow> AC_ATT_HOLDER option" where
  "d2i_AC_ATT_HOLDER p d = do {
     ds \<leftarrow> start_sequence d;
     (g, ds) \<leftarrow> get (dec (c_names p)) ds;
     (as, ds) \<leftarrow> get_seq (d2i_AC_ATTRIBUTE p) (ah_attributes AC_ATT_HOLDER_new) ds;
     finish \<lparr>ah_grantor = g, ah_attributes = as\<rparr> ds
   }"

definition i2d_AC_FULL_ATTRIBUTES :: "prims \<Rightarrow> AC_FULL_ATTRIBUTES \<Rightarrow> written" where
  "i2d_AC_FULL_ATTRIBUTES p a = sequence [put_SEQUENCE (put_ptr (i2d_AC_ATT_HOLDER p)) (providers a)]"

definition d2i_AC_FULL_ATTRIBUTES :: "prims \<Rightarrow> der \<Rightarrow> AC_FULL_ATTRIBUTES option" where
  "d2i_AC_FULL_ATTRIBUTES p d =
     map_option (\<lambda>xs. \<lparr>providers = map Some xs\<rparr>) (read_sequence (d2i_AC_ATT_HOLDER p) d)"

section \<open>From what the callers pass\<close>

text \<open>The values of the extensions: ASN.1's NULL and the key identifier among them.\<close>

datatype ext_value =
    Seq_value AC_SEQ
  | Targets_value AC_TARGETS
  | Certs_value AC_CERTS
  | Attributes_value AC_FULL_ATTRIBUTES
  | Keyid_value "bytes option"
  | Null_value

text \<open>The array of certificates up to its NULL; a NULL pointer makes no value.\<close>

fun acseq_loop :: "AC cells \<Rightarrow> AC list \<Rightarrow> AC list option" where
  "acseq_loop [] acc = None"
| "acseq_loop (None # r) acc = Some acc"
| "acseq_loop (Some a # r) acc = acseq_loop r (acc @ [a])"

definition acseq_s2i :: "AC cells option \<Rightarrow> AC_SEQ option option" where
  "acseq_s2i data = (case data of None \<Rightarrow> Some None | Some l \<Rightarrow> map_option (\<lambda>x. Some \<lparr>acs = x\<rparr>) (acseq_loop l []))"

text \<open>
  The targets, one for each comma-separated part of the text: \<open>mem n\<close> says whether the three
  objects of the \<open>n\<close>-th turn could be allocated.
\<close>

function targets_loop :: "(nat \<Rightarrow> bool) \<Rightarrow> nat \<Rightarrow> cstring \<Rightarrow> AC_TARGET list \<Rightarrow> AC_TARGET list option" where
  "targets_loop mem n list acc =
     (let pos = strchr list (CHR '','');
          part = (case pos of None \<Rightarrow> list | Some i \<Rightarrow> take i list)
      in if \<not> mem n then None
         else (let acc = acc @ [AC_TARGET_new\<lparr>tg_name := Some (Gen_uri part)\<rparr>]
               in case pos of None \<Rightarrow> Some acc | Some i \<Rightarrow> targets_loop mem (Suc n) (drop (Suc i) list) acc))"
  by pat_completeness auto
termination
  by (relation "measure (\<lambda>(_, _, l, _). length l)") (auto dest: strchr_SomeD [OF sym])

declare targets_loop.simps [simp del]

definition targets_s2i :: "(nat \<Rightarrow> bool) \<Rightarrow> cstring \<Rightarrow> AC_TARGETS option" where
  "targets_s2i mem data = map_option (\<lambda>ts. \<lparr>targets = ts\<rparr>) (targets_loop mem 0 data [])"

definition X509_dup :: "prims \<Rightarrow> x509 \<Rightarrow> x509 option" where
  "X509_dup p c = dec (c_cert p) (enc (c_cert p) c)"

definition certs_s2i :: "prims \<Rightarrow> x509 list option \<Rightarrow> AC_CERTS option" where
  "certs_s2i p data = map_option (\<lambda>certs. \<lparr>stackcert = map (X509_dup p) certs\<rparr>) data"

text \<open>\<open>ASN1_dup\<close> of a holder of attributes.\<close>

definition att_holder_dup :: "prims \<Rightarrow> AC_ATT_HOLDER \<Rightarrow> AC_ATT_HOLDER option" where
  "att_holder_dup p h = (case i2d_AC_ATT_HOLDER p h of Some [d] \<Rightarrow> d2i_AC_ATT_HOLDER p d | _ \<Rightarrow> None)"

definition attributes_s2i :: "prims \<Rightarrow> AC_ATT_HOLDER list option \<Rightarrow> AC_FULL_ATTRIBUTES option" where
  "attributes_s2i p data = map_option (\<lambda>stack. \<lparr>providers = map (att_holder_dup p) stack\<rparr>) data"

text \<open>The identifier of a key: the SHA-1 digest of the bits of the public key.\<close>

definition authkey_s2i :: "bool \<Rightarrow> (bytes \<Rightarrow> bytes) \<Rightarrow> bytes \<Rightarrow> bytes option option" where
  "authkey_s2i mem sha1 key_bits = (if mem then Some (Some (take 20 (sha1 key_bits))) else None)"

definition norep :: "bool \<Rightarrow> cstring option" where
  "norep mem = (if mem then Some [] else None)"

section \<open>Registration\<close>

datatype ext_kind = Avail | Targets | Auth | Acseq | Certseq | Attribs

record ext_method =
  em_nid :: int
  em_kind :: ext_kind

text \<open>\<open>initEx\<close>: the result and the methods added. All of them print as an empty string.\<close>

definition initEx :: "bool \<Rightarrow> (cstring \<Rightarrow> int) \<Rightarrow> ext_method list \<Rightarrow> int \<times> ext_method list" where
  "initEx mem txt2nid methods =
     (if \<not> mem then (0, methods)
      else (1, methods @
        [\<lparr>em_nid = txt2nid ''idcenoRevAvail'', em_kind = Avail\<rparr>, \<lparr>em_nid = txt2nid ''idceTargets'', em_kind = Targets\<rparr>,
         \<lparr>em_nid = txt2nid ''authKeyId'', em_kind = Auth\<rparr>, \<lparr>em_nid = txt2nid ''acseq'', em_kind = Acseq\<rparr>,
         \<lparr>em_nid = txt2nid ''certseq'', em_kind = Certseq\<rparr>, \<lparr>em_nid = txt2nid ''attributes'', em_kind = Attribs\<rparr>]))"

text \<open>What \<open>i2d\<close> of a method writes: the value of its kind.\<close>

definition write_value :: "prims \<Rightarrow> (bytes option \<Rightarrow> written) \<Rightarrow> ext_value \<Rightarrow> written" where
  "write_value p keyid v =
     (case v of
        Seq_value a \<Rightarrow> i2d_AC_SEQ p a
      | Targets_value a \<Rightarrow> i2d_AC_TARGETS p a
      | Certs_value a \<Rightarrow> i2d_AC_CERTS p a
      | Attributes_value a \<Rightarrow> i2d_AC_FULL_ATTRIBUTES p a
      | Keyid_value k \<Rightarrow> keyid k
      | Null_value \<Rightarrow> Some [Prim (Universal 5) []])"

text \<open>\<open>declareOIDs\<close>: the objects created the first time, with their short and long names.\<close>

definition voms_objects :: "(oid \<times> cstring \<times> cstring) list" where
  "voms_objects =
     [(''1.3.6.1.4.1.8005.100.100.4'', ''idatcap'', ''idatcap''),
      (''1.3.6.1.4.1.8005.100.100.11'', ''attributes'', ''attributes''),
      (''2.5.29.56'', ''noRevAvail'', ''idcenoRevAvail''),
      (''2.5.29.35'', ''authKeyId'', ''idceauthKeyIdentifier''),
      (''2.5.29.55'', ''idceTargets'', ''idceTargets''),
      (''1.3.6.1.4.1.8005.100.100.5'', ''acseq'', ''acseq''),
      (''1.3.6.1.4.1.8005.100.100.6'', ''order'', ''order''),
      (''1.3.6.1.4.1.8005.100.100.1'', ''voms'', ''voms''),
      (''1.3.6.1.4.1.8005.100.100.2'', ''incfile'', ''incfile''),
      (''1.3.6.1.4.1.8005.100.100.3'', ''vo'', ''vo''),
      (''1.3.6.1.4.1.8005.100.100.10'', ''certseq'', ''certseq'')]"

definition declareOIDs :: "(oid \<times> cstring \<times> cstring \<Rightarrow> 't \<Rightarrow> 't) \<Rightarrow> bool \<times> 't \<Rightarrow> bool \<times> 't" where
  "declareOIDs create st = (if fst st then st else (True, fold create voms_objects (snd st)))"

section \<open>Attributes, from the writer to the reader\<close>

lemma read_sequence_of:
  assumes "put_all (map w xs) = Some ds" "those (map r ds) = Some ys"
  shows "\<exists>d. sequence [put_SEQUENCE w xs] = Some [d] \<and> der_tag d = Universal V_ASN1_SEQUENCE \<and> read_sequence r d = Some ys"
  using assms by (simp add: put_SEQUENCE_def sequence_def read_sequence_def get_seq_def get_def read_elements_def)

lemma attribute_inverse:
  assumes "prims_ok p"
  shows "inverse (i2d_AC_ATTRIBUTE p) (d2i_AC_ATTRIBUTE p) (Universal V_ASN1_SEQUENCE) a a"
  by (simp add: inverse_def i2d_AC_ATTRIBUTE_def d2i_AC_ATTRIBUTE_def put_simps get_simps prims_dec [OF assms])

lemma att_holder_inverse:
  assumes "prims_ok p"
  shows "inverse (i2d_AC_ATT_HOLDER p) (d2i_AC_ATT_HOLDER p) (Universal V_ASN1_SEQUENCE) a a"
proof -
  have "inverse (put_SEQUENCE (i2d_AC_ATTRIBUTE p)) (read_elements V_ASN1_SEQUENCE (d2i_AC_ATTRIBUTE p) [])
      (Universal V_ASN1_SEQUENCE) (ah_attributes a) (map id (ah_attributes a))"
    using attribute_inverse [OF assms] by (intro inverse_list) auto
  then obtain d where "put_SEQUENCE (i2d_AC_ATTRIBUTE p) (ah_attributes a) = Some [d]"
    "read_elements V_ASN1_SEQUENCE (d2i_AC_ATTRIBUTE p) [] d = Some (ah_attributes a)"
    by (auto simp: inverse_def)
  then show ?thesis
    by (simp add: inverse_def i2d_AC_ATT_HOLDER_def d2i_AC_ATT_HOLDER_def put_simps get_simps get_seq_def
        prims_dec [OF assms] AC_ATT_HOLDER_new_def)
qed

lemma att_holder_dup_same: "prims_ok p \<Longrightarrow> att_holder_dup p h = Some h"
  using att_holder_inverse [of p h] by (auto simp: inverse_def att_holder_dup_def)

text \<open>
  The attributes extension. The holders of attributes that are handed to the extension are
  written and read back, every qualifier, name and value among them.
\<close>

theorem attributes_round_trip:
  assumes "prims_ok p" "attributes_s2i p (Some stack) = Some a"
  shows "\<exists>d. i2d_AC_FULL_ATTRIBUTES p a = Some [d] \<and> d2i_AC_FULL_ATTRIBUTES p d = Some \<lparr>providers = map Some stack\<rparr>"
proof -
  have a: "a = \<lparr>providers = map Some stack\<rparr>"
    using assms by (auto simp: attributes_s2i_def att_holder_dup_same)
  have "\<exists>t. inverse (put_ptr (i2d_AC_ATT_HOLDER p)) (d2i_AC_ATT_HOLDER p) t x (the x)" if "x \<in> set (map Some stack)" for x
    using that att_holder_inverse [OF assms(1), of "the x"] by (auto simp: inverse_def put_ptr_def)
  then obtain ds where "put_all (map (put_ptr (i2d_AC_ATT_HOLDER p)) (map Some stack)) = Some ds"
    "those (map (d2i_AC_ATT_HOLDER p) ds) = Some (map the (map Some stack))"
    by (rule put_all_map_inverse)
  then show ?thesis
    using read_sequence_of [of "put_ptr (i2d_AC_ATT_HOLDER p)" "map Some stack" ds "d2i_AC_ATT_HOLDER p" stack]
    by (auto simp: i2d_AC_FULL_ATTRIBUTES_def d2i_AC_FULL_ATTRIBUTES_def a)
qed

section \<open>Targets\<close>

text \<open>The parts of a text between its commas.\<close>

fun comma_parts :: "cstring \<Rightarrow> cstring list" where
  "comma_parts [] = [[]]"
| "comma_parts (c # cs) =
     (if c = CHR '','' then [] # comma_parts cs
      else (case comma_parts cs of [] \<Rightarrow> [[c]] | w # ws \<Rightarrow> (c # w) # ws))"

lemma comma_parts_ne [simp]: "comma_parts s \<noteq> []"
  by (cases s) (auto split: list.splits)

lemma comma_parts_none: "CHR '','' \<notin> set s \<Longrightarrow> comma_parts s = [s]"
  by (induction s) auto

lemma comma_parts_at: "CHR '','' \<notin> set s \<Longrightarrow> comma_parts (s @ CHR '','' # r) = s # comma_parts r"
  by (induction s) auto

definition uri_target :: "cstring \<Rightarrow> AC_TARGET" where
  "uri_target s = \<lparr>tg_name = Some (Gen_uri s), tg_group = None, tg_cert = None\<rparr>"

lemma targets_loop_parts:
  assumes "\<forall>n. mem n"
  shows "targets_loop mem n s acc = Some (acc @ map uri_target (comma_parts s))"
proof (induction "length s" arbitrary: s n acc rule: less_induct)
  case less
  show ?case
  proof (cases "strchr s (CHR '','')")
    case None
    then show ?thesis
      using assms comma_parts_none [OF strchr_None [THEN iffD1, OF None]]
      by (subst targets_loop.simps) (simp add: Let_def AC_TARGET_new_def uri_target_def)
  next
    case (Some i)
    then have i: "i < length s" "s ! i = CHR '',''" "CHR '','' \<notin> set (take i s)" using strchr_SomeD by auto
    then have "s = take i s @ CHR '','' # drop (Suc i) s" using id_take_nth_drop [of i s] by simp
    then have "comma_parts s = take i s # comma_parts (drop (Suc i) s)"
      using comma_parts_at [OF i(3)] by metis
    with Some assms i(1) less [of "drop (Suc i) s"] show ?thesis
      by (subst targets_loop.simps) (simp add: Let_def AC_TARGET_new_def uri_target_def)
  qed
qed

lemma target_inverse:
  assumes "prims_ok p"
  shows "inverse (i2d_AC_TARGET p) (d2i_AC_TARGET p) (Universal V_ASN1_SEQUENCE) (uri_target s) (uri_target s)"
  by (simp add: inverse_def i2d_AC_TARGET_def d2i_AC_TARGET_def put_simps uri_target_def get_EXP_opt_def get_inverse
      prims_dec [OF assms] AC_TARGET_new_def)

text \<open>
  The targets extension. A list of targets as text becomes one target for each part between
  commas, empty ones included, and all of them are written and read back in order.
\<close>

theorem targets_round_trip:
  assumes "prims_ok p" "\<forall>n. mem n"
  shows "\<exists>a d. targets_s2i mem s = Some a \<and> targets a = map uri_target (comma_parts s) \<and>
    i2d_AC_TARGETS p a = Some [d] \<and> d2i_AC_TARGETS p d = Some a"
proof -
  let ?ts = "map uri_target (comma_parts s)"
  have t: "targets_s2i mem s = Some \<lparr>targets = ?ts\<rparr>"
    using targets_loop_parts [OF assms(2), of 0 s "[]"] by (simp add: targets_s2i_def)
  have "\<exists>t. inverse (i2d_AC_TARGET p) (d2i_AC_TARGET p) t x (id x)" if "x \<in> set ?ts" for x
    using that target_inverse [OF assms(1)] by auto
  then obtain ds where "put_all (map (i2d_AC_TARGET p) ?ts) = Some ds" "those (map (d2i_AC_TARGET p) ds) = Some (map id ?ts)"
    by (rule put_all_map_inverse)
  then obtain d where "sequence [put_SEQUENCE (i2d_AC_TARGET p) ?ts] = Some [d]" "read_sequence (d2i_AC_TARGET p) d = Some ?ts"
    using read_sequence_of by fastforce
  with t show ?thesis
    by (intro exI [of _ "\<lparr>targets = ?ts\<rparr>"] exI [of _ d]) (simp add: i2d_AC_TARGETS_def d2i_AC_TARGETS_def)
qed

section \<open>Sequences of certificates\<close>

lemma acseq_loop_contents: "acseq_loop (map Some xs @ None # r) acc = Some (acc @ xs)"
  by (induction xs arbitrary: acc) auto

text \<open>
  The extension of a proxy that carries attribute certificates. The certificates of a
  NULL-terminated array, each of which can be read back, are written in order and read back in
  order, and the array's other elements are ignored.
\<close>

theorem acseq_round_trip:
  assumes "prims_ok p" "list_all (good_AC p) xs"
  shows "\<exists>a d. acseq_s2i (Some (map Some xs @ None # r)) = Some (Some a) \<and> acs a = xs \<and>
    i2d_AC_SEQ p a = Some [d] \<and> d2i_AC_SEQ p d = Some \<lparr>acs = map read_AC xs\<rparr>"
proof -
  have "\<exists>t. inverse (i2d_AC p) (d2i_AC p) t x (read_AC x)" if "x \<in> set xs" for x
    using that assms AC_inverse [of p x] by (auto simp: list_all_iff)
  then obtain ds where "put_all (map (i2d_AC p) xs) = Some ds" "those (map (d2i_AC p) ds) = Some (map read_AC xs)"
    by (rule put_all_map_inverse)
  then obtain d where "sequence [put_SEQUENCE (i2d_AC p) xs] = Some [d]" "read_sequence (d2i_AC p) d = Some (map read_AC xs)"
    using read_sequence_of by fastforce
  then show ?thesis
    by (intro exI [of _ "\<lparr>acs = xs\<rparr>"] exI [of _ d])
      (simp add: i2d_AC_SEQ_def d2i_AC_SEQ_def acseq_s2i_def acseq_loop_contents)
qed

lemma certs_round_trip:
  assumes "prims_ok p"
  shows "\<exists>d. certs_s2i p (Some certs) = Some \<lparr>stackcert = map Some certs\<rparr> \<and>
    i2d_AC_CERTS p \<lparr>stackcert = map Some certs\<rparr> = Some [d] \<and> d2i_AC_CERTS p d = Some \<lparr>stackcert = map Some certs\<rparr>"
proof -
  have "put_all (map (put_ptr (put (c_cert p))) (map Some certs)) = Some (map (enc (c_cert p)) certs)"
    using put_codec_list [of "c_cert p" certs] by (simp add: comp_def put_ptr_def)
  moreover have "those (map (dec (c_cert p)) (map (enc (c_cert p)) certs)) = Some certs"
    by (rule dec_codec_list [OF prims_codecs(11) [OF assms]])
  ultimately obtain d where "sequence [put_SEQUENCE (put_ptr (put (c_cert p))) (map Some certs)] = Some [d]"
      "read_sequence (dec (c_cert p)) d = Some certs"
    using read_sequence_of by fastforce
  moreover have "map (X509_dup p) certs = map Some certs" by (simp add: X509_dup_def prims_dec [OF assms])
  ultimately show ?thesis
    by (simp add: certs_s2i_def i2d_AC_CERTS_def d2i_AC_CERTS_def)
qed

lemma attributes_round_trip_witness:
  "\<exists>d. i2d_AC_FULL_ATTRIBUTES sample_prims \<lparr>providers = [Some \<lparr>ah_grantor = [Gen_uri ''vo://host''],
       ah_attributes = [\<lparr>ab_name = ''nick'', ab_qualifier = ''vo'', ab_value = ''x''\<rparr>]\<rparr>]\<rparr> = Some [d] \<and>
     d2i_AC_FULL_ATTRIBUTES sample_prims d = Some \<lparr>providers = [Some \<lparr>ah_grantor = [Gen_uri ''vo://host''],
       ah_attributes = [\<lparr>ab_name = ''nick'', ab_qualifier = ''vo'', ab_value = ''x''\<rparr>]\<rparr>]\<rparr>"
  using attributes_round_trip [OF sample_prims_ok, of "[\<lparr>ah_grantor = [Gen_uri ''vo://host''],
       ah_attributes = [\<lparr>ab_name = ''nick'', ab_qualifier = ''vo'', ab_value = ''x''\<rparr>]\<rparr>]"]
  by (simp add: attributes_s2i_def att_holder_dup_same [OF sample_prims_ok])

lemma targets_round_trip_witness:
  "\<exists>a d. targets_s2i (\<lambda>_. True) ''a,,b'' = Some a \<and> targets a = [uri_target ''a'', uri_target [], uri_target ''b''] \<and>
    i2d_AC_TARGETS sample_prims a = Some [d] \<and> d2i_AC_TARGETS sample_prims d = Some a"
  using targets_round_trip [OF sample_prims_ok, of "\<lambda>_. True" "''a,,b''"] by simp

lemma acseq_round_trip_witness:
  "\<exists>a d. acseq_s2i (Some [Some (sample_AC None), None]) = Some (Some a) \<and> i2d_AC_SEQ sample_prims a = Some [d] \<and>
    d2i_AC_SEQ sample_prims d = Some \<lparr>acs = [read_AC (sample_AC None)]\<rparr>"
  using acseq_round_trip [OF sample_prims_ok, of "[sample_AC None]" "[]"] sample_AC_good by auto

end
