(* ===== verification/WriteAC.thy ===== *)
theory WriteAC
  imports AcExts Step
begin

text \<open>
  The making of attribute certificates (src/src/ac/write.c): the server's \<open>writeac\<close>, which fills a
  new certificate for a holder from the attributes of the holder and signs it.

  A step goes on with the state as it is by then, fails with the code of an error, or is undefined
  behaviour. The state is the certificate and what the function owns: which of its pointers are not
  NULL, which of the blocks they were given are allocated, and which hang in another block. Freeing
  a block that was freed is undefined. Certificates have names, so the two errors for missing names
  do not occur. The attribute strings are cut in place by the code; their callers drop them
  afterwards. What a failed or a successful call leaks is not followed, and neither is the object of
  the capability type, which \<open>ASN1_OBJECT_free\<close> leaves alone as it is in the table of objects.
\<close>

definition AC_ERR_UNKNOWN :: int where "AC_ERR_UNKNOWN = 5047"
definition AC_ERR_MEMORY :: int where "AC_ERR_MEMORY = 5043"
definition AC_ERR_PARAMETERS :: int where "AC_ERR_PARAMETERS = 5048"
definition AC_ERR_NO_EXTENSION :: int where "AC_ERR_NO_EXTENSION = 5051"

lemmas ac_errs = AC_ERR_UNKNOWN_def AC_ERR_MEMORY_def AC_ERR_PARAMETERS_def AC_ERR_NO_EXTENSION_def

text \<open>
  \<open>w_mem n\<close> says whether the \<open>n\<close>-th group of allocations succeeds (from 10 on, the blocks of
  the pointers below), \<open>w_object\<close> is
  \<open>OBJ_txt2obj (s, 0)\<close>, \<open>w_bytes\<close> the bytes of an encoded value; \<open>w_special\<close> is the extension made
  of a text that asks OpenSSL for a criticality or an encoding of its own. \<open>w_sign\<close> is
  \<open>ASN1_sign\<close>, with \<open>w_sign_alg\<close> the algorithm it stores; it may fail.
\<close>

record wenv =
  w_prims :: prims
  w_mem :: "nat \<Rightarrow> bool"
  w_clock :: int
  w_gentime :: "int \<Rightarrow> cstring"
  w_object :: "cstring \<Rightarrow> oid option"
  w_bytes :: "der \<Rightarrow> bytes"
  w_key_bits :: "x509 \<Rightarrow> bytes"
  w_sha1 :: "bytes \<Rightarrow> bytes"
  w_keyid :: "bytes option \<Rightarrow> written"
  w_special :: "cstring \<Rightarrow> x509_extension option"
  w_cert_alg :: "x509 \<Rightarrow> x509_algor"
  w_sig_alg :: "x509 \<Rightarrow> x509_algor"
  w_uid :: "x509 \<Rightarrow> bytes option"
  w_md_of :: "oid \<Rightarrow> cstring option"
  w_sign_alg :: "cstring \<Rightarrow> x509_algor"
  w_sign :: "written \<Rightarrow> pkey \<Rightarrow> cstring \<Rightarrow> bytes option"

section \<open>What the function owns\<close>

text \<open>The pointers that are freed after an error; \<open>block_nr\<close> numbers their allocations for \<open>w_mem\<close>.\<close>

datatype pointer =
    Subjdup | Issdup | Dirn | Dirn2 | Holdserial | Serial | Capabilities | Capnames | Time1 | Time2
  | Att_holder | Full_attrs

definition pointers :: "pointer list" where
  "pointers = [Subjdup, Issdup, Dirn, Dirn2, Holdserial, Serial, Capabilities, Capnames, Time1, Time2,
     Att_holder, Full_attrs]"

fun block_nr :: "pointer \<Rightarrow> nat" where
  "block_nr Subjdup = 10"
| "block_nr Issdup = 11"
| "block_nr Dirn = 12"
| "block_nr Dirn2 = 13"
| "block_nr Holdserial = 14"
| "block_nr Serial = 15"
| "block_nr Capabilities = 16"
| "block_nr Capnames = 17"
| "block_nr Time1 = 18"
| "block_nr Time2 = 19"
| "block_nr Att_holder = 20"
| "block_nr Full_attrs = 21"

text \<open>
  A block is named after the pointer it was allocated for: \<open>fr_set\<close> are the pointers that are not
  NULL, \<open>fr_live\<close> the allocated blocks, and \<open>fr_parts b\<close> the blocks that hang in \<open>b\<close> and are freed
  with it.
\<close>

record frame =
  fr_set :: "pointer list"
  fr_live :: "pointer list"
  fr_parts :: "pointer \<Rightarrow> pointer list"

definition allocated :: "wenv \<Rightarrow> frame" where
  "allocated env =
     (let got = filter (\<lambda>x. w_mem env (block_nr x)) pointers
      in \<lparr>fr_set = got, fr_live = got, fr_parts = (\<lambda>_. [])\<rparr>)"

definition set_null :: "pointer \<Rightarrow> frame \<Rightarrow> frame" where
  "set_null x fr = fr\<lparr>fr_set := removeAll x (fr_set fr)\<rparr>"

definition hang :: "pointer \<Rightarrow> pointer \<Rightarrow> frame \<Rightarrow> frame" where
  "hang x y fr = fr\<lparr>fr_parts := (fr_parts fr)(y := fr_parts fr y @ [x])\<rparr>"

fun drop_blocks :: "pointer list \<Rightarrow> pointer list \<Rightarrow> pointer list option" where
  "drop_blocks [] live = Some live"
| "drop_blocks (x # xs) live = (if x \<in> set live then drop_blocks xs (removeAll x live) else None)"

text \<open>Freeing what a pointer points to: nothing when it is NULL.\<close>

definition free_block :: "pointer \<Rightarrow> frame \<Rightarrow> frame option" where
  "free_block x fr =
     (if x \<in> set (fr_set fr)
      then map_option (\<lambda>l. fr\<lparr>fr_live := l\<rparr>) (drop_blocks (x # fr_parts fr x) (fr_live fr))
      else Some fr)"

fun free_blocks :: "pointer list \<Rightarrow> frame \<Rightarrow> frame option" where
  "free_blocks [] fr = Some fr"
| "free_blocks (x # xs) fr = (case free_block x fr of None \<Rightarrow> None | Some fr \<Rightarrow> free_blocks xs fr)"

section \<open>Steps\<close>

datatype ('a, 's) ac_step = Broken | Failed int 's | Went 'a 's

definition athen :: "('a, 's) ac_step \<Rightarrow> ('a \<Rightarrow> 's \<Rightarrow> ('b, 's) ac_step) \<Rightarrow> ('b, 's) ac_step" where
  "athen m f = (case m of Broken \<Rightarrow> Broken | Failed e a \<Rightarrow> Failed e a | Went x a \<Rightarrow> f x a)"

lemma athen_simps [simp]: "athen Broken f = Broken" "athen (Failed e a) f = Failed e a" "athen (Went x a) f = f x a"
  by (simp_all add: athen_def)

lemma athen_Went: "athen m f = Went y b \<longleftrightarrow> (\<exists>x a. m = Went x a \<and> f x a = Went y b)"
  by (cases m) simp_all

lemma athen_same: "(\<And>x b. m = Went x b \<Longrightarrow> b = a) \<Longrightarrow> athen m f = athen m (\<lambda>x _. f x a)"
  by (cases m) auto

lemma athen_Broken: "athen m f = Broken \<longleftrightarrow> m = Broken \<or> (\<exists>x a. m = Went x a \<and> f x a = Broken)"
  by (cases m) simp_all

lemma athen_Failed: "athen m f = Failed e b \<longleftrightarrow> m = Failed e b \<or> (\<exists>x a. m = Went x a \<and> f x a = Failed e b)"
  by (cases m) simp_all

record call =
  cl_ac :: AC
  cl_own :: frame

text \<open>A step on the certificate alone, and the freeing of a block.\<close>

definition on_ac :: "(AC \<Rightarrow> ('a, AC) ac_step) \<Rightarrow> call \<Rightarrow> ('a, call) ac_step" where
  "on_ac f c =
     (case f (cl_ac c) of Broken \<Rightarrow> Broken | Failed e a \<Rightarrow> Failed e (c\<lparr>cl_ac := a\<rparr>) | Went x a \<Rightarrow> Went x (c\<lparr>cl_ac := a\<rparr>))"

definition owning :: "(frame \<Rightarrow> frame) \<Rightarrow> call \<Rightarrow> call" where
  "owning f c = c\<lparr>cl_own := f (cl_own c)\<rparr>"

definition free_local :: "pointer \<Rightarrow> call \<Rightarrow> (unit, call) ac_step" where
  "free_local x c = (case free_block x (cl_own c) of None \<Rightarrow> Broken | Some fr \<Rightarrow> Went () (c\<lparr>cl_own := fr\<rparr>))"

section \<open>Extensions and names\<close>

text \<open>\<open>X509V3_EXT_conf_nid\<close> with what the method of the name wrote.\<close>

definition conf_ext :: "wenv \<Rightarrow> cstring \<Rightarrow> written \<Rightarrow> x509_extension option" where
  "conf_ext env name w =
     (case (w_object env name, w) of
        (Some ob, Some [d]) \<Rightarrow> Some \<lparr>ext_object = ob, ext_critical = False, ext_data = w_bytes env d\<rparr>
      | _ \<Rightarrow> None)"

text \<open>Pushing to a stack that is NULL does nothing.\<close>

definition push_ext :: "x509_extension \<Rightarrow> AC \<Rightarrow> AC" where
  "push_ext e a = a\<lparr>acinfo := (acinfo a)\<lparr>in_exts := map_option (\<lambda>l. l @ [e]) (in_exts (acinfo a))\<rparr>\<rparr>"

definition make_and_push_ext :: "x509_extension option \<Rightarrow> bool \<Rightarrow> AC \<Rightarrow> (unit, AC) ac_step" where
  "make_and_push_ext ext critical a =
     (case ext of
        Some e \<Rightarrow> Went () (push_ext (e\<lparr>ext_critical := critical\<rparr>) a)
      | None \<Rightarrow> Failed AC_ERR_NO_EXTENSION a)"

definition make_uri :: "bool \<Rightarrow> cstring option \<Rightarrow> cstring option \<Rightarrow> general_name list \<Rightarrow> general_name list" where
  "make_uri mem vo uri names =
     (if vo \<noteq> None \<or> uri \<noteq> None then
        (let buffer = the_or [] vo @ ''://'' @ the_or [] uri
         in if mem then names @ [Gen_uri buffer] else names)
      else names)"

text \<open>The targets: a text with a prefix OpenSSL knows is not taken by the method.\<close>

definition plain_text :: "cstring \<Rightarrow> bool" where
  "plain_text t \<longleftrightarrow> strncmp t ''critical,'' 9 \<noteq> 0 \<and> strncmp t ''DER:'' 4 \<noteq> 0 \<and> strncmp t ''ASN1:'' 5 \<noteq> 0"

definition targets_ext :: "wenv \<Rightarrow> cstring \<Rightarrow> x509_extension option" where
  "targets_ext env t =
     (if plain_text t then
        (case targets_s2i (\<lambda>n. w_mem env (1000 + n)) t of
           None \<Rightarrow> None
         | Some ts \<Rightarrow> conf_ext env ''idceTargets'' (write_value (w_prims env) (w_keyid env) (Targets_value ts)))
      else w_special env t)"

section \<open>The attributes\<close>

text \<open>The loop over the FQANs; \<open>n\<close> numbers the allocations.\<close>

fun fqan_loop :: "wenv \<Rightarrow> nat \<Rightarrow> cstring cells \<Rightarrow> AC_IETFATTRVAL list \<Rightarrow> 's \<Rightarrow> (AC_IETFATTRVAL list, 's) ac_step" where
  "fqan_loop env n [] acc a = Broken"
| "fqan_loop env n (None # r) acc a = Went acc a"
| "fqan_loop env n (Some f # r) acc a =
     (if w_mem env n then fqan_loop env (Suc n) r (acc @ [String_val V_ASN1_OCTET_STRING f]) a
      else Failed AC_ERR_MEMORY a)"

text \<open>One attribute string, qualifier::name=value: without the colons a NULL pointer is written to.\<close>

definition split_attribute :: "cstring option \<Rightarrow> cstring \<Rightarrow> 's \<Rightarrow> (AC_ATTRIBUTE, 's) ac_step" where
  "split_attribute vo s a =
     (case strstr s ''::'' of
        None \<Rightarrow> Broken
      | Some i \<Rightarrow>
          (let qual = (if i = 0 then None else Some (take i s));
               rest = drop (i + 2) s
           in case strstr rest ''='' of
                None \<Rightarrow> Failed AC_ERR_PARAMETERS a
              | Some j \<Rightarrow>
                  Went (AC_ATTRIBUTE_new\<lparr>ab_qualifier := (case qual of Some q \<Rightarrow> q | None \<Rightarrow> the_or [] vo),
                     ab_name := take j rest, ab_value := drop (Suc j) rest\<rparr>) a))"

fun attribute_loop :: "wenv \<Rightarrow> cstring option \<Rightarrow> nat \<Rightarrow> cstring cells \<Rightarrow> AC_ATTRIBUTE list \<Rightarrow> 's \<Rightarrow> (AC_ATTRIBUTE list, 's) ac_step" where
  "attribute_loop env vo n [] acc a = Broken"
| "attribute_loop env vo n (None # r) acc a = Went acc a"
| "attribute_loop env vo n (Some s # r) acc a =
     (if w_mem env n then athen (split_attribute vo s a) (\<lambda>x a. attribute_loop env vo (Suc n) r (acc @ [x]) a)
      else Failed AC_ERR_MEMORY a)"

section \<open>The certificate\<close>

record ac_request =
  rq_issuerc :: x509
  rq_issuerstack :: "x509 list option"
  rq_holder :: x509
  rq_pkey :: pkey
  rq_serial :: int
  rq_fqan :: "cstring cells"
  rq_targets :: "cstring option"
  rq_attributes :: "cstring cells option"
  rq_vo :: "cstring option"
  rq_uri :: "cstring option"
  rq_valid :: int
  rq_old :: int
  rq_startpast :: int
  rq_extensions :: "x509_extension list option"

text \<open>
  Up to the attributes: the FQANs go into the one attribute of the capability type, only when a
  VO or a URI is given. The result is the list of the other attributes. Their holder is freed when
  there are none, and its pointer is left; the attribute of the capability type goes to the
  certificate.
\<close>

definition ac_capabilities :: "wenv \<Rightarrow> ac_request \<Rightarrow> call \<Rightarrow> (AC_ATTRIBUTE list, call) ac_step" where
  "ac_capabilities env r c =
     (let c = owning (\<lambda>_. allocated env) c
      in case w_object env ''idatcap'' of
        None \<Rightarrow> Failed AC_ERR_MEMORY c
      | Some cobj \<Rightarrow>
          if \<not> w_mem env 0 \<or> \<not> list_all (\<lambda>x. x \<in> set (fr_set (cl_own c))) pointers then Failed AC_ERR_MEMORY c
          else
            athen (fqan_loop env 100 (rq_fqan r) [] c) (\<lambda>values c.
              let capnames = \<lparr>ia_names = Some (make_uri (w_mem env 1) (rq_vo r) (rq_uri r) []), ia_values = values\<rparr>;
                  capabilities = AC_ATTR_new\<lparr>
                    aa_ietfattr := (if rq_vo r \<noteq> None \<or> rq_uri r \<noteq> None then [capnames] else []),
                    aa_get_type := Some GET_TYPE_FQAN, aa_type := cobj\<rparr>;
                  c = (if rq_vo r \<noteq> None \<or> rq_uri r \<noteq> None
                       then owning (set_null Capnames \<circ> hang Capnames Capabilities) c else c)
              in athen (case rq_attributes r of None \<Rightarrow> Went [] c | Some l \<Rightarrow> attribute_loop env (rq_vo r) 500 l [] c)
                   (\<lambda>attrs c.
                 athen (if attrs = [] then free_local Att_holder c else Went () (owning (hang Att_holder Full_attrs) c))
                   (\<lambda>_ c. Went attrs
                      (owning (set_null Capabilities)
                        (c\<lparr>cl_ac := (cl_ac c)\<lparr>acinfo := (acinfo (cl_ac c))\<lparr>in_attrib := in_attrib (acinfo (cl_ac c)) @ [capabilities]\<rparr>\<rparr>\<rparr>))))))"

text \<open>The list of holders is freed in any case, and both pointers are set to NULL if there is one.\<close>

definition ac_attributes :: "wenv \<Rightarrow> ac_request \<Rightarrow> AC_ATTRIBUTE list \<Rightarrow> call \<Rightarrow> (unit, call) ac_step" where
  "ac_attributes env r attrs c =
     (if attrs = [] then free_local Full_attrs c
      else
        (let holder = \<lparr>ah_grantor = make_uri (w_mem env 2) (rq_vo r) (rq_uri r) [], ah_attributes = attrs\<rparr>;
             made = on_ac (\<lambda>a. case attributes_s2i (w_prims env) (Some [holder]) of
                None \<Rightarrow> Failed AC_ERR_NO_EXTENSION a
              | Some v \<Rightarrow>
                  make_and_push_ext (conf_ext env ''attributes'' (write_value (w_prims env) (w_keyid env) (Attributes_value v)))
                    False a) c;
             clear = (\<lambda>c. athen (free_local Full_attrs c) (\<lambda>_ c. Went () (owning (set_null Att_holder \<circ> set_null Full_attrs) c)))
         in case made of
              Broken \<Rightarrow> Broken
            | Failed e c \<Rightarrow> athen (clear c) (\<lambda>_ c. Failed AC_ERR_NO_EXTENSION c)
            | Went _ c \<Rightarrow> clear c))"

text \<open>The certificates of the issuer, each a copy; one that could not be made is not written.\<close>

definition ac_certseq :: "wenv \<Rightarrow> ac_request \<Rightarrow> x509_extension option" where
  "ac_certseq env r =
     (let stk = List.map_filter (X509_dup (w_prims env)) (the_or [] (rq_issuerstack r) @ [rq_issuerc r])
      in case certs_s2i (w_prims env) (Some stk) of
           None \<Rightarrow> None
         | Some v \<Rightarrow> conf_ext env ''certseq'' (write_value (w_prims env) (w_keyid env) (Certs_value v)))"

definition ac_authkey :: "wenv \<Rightarrow> ac_request \<Rightarrow> x509_extension option" where
  "ac_authkey env r =
     (case authkey_s2i (w_mem env 3) (w_sha1 env) (w_key_bits env (rq_issuerc r)) of
        None \<Rightarrow> None
      | Some k \<Rightarrow> conf_ext env ''authKeyId'' (write_value (w_prims env) (w_keyid env) (Keyid_value k)))"

text \<open>
  The extensions handed in: each of the \<open>n\<close> turns copies the extension with the index \<open>i\<close>, which
  is left from the loops before. There is nothing to copy past the end.
\<close>

fun ac_passed :: "wenv \<Rightarrow> nat \<Rightarrow> nat \<Rightarrow> x509_extension list \<Rightarrow> AC \<Rightarrow> (unit, AC) ac_step" where
  "ac_passed env 0 i exts a = Went () a"
| "ac_passed env (Suc n) i exts a =
     (if i < length exts \<and> w_mem env (2000 + n) \<and> in_exts (acinfo a) \<noteq> None
      then ac_passed env n i exts (push_ext (exts ! i) a)
      else Failed AC_ERR_UNKNOWN a)"

definition ac_extensions :: "wenv \<Rightarrow> ac_request \<Rightarrow> nat \<Rightarrow> AC \<Rightarrow> (unit, AC) ac_step" where
  "ac_extensions env r count a =
     athen (make_and_push_ext (ac_certseq env r) False a) (\<lambda>_ a.
     athen (make_and_push_ext
              (conf_ext env ''idcenoRevAvail'' (write_value (w_prims env) (w_keyid env) Null_value)) False a) (\<lambda>_ a.
     athen (make_and_push_ext (ac_authkey env r) False a) (\<lambda>_ a.
     athen (case rq_targets r of None \<Rightarrow> Went () a | Some t \<Rightarrow> make_and_push_ext (targets_ext env t) True a) (\<lambda>_ a.
     athen (case rq_extensions r of
              None \<Rightarrow> Went () a
            | Some exts \<Rightarrow>
                ac_passed env (length exts) (case rq_issuerstack r of None \<Rightarrow> count | Some l \<Rightarrow> length l) exts a) (\<lambda>_ a.
       if w_uid env (rq_issuerc r) \<noteq> None \<and> \<not> w_mem env 4 then Failed AC_ERR_MEMORY a else Went () a)))))"

text \<open>The fields, and the signature over them; that the signing failed is not noticed.\<close>

definition ac_fields :: "wenv \<Rightarrow> ac_request \<Rightarrow> AC_IS \<Rightarrow> AC_FORM \<Rightarrow> AC \<Rightarrow> AC" where
  "ac_fields env r base form a =
     (let holder = rq_holder r;
          name2 = (if rq_old r \<noteq> 0 then x_subject holder else x_issuer holder)
      in a\<lparr>acinfo := (acinfo a)\<lparr>
             in_holder := (in_holder (acinfo a))\<lparr>hd_baseid := Some (base\<lparr>is_serial := x_serial holder,
                is_issuer := is_issuer base @ [Gen_dirname name2]\<rparr>)\<rparr>,
             in_serial := rq_serial r, in_version := 1,
             in_validity := \<lparr>va_notBefore = Some (w_gentime env (w_clock env - rq_startpast r)),
                va_notAfter = Some (w_gentime env (w_clock env + rq_valid r - rq_startpast r))\<rparr>,
             in_alg := w_cert_alg env (rq_issuerc r),
             in_form := Some (form\<lparr>fm_names := fm_names form @ [Gen_dirname (x_subject (rq_issuerc r))]\<rparr>),
             in_id := w_uid env (rq_issuerc r)\<rparr>,
           sig_alg := w_sig_alg env (rq_issuerc r)\<rparr>)"

definition ac_sign :: "wenv \<Rightarrow> pkey \<Rightarrow> AC \<Rightarrow> AC" where
  "ac_sign env pkey a =
     (let md = (case w_md_of env (xa_algorithm (sig_alg a)) of Some m \<Rightarrow> m | None \<Rightarrow> ''SHA1'');
          a = a\<lparr>acinfo := (acinfo a)\<lparr>in_alg := w_sign_alg env md\<rparr>, sig_alg := w_sign_alg env md\<rparr>
      in a\<lparr>signature := the_or (signature a) (w_sign env (i2d_AC_INFO (w_prims env) (acinfo a)) pkey md)\<rparr>)"

text \<open>The exit through \<open>err\<close>: the certificate it leaves, and the code unless a block is freed again.\<close>

definition ac_failed :: "AC \<Rightarrow> AC" where
  "ac_failed a = a\<lparr>acinfo := (acinfo a)\<lparr>in_exts := None\<rparr>\<rparr>"

definition ac_exit :: "int \<Rightarrow> call \<Rightarrow> (int \<times> AC) option" where
  "ac_exit e c = map_option (\<lambda>_. (e, ac_failed (cl_ac c))) (free_blocks pointers (cl_own c))"

text \<open>
  \<open>writeac\<close>: the code and the certificate. \<open>None\<close> is undefined behaviour, also a certificate whose
  holder or issuer form is missing.
\<close>

definition nothing_owned :: frame where
  "nothing_owned = \<lparr>fr_set = [], fr_live = [], fr_parts = (\<lambda>_. [])\<rparr>"

definition writeac :: "wenv \<Rightarrow> ac_request \<Rightarrow> AC \<Rightarrow> (int \<times> AC) option" where
  "writeac env r a =
     (case athen (ac_capabilities env r \<lparr>cl_ac = a, cl_own = nothing_owned\<rparr>) (\<lambda>attrs c.
           athen (ac_attributes env r attrs c) (\<lambda>_ c.
           on_ac (ac_extensions env r (length attrs)) c)) of
        Broken \<Rightarrow> None
      | Failed e c \<Rightarrow> ac_exit e c
      | Went _ c \<Rightarrow>
          (let a = cl_ac c
           in case (hd_baseid (in_holder (acinfo a)), in_form (acinfo a)) of
                (Some base, Some form) \<Rightarrow> Some (0, ac_sign env (rq_pkey r) (ac_fields env r base form a))
              | _ \<Rightarrow> None))"

text \<open>The call with the pointers that may be NULL.\<close>

definition writeac_call ::
  "wenv \<Rightarrow> (x509 \<Rightarrow> x509 \<Rightarrow> int \<Rightarrow> cstring cells \<Rightarrow> pkey \<Rightarrow> ac_request) \<Rightarrow> x509 option \<Rightarrow> x509 option \<Rightarrow> int option \<Rightarrow>
   cstring cells option \<Rightarrow> AC option \<Rightarrow> pkey option \<Rightarrow> (int \<times> AC option) option" where
  "writeac_call env mk issuerc holder s fqan ac pkey =
     (case (issuerc, holder, s, fqan, ac, pkey) of
        (Some i, Some h, Some n, Some f, Some a, Some k) \<Rightarrow> map_option (apsnd Some) (writeac env (mk i h n f k) a)
      | _ \<Rightarrow> Some (AC_ERR_PARAMETERS, ac))"

section \<open>What a written certificate says\<close>

text \<open>A certificate without its extensions, which the steps after the attributes add.\<close>

abbreviation core :: "AC \<Rightarrow> AC" where "core \<equiv> ac_failed"

lemma core_push [simp]: "core (push_ext e a) = core a"
  by (simp add: push_ext_def ac_failed_def)

lemma core_push_made: "make_and_push_ext e c a = Went u b \<Longrightarrow> core b = core a"
  by (auto simp: make_and_push_ext_def split: option.splits)

lemma core_passed: "ac_passed env n i exts a = Went u b \<Longrightarrow> core b = core a"
  by (induction n arbitrary: a) (auto split: if_splits)

lemma core_targets:
  "(case t of None \<Rightarrow> Went () a | Some t \<Rightarrow> make_and_push_ext (f t) True a) = Went u b \<Longrightarrow> core b = core a"
  by (cases t) (auto dest: core_push_made)

lemma core_passed_opt:
  "(case x of None \<Rightarrow> Went () a | Some exts \<Rightarrow> ac_passed env (length exts) i exts a) = Went u b \<Longrightarrow> core b = core a"
  by (cases x) (auto dest: core_passed)

lemma core_extensions: "ac_extensions env r n a = Went u b \<Longrightarrow> core b = core a"
  unfolding ac_extensions_def athen_Went
  by (elim exE conjE, drule core_push_made, drule core_push_made, drule core_push_made, drule core_targets,
      drule core_passed_opt) (simp split: if_splits)

text \<open>The codes of the errors, none of which is 0.\<close>

definition fails_with :: "int set \<Rightarrow> ('a, 's) ac_step \<Rightarrow> bool" where
  "fails_with es m \<longleftrightarrow> (case m of Failed e a \<Rightarrow> e \<in> es | _ \<Rightarrow> True)"

lemma fails_with_simps [simp]:
  "fails_with es Broken" "fails_with es (Went x a)" "fails_with es (Failed e a) = (e \<in> es)"
  by (simp_all add: fails_with_def)

lemma fails_athen: "fails_with es m \<Longrightarrow> (\<And>x a. fails_with es (f x a)) \<Longrightarrow> fails_with es (athen m f)"
  by (cases m) simp_all

abbreviation "first_codes \<equiv> {AC_ERR_MEMORY, AC_ERR_PARAMETERS, AC_ERR_NO_EXTENSION}"

lemma fails_push: "fails_with {AC_ERR_NO_EXTENSION} (make_and_push_ext e c a)"
  by (simp add: make_and_push_ext_def split: option.split)

lemma fails_subset: "fails_with es m \<Longrightarrow> es \<subseteq> fs \<Longrightarrow> fails_with fs m"
  by (cases m) auto

lemma fails_fqan: "fails_with first_codes (fqan_loop env n l acc a)"
  by (induction env n l acc a rule: fqan_loop.induct) auto

lemma fails_attribute: "fails_with first_codes (attribute_loop env vo n l acc a)"
proof (induction env vo n l acc a rule: attribute_loop.induct)
  case (3 env vo n s r acc a)
  have "fails_with first_codes (split_attribute vo s a)"
    by (auto simp: split_attribute_def Let_def split: option.split)
  with 3 show ?case by (cases "split_attribute vo s a") auto
qed simp_all

lemma fails_free [simp]: "fails_with es (free_local x c)"
  by (simp add: free_local_def split: option.split)

lemma fails_capabilities: "fails_with first_codes (ac_capabilities env r c)"
  by (auto simp: ac_capabilities_def Let_def fails_fqan fails_attribute intro!: fails_athen split: option.split)

lemma fails_attributes: "fails_with first_codes (ac_attributes env r attrs c)"
  by (auto simp: ac_attributes_def Let_def intro!: fails_athen split: ac_step.split)

lemma fails_passed: "fails_with {AC_ERR_UNKNOWN} (ac_passed env n i exts a)"
  by (induction n arbitrary: a) auto

abbreviation "second_codes \<equiv> {AC_ERR_MEMORY, AC_ERR_NO_EXTENSION, AC_ERR_UNKNOWN}"

lemma fails_opt:
  "(\<And>y. fails_with es (f y)) \<Longrightarrow> fails_with es (case x of None \<Rightarrow> Went () a | Some y \<Rightarrow> f y)"
  by (cases x) simp_all

lemma fails_extensions: "fails_with second_codes (ac_extensions env r n a)"
  unfolding ac_extensions_def
  by (intro fails_athen fails_opt fails_subset [OF fails_push] fails_subset [OF fails_passed]) auto

lemma not_failed: "fails_with es m \<Longrightarrow> 0 \<notin> es \<Longrightarrow> m \<noteq> Failed 0 b"
  by auto

lemma on_ac_Failed: "on_ac f c = Failed e d \<longleftrightarrow> (\<exists>a. f (cl_ac c) = Failed e a \<and> d = c\<lparr>cl_ac := a\<rparr>)"
  by (auto simp: on_ac_def split: ac_step.split)

lemma on_ac_Went: "on_ac f c = Went x d \<longleftrightarrow> (\<exists>a. f (cl_ac c) = Went x a \<and> d = c\<lparr>cl_ac := a\<rparr>)"
  by (auto simp: on_ac_def split: ac_step.split)

lemma never_zero:
  "ac_capabilities env r c \<noteq> Failed 0 d" "ac_attributes env r attrs c \<noteq> Failed 0 d" "ac_extensions env r n a \<noteq> Failed 0 b"
  by (rule not_failed [OF fails_capabilities] not_failed [OF fails_attributes] not_failed [OF fails_extensions];
      simp add: ac_errs)+

lemma core_fields:
  assumes "core a = core b"
  shows "in_attrib (acinfo a) = in_attrib (acinfo b)" "in_holder (acinfo a) = in_holder (acinfo b)"
    "in_form (acinfo a) = in_form (acinfo b)"
  using arg_cong [OF assms, of "\<lambda>a. in_attrib (acinfo a)"] arg_cong [OF assms, of "\<lambda>a. in_holder (acinfo a)"]
    arg_cong [OF assms, of "\<lambda>a. in_form (acinfo a)"] by (simp_all add: ac_failed_def)

lemma fqan_loop_Went:
  "fqan_loop env n l acc a = Went vs b \<Longrightarrow> b = a \<and> vs = acc @ map (String_val V_ASN1_OCTET_STRING) (cells_contents l)"
  by (induction env n l acc a rule: fqan_loop.induct) (auto split: if_splits)

text \<open>What an attribute string asks for: a qualifier up to the first two colons, a name up to an equals sign, a value.\<close>

definition asked :: "cstring option \<Rightarrow> cstring \<Rightarrow> AC_ATTRIBUTE \<Rightarrow> bool" where
  "asked vo s x \<longleftrightarrow>
     (\<exists>q n v. s = q @ ''::'' @ n @ ''='' @ v \<and> (\<forall>i<length q. \<not> prefix ''::'' (drop i s)) \<and> CHR ''='' \<notin> set n \<and>
        x = \<lparr>ab_name = n, ab_qualifier = (if q = [] then the_or [] vo else q), ab_value = v\<rparr>)"

lemma first_equals:
  assumes "strstr s ''='' = Some j"
  shows "s = take j s @ ''='' @ drop (Suc j) s" "CHR ''='' \<notin> set (take j s)"
proof -
  note f = strstr_SomeD [OF assms]
  from f(1,2) have j: "j < length s" "s ! j = CHR ''=''" by (auto simp: prefix_def) (metis nth_via_drop)
  then show "s = take j s @ ''='' @ drop (Suc j) s" using id_take_nth_drop [of j s] by simp
  show "CHR ''='' \<notin> set (take j s)"
  proof
    assume "CHR ''='' \<in> set (take j s)"
    then obtain i where "i < j" "s ! i = CHR ''=''" by (auto simp: in_set_conv_nth)
    with f(3) [of i] j(1) show False by (simp add: Cons_nth_drop_Suc [symmetric])
  qed
qed

lemma split_attribute_Went:
  assumes "split_attribute vo s a = Went x b"
  shows "b = a \<and> asked vo s x"
proof -
  obtain i where i: "strstr s ''::'' = Some i" using assms by (auto simp: split_attribute_def split: option.splits)
  let ?rest = "drop (i + 2) s"
  obtain j where j: "strstr ?rest ''='' = Some j" using assms i by (auto simp: split_attribute_def Let_def split: option.splits)
  note f = strstr_SomeD [OF i]
  from f(2) obtain zs where z: "drop i s = ''::'' @ zs" by (auto simp: prefix_def)
  have "?rest = drop 2 (drop i s)" by (simp add: add.commute)
  with z have "drop i s = ''::'' @ ?rest" by simp
  then have "s = take i s @ ''::'' @ ?rest" using append_take_drop_id [of i s] by simp
  then have s: "s = take i s @ ''::'' @ take j ?rest @ ''='' @ drop (Suc j) ?rest" using first_equals(1) [OF j] by simp
  have q: "(take i s = []) = (i = 0)" "length (take i s) = i" using f(1) by auto
  have "x = \<lparr>ab_name = take j ?rest, ab_qualifier = (if i = 0 then the_or [] vo else take i s), ab_value = drop (Suc j) ?rest\<rparr>"
    "b = a" using assms i j by (auto simp: split_attribute_def Let_def AC_ATTRIBUTE_new_def)
  then show ?thesis unfolding asked_def
    by (intro conjI exI [of _ "take i s"] exI [of _ "take j ?rest"] exI [of _ "drop (Suc j) ?rest"])
      (use s q f(3) first_equals(2) [OF j] in auto)
qed

lemma attribute_loop_Went:
  "attribute_loop env vo n l acc a = Went attrs b \<Longrightarrow>
     b = a \<and> (\<exists>xs. attrs = acc @ xs \<and> list_all2 (asked vo) (cells_contents l) xs)"
proof (induction env vo n l acc a rule: attribute_loop.induct)
  case (3 env vo n s r acc a)
  then obtain x c where x: "split_attribute vo s a = Went x c" "attribute_loop env vo (Suc n) r (acc @ [x]) c = Went attrs b"
    and m: "w_mem env n" by (auto simp: athen_Went split: if_splits)
  with 3 obtain xs where "b = c" "attrs = (acc @ [x]) @ xs" "list_all2 (asked vo) (cells_contents r) xs" by blast
  with split_attribute_Went [OF x(1)] show ?case by auto
qed auto

definition capability :: "wenv \<Rightarrow> ac_request \<Rightarrow> oid \<Rightarrow> AC_ATTR" where
  "capability env r cobj =
     \<lparr>aa_type = cobj, aa_get_type = Some GET_TYPE_FQAN,
      aa_ietfattr =
        (if rq_vo r \<noteq> None \<or> rq_uri r \<noteq> None then
           [\<lparr>ia_names = Some (make_uri (w_mem env 1) (rq_vo r) (rq_uri r) []),
             ia_values = map (String_val V_ASN1_OCTET_STRING) (cells_contents (rq_fqan r))\<rparr>]
         else [])\<rparr>"

text \<open>Freeing a list of pointers succeeds when no block is met twice and all of them are allocated.\<close>

lemma drop_blocks_Some: "drop_blocks xs live = Some l \<longleftrightarrow> distinct xs \<and> set xs \<subseteq> set live \<and> l = filter (\<lambda>x. x \<notin> set xs) live"
  by (induction xs arbitrary: live) (auto simp: removeAll_filter_not_eq intro!: filter_cong)

definition blocks_of :: "frame \<Rightarrow> pointer list \<Rightarrow> pointer list" where
  "blocks_of fr xs = concat (map (\<lambda>x. x # fr_parts fr x) (filter (\<lambda>x. x \<in> set (fr_set fr)) xs))"

lemma free_blocks_iff:
  "free_blocks xs fr \<noteq> None \<longleftrightarrow> distinct (blocks_of fr xs) \<and> set (blocks_of fr xs) \<subseteq> set (fr_live fr)"
proof (induction xs arbitrary: fr)
  case Nil
  then show ?case by (simp add: blocks_of_def)
next
  case (Cons x xs)
  show ?case
  proof (cases "x \<in> set (fr_set fr)")
    case False
    then show ?thesis using Cons [of fr] by (simp add: free_block_def blocks_of_def)
  next
    case True
    let ?ys = "x # fr_parts fr x"
    show ?thesis
    proof (cases "drop_blocks ?ys (fr_live fr)")
      case None
      then have "\<not> (distinct ?ys \<and> set ?ys \<subseteq> set (fr_live fr))" using drop_blocks_Some [of ?ys "fr_live fr"] by auto
      then show ?thesis using None True by (auto simp: free_block_def blocks_of_def)
    next
      case (Some l)
      then have l: "distinct ?ys" "set ?ys \<subseteq> set (fr_live fr)" "set l = set (fr_live fr) - set ?ys"
        unfolding drop_blocks_Some by auto
      have "blocks_of (fr\<lparr>fr_live := l\<rparr>) xs = blocks_of fr xs" by (simp add: blocks_of_def)
      moreover have "blocks_of fr (x # xs) = ?ys @ blocks_of fr xs" using True by (simp add: blocks_of_def)
      ultimately show ?thesis using Cons [of "fr\<lparr>fr_live := l\<rparr>"] Some True l by (auto simp: free_block_def)
    qed
  qed
qed

lemma ac_exit_None:
  "ac_exit e c = None \<longleftrightarrow>
     \<not> (distinct (blocks_of (cl_own c) pointers) \<and> set (blocks_of (cl_own c) pointers) \<subseteq> set (fr_live (cl_own c)))"
  using free_blocks_iff [of pointers "cl_own c"] by (auto simp: ac_exit_def)

text \<open>The frames in the course of the call.\<close>

definition all_allocated :: frame where
  "all_allocated = \<lparr>fr_set = pointers, fr_live = pointers, fr_parts = (\<lambda>_. [])\<rparr>"

definition linked :: "bool \<Rightarrow> frame \<Rightarrow> frame" where
  "linked v fr = (if v then set_null Capnames (hang Capnames Capabilities fr) else fr)"

definition with_holder :: "bool \<Rightarrow> frame" where
  "with_holder v = set_null Capabilities (hang Att_holder Full_attrs (linked v all_allocated))"

definition without_holder :: "bool \<Rightarrow> frame" where
  "without_holder v = set_null Capabilities ((linked v all_allocated)\<lparr>fr_live := removeAll Att_holder pointers\<rparr>)"

lemmas frame_defs = all_allocated_def linked_def with_holder_def without_holder_def set_null_def hang_def pointers_def blocks_of_def

lemma allocated_some: "free_blocks pointers (allocated env) \<noteq> None"
proof -
  have "blocks_of (allocated env) pointers = filter (\<lambda>x. w_mem env (block_nr x)) pointers"
    by (simp add: blocks_of_def allocated_def Let_def) (simp add: pointers_def)
  moreover have "distinct pointers" by (simp add: pointers_def)
  ultimately show ?thesis unfolding free_blocks_iff by (simp add: allocated_def Let_def)
qed

lemma allocated_all:
  "list_all (\<lambda>x. x \<in> set (fr_set (allocated env))) pointers \<longleftrightarrow> (\<forall>x\<in>set pointers. w_mem env (block_nr x))"
  "\<forall>x\<in>set pointers. w_mem env (block_nr x) \<Longrightarrow> allocated env = all_allocated"
  by (auto simp: allocated_def all_allocated_def Let_def list_all_iff)

lemma linked_frees: "free_blocks pointers (linked v all_allocated) \<noteq> None"
  unfolding free_blocks_iff by (cases v) (simp_all add: frame_defs)

lemma free_without: "free_block Att_holder (linked v all_allocated) = Some ((linked v all_allocated)\<lparr>fr_live := removeAll Att_holder pointers\<rparr>)"
  by (cases v) (simp_all add: frame_defs free_block_def)

lemma free_with: "free_block Full_attrs (with_holder v) =
    Some ((with_holder v)\<lparr>fr_live := removeAll Att_holder (removeAll Full_attrs pointers)\<rparr>)"
  by (cases v) (simp_all add: frame_defs free_block_def)

lemma free_without_full: "free_block Full_attrs (without_holder v) =
    Some ((without_holder v)\<lparr>fr_live := removeAll Att_holder (removeAll Full_attrs pointers)\<rparr>)"
  by (cases v) (simp_all add: frame_defs free_block_def)

text \<open>After the attributes: with a holder the exit frees every block once, without one it frees two again.\<close>

definition holder_done :: "bool \<Rightarrow> frame" where
  "holder_done v = set_null Att_holder (set_null Full_attrs ((with_holder v)\<lparr>fr_live := removeAll Att_holder (removeAll Full_attrs pointers)\<rparr>))"

definition no_holder_done :: "bool \<Rightarrow> frame" where
  "no_holder_done v = (without_holder v)\<lparr>fr_live := removeAll Att_holder (removeAll Full_attrs pointers)\<rparr>"

lemma holder_done_frees: "free_blocks pointers (holder_done v) \<noteq> None"
  unfolding free_blocks_iff by (cases v) (simp_all add: frame_defs holder_done_def)

lemma no_holder_done_frees: "free_blocks pointers (no_holder_done v) = None"
  using free_blocks_iff [of pointers "no_holder_done v"] by (cases v) (simp_all add: frame_defs no_holder_done_def)

abbreviation "uri_given r \<equiv> rq_vo r \<noteq> None \<or> rq_uri r \<noteq> None"

text \<open>The attribute strings, and what the first half needs: a registered type and memory.\<close>

definition strings :: "ac_request \<Rightarrow> cstring list" where
  "strings r = (case rq_attributes r of None \<Rightarrow> [] | Some l \<Rightarrow> cells_contents l)"

definition blocks_made :: "wenv \<Rightarrow> bool" where
  "blocks_made env \<longleftrightarrow> w_mem env 0 \<and> (\<forall>x\<in>set pointers. w_mem env (block_nr x))"

definition with_capability :: "wenv \<Rightarrow> ac_request \<Rightarrow> oid \<Rightarrow> AC \<Rightarrow> AC" where
  "with_capability env r cobj a = a\<lparr>acinfo := (acinfo a)\<lparr>in_attrib := in_attrib (acinfo a) @ [capability env r cobj]\<rparr>\<rparr>"

text \<open>\<open>ac_capabilities\<close> when the blocks were allocated, over the results of its two loops.\<close>

lemma ac_capabilities_made:
  assumes "w_object env ''idatcap'' = Some cobj" "blocks_made env"
  shows "ac_capabilities env r c =
    athen (fqan_loop env 100 (rq_fqan r) [] (owning (\<lambda>_. all_allocated) c)) (\<lambda>values _.
      athen (case rq_attributes r of
               None \<Rightarrow> Went [] (owning (\<lambda>_. linked (uri_given r) all_allocated) c)
             | Some l \<Rightarrow> attribute_loop env (rq_vo r) 500 l [] (owning (\<lambda>_. linked (uri_given r) all_allocated) c)) (\<lambda>attrs _.
        Went attrs \<lparr>cl_ac = with_capability env r cobj (cl_ac c),
          cl_own = (if attrs = [] then without_holder (uri_given r) else with_holder (uri_given r))\<rparr>))"
proof -
  have all: "allocated env = all_allocated" "list_all (\<lambda>x. x \<in> set (fr_set all_allocated)) pointers"
    using assms(2) allocated_all [of env] by (auto simp: blocks_made_def)
  let ?c0 = "owning (\<lambda>_. all_allocated) c" and ?c1 = "owning (\<lambda>_. linked (uri_given r) all_allocated) c"
  have start: "owning (\<lambda>_. allocated env) c = ?c0" "w_mem env 0" "list_all (\<lambda>x. x \<in> set (fr_set (cl_own ?c0))) pointers"
    using all assms(2) by (simp_all add: owning_def blocks_made_def)
  have link: "(if uri_given r then owning (set_null Capnames \<circ> hang Capnames Capabilities) ?c0 else ?c0) = ?c1"
    by (simp add: owning_def linked_def)
  have none: "free_local Att_holder ?c1 = Went () (owning (\<lambda>_. (linked (uri_given r) all_allocated)\<lparr>fr_live := removeAll Att_holder pointers\<rparr>) c)"
    by (simp add: free_local_def free_without owning_def)
  note body = ac_capabilities_def Let_def assms(1) option.case start simp_thms if_False link
  have cap: "AC_ATTR_new\<lparr>aa_ietfattr := (if uri_given r then [\<lparr>ia_names = Some (make_uri (w_mem env 1) (rq_vo r) (rq_uri r) []),
      ia_values = map (String_val V_ASN1_OCTET_STRING) (cells_contents (rq_fqan r))\<rparr>] else []),
      aa_get_type := Some GET_TYPE_FQAN, aa_type := cobj\<rparr> = capability env r cobj"
    by (simp add: capability_def AC_ATTR_new_def)
  note holder = with_capability_def without_holder_def with_holder_def owning_def
  show ?thesis
  proof (cases "fqan_loop env 100 (rq_fqan r) [] ?c0")
    case (Went vs x)
    then have x: "x = ?c0" "vs = map (String_val V_ASN1_OCTET_STRING) (cells_contents (rq_fqan r))"
      by (auto dest: fqan_loop_Went)
    show ?thesis
    proof (cases "case rq_attributes r of None \<Rightarrow> Went [] ?c1 | Some l \<Rightarrow> attribute_loop env (rq_vo r) 500 l [] ?c1")
      case m: (Went attrs y)
      then have "y = ?c1" by (auto dest: attribute_loop_Went split: option.splits)
      show ?thesis
        by (cases "attrs = []")
          (simp_all only: body athen_simps x m \<open>y = ?c1\<close> Went if_True if_False none cap, simp_all add: holder)
    qed (simp_all only: body athen_simps x Went)
  qed (simp_all only: body athen_simps)
qed

lemma ac_capabilities_Went:
  assumes "ac_capabilities env r c = Went attrs d"
  obtains cobj where "w_object env ''idatcap'' = Some cobj" "blocks_made env"
    "list_all2 (asked (rq_vo r)) (strings r) attrs"
    "d = \<lparr>cl_ac = with_capability env r cobj (cl_ac c),
      cl_own = (if attrs = [] then without_holder (uri_given r) else with_holder (uri_given r))\<rparr>"
proof -
  obtain cobj where o: "w_object env ''idatcap'' = Some cobj" "blocks_made env"
    using assms allocated_all [of env]
    by (auto simp: ac_capabilities_def Let_def blocks_made_def owning_def split: option.splits if_splits)
  from assms obtain vs where "list_all2 (asked (rq_vo r)) (strings r) attrs"
    "d = \<lparr>cl_ac = with_capability env r cobj (cl_ac c),
      cl_own = (if attrs = [] then without_holder (uri_given r) else with_holder (uri_given r))\<rparr>"
    unfolding ac_capabilities_made [OF o] athen_Went
    by (auto simp: strings_def dest!: attribute_loop_Went split: option.splits)
  with o that show thesis by blast
qed

lemma ac_attributes_none: "ac_attributes env r [] \<lparr>cl_ac = a, cl_own = without_holder v\<rparr> = Went () \<lparr>cl_ac = a, cl_own = no_holder_done v\<rparr>"
  by (simp add: ac_attributes_def free_local_def free_without_full no_holder_done_def)

text \<open>The extension with the attributes.\<close>

definition attributes_ext :: "wenv \<Rightarrow> ac_request \<Rightarrow> AC_ATTRIBUTE list \<Rightarrow> x509_extension option" where
  "attributes_ext env r attrs =
     (case attributes_s2i (w_prims env) (Some [\<lparr>ah_grantor = make_uri (w_mem env 2) (rq_vo r) (rq_uri r) [], ah_attributes = attrs\<rparr>]) of
        None \<Rightarrow> None
      | Some v \<Rightarrow> conf_ext env ''attributes'' (write_value (w_prims env) (w_keyid env) (Attributes_value v)))"

lemma ac_attributes_some:
  assumes "attrs \<noteq> []"
  shows "ac_attributes env r attrs \<lparr>cl_ac = a, cl_own = with_holder v\<rparr> =
    (case attributes_ext env r attrs of
       None \<Rightarrow> Failed AC_ERR_NO_EXTENSION \<lparr>cl_ac = a, cl_own = holder_done v\<rparr>
     | Some e \<Rightarrow> Went () \<lparr>cl_ac = push_ext (e\<lparr>ext_critical := False\<rparr>) a, cl_own = holder_done v\<rparr>)"
  using assms
  by (auto simp: ac_attributes_def Let_def attributes_ext_def on_ac_def make_and_push_ext_def free_local_def free_with
      owning_def holder_done_def split: option.splits)

text \<open>The steps after the attributes add extensions at the end.\<close>

definition grows :: "AC \<Rightarrow> AC \<Rightarrow> bool" where
  "grows a b \<longleftrightarrow> (\<exists>es. in_exts (acinfo b) = map_option (\<lambda>l. l @ es) (in_exts (acinfo a)))"

lemma grows_refl [simp]: "grows a a"
  unfolding grows_def by (rule exI [of _ "[]"]) (simp add: option.map_ident)

lemma grows_trans: "grows a b \<Longrightarrow> grows b c \<Longrightarrow> grows a c"
  unfolding grows_def by (auto simp: option.map_comp comp_def)

lemma grows_push [simp]: "grows a (push_ext e a)"
  by (auto simp: grows_def push_ext_def)

lemma grows_made: "make_and_push_ext e c a = Went u b \<Longrightarrow> grows a b"
  by (auto simp: make_and_push_ext_def split: option.splits)

lemma grows_passed: "ac_passed env n i exts a = Went u b \<Longrightarrow> grows a b"
  by (induction n arbitrary: a) (auto split: if_splits intro: grows_trans [OF grows_push])

lemma grows_extensions: "ac_extensions env r n a = Went u b \<Longrightarrow> grows a b"
  unfolding ac_extensions_def athen_Went
  by (elim exE conjE) (auto dest!: grows_made grows_passed intro: grows_trans split: option.splits if_splits; meson grows_trans)

text \<open>The certificate a successful call makes of a new one.\<close>

lemma writeac_new:
  assumes "writeac env r AC_new = Some (0, a)"
  obtains cobj attrs b c where "w_object env ''idatcap'' = Some cobj" "core b = core c"
    "c = AC_new\<lparr>acinfo := AC_INFO_new\<lparr>in_attrib := [capability env r cobj]\<rparr>\<rparr>"
    "a = ac_sign env (rq_pkey r) (ac_fields env r AC_IS_new AC_FORM_new b)"
    "list_all2 (asked (rq_vo r)) (strings r) attrs"
    "attrs \<noteq> [] \<longrightarrow> (\<exists>e es. attributes_ext env r attrs = Some e \<and> in_exts (acinfo b) = Some (e\<lparr>ext_critical := False\<rparr> # es))"
proof -
  let ?c = "\<lparr>cl_ac = AC_new, cl_own = nothing_owned\<rparr>"
  have exit: "ac_exit e c \<noteq> Some (0, a)" if "e \<noteq> 0" for e c using that by (auto simp: ac_exit_def)
  from assms obtain attrs c1 c2 b base form where s: "ac_capabilities env r ?c = Went attrs c1"
    "ac_attributes env r attrs c1 = Went () c2" "ac_extensions env r (length attrs) (cl_ac c2) = Went () b"
    "hd_baseid (in_holder (acinfo b)) = Some base" "in_form (acinfo b) = Some form"
    "a = ac_sign env (rq_pkey r) (ac_fields env r base form b)"
    by (auto simp: writeac_def athen_def never_zero on_ac_Failed on_ac_Went Let_def ac_exit_def
        split: ac_step.splits option.splits prod.splits)
  from s(1) obtain cobj where cobj: "w_object env ''idatcap'' = Some cobj" "list_all2 (asked (rq_vo r)) (strings r) attrs"
    "c1 = \<lparr>cl_ac = with_capability env r cobj AC_new,
      cl_own = (if attrs = [] then without_holder (uri_given r) else with_holder (uri_given r))\<rparr>"
    by (rule ac_capabilities_Went) simp
  let ?d = "with_capability env r cobj AC_new"
  have d: "?d = AC_new\<lparr>acinfo := AC_INFO_new\<lparr>in_attrib := [capability env r cobj]\<rparr>\<rparr>"
    by (simp add: with_capability_def AC_new_def AC_INFO_new_def)
  have dx: "in_exts (acinfo ?d) = Some []" "in_holder (acinfo ?d) = AC_HOLDER_new" "in_form (acinfo ?d) = Some AC_FORM_new"
    by (simp_all add: d AC_INFO_new_def)
  have c2: "core (cl_ac c2) = core ?d \<and> (attrs \<noteq> [] \<longrightarrow> (\<exists>e. attributes_ext env r attrs = Some e \<and>
      in_exts (acinfo (cl_ac c2)) = Some [e\<lparr>ext_critical := False\<rparr>]))"
  proof (cases "attrs = []")
    case True
    with s(2) show ?thesis by (simp add: cobj(3) ac_attributes_none) (metis call.select_convs(1))
  next
    case False
    from s(2) [unfolded cobj(3), simplified False if_False, unfolded ac_attributes_some [OF False]] obtain e
      where "attributes_ext env r attrs = Some e" "cl_ac c2 = push_ext (e\<lparr>ext_critical := False\<rparr>) ?d"
      by (auto split: option.splits)
    then show ?thesis by (simp add: dx push_ext_def ac_failed_def)
  qed
  with core_extensions [OF s(3)] have c: "core b = core ?d" by simp
  from core_fields [OF c] have "base = AC_IS_new" "form = AC_FORM_new"
    using s(4,5) by (simp_all add: dx AC_HOLDER_new_def)
  moreover have "attrs \<noteq> [] \<longrightarrow> (\<exists>e es. attributes_ext env r attrs = Some e \<and> in_exts (acinfo b) = Some (e\<lparr>ext_critical := False\<rparr> # es))"
    using c2 grows_extensions [OF s(3)] by (auto simp: grows_def)
  ultimately show ?thesis using s(6) that [OF cobj(1) c d _ cobj(2)] by simp
qed

definition fqans_of :: "AC \<Rightarrow> cstring list" where
  "fqans_of a =
     concat (map (\<lambda>t. concat (map (\<lambda>v. List.map_filter (\<lambda>x. case x of String_val _ f \<Rightarrow> Some f | Object_val _ \<Rightarrow> None)
       (ia_values v)) (aa_ietfattr t))) (in_attrib (acinfo a)))"

lemma fqans_of_read [simp]: "fqans_of (read_AC a) = fqans_of a"
  by (simp add: fqans_of_def read_AC_def read_info_def read_attr_def read_ietfattr_def comp_def)

lemma fqans_of_values: "List.map_filter (\<lambda>x. case x of String_val _ f \<Rightarrow> Some f | Object_val _ \<Rightarrow> None)
    (map (String_val t) fs) = fs"
  by (induction fs) (simp_all add: List.map_filter_simps)

lemma ac_sign_fields [simp]:
  "in_attrib (acinfo (ac_sign env k a)) = in_attrib (acinfo a)" "in_holder (acinfo (ac_sign env k a)) = in_holder (acinfo a)"
  "in_form (acinfo (ac_sign env k a)) = in_form (acinfo a)" "in_serial (acinfo (ac_sign env k a)) = in_serial (acinfo a)"
  "in_version (acinfo (ac_sign env k a)) = in_version (acinfo a)" "in_id (acinfo (ac_sign env k a)) = in_id (acinfo a)"
  "in_validity (acinfo (ac_sign env k a)) = in_validity (acinfo a)" "in_exts (acinfo (ac_sign env k a)) = in_exts (acinfo a)"
  by (simp_all add: ac_sign_def Let_def)

lemma ac_sign_signature:
  "\<exists>md. signature (ac_sign env k a) = the_or (signature a) (w_sign env (i2d_AC_INFO (w_prims env) (acinfo (ac_sign env k a))) k md)"
  by (auto simp: ac_sign_def Let_def)

text \<open>The extension with the attributes is read back as their one holder.\<close>

lemma attributes_ext_read:
  assumes "attributes_ext env r attrs = Some e" "prims_ok (w_prims env)"
  shows "\<exists>D. w_object env ''attributes'' = Some (ext_object e) \<and> ext_data e = w_bytes env D \<and>
    d2i_AC_FULL_ATTRIBUTES (w_prims env) D = Some \<lparr>providers = [Some
      \<lparr>ah_grantor = make_uri (w_mem env 2) (rq_vo r) (rq_uri r) [], ah_attributes = attrs\<rparr>]\<rparr>"
proof -
  let ?h = "\<lparr>ah_grantor = make_uri (w_mem env 2) (rq_vo r) (rq_uri r) [], ah_attributes = attrs\<rparr>"
  have v: "attributes_s2i (w_prims env) (Some [?h]) = Some \<lparr>providers = [Some ?h]\<rparr>"
    by (simp add: attributes_s2i_def att_holder_dup_same [OF assms(2)])
  obtain D where "i2d_AC_FULL_ATTRIBUTES (w_prims env) \<lparr>providers = [Some ?h]\<rparr> = Some [D]"
    "d2i_AC_FULL_ATTRIBUTES (w_prims env) D = Some \<lparr>providers = [Some ?h]\<rparr>"
    using attributes_round_trip [OF assms(2) v] by auto
  then show ?thesis using assms(1)
    by (auto simp: attributes_ext_def v conf_ext_def write_value_def split: option.splits)
qed

text \<open>
  C10: what the server writes is what a client reads. A certificate made by a successful call, for
  an issuer without a unique identifier, is read back with the FQANs in order (and none when
  neither a VO nor a URI is given), the serial number asked for, the holder's serial number and
  issuer (or subject, for old clients), the issuer's name and the validity asked for; and its
  signature is the one made over just these contents. When there are attribute strings, its first
  extension is the one of the attributes, not critical, and read back it holds one holder with the
  name vo://uri (when there is one and memory for it) and, for each string in order, the attribute
  with its qualifier (the VO when it is empty), name and value.
\<close>

theorem writeac_readable:
  assumes "writeac env r AC_new = Some (0, a)" "prims_ok (w_prims env)"
    and "\<forall>ob. w_object env ''idatcap'' = Some ob \<longrightarrow> p_text (w_prims env) ob = ''idatcap''"
    and "w_uid env (rq_issuerc r) = None"
  shows "\<exists>d b md. i2d_AC (w_prims env) a = Some [d] \<and> d2i_AC (w_prims env) d = Some b \<and>
    fqans_of b = (if rq_vo r = None \<and> rq_uri r = None then [] else cells_contents (rq_fqan r)) \<and>
    in_version (acinfo b) = 1 \<and> in_serial (acinfo b) = rq_serial r \<and>
    hd_baseid (in_holder (acinfo b)) = Some \<lparr>is_issuer = [Gen_dirname
       (if rq_old r \<noteq> 0 then x_subject (rq_holder r) else x_issuer (rq_holder r))],
       is_serial = x_serial (rq_holder r), is_uid = None\<rparr> \<and>
    map_option fm_names (in_form (acinfo b)) = Some [Gen_dirname (x_subject (rq_issuerc r))] \<and>
    in_validity (acinfo b) = \<lparr>va_notBefore = Some (w_gentime env (w_clock env - rq_startpast r)),
      va_notAfter = Some (w_gentime env (w_clock env + rq_valid r - rq_startpast r))\<rparr> \<and>
    signature b = the_or [] (w_sign env (i2d_AC_INFO (w_prims env) (acinfo a)) (rq_pkey r) md) \<and>
    (\<exists>attrs. list_all2 (asked (rq_vo r)) (strings r) attrs \<and>
      (attrs \<noteq> [] \<longrightarrow> (\<exists>x xs D. in_exts (acinfo b) = Some (x # xs) \<and> \<not> ext_critical x \<and>
         w_object env ''attributes'' = Some (ext_object x) \<and> ext_data x = w_bytes env D \<and>
         d2i_AC_FULL_ATTRIBUTES (w_prims env) D = Some \<lparr>providers = [Some
           \<lparr>ah_grantor = (if w_mem env 2 \<and> (rq_vo r \<noteq> None \<or> rq_uri r \<noteq> None)
              then [Gen_uri (the_or [] (rq_vo r) @ ''://'' @ the_or [] (rq_uri r))] else []),
            ah_attributes = attrs\<rparr>]\<rparr>)))"
proof -
  from assms(1) obtain cobj attrs c e where c: "w_object env ''idatcap'' = Some cobj" "core c = core e"
    "e = AC_new\<lparr>acinfo := AC_INFO_new\<lparr>in_attrib := [capability env r cobj]\<rparr>\<rparr>"
    "a = ac_sign env (rq_pkey r) (ac_fields env r AC_IS_new AC_FORM_new c)"
    and attrs: "list_all2 (asked (rq_vo r)) (strings r) attrs"
    "attrs \<noteq> [] \<longrightarrow> (\<exists>e es. attributes_ext env r attrs = Some e \<and> in_exts (acinfo c) = Some (e\<lparr>ext_critical := False\<rparr> # es))"
    by (rule writeac_new)
  let ?grantor = "if w_mem env 2 \<and> (rq_vo r \<noteq> None \<or> rq_uri r \<noteq> None)
    then [Gen_uri (the_or [] (rq_vo r) @ ''://'' @ the_or [] (rq_uri r))] else []"
  have grantor: "make_uri (w_mem env 2) (rq_vo r) (rq_uri r) [] = ?grantor" by (simp add: make_uri_def Let_def)
  have exts: "\<exists>x xs D. in_exts (acinfo (read_AC a)) = Some (x # xs) \<and> \<not> ext_critical x \<and>
      w_object env ''attributes'' = Some (ext_object x) \<and> ext_data x = w_bytes env D \<and>
      d2i_AC_FULL_ATTRIBUTES (w_prims env) D = Some \<lparr>providers = [Some \<lparr>ah_grantor = ?grantor, ah_attributes = attrs\<rparr>]\<rparr>"
    if "attrs \<noteq> []"
  proof -
    from attrs(2) that obtain x xs where x: "attributes_ext env r attrs = Some x"
      "in_exts (acinfo c) = Some (x\<lparr>ext_critical := False\<rparr> # xs)" by blast
    then have "in_exts (acinfo (read_AC a)) = Some (x\<lparr>ext_critical := False\<rparr> # xs)"
      by (simp add: c(4) read_AC_def read_info_def ac_fields_def Let_def the_or_def)
    with attributes_ext_read [OF x(1) assms(2)] show ?thesis unfolding grantor by auto
  qed
  have sg: "signature c = []"
    using arg_cong [OF c(2), of signature] by (simp add: ac_failed_def c(3) AC_new_def)
  note f = core_fields [OF c(2)]
  have a: "in_attrib (acinfo a) = [capability env r cobj]" "in_id (acinfo a) = None"
    "in_version (acinfo a) = 1" "in_serial (acinfo a) = rq_serial r"
    "in_form (acinfo a) = Some (AC_FORM_new\<lparr>fm_names := [Gen_dirname (x_subject (rq_issuerc r))]\<rparr>)"
    "in_holder (acinfo a) = AC_HOLDER_new\<lparr>hd_baseid := Some \<lparr>is_issuer = [Gen_dirname
       (if rq_old r \<noteq> 0 then x_subject (rq_holder r) else x_issuer (rq_holder r))],
       is_serial = x_serial (rq_holder r), is_uid = None\<rparr>\<rparr>"
    "in_validity (acinfo a) = \<lparr>va_notBefore = Some (w_gentime env (w_clock env - rq_startpast r)),
      va_notAfter = Some (w_gentime env (w_clock env + rq_valid r - rq_startpast r))\<rparr>"
    using assms(4) f by (simp_all add: c(3,4) ac_fields_def Let_def AC_IS_new_def AC_FORM_new_def AC_INFO_new_def)
  obtain md where md: "signature a = the_or [] (w_sign env (i2d_AC_INFO (w_prims env) (acinfo a)) (rq_pkey r) md)"
    using ac_sign_signature [of env "rq_pkey r" "ac_fields env r AC_IS_new AC_FORM_new c"] sg
    by (auto simp: c(4) ac_fields_def Let_def)
  have "good_attr (w_prims env) (capability env r cobj)"
    using assms(3) c(1) by (auto simp: good_attr_def capability_def list_all_iff good_value_def)
  then have "good_AC (w_prims env) a"
    by (simp add: good_AC_def good_info_def a good_holder_def AC_HOLDER_new_def good_is_def good_form_def AC_FORM_new_def)
  from AC_inverse [OF assms(2) this] obtain d where d: "i2d_AC (w_prims env) a = Some [d]"
    "d2i_AC (w_prims env) d = Some (read_AC a)" by (auto simp: inverse_def)
  have "fqans_of a = (if rq_vo r = None \<and> rq_uri r = None then [] else cells_contents (rq_fqan r))"
    by (simp add: fqans_of_def a capability_def fqans_of_values)
  then have "fqans_of (read_AC a) = (if rq_vo r = None \<and> rq_uri r = None then [] else cells_contents (rq_fqan r))"
    unfolding fqans_of_read .
  moreover have "in_version (acinfo (read_AC a)) = 1" "in_serial (acinfo (read_AC a)) = rq_serial r"
    "hd_baseid (in_holder (acinfo (read_AC a))) = hd_baseid (in_holder (acinfo a))"
    "in_form (acinfo (read_AC a)) = in_form (acinfo a)" "in_validity (acinfo (read_AC a)) = in_validity (acinfo a)"
    "signature (read_AC a) = signature a"
    by (simp_all add: read_AC_def read_info_def a read_holder_def the_or_def)
  ultimately show ?thesis
    using attrs(1) exts
    by (intro exI [of _ d] exI [of _ "read_AC a"] exI [of _ md]) (simp only: d a md, auto)
qed

lemma sequence_Some: "(\<exists>d. sequence ws = Some [d]) \<longleftrightarrow> None \<notin> set ws"
proof -
  have "those ws = None \<longleftrightarrow> None \<in> set ws" by (induction ws) (auto split: option.splits)
  then show ?thesis by (cases "those ws") (auto simp: sequence_def put_all_def)
qed

text \<open>
  Issuers with a unique identifier. A certificate made for them is written, the call succeeds,
  and it cannot be read back.
\<close>

theorem writeac_uid_unreadable:
  assumes "writeac env r AC_new = Some (0, a)" "prims_ok (w_prims env)" "w_uid env (rq_issuerc r) \<noteq> None"
    and "\<forall>ob. w_object env ''idatcap'' = Some ob \<longrightarrow> p_text (w_prims env) ob = ''idatcap''"
  shows "\<exists>d. i2d_AC (w_prims env) a = Some [d] \<and> d2i_AC (w_prims env) d = None"
proof -
  let ?env = "env\<lparr>w_uid := \<lambda>_. None\<rparr>"
  from assms(1) obtain cobj attrs c e where c: "w_object env ''idatcap'' = Some cobj" "core c = core e"
    "e = AC_new\<lparr>acinfo := AC_INFO_new\<lparr>in_attrib := [capability env r cobj]\<rparr>\<rparr>"
    "a = ac_sign env (rq_pkey r) (ac_fields env r AC_IS_new AC_FORM_new c)"
    by (rule writeac_new)
  note f = core_fields [OF c(2)]
  have id1: "in_id (acinfo a) \<noteq> None" using assms(3) c(4) by (simp add: ac_fields_def Let_def)
  let ?i = "(acinfo a)\<lparr>in_id := None\<rparr>"
  have "good_attr (w_prims env) (capability env r cobj)"
    using assms(4) c(1) by (auto simp: good_attr_def capability_def list_all_iff good_value_def)
  then have "good_info (w_prims env) ?i"
    using f by (simp add: good_info_def c(3,4) ac_fields_def Let_def good_holder_def good_is_def good_form_def AC_FORM_new_def
        AC_IS_new_def AC_INFO_new_def AC_HOLDER_new_def)
  from info_inverse [OF assms(2) this] have "\<exists>d. i2d_AC_INFO (w_prims env) ?i = Some [d]" by (auto simp: inverse_def)
  then have "\<exists>d. i2d_AC_INFO (w_prims env) (acinfo a) = Some [d]"
    unfolding i2d_AC_INFO_def sequence_Some using id1 by (auto simp: put_IMP_opt_def put_def)
  then obtain d where d: "i2d_AC (w_prims env) a = Some [d]" by (auto simp: i2d_AC_def put_simps)
  with uid_unreadable [OF assms(2) d id1] show ?thesis by blast
qed

text \<open>
  Extensions handed in beside a chain. The loop copies the extension whose index is the length
  of the issuer's chain at every turn, so with a chain that is at least as long as the list of
  extensions no certificate can be made.
\<close>

theorem writeac_passed_extensions:
  assumes "rq_extensions r = Some exts" "exts \<noteq> []" "rq_issuerstack r = Some l" "length l \<ge> length exts"
  shows "writeac env r a \<noteq> Some (0, b)"
proof
  have p: "ac_passed env (length exts) (length l) exts x \<noteq> Went u y" for x u y
    using assms(2,4) by (cases exts) auto
  have e: "ac_extensions env r n x \<noteq> Went u y" for n x u y
    using p unfolding ac_extensions_def athen_Went by (auto simp: assms)
  assume "writeac env r a = Some (0, b)"
  then show False
    by (auto simp: writeac_def athen_def never_zero on_ac_Failed on_ac_Went Let_def ac_exit_def e
        split: ac_step.splits option.splits prod.splits)
qed

section \<open>Errors and memory\<close>

lemma fqan_loop_terminated:
  "None \<in> set l \<Longrightarrow> fqan_loop env n l acc a =
     (if \<forall>i<length (cells_contents l). w_mem env (n + i)
      then Went (acc @ map (String_val V_ASN1_OCTET_STRING) (cells_contents l)) a else Failed AC_ERR_MEMORY a)"
  by (induction env n l acc a rule: fqan_loop.induct) (auto simp: All_less_Suc2)

lemma split_attribute_defined:
  assumes "strstr s ''::'' \<noteq> None"
  shows "split_attribute vo s a \<noteq> Broken" "split_attribute vo s a = Failed e b \<Longrightarrow> b = a"
  using assms by (auto simp: split_attribute_def Let_def split: option.splits)

lemma attribute_loop_defined:
  "None \<in> set l \<Longrightarrow> \<forall>s\<in>set (cells_contents l). strstr s ''::'' \<noteq> None \<Longrightarrow>
     attribute_loop env vo n l acc a \<noteq> Broken \<and> (\<forall>e b. attribute_loop env vo n l acc a = Failed e b \<longrightarrow> b = a)"
proof (induction env vo n l acc a rule: attribute_loop.induct)
  case (3 env vo n s r acc a)
  then have s: "strstr s ''::'' \<noteq> None" by simp
  show ?case
  proof (cases "split_attribute vo s a")
    case (Went x b)
    with 3 split_attribute_Went [OF Went] show ?thesis by auto
  next
    case Broken
    then show ?thesis using split_attribute_defined(1) [OF s, of vo a] by blast
  next
    case (Failed e b)
    then have "b = a" by (rule split_attribute_defined(2) [OF s])
    with Failed show ?thesis by simp
  qed
qed simp_all

lemma ac_passed_outcome:
  "if n = 0 \<or> i < length exts \<and> in_exts (acinfo a) \<noteq> None \<and> (\<forall>k<n. w_mem env (2000 + k))
   then \<exists>b. ac_passed env n i exts a = Went () b else \<exists>b. ac_passed env n i exts a = Failed AC_ERR_UNKNOWN b"
proof (induction n arbitrary: a)
  case (Suc n)
  have "in_exts (acinfo (push_ext e a)) \<noteq> None \<longleftrightarrow> in_exts (acinfo a) \<noteq> None" for e by (simp add: push_ext_def)
  with Suc [of "push_ext (exts ! i) a"] show ?case by (auto simp: less_Suc_eq split: if_splits)
qed simp

text \<open>What fails after the attributes; \<open>has\<close> says that the certificate has a list of extensions.\<close>

definition later_fails :: "wenv \<Rightarrow> ac_request \<Rightarrow> nat \<Rightarrow> bool \<Rightarrow> bool" where
  "later_fails env r count has \<longleftrightarrow>
     ac_certseq env r = None \<or> conf_ext env ''idcenoRevAvail'' (Some [Prim (Universal 5) []]) = None \<or> ac_authkey env r = None \<or>
     (\<exists>t. rq_targets r = Some t \<and> targets_ext env t = None) \<or>
     (\<exists>exts. rq_extensions r = Some exts \<and> exts \<noteq> [] \<and>
        \<not> ((case rq_issuerstack r of None \<Rightarrow> count | Some l \<Rightarrow> length l) < length exts \<and> has \<and>
           (\<forall>k<length exts. w_mem env (2000 + k)))) \<or>
     w_uid env (rq_issuerc r) \<noteq> None \<and> \<not> w_mem env 4"

lemma made_simps [simp]:
  "make_and_push_ext None c a = Failed AC_ERR_NO_EXTENSION a"
  "make_and_push_ext (Some e) c a = Went () (push_ext (e\<lparr>ext_critical := c\<rparr>) a)"
  by (simp_all add: make_and_push_ext_def)

lemma has_push [simp]: "in_exts (acinfo (push_ext e a)) = None \<longleftrightarrow> in_exts (acinfo a) = None"
  by (simp add: push_ext_def)

lemma ac_extensions_outcome:
  "if later_fails env r n (in_exts (acinfo a) \<noteq> None) then \<exists>e b. ac_extensions env r n a = Failed e b
   else \<exists>b. ac_extensions env r n a = Went () b"
proof (cases "ac_certseq env r = None \<or> conf_ext env ''idcenoRevAvail'' (Some [Prim (Universal 5) []]) = None \<or> ac_authkey env r = None")
  case True
  then have "\<exists>e b. ac_extensions env r n a = Failed e b"
    by (cases "ac_certseq env r"; cases "conf_ext env ''idcenoRevAvail'' (Some [Prim (Universal 5) []])"; cases "ac_authkey env r")
      (auto simp: ac_extensions_def write_value_def)
  moreover from True have "later_fails env r n (in_exts (acinfo a) \<noteq> None)" unfolding later_fails_def by blast
  ultimately show ?thesis by simp
next
  case False
  then obtain e1 e2 e3 where e: "ac_certseq env r = Some e1" "conf_ext env ''idcenoRevAvail'' (Some [Prim (Universal 5) []]) = Some e2"
    "ac_authkey env r = Some e3" by auto
  let ?a = "push_ext (e3\<lparr>ext_critical := False\<rparr>) (push_ext (e2\<lparr>ext_critical := False\<rparr>) (push_ext (e1\<lparr>ext_critical := False\<rparr>) a))"
  let ?passed = "\<lambda>a. case rq_extensions r of None \<Rightarrow> Went () a
    | Some exts \<Rightarrow> ac_passed env (length exts) (case rq_issuerstack r of None \<Rightarrow> n | Some l \<Rightarrow> length l) exts a"
  let ?last = "\<lambda>a. if w_uid env (rq_issuerc r) \<noteq> None \<and> \<not> w_mem env 4 then Failed AC_ERR_MEMORY a else Went () a"
  have run: "ac_extensions env r n a =
    athen (case rq_targets r of None \<Rightarrow> Went () ?a | Some t \<Rightarrow> make_and_push_ext (targets_ext env t) True ?a)
      (\<lambda>_ a. athen (?passed a) (\<lambda>_ a. ?last a))"
    by (simp add: ac_extensions_def e write_value_def)
  have last: "if later_fails env r n (in_exts (acinfo b) \<noteq> None) then \<exists>e c. athen (?passed b) (\<lambda>_ a. ?last a) = Failed e c
      else \<exists>c. athen (?passed b) (\<lambda>_ a. ?last a) = Went () c" if "\<And>t. rq_targets r = Some t \<Longrightarrow> targets_ext env t \<noteq> None" for b
  proof (cases "rq_extensions r")
    case None
    then show ?thesis using that by (auto simp: later_fails_def e)
  next
    case (Some exts)
    then show ?thesis
      using that ac_passed_outcome [of "length exts" "case rq_issuerstack r of None \<Rightarrow> n | Some l \<Rightarrow> length l" exts b env]
      by (auto simp: later_fails_def e split: if_splits)
  qed
  have has: "in_exts (acinfo ?a) \<noteq> None \<longleftrightarrow> in_exts (acinfo a) \<noteq> None"
    "in_exts (acinfo (push_ext x ?a)) \<noteq> None \<longleftrightarrow> in_exts (acinfo a) \<noteq> None" for x by simp_all
  show ?thesis
  proof (cases "rq_targets r")
    case None
    then have "rq_targets r = Some t \<Longrightarrow> targets_ext env t \<noteq> None" for t by simp
    from last [OF this, of ?a] show ?thesis unfolding run None option.case athen_simps has by blast
  next
    case (Some t)
    then show ?thesis
    proof (cases "targets_ext env t")
      case None
      with Some show ?thesis by (simp add: run later_fails_def)
    next
      case t: (Some x)
      with Some have "rq_targets r = Some t \<Longrightarrow> targets_ext env t \<noteq> None" for t by simp
      from last [OF this, of "push_ext (x\<lparr>ext_critical := True\<rparr>) ?a"] show ?thesis
        unfolding run Some option.case t made_simps athen_simps has by blast
    qed
  qed
qed

text \<open>The first half of the call: it is defined, and after an error in it every block is freed once.\<close>

definition well_formed :: "ac_request \<Rightarrow> bool" where
  "well_formed r \<longleftrightarrow> None \<in> set (rq_fqan r) \<and>
     (\<forall>l. rq_attributes r = Some l \<longrightarrow> None \<in> set l \<and> (\<forall>s\<in>set (cells_contents l). strstr s ''::'' \<noteq> None))"

lemma ac_capabilities_defined:
  assumes "well_formed r"
  shows "ac_capabilities env r c \<noteq> Broken"
    and "ac_capabilities env r c = Failed e d \<Longrightarrow> free_blocks pointers (cl_own d) \<noteq> None"
proof -
  have "ac_capabilities env r c \<noteq> Broken \<and> (\<forall>e d. ac_capabilities env r c = Failed e d \<longrightarrow> free_blocks pointers (cl_own d) \<noteq> None)"
  proof (cases "w_object env ''idatcap'' = None \<or> \<not> blocks_made env")
    case True
    then have "ac_capabilities env r c = Failed AC_ERR_MEMORY (owning (\<lambda>_. allocated env) c)"
      using allocated_all(1) [of env] by (auto simp: ac_capabilities_def Let_def blocks_made_def owning_def split: option.splits)
    then show ?thesis using allocated_some [of env] by (simp add: owning_def)
  next
    case False
    then obtain cobj where o: "w_object env ''idatcap'' = Some cobj" "blocks_made env" by auto
    let ?c1 = "owning (\<lambda>_. linked (uri_given r) all_allocated) c"
    let ?attrs = "case rq_attributes r of None \<Rightarrow> Went [] ?c1 | Some l \<Rightarrow> attribute_loop env (rq_vo r) 500 l [] ?c1"
    have a: "?attrs \<noteq> Broken" "\<And>e b. ?attrs = Failed e b \<Longrightarrow> b = ?c1"
      using assms attribute_loop_defined [of _ env "rq_vo r" 500 "[]" ?c1] by (auto simp: well_formed_def split: option.splits)
    have f: "None \<in> set (rq_fqan r)" using assms by (simp add: well_formed_def)
    have l: "free_blocks pointers (linked v all_allocated) \<noteq> None" "free_blocks pointers all_allocated \<noteq> None" for v
      using linked_frees [of v] linked_frees [of False] by (simp_all add: linked_def)
    show ?thesis
    proof (cases ?attrs)
      case (Went attrs b)
      then show ?thesis unfolding ac_capabilities_made [OF o] fqan_loop_terminated [OF f]
        using l by (auto simp: owning_def split: if_splits)
    next
      case (Failed e b)
      with a(2) have "b = ?c1" by blast
      with Failed show ?thesis unfolding ac_capabilities_made [OF o] fqan_loop_terminated [OF f]
        using l by (auto simp: owning_def split: if_splits)
    qed (use a in simp)
  qed
  then show "ac_capabilities env r c \<noteq> Broken" "ac_capabilities env r c = Failed e d \<Longrightarrow> free_blocks pointers (cl_own d) \<noteq> None"
    by auto
qed

text \<open>Without attribute strings the first half passes when its type is registered and it gets its memory.\<close>

definition first_passes :: "wenv \<Rightarrow> ac_request \<Rightarrow> bool" where
  "first_passes env r \<longleftrightarrow> w_object env ''idatcap'' \<noteq> None \<and> blocks_made env \<and>
     (\<forall>i<length (cells_contents (rq_fqan r)). w_mem env (100 + i))"

lemma ac_capabilities_without:
  assumes "well_formed r" "strings r = []"
  shows "(\<exists>d. ac_capabilities env r c = Went [] d) \<longleftrightarrow> first_passes env r"
    and "ac_capabilities env r c = Went attrs d \<Longrightarrow> attrs = []"
proof -
  have attrs: "(case rq_attributes r of None \<Rightarrow> Went [] x | Some l \<Rightarrow> attribute_loop env (rq_vo r) 500 l [] x) = Went [] x" for x :: call
    using assms by (auto simp: strings_def well_formed_def split: option.split) (metis cells_contents.elims attribute_loop.simps(2) empty_iff list.distinct(1) list.set(1))
  have f: "None \<in> set (rq_fqan r)" using assms by (simp add: well_formed_def)
  show "(\<exists>d. ac_capabilities env r c = Went [] d) \<longleftrightarrow> first_passes env r"
  proof
    assume "\<exists>d. ac_capabilities env r c = Went [] d"
    then obtain d where d: "ac_capabilities env r c = Went [] d" by blast
    then obtain cobj where o: "w_object env ''idatcap'' = Some cobj" "blocks_made env" by (rule ac_capabilities_Went)
    with d show "first_passes env r" unfolding ac_capabilities_made [OF o] fqan_loop_terminated [OF f]
      by (auto simp: first_passes_def split: if_splits)
  next
    assume p: "first_passes env r"
    then obtain cobj where o: "w_object env ''idatcap'' = Some cobj" "blocks_made env" by (auto simp: first_passes_def)
    then show "\<exists>d. ac_capabilities env r c = Went [] d"
      using p unfolding ac_capabilities_made [OF o] fqan_loop_terminated [OF f] attrs by (auto simp: first_passes_def)
  qed
  show "ac_capabilities env r c = Went attrs d \<Longrightarrow> attrs = []"
    by (erule ac_capabilities_Went) (simp add: assms(2))
qed

text \<open>
  C34: errors and memory. With terminated lists, two colons in every attribute string, and the
  holder's and the issuer's form in the certificate, writeac has undefined behaviour exactly when
  there are no attribute strings, the first half of the call passes and something after it fails:
  then the holder of the attributes and their list, freed but not set to NULL, are freed again at
  the exit. Every other error frees each block once.
\<close>

theorem writeac_double_free:
  assumes "well_formed r" "hd_baseid (in_holder (acinfo a)) \<noteq> None" "in_form (acinfo a) \<noteq> None"
  shows "writeac env r a = None \<longleftrightarrow>
    strings r = [] \<and> first_passes env r \<and> later_fails env r 0 (in_exts (acinfo a) \<noteq> None)"
proof (cases "ac_capabilities env r \<lparr>cl_ac = a, cl_own = nothing_owned\<rparr>")
  case Broken
  then show ?thesis using ac_capabilities_defined(1) [OF assms(1)] by blast
next
  case (Failed e d)
  then have "writeac env r a \<noteq> None"
    using ac_capabilities_defined(2) [OF assms(1) Failed] by (auto simp: writeac_def ac_exit_def)
  moreover have "\<not> (strings r = [] \<and> first_passes env r)"
    using ac_capabilities_without(1) [OF assms(1), of env "\<lparr>cl_ac = a, cl_own = nothing_owned\<rparr>"] Failed by auto
  ultimately show ?thesis by blast
next
  case (Went attrs d)
  then obtain cobj where d: "list_all2 (asked (rq_vo r)) (strings r) attrs"
    "d = \<lparr>cl_ac = with_capability env r cobj a,
      cl_own = (if attrs = [] then without_holder (uri_given r) else with_holder (uri_given r))\<rparr>"
    by (rule ac_capabilities_Went) simp
  show ?thesis
  proof (cases "attrs = []")
    case True
    then have s: "strings r = []" "first_passes env r"
      using d(1) Went ac_capabilities_without(1) [OF assms(1), of env "\<lparr>cl_ac = a, cl_own = nothing_owned\<rparr>"] by auto
    let ?c = "with_capability env r cobj a"
    have "writeac env r a = (case ac_extensions env r 0 ?c of
        Broken \<Rightarrow> None
      | Failed e x \<Rightarrow> None
      | Went _ x \<Rightarrow> (case (hd_baseid (in_holder (acinfo x)), in_form (acinfo x)) of
          (Some base, Some form) \<Rightarrow> Some (0, ac_sign env (rq_pkey r) (ac_fields env r base form x)) | _ \<Rightarrow> None))"
      using True Went d(2)
      by (auto simp: writeac_def ac_attributes_none on_ac_def ac_exit_def no_holder_done_frees split: ac_step.split)
    moreover have "in_exts (acinfo ?c) = in_exts (acinfo a)" by (simp add: with_capability_def)
    moreover have "hd_baseid (in_holder (acinfo x)) \<noteq> None \<and> in_form (acinfo x) \<noteq> None" if "ac_extensions env r 0 ?c = Went u x" for u x
      using core_fields [OF core_extensions [OF that]] assms(2,3) by (simp add: with_capability_def)
    ultimately show ?thesis using s ac_extensions_outcome [of env r 0 ?c]
      by (auto split: if_splits)
  next
    case False
    then have "strings r \<noteq> []" using d(1) by auto
    moreover have "writeac env r a \<noteq> None"
    proof (cases "attributes_ext env r attrs")
      case None
      then show ?thesis using Went d(2) False holder_done_frees
        by (simp add: writeac_def ac_attributes_some ac_exit_def)
    next
      case (Some x)
      let ?c = "push_ext (x\<lparr>ext_critical := False\<rparr>) (with_capability env r cobj a)"
      have "hd_baseid (in_holder (acinfo y)) \<noteq> None \<and> in_form (acinfo y) \<noteq> None"
        if "ac_extensions env r (length attrs) ?c = Went u y" for u y
        using core_fields [OF core_extensions [OF that]] assms(2,3) by (simp add: with_capability_def push_ext_def)
      then show ?thesis
        using Went d(2) False Some holder_done_frees ac_extensions_outcome [of env r "length attrs" ?c]
        by (auto simp: writeac_def ac_attributes_some ac_exit_def on_ac_def split: if_splits)
    qed
    ultimately show ?thesis by blast
  qed
qed

section \<open>A sample\<close>

definition sample_host :: "cstring \<Rightarrow> x509" where
  "sample_host cn = \<lparr>x_subject = [\<lparr>ne_object = ''2.5.4.3'', ne_value = cn, ne_set = 0\<rparr>],
     x_issuer = [\<lparr>ne_object = ''2.5.4.3'', ne_value = ''ca'', ne_set = 0\<rparr>], x_serial = 5,
     x_notBefore = \<lparr>at_type = V_ASN1_UTCTIME, at_data = []\<rparr>, x_notAfter = \<lparr>at_type = V_ASN1_UTCTIME, at_data = []\<rparr>,
     x_pubkey = None, x_exts = [], x_ex_flags = 0, x_ex_pathlen = -1, x_ex_pcpathlen = 0\<rparr>"

definition sample_wenv :: "bytes option \<Rightarrow> wenv" where
  "sample_wenv uid = \<lparr>w_prims = sample_prims, w_mem = (\<lambda>_. True), w_clock = 1234567890, w_gentime = show_int,
     w_object = (\<lambda>s. if s = ''idatcap'' then Some ''1.3.6.1.4.1.8005.100.100.4'' else Some s), w_bytes = (\<lambda>_. ''der''),
     w_key_bits = (\<lambda>_. ''key''), w_sha1 = (\<lambda>b. b), w_keyid = (\<lambda>k. Some [Prim (Universal 4) (the_or [] k)]),
     w_special = (\<lambda>_. None), w_cert_alg = (\<lambda>_. X509_ALGOR_new), w_sig_alg = (\<lambda>_. X509_ALGOR_new), w_uid = (\<lambda>_. uid),
     w_md_of = (\<lambda>_. None), w_sign_alg = (\<lambda>m. X509_ALGOR_new\<lparr>xa_algorithm := m\<rparr>), w_sign = (\<lambda>w k m. Some ''signed'')\<rparr>"

definition sample_ac_request :: ac_request where
  "sample_ac_request = \<lparr>rq_issuerc = sample_host ''voms'', rq_issuerstack = None, rq_holder = sample_host ''user'',
     rq_pkey = \<lparr>pk_type = EVP_PKEY_RSA, pk_modulus = None, pk_bits = 1024\<rparr>, rq_serial = 7,
     rq_fqan = [Some ''/vo/Role=NULL'', Some ''/vo/g/Role=admin'', None], rq_targets = None,
     rq_attributes = Some [Some ''group::nick=x'', Some ''::shell=a=b'', None],
     rq_vo = Some ''vo'', rq_uri = Some ''host:15000'', rq_valid = 43200, rq_old = 0, rq_startpast = 0,
     rq_extensions = None\<rparr>"

lemma sample_env_fields [simp]:
  "w_prims (sample_wenv u) = sample_prims" "w_mem (sample_wenv u) n" "w_uid (sample_wenv u) c = u"
  "w_object (sample_wenv u) ''idatcap'' = Some ''1.3.6.1.4.1.8005.100.100.4''"
  "w_object (sample_wenv u) s = None \<longleftrightarrow> False" "w_keyid (sample_wenv u) k = Some [Prim (Universal 4) (the_or [] k)]"
  by (simp_all add: sample_wenv_def)

lemma conf_ext_sample: "\<exists>e. conf_ext (sample_wenv u) s (Some [d]) = Some e"
  by (auto simp: conf_ext_def sample_wenv_def)

lemma sample_request_fields [simp]:
  "rq_vo sample_ac_request = Some ''vo''" "rq_uri sample_ac_request = Some ''host:15000''" "rq_serial sample_ac_request = 7"
  "rq_fqan sample_ac_request = [Some ''/vo/Role=NULL'', Some ''/vo/g/Role=admin'', None]"
  "rq_attributes sample_ac_request = Some [Some ''group::nick=x'', Some ''::shell=a=b'', None]"
  "rq_targets sample_ac_request = None" "rq_extensions sample_ac_request = None"
  by (simp_all add: sample_ac_request_def)

lemma sample_splits [simp]:
  "strstr ''group::nick=x'' ''::'' = Some 5" "strstr ''nick=x'' ''='' = Some 4"
  "strstr ''::shell=a=b'' ''::'' = Some 0" "strstr ''shell=a=b'' ''='' = Some 5"
  by code_simp+

definition sample_attrs :: "AC_ATTRIBUTE list" where
  "sample_attrs = [\<lparr>ab_name = ''nick'', ab_qualifier = ''group'', ab_value = ''x''\<rparr>,
     \<lparr>ab_name = ''shell'', ab_qualifier = ''vo'', ab_value = ''a=b''\<rparr>]"

lemma sample_attribute_loop:
  "attribute_loop (sample_wenv u) (Some ''vo'') 500 [Some ''group::nick=x'', Some ''::shell=a=b'', None] [] c = Went sample_attrs c"
  by (simp add: split_attribute_def Let_def AC_ATTRIBUTE_new_def sample_attrs_def the_or_def)

lemma sample_well_formed: "well_formed sample_ac_request"
  by (simp add: well_formed_def)

lemma sample_later: "\<not> later_fails (sample_wenv u) sample_ac_request n has"
proof -
  have "\<exists>e. ac_certseq (sample_wenv u) sample_ac_request = Some e"
  proof -
    have "List.map_filter (X509_dup sample_prims) cs = cs" for cs
      by (induction cs) (simp_all add: List.map_filter_simps X509_dup_def prims_dec [OF sample_prims_ok])
    then show ?thesis
      using certs_round_trip [OF sample_prims_ok, of "the_or [] (rq_issuerstack sample_ac_request) @ [rq_issuerc sample_ac_request]"]
        conf_ext_sample [of u "''certseq''"]
      by (auto simp: ac_certseq_def write_value_def)
  qed
  moreover have "\<exists>e. ac_authkey (sample_wenv u) sample_ac_request = Some e"
    using conf_ext_sample [of u "''authKeyId''"] by (auto simp: ac_authkey_def authkey_s2i_def write_value_def)
  ultimately show ?thesis
    using conf_ext_sample [of u "''idcenoRevAvail''" "Prim (Universal 5) []"] by (auto simp: later_fails_def)
qed

lemma sample_written: "\<exists>a. writeac (sample_wenv u) sample_ac_request AC_new = Some (0, a)"
proof -
  let ?env = "sample_wenv u" and ?r = sample_ac_request
  have o: "w_object ?env ''idatcap'' = Some ''1.3.6.1.4.1.8005.100.100.4''" "blocks_made ?env" by (simp_all add: blocks_made_def)
  let ?d = "with_capability ?env ?r ''1.3.6.1.4.1.8005.100.100.4'' AC_new"
  have c: "ac_capabilities ?env ?r \<lparr>cl_ac = AC_new, cl_own = nothing_owned\<rparr> = Went sample_attrs \<lparr>cl_ac = ?d, cl_own = with_holder True\<rparr>"
    unfolding ac_capabilities_made [OF o] by (simp add: sample_attribute_loop del: attribute_loop.simps) (simp add: sample_attrs_def)
  have n: "sample_attrs \<noteq> []" by (simp add: sample_attrs_def)
  obtain x where x: "attributes_ext ?env ?r sample_attrs = Some x"
  proof -
    let ?h = "\<lparr>ah_grantor = make_uri (w_mem ?env 2) (rq_vo ?r) (rq_uri ?r) [], ah_attributes = sample_attrs\<rparr>"
    have v: "attributes_s2i sample_prims (Some [?h]) = Some \<lparr>providers = [Some ?h]\<rparr>"
      by (simp add: attributes_s2i_def att_holder_dup_same [OF sample_prims_ok])
    obtain D where "i2d_AC_FULL_ATTRIBUTES sample_prims \<lparr>providers = [Some ?h]\<rparr> = Some [D]"
      using attributes_round_trip [OF sample_prims_ok v] by auto
    then have "attributes_ext ?env ?r sample_attrs = conf_ext ?env ''attributes'' (Some [D])"
      using v by (simp add: attributes_ext_def write_value_def)
    with conf_ext_sample [of u "''attributes''" D] that show thesis by auto
  qed
  let ?e = "push_ext (x\<lparr>ext_critical := False\<rparr>) ?d"
  obtain y where y: "ac_extensions ?env ?r (length sample_attrs) ?e = Went () y"
    using ac_extensions_outcome [of ?env ?r "length sample_attrs" ?e] sample_later [of u "length sample_attrs"] by auto
  have "hd_baseid (in_holder (acinfo y)) = Some AC_IS_new" "in_form (acinfo y) = Some AC_FORM_new"
    using core_fields [OF core_extensions [OF y]]
    by (simp_all add: push_ext_def with_capability_def AC_new_def AC_INFO_new_def AC_HOLDER_new_def)
  with y show ?thesis by (simp add: writeac_def c ac_attributes_some [OF n] x on_ac_def)
qed

lemma writeac_readable_witness:
  "\<exists>a d b. writeac (sample_wenv None) sample_ac_request AC_new = Some (0, a) \<and> i2d_AC sample_prims a = Some [d] \<and>
    d2i_AC sample_prims d = Some b \<and> fqans_of b = [''/vo/Role=NULL'', ''/vo/g/Role=admin''] \<and>
    in_serial (acinfo b) = 7 \<and> signature b = ''signed'' \<and>
    (\<exists>x xs D h. in_exts (acinfo b) = Some (x # xs) \<and> ext_data x = w_bytes (sample_wenv None) D \<and>
      d2i_AC_FULL_ATTRIBUTES sample_prims D = Some \<lparr>providers = [Some h]\<rparr> \<and>
      ah_grantor h = [Gen_uri ''vo://host:15000''] \<and> list_all2 (asked (Some ''vo'')) [''group::nick=x'', ''::shell=a=b''] (ah_attributes h))"
proof -
  obtain a where a: "writeac (sample_wenv None) sample_ac_request AC_new = Some (0, a)" using sample_written by blast
  have t: "p_text sample_prims ''1.3.6.1.4.1.8005.100.100.4'' = ''idatcap''" by (simp add: sample_prims_def)
  have f: "strings sample_ac_request = [''group::nick=x'', ''::shell=a=b'']" by (simp add: strings_def)
  have g: "w_sign (sample_wenv None) w k m = Some ''signed''" for w k m by (simp add: sample_wenv_def)
  from writeac_readable [OF a] obtain d b attrs x xs D where
    "i2d_AC sample_prims a = Some [d]" "d2i_AC sample_prims d = Some b" "fqans_of b = [''/vo/Role=NULL'', ''/vo/g/Role=admin'']"
    "in_serial (acinfo b) = 7" "signature b = ''signed''"
    "list_all2 (asked (Some ''vo'')) [''group::nick=x'', ''::shell=a=b''] attrs"
    "in_exts (acinfo b) = Some (x # xs)" "ext_data x = w_bytes (sample_wenv None) D"
    "d2i_AC_FULL_ATTRIBUTES sample_prims D = Some \<lparr>providers = [Some \<lparr>ah_grantor = [Gen_uri ''vo://host:15000''], ah_attributes = attrs\<rparr>]\<rparr>"
    by (auto simp: sample_prims_ok t f g the_or_def)
  with a show ?thesis by fastforce
qed

lemma writeac_uid_unreadable_witness:
  "\<exists>a d. writeac (sample_wenv (Some ''u'')) sample_ac_request AC_new = Some (0, a) \<and>
    i2d_AC sample_prims a = Some [d] \<and> d2i_AC sample_prims d = None"
proof -
  obtain a where a: "writeac (sample_wenv (Some ''u'')) sample_ac_request AC_new = Some (0, a)" using sample_written by blast
  have "p_text sample_prims ''1.3.6.1.4.1.8005.100.100.4'' = ''idatcap''" by (simp add: sample_prims_def)
  with writeac_uid_unreadable [OF a] a show ?thesis by (auto simp: sample_prims_ok)
qed

lemma writeac_passed_extensions_witness:
  "writeac (sample_wenv None) (sample_ac_request\<lparr>rq_extensions := Some [\<lparr>ext_object = ''1.2'', ext_critical = False, ext_data = []\<rparr>],
     rq_issuerstack := Some [sample_host ''ca'']\<rparr>) AC_new \<noteq> Some (0, AC_new)"
  by (rule writeac_passed_extensions [of _ "[\<lparr>ext_object = ''1.2'', ext_critical = False, ext_data = []\<rparr>]"
        "[sample_host ''ca'']"]) simp_all

lemma writeac_double_free_witness:
  "writeac ((sample_wenv None)\<lparr>w_object := (\<lambda>s. if s = ''idatcap'' then Some s else None)\<rparr>)
     (sample_ac_request\<lparr>rq_attributes := None\<rparr>) AC_new = None \<and>
   writeac ((sample_wenv None)\<lparr>w_object := (\<lambda>s. if s = ''idatcap'' then Some s else None)\<rparr>) sample_ac_request AC_new \<noteq> None"
proof -
  let ?env = "(sample_wenv None)\<lparr>w_object := (\<lambda>s. if s = ''idatcap'' then Some s else None)\<rparr>"
  let ?r = "sample_ac_request\<lparr>rq_attributes := None\<rparr>"
  have "strings ?r = []" "first_passes ?env ?r" "later_fails ?env ?r 0 has" "well_formed ?r" for has
    by (simp_all add: strings_def first_passes_def blocks_made_def later_fails_def conf_ext_def well_formed_def)
  moreover have "strings sample_ac_request \<noteq> []" by (simp add: strings_def)
  moreover have "hd_baseid (in_holder (acinfo AC_new)) \<noteq> None" "in_form (acinfo AC_new) \<noteq> None"
    by (simp_all add: AC_new_def AC_INFO_new_def AC_HOLDER_new_def)
  ultimately show ?thesis
    using writeac_double_free [of ?r AC_new ?env] writeac_double_free [OF sample_well_formed, of AC_new ?env] by simp
qed

end
