(* ===== verification/Uuid.thy ===== *)
theory Uuid
  imports Prelude
begin

unbundle bit_operations_syntax

text \<open>
  The identifiers of requests (src/src/server/uuid.c): sixteen random bytes with the version and
  variant of RFC 4122. The bytes come from /dev/urandom when it could be opened at the start, and
  from \<open>random\<close> otherwise.
\<close>

text \<open>Whether /dev/urandom could be opened; \<open>srandom\<close> is called when not.\<close>

definition initialize_uuid_generator :: "int \<Rightarrow> bool \<times> bool" where
  "initialize_uuid_generator fd = (if fd = -1 then (False, True) else (True, False))"

text \<open>
  The reads: \<open>rd n k\<close> is what the \<open>n\<close>-th \<open>read\<close> of up to \<open>k\<close> bytes delivers, \<open>None\<close> for -1. The
  loop goes on while bytes arrive and some are missing.
\<close>

definition overwrite :: "'a list \<Rightarrow> nat \<Rightarrow> 'a list \<Rightarrow> 'a list" where
  "overwrite u i bs = take i u @ bs @ drop (i + length bs) u"

function uuid_loop :: "(nat \<Rightarrow> nat \<Rightarrow> 8 word list option) \<Rightarrow> nat \<Rightarrow> nat \<Rightarrow> 8 word list \<Rightarrow> 8 word list" where
  "uuid_loop rd n hasread uuid =
     (case rd n (16 - hasread) of
        None \<Rightarrow> uuid
      | Some bs \<Rightarrow>
          (let d = take (16 - hasread) bs; uuid = overwrite uuid hasread d
           in if d \<noteq> [] \<and> hasread + length d < 16 then uuid_loop rd (Suc n) (hasread + length d) uuid else uuid))"
  by pat_completeness auto
termination
  by (relation "measure (\<lambda>(rd, n, h, u). 16 - h)") (auto simp: neq_Nil_conv)

declare uuid_loop.simps [simp del]

definition uuid_bytes ::
  "bool \<Rightarrow> (nat \<Rightarrow> nat \<Rightarrow> 8 word list option) \<Rightarrow> (nat \<Rightarrow> 32 word) \<Rightarrow> 8 word list \<Rightarrow> 8 word list" where
  "uuid_bytes have_urandom rd rnd uuid =
     (if have_urandom then uuid_loop rd 0 0 uuid
      else map (\<lambda>i. ucast (drop_bit 12 (rnd i AND 0x000ff000))) [0..<16])"

definition generate_uuid ::
  "bool \<Rightarrow> (nat \<Rightarrow> nat \<Rightarrow> 8 word list option) \<Rightarrow> (nat \<Rightarrow> 32 word) \<Rightarrow> 8 word list \<Rightarrow> 8 word list" where
  "generate_uuid have_urandom rd rnd uuid =
     (let u = uuid_bytes have_urandom rd rnd uuid;
          u = u[8 := (u ! 8 AND 0x3f) OR 0x80]
      in u[6 := (u ! 6 AND 0x0f) OR 0x40])"

section \<open>What an identifier looks like\<close>

lemma length_overwrite: "i + length bs \<le> length u \<Longrightarrow> length (overwrite u i bs) = length u"
  by (simp add: overwrite_def)

lemma length_uuid_loop: "length u = 16 \<Longrightarrow> h \<le> 16 \<Longrightarrow> length (uuid_loop rd n h u) = 16"
proof (induction rd n h u rule: uuid_loop.induct)
  case (1 rd n h u)
  show ?case
  proof (cases "rd n (16 - h)")
    case None
    then show ?thesis using 1 by (subst uuid_loop.simps) simp
  next
    case (Some bs)
    have "length (overwrite u h (take (16 - h) bs)) = 16" using 1 by (subst length_overwrite) auto
    with 1 Some show ?thesis by (subst uuid_loop.simps) (simp add: Let_def)
  qed
qed

lemma length_uuid_bytes: "length u = 16 \<Longrightarrow> length (uuid_bytes b rd rnd u) = 16"
  by (simp add: uuid_bytes_def length_uuid_loop)

lemma variant_bits: "((x :: 8 word) AND 0x3f) OR 0x80 = y \<Longrightarrow> bit y 7 \<and> \<not> bit y 6"
  by (auto simp: bit_simps)

lemma version_bits: "((x :: 8 word) AND 0x0f) OR 0x40 = y \<Longrightarrow> \<not> bit y 7 \<and> bit y 6 \<and> \<not> bit y 5 \<and> \<not> bit y 4"
  by (auto simp: bit_simps)

text \<open>
  C36: identifiers of RFC 4122. Whatever the sources of randomness deliver, an identifier has
  sixteen bytes, the two highest bits of byte 8 are 1 and 0, the four highest of byte 6 are the
  version 4, and every other bit is the one delivered.
\<close>

theorem generate_uuid_version:
  assumes "length uuid = 16"
  shows "length (generate_uuid b rd rnd uuid) = 16 \<and>
    map (bit (generate_uuid b rd rnd uuid ! 8)) [7, 6] = [True, False] \<and>
    map (bit (generate_uuid b rd rnd uuid ! 6)) [7, 6, 5, 4] = [False, True, False, False] \<and>
    (\<forall>i < 16. \<forall>k < (if i = 8 then 6 else if i = 6 then 4 else 8).
      bit (generate_uuid b rd rnd uuid ! i) k = bit (uuid_bytes b rd rnd uuid ! i) k)"
proof -
  let ?u = "uuid_bytes b rd rnd uuid"
  have l: "length ?u = 16" by (rule length_uuid_bytes [OF assms])
  have k: "k = 0 \<or> k = 1 \<or> k = 2 \<or> k = 3 \<or> k = 4 \<or> k = 5" if "k < (6 :: nat)" for k using that by auto
  have g: "generate_uuid b rd rnd uuid ! i =
      (if i = 6 then (?u ! 6 AND 0x0f) OR 0x40 else if i = 8 then (?u ! 8 AND 0x3f) OR 0x80 else ?u ! i)" if "i < 16" for i
    using l that by (auto simp: generate_uuid_def Let_def nth_list_update)
  have "bit (generate_uuid b rd rnd uuid ! i) k = bit (?u ! i) k"
    if "i < 16" "k < (if i = 8 then 6 else if i = 6 then 4 else 8)" for i k
    using that k [of k] by (auto simp: g bit_simps split: if_splits)
  then show ?thesis
    using variant_bits [OF refl, of "?u ! 8"] version_bits [OF refl, of "?u ! 6"] l
    by (simp add: g) (simp add: generate_uuid_def Let_def)
qed

lemma generate_uuid_version_witness:
  "length (generate_uuid True (\<lambda>n k. Some [0xff]) (\<lambda>_. 0) (replicate 16 0)) = 16"
  using generate_uuid_version [of "replicate 16 0" True "\<lambda>n k. Some [0xff]" "\<lambda>_. 0"] by simp

end
