(* ===== verification/LogFile.thy ===== *)
theory LogFile
  imports Normalize "HOL-Library.Monad_Syntax"
begin

text \<open>
  The log stream that writes to a file (src/src/log/fs.c), with the rotation of the files.

  The world has names for inodes, the bytes of each inode and the open descriptors with their
  positions; the parameters in it say which files can be opened, what a directory lists, how a
  date prints and how many bytes a write takes. A loop that does not end is \<open>None\<close>.
\<close>

section \<open>Files\<close>

record fworld =
  fw_names :: "cstring \<Rightarrow> nat option"
  fw_data :: "nat \<Rightarrow> cstring"
  fw_fds :: "int \<Rightarrow> (nat \<times> nat) option"
  fw_next_inode :: nat
  fw_next_fd :: int
  fw_can_open :: "cstring \<Rightarrow> bool"
  fw_readdir :: "cstring \<Rightarrow> cstring list option"
  fw_strftime :: "cstring \<Rightarrow> cstring"
  fw_accept :: "nat \<Rightarrow> int"

text \<open>\<open>open\<close> with \<open>O_CREAT\<close>; \<open>excl\<close> is \<open>O_EXCL\<close>. The position of a new descriptor is 0.\<close>

definition sys_open :: "bool \<Rightarrow> fworld \<Rightarrow> cstring \<Rightarrow> int \<times> fworld" where
  "sys_open excl w name =
     (if \<not> fw_can_open w name \<or> (excl \<and> fw_names w name \<noteq> None) then (-1, w)
      else (let fd = fw_next_fd w;
                ino = (case fw_names w name of Some i \<Rightarrow> i | None \<Rightarrow> fw_next_inode w);
                new = (fw_names w name = None)
            in (fd, w\<lparr>fw_names := (fw_names w)(name := Some ino),
                      fw_data := (if new then (fw_data w)(ino := []) else fw_data w),
                      fw_fds := (fw_fds w)(fd := Some (ino, 0)),
                      fw_next_inode := (if new then fw_next_inode w + 1 else fw_next_inode w),
                      fw_next_fd := fd + 1\<rparr>)))"

definition sys_close :: "fworld \<Rightarrow> int \<Rightarrow> fworld" where
  "sys_close w fd = w\<lparr>fw_fds := (fw_fds w)(fd := None)\<rparr>"

definition sys_rename :: "fworld \<Rightarrow> cstring \<Rightarrow> cstring \<Rightarrow> int \<times> fworld" where
  "sys_rename w a b =
     (case fw_names w a of None \<Rightarrow> (-1, w)
      | Some i \<Rightarrow> if a = b then (0, w) else (0, w\<lparr>fw_names := (fw_names w)(b := Some i, a := None)\<rparr>))"

definition sys_unlink :: "fworld \<Rightarrow> cstring \<Rightarrow> fworld" where
  "sys_unlink w name = w\<lparr>fw_names := (fw_names w)(name := None)\<rparr>"

text \<open>A write in append mode: it moves to the end and takes some of the bytes.\<close>

definition sys_write :: "fworld \<Rightarrow> int \<Rightarrow> cstring \<Rightarrow> int \<times> fworld" where
  "sys_write w fd s =
     (case fw_fds w fd of None \<Rightarrow> (-1, w)
      | Some (ino, _) \<Rightarrow>
          (let n = fw_accept w (length s)
           in if n < 0 then (-1, w)
              else (let d = fw_data w ino @ take (nat n) s
                    in (n, w\<lparr>fw_data := (fw_data w)(ino := d), fw_fds := (fw_fds w)(fd := Some (ino, length d))\<rparr>))))"

definition sys_position :: "fworld \<Rightarrow> int \<Rightarrow> int" where
  "sys_position w fd = (case fw_fds w fd of None \<Rightarrow> -1 | Some (_, p) \<Rightarrow> int p)"

section \<open>Rotation\<close>

definition numbered :: "cstring \<Rightarrow> nat \<Rightarrow> cstring" where
  "numbered name i = name @ ''.'' @ show_nat i"

text \<open>The directory and the file name of a path.\<close>

definition split_path :: "cstring \<Rightarrow> cstring \<times> cstring" where
  "split_path name =
     (case strrchr name (CHR ''/'') of
        None \<Rightarrow> (''.'', name)
      | Some p \<Rightarrow> if p = 0 then (''/'', drop 1 name) else (take p name, drop (p + 1) name))"

text \<open>The highest number among the entries \<open>basename.number\<close> of a directory.\<close>

fun max_loop :: "cstring \<Rightarrow> cstring list \<Rightarrow> int \<Rightarrow> int" where
  "max_loop basename [] mx = mx"
| "max_loop basename (d # ds) mx =
     (case strrchr d (CHR ''.'') of
        None \<Rightarrow> max_loop basename ds mx
      | Some p \<Rightarrow>
          if atoi (drop (p + 1) d) > mx \<and> p = length basename \<and> strncmp basename d (length basename) = 0
          then max_loop basename ds (atoi (drop (p + 1) d)) else max_loop basename ds mx)"

fun shift_loop :: "cstring \<Rightarrow> nat \<Rightarrow> fworld \<Rightarrow> fworld" where
  "shift_loop name 0 w = w"
| "shift_loop name (Suc i) w =
     (case (snprintf_wrap True (numbered name (Suc i + 1)), snprintf_wrap True (numbered name (Suc i))) of
        (Some newname, Some oldname) \<Rightarrow> shift_loop name i (snd (sys_rename w oldname newname))
      | _ \<Rightarrow> shift_loop name i w)"

definition rotate_max :: "fworld \<Rightarrow> cstring \<Rightarrow> int" where
  "rotate_max w name =
     (case fw_readdir w (fst (split_path name)) of None \<Rightarrow> 0
      | Some ds \<Rightarrow> max_loop (snd (split_path name)) ds 0)"

definition logfile_rotate :: "cstring \<Rightarrow> fworld \<Rightarrow> int \<times> fworld" where
  "logfile_rotate name w =
     (case snprintf_wrap True (name @ ''-lck'') of None \<Rightarrow> (0, w)
      | Some fname \<Rightarrow>
          (case sys_open True w fname of (fd, w) \<Rightarrow>
             if fd = -1 then (0, w)
             else
               (let w = shift_loop name (nat (rotate_max w name)) w;
                    (result, w) = (case snprintf_wrap True (numbered name 1) of None \<Rightarrow> (0, w)
                      | Some newname \<Rightarrow>
                          (case sys_rename w name newname of (r, w) \<Rightarrow> (if r \<noteq> -1 then 1 else 0, w)))
                in (result, sys_close (sys_unlink w fname) fd))))"

section \<open>The stream\<close>

record file_data =
  ld_name :: "cstring option"
  ld_dateformat :: "cstring option"
  ld_maxlog :: int
  ld_fd :: int

text \<open>\<open>translate\<close>: each \<open>%d\<close> replaced by the date, searching again from the start.\<close>

definition splice_date :: "cstring \<Rightarrow> cstring \<Rightarrow> nat \<Rightarrow> cstring option" where
  "splice_date format date p = snprintf_wrap True (take p format @ date @ drop (p + 2) format)"

partial_function (option) translate :: "cstring \<Rightarrow> cstring \<Rightarrow> cstring option" where
  "translate format date =
     (if strstr format ''%d'' = None then Some format
      else if splice_date format date (the (strstr format ''%d'')) = None then None
      else translate (the (splice_date format date (the (strstr format ''%d'')))) date)"

definition filereopen :: "file_data \<Rightarrow> fworld \<Rightarrow> (int \<times> file_data \<times> fworld) option" where
  "filereopen ld w =
     (case ld_name ld of None \<Rightarrow> None
      | Some name \<Rightarrow>
          (case sys_open False w name of (newfd, w) \<Rightarrow>
             if newfd \<noteq> -1 then Some (1, ld\<lparr>ld_fd := newfd\<rparr>, sys_close w (ld_fd ld))
             else Some (0, ld, w)))"

text \<open>The loop that writes what is left of the line.\<close>

partial_function (option) write_loop :: "fworld \<Rightarrow> int \<Rightarrow> cstring \<Rightarrow> fworld option" where
  "write_loop w fd rest =
     (if fst (sys_write w fd rest) = -1 then Some (snd (sys_write w fd rest))
      else if nat (fst (sys_write w fd rest)) = length rest then Some (snd (sys_write w fd rest))
      else write_loop (snd (sys_write w fd rest)) fd (drop (nat (fst (sys_write w fd rest))) rest))"

definition rotate_if_full :: "file_data \<Rightarrow> fworld \<Rightarrow> (file_data \<times> fworld) option" where
  "rotate_if_full ld w =
     (if ld_maxlog ld \<noteq> 0 \<and> sys_position w (ld_fd ld) > ld_maxlog ld then
        (case ld_name ld of None \<Rightarrow> None
         | Some name \<Rightarrow>
             (case logfile_rotate name w of (r, w) \<Rightarrow>
                if r = 0 then
                  Some (ld, snd (sys_write w (ld_fd ld) (''VOMS: LOGGING ROTATION ERROR'' @ [CHR 0x0A])))
                else
                  (case filereopen ld w of None \<Rightarrow> None
                   | Some (r, ld, w) \<Rightarrow>
                       if r = 0 then
                         Some (ld, snd (sys_write w (ld_fd ld) (''VOMS: LOGGING ROTATION ERROR'' @ [CHR 0x0A])))
                       else Some (ld, w))))
      else Some (ld, w))"

text \<open>An empty date makes the loop around \<open>strftime\<close> run for ever.\<close>

definition fileoutputter :: "file_data option \<Rightarrow> cstring \<Rightarrow> fworld \<Rightarrow> (int \<times> file_data option \<times> fworld) option" where
  "fileoutputter data s w =
     (case data of None \<Rightarrow> Some (0, None, w)
      | Some ld \<Rightarrow>
          if ld_fd ld = -1 then Some (0, data, w)
          else do {
            lw \<leftarrow> rotate_if_full ld w;
            output \<leftarrow> (case ld_dateformat (fst lw) of None \<Rightarrow> Some s
                       | Some fmt \<Rightarrow>
                           (let date = fw_strftime (snd lw) fmt
                            in if date = [] then None else translate s date));
            w \<leftarrow> write_loop (snd lw) (ld_fd (fst lw)) output;
            Some (1, Some (fst lw), w)
          })"

definition filedestroy :: "file_data option \<Rightarrow> fworld \<Rightarrow> fworld" where
  "filedestroy data w =
     (case data of None \<Rightarrow> w | Some ld \<Rightarrow> if ld_fd ld \<noteq> -1 then sys_close w (ld_fd ld) else w)"

definition fileinit :: "bool \<Rightarrow> file_data option" where
  "fileinit mem = (if mem then Some \<lparr>ld_name = None, ld_dateformat = None, ld_maxlog = 0, ld_fd = -1\<rparr> else None)"

definition fileoptioner :: "file_data option \<Rightarrow> cstring \<Rightarrow> cstring \<Rightarrow> fworld \<Rightarrow> file_data option \<times> fworld" where
  "fileoptioner data name val w =
     (case data of None \<Rightarrow> (None, w)
      | Some ld \<Rightarrow>
          if strcmp name ''NAME'' = 0 then
            (case sys_open False w val of (fd, w) \<Rightarrow>
               if fd \<noteq> -1 then
                 (Some (ld\<lparr>ld_name := Some val, ld_fd := fd\<rparr>),
                  if ld_name ld \<noteq> None \<and> ld_fd ld \<noteq> -1 then sys_close w (ld_fd ld) else w)
               else (Some ld, w))
          else if strcmp name ''MAXSIZE'' = 0 then (Some (ld\<lparr>ld_maxlog := atoi val\<rparr>), w)
          else if strcmp name ''DATEFORMAT'' = 0 then (Some (ld\<lparr>ld_dateformat := Some val\<rparr>), w)
          else (Some ld, w))"

section \<open>Rotation shifts the files\<close>

lemma numbered_inject [simp]: "numbered name i = numbered name j \<longleftrightarrow> i = j"
  by (simp add: numbered_def)

lemma numbered_other [simp]: "numbered name i \<noteq> name" "name \<noteq> numbered name i" "numbered name i \<noteq> name @ ''-lck''"
  by (simp_all add: numbered_def)

lemma numbered_wrap: "snprintf_wrap True (numbered name i) = Some (numbered name i)"
  by (simp add: snprintf_wrap_Some numbered_def)

definition frame :: "fworld \<Rightarrow> fworld \<Rightarrow> bool" where
  "frame w v \<longleftrightarrow> fw_data v = fw_data w \<and> fw_fds v = fw_fds w \<and> fw_next_inode v = fw_next_inode w \<and>
     fw_next_fd v = fw_next_fd w \<and> fw_can_open v = fw_can_open w \<and> fw_readdir v = fw_readdir w \<and>
     fw_strftime v = fw_strftime w \<and> fw_accept v = fw_accept w"

lemma frame_rename [simp]: "frame w (snd (sys_rename w a b))"
  by (auto simp: sys_rename_def frame_def split: option.splits)

lemma frame_trans: "frame w v \<Longrightarrow> frame v u \<Longrightarrow> frame w u"
  by (simp add: frame_def)

lemma rename_names:
  "a \<noteq> b \<Longrightarrow> fw_names (snd (sys_rename w a b)) =
     (if fw_names w a = None then fw_names w else (fw_names w)(b := fw_names w a, a := None))"
  by (auto simp: sys_rename_def split: option.splits)

lemma shift_loop_names:
  assumes "m = 0 \<or> fw_names w (numbered name (m + 1)) = None \<or> fw_names w (numbered name m) \<noteq> None"
  shows "frame w (shift_loop name m w) \<and>
    (\<forall>j. 1 \<le> j \<and> j \<le> m \<longrightarrow> fw_names (shift_loop name m w) (numbered name (j + 1)) = fw_names w (numbered name j)) \<and>
    (m \<noteq> 0 \<longrightarrow> fw_names (shift_loop name m w) (numbered name 1) = None) \<and>
    (\<forall>x. (\<forall>j. 1 \<le> j \<and> j \<le> m + 1 \<longrightarrow> x \<noteq> numbered name j) \<longrightarrow> fw_names (shift_loop name m w) x = fw_names w x)"
  using assms
proof (induction m arbitrary: w)
  case 0
  then show ?case by (simp add: frame_def)
next
  case (Suc m)
  let ?v = "snd (sys_rename w (numbered name (Suc m)) (numbered name (Suc m + 1)))"
  have step: "shift_loop name (Suc m) w = shift_loop name m ?v"
    by (simp add: numbered_wrap)
  have names: "fw_names ?v = (if fw_names w (numbered name (Suc m)) = None then fw_names w
      else (fw_names w)(numbered name (Suc m + 1) := fw_names w (numbered name (Suc m)), numbered name (Suc m) := None))"
    by (rule rename_names) simp
  then have empty: "fw_names ?v (numbered name (Suc m)) = None" and
    top: "fw_names ?v (numbered name (Suc m + 1)) = fw_names w (numbered name (Suc m))"
    using Suc.prems by auto
  have below: "fw_names ?v (numbered name j) = fw_names w (numbered name j)" if "j \<le> m" for j
    using names that by auto
  have other: "fw_names ?v x = fw_names w x" if "\<forall>j. 1 \<le> j \<and> j \<le> Suc m + 1 \<longrightarrow> x \<noteq> numbered name j" for x
    using names that by auto
  have IH: "frame ?v (shift_loop name m ?v)"
    "\<And>j. 1 \<le> j \<and> j \<le> m \<Longrightarrow> fw_names (shift_loop name m ?v) (numbered name (j + 1)) = fw_names ?v (numbered name j)"
    "m \<noteq> 0 \<Longrightarrow> fw_names (shift_loop name m ?v) (numbered name 1) = None"
    "\<And>x. \<forall>j. 1 \<le> j \<and> j \<le> m + 1 \<longrightarrow> x \<noteq> numbered name j \<Longrightarrow> fw_names (shift_loop name m ?v) x = fw_names ?v x"
    using Suc.IH [of ?v] empty by auto
  have last: "fw_names (shift_loop name m ?v) (numbered name (Suc m + 1)) = fw_names w (numbered name (Suc m))"
    using IH(4) [of "numbered name (Suc m + 1)"] top by simp
  have one: "fw_names (shift_loop name m ?v) (numbered name 1) = None"
  proof (cases m)
    case 0
    then show ?thesis using empty by simp
  qed (use IH(3) in simp)
  have "fw_names (shift_loop name m ?v) (numbered name (j + 1)) = fw_names w (numbered name j)" if "1 \<le> j" "j \<le> Suc m" for j
    using that IH(2) [of j] below [of j] last by (cases "j = Suc m") auto
  moreover have "fw_names (shift_loop name m ?v) x = fw_names w x"
    if "\<forall>j. 1 \<le> j \<and> j \<le> Suc m + 1 \<longrightarrow> x \<noteq> numbered name j" for x
    using IH(4) [of x] other [OF that] that by auto
  ultimately show ?case
    unfolding step using IH(1) frame_trans [OF frame_rename] one by auto
qed

text \<open>
  C29: rotation loses nothing. When the lock can be taken, the log file becomes number 1, each
  numbered file moves up by one (with gaps kept as gaps), no other name is touched, the bytes of
  every file stay, and the lock is gone.
\<close>

theorem rotate_shifts:
  assumes "fw_can_open w (name @ ''-lck'')" "fw_names w (name @ ''-lck'') = None" "fw_names w name = Some ino"
    and "0 \<le> fw_next_fd w" "m = nat (rotate_max w name)"
    and "m = 0 \<or> fw_names w (numbered name m) \<noteq> None" "logfile_rotate name w = (r, w')"
  shows "r = 1 \<and> fw_names w' name = None \<and> fw_names w' (numbered name 1) = Some ino \<and>
    (\<forall>j \<in> {1..m}. fw_names w' (numbered name (j + 1)) = fw_names w (numbered name j)) \<and>
    (\<forall>x. x \<noteq> name \<and> x \<notin> numbered name ` {1..m + 1} \<longrightarrow> fw_names w' x = fw_names w x) \<and>
    (\<forall>i < fw_next_inode w. fw_data w' i = fw_data w i)"
proof -
  let ?lck = "name @ ''-lck''"
  obtain fd v where op: "sys_open True w ?lck = (fd, v)" by force
  have fd: "fd \<noteq> -1" and v: "fw_names v = (fw_names w)(?lck := Some (fw_next_inode w))"
    "fw_data v = (fw_data w)(fw_next_inode w := [])" "fw_readdir v = fw_readdir w"
    using op assms(1,2,4) by (auto simp: sys_open_def Let_def)
  have m: "nat (rotate_max v name) = m" using v(3) assms(5) by (simp add: rotate_max_def)
  let ?u = "shift_loop name m v"
  have vn: "fw_names v (numbered name j) = fw_names w (numbered name j)" for j by (simp add: v)
  have u: "frame v ?u"
    "\<And>j. 1 \<le> j \<and> j \<le> m \<Longrightarrow> fw_names ?u (numbered name (j + 1)) = fw_names w (numbered name j)"
    "\<And>x. \<forall>j. 1 \<le> j \<and> j \<le> m + 1 \<longrightarrow> x \<noteq> numbered name j \<Longrightarrow> fw_names ?u x = fw_names v x"
    using shift_loop_names [of m v name] assms(6) vn by auto
  have nm: "fw_names ?u name = Some ino" using u(3) [of name] v(1) assms(3) by simp
  let ?t = "snd (sys_rename ?u name (numbered name 1))"
  have t: "fw_names ?t = (fw_names ?u)(numbered name 1 := Some ino, name := None)" "frame ?u ?t"
    "fst (sys_rename ?u name (numbered name 1)) = 0"
    using rename_names [of name "numbered name 1" ?u] nm by (auto simp: sys_rename_def frame_def)
  have r: "r = 1" and w': "w' = sys_close (sys_unlink ?t ?lck) fd"
    using assms(7) op fd m t(3)
    by (auto simp: logfile_rotate_def snprintf_wrap_Some numbered_wrap Let_def split: prod.splits)
  have names: "fw_names w' = (fw_names ?t)(?lck := None)" and data: "fw_data w' = fw_data v"
    using w' u(1) t(2) by (simp_all add: sys_close_def sys_unlink_def frame_def)
  have "fw_names w' x = fw_names w x" if "x \<noteq> name" "x \<notin> numbered name ` {1..m + 1}" for x
  proof -
    have "\<forall>j. 1 \<le> j \<and> j \<le> m + 1 \<longrightarrow> x \<noteq> numbered name j" using that(2) by auto
    with u(3) [of x] that names t(1) v(1) assms(2) show ?thesis by auto
  qed
  moreover have "fw_names w' (numbered name (j + 1)) = fw_names w (numbered name j)" if "j \<in> {1..m}" for j
    using u(2) [of j] that names t(1) by simp
  moreover have "fw_names w' name = None" "fw_names w' (numbered name 1) = Some ino"
    using names t(1) by simp_all
  ultimately show ?thesis using r data v(2) by simp
qed

definition sample_files :: fworld where
  "sample_files =
     \<lparr>fw_names = [''log'' \<mapsto> 0, ''log.1'' \<mapsto> 1], fw_data = (\<lambda>i. if i = 0 then ''new'' else ''old''),
      fw_fds = [3 \<mapsto> (0, 3)], fw_next_inode = 2, fw_next_fd = 4, fw_can_open = (\<lambda>_. True),
      fw_readdir = (\<lambda>_. Some [''.'', ''log'', ''log.1'', ''other.7'']), fw_strftime = (\<lambda>f. ''Mon''),
      fw_accept = (\<lambda>n. int ((n + 1) div 2))\<rparr>"

lemma numbered_1: "numbered ''log'' 1 = ''log.1''"
proof -
  have "char_of (49 :: nat) = CHR ''1''" using char_of_char [where 'a = nat, of "CHR ''1''"] by simp
  then have "show_nat 1 = ''1''" by (subst show_nat.simps) simp
  then show ?thesis by (simp add: numbered_def)
qed

lemma sample_rotate_max: "nat (rotate_max sample_files ''log'') = 1"
  by (simp add: rotate_max_def sample_files_def split_path_def atoi_def strtol_def isspace_def isdigit_def digit_val_def
      strncmp_def)

lemma rotate_shifts_witness:
  "\<exists>w'. logfile_rotate ''log'' sample_files = (1, w') \<and> fw_names w' ''log'' = None \<and>
     fw_names w' ''log.1'' = Some 0 \<and> fw_names w' (numbered ''log'' 2) = Some 1"
proof -
  obtain r w' where rw: "logfile_rotate ''log'' sample_files = (r, w')" by force
  have n: "fw_names sample_files (numbered ''log'' 1) = Some 1" unfolding numbered_1 by (simp add: sample_files_def)
  have "r = 1 \<and> fw_names w' ''log'' = None \<and> fw_names w' (numbered ''log'' 1) = Some 0 \<and>
    (\<forall>j \<in> {1..1}. fw_names w' (numbered ''log'' (j + 1)) = fw_names sample_files (numbered ''log'' j)) \<and>
    (\<forall>x. x \<noteq> ''log'' \<and> x \<notin> numbered ''log'' ` {1..1 + 1} \<longrightarrow> fw_names w' x = fw_names sample_files x) \<and>
    (\<forall>i < fw_next_inode sample_files. fw_data w' i = fw_data sample_files i)"
  proof (rule rotate_shifts [OF _ _ _ _ _ _ rw])
    show "1 = nat (rotate_max sample_files ''log'')" by (simp only: sample_rotate_max)
    show "(1 :: nat) = 0 \<or> fw_names sample_files (numbered ''log'' 1) \<noteq> None" using n by simp
  qed (simp_all add: sample_files_def)
  note all = this
  have two: "fw_names w' (numbered ''log'' 2) = Some 1"
    using all [THEN conjunct2, THEN conjunct2, THEN conjunct2, THEN conjunct1, THEN bspec, of 1] n
    by (simp add: numeral_2_eq_2)
  have "r = 1" "fw_names w' ''log'' = None" "fw_names w' ''log.1'' = Some 0"
    using all [THEN conjunct1] all [THEN conjunct2, THEN conjunct1]
      all [THEN conjunct2, THEN conjunct2, THEN conjunct1, unfolded numbered_1] by simp_all
  with rw two show ?thesis by simp
qed

section \<open>A line is written whole\<close>

text \<open>A date that cannot form a directive with what surrounds it.\<close>

definition plain_date :: "cstring \<Rightarrow> bool" where
  "plain_date d \<longleftrightarrow> d \<noteq> [] \<and> CHR ''%'' \<notin> set d \<and> hd d \<noteq> CHR ''d''"

text \<open>A text in which no directive begins, whatever follows it.\<close>

definition sealed :: "cstring \<Rightarrow> bool" where
  "sealed p \<longleftrightarrow> (\<forall>j < length p. \<forall>s. \<not> prefix ''%d'' (drop j (p @ s)))"

lemma prefix_directive:
  "prefix ''%d'' (drop j x) \<longleftrightarrow> Suc j < length x \<and> x ! j = CHR ''%'' \<and> x ! Suc j = CHR ''d''"
proof (cases "Suc j < length x")
  case True
  then have "drop j x = x ! j # x ! Suc j # drop (Suc (Suc j)) x" by (simp add: Cons_nth_drop_Suc)
  with True show ?thesis by auto
next
  case False
  then have "length (drop j x) < 2" by simp
  with False show ?thesis by (auto dest: prefix_length_le)
qed

lemma sealed_extend:
  assumes p: "sealed p" and i: "strstr s ''%d'' = Some i" and d: "plain_date d"
  shows "sealed (p @ take i s @ d)"
  unfolding sealed_def
proof (intro allI impI)
  fix j r
  assume j: "j < length (p @ take i s @ d)"
  note first = strstr_SomeD [OF i]
  have i2: "i < length s" using first(1) by simp
  obtain c d' where dc: "d = c # d'" "c \<noteq> CHR ''d''" using d by (cases d) (auto simp: plain_date_def)
  show "\<not> prefix ''%d'' (drop j ((p @ take i s @ d) @ r))"
  proof (cases "j < length p")
    case True
    then show ?thesis using p by (simp add: sealed_def)
  next
    case False
    show ?thesis
    proof (cases "j < length p + i")
      case True
      let ?k = "j - length p"
      have k: "?k < i" using True False by simp
      show ?thesis
      proof (cases "Suc ?k < i")
        case True
        then show ?thesis
          using first(3) [OF k] False i2 unfolding prefix_directive by (auto simp: nth_append Suc_diff_le)
      next
        case last: False
        then have "Suc j = length p + i" using k False by simp
        then have "((p @ take i s @ d) @ r) ! Suc j = c" using dc i2 by (simp add: nth_append)
        then show ?thesis using dc unfolding prefix_directive by simp
      qed
    next
      case in_d: False
      then have "((p @ take i s @ d) @ r) ! j \<in> set d" using j i2 by (auto simp: nth_append)
      then show ?thesis using d unfolding prefix_directive by (auto simp: plain_date_def)
    qed
  qed
qed

lemma translate_from:
  assumes "plain_date d"
  shows "sealed p \<Longrightarrow> translate (p @ s) d = Some (p @ rewrite [(''%d'', d)] s)"
proof (induction "length s" arbitrary: p s rule: less_induct)
  case less
  have skip: "strstr (p @ s) ''%d'' = map_option (\<lambda>i. i + length p) (strstr s ''%d'')"
    using strstr_skip [of "length p" "''%d''" "p @ s"] less.prems by (simp add: sealed_def)
  show ?case
  proof (cases "strstr s ''%d''")
    case None
    then show ?thesis using skip by (subst translate.simps) (simp add: rewrite_no_match)
  next
    case (Some i)
    let ?p = "p @ take i s @ d"
    have sp: "splice_date (p @ s) d (i + length p) = Some (?p @ drop (i + 2) s)"
      using assms strstr_SomeD(1) [OF Some] by (simp add: splice_date_def snprintf_wrap_Some plain_date_def)
    have "translate (?p @ drop (i + 2) s) d = Some (?p @ rewrite [(''%d'', d)] (drop (i + 2) s))"
      using less.hyps [OF _ sealed_extend [OF less.prems Some assms]] strstr_SomeD(1) [OF Some] by simp
    then show ?thesis
      using skip Some sp rewrite_first_match [OF Some, of d] by (subst translate.simps) simp
  qed
qed

lemma translate_plain: "plain_date d \<Longrightarrow> translate s d = Some (rewrite [(''%d'', d)] s)"
  using translate_from [of d "[]" s] by (simp add: sealed_def)

lemma translate_returns:
  assumes "translate s d = Some t"
  shows "sublist ''%d'' d \<longrightarrow> strstr s ''%d'' = None"
proof (rule translate.raw_induct [where P = "\<lambda>s d t. sublist ''%d'' d \<longrightarrow> strstr s ''%d'' = None", OF _ assms])
  fix f s d t
  assume ih: "\<And>s d t. f s d = Some t \<Longrightarrow> sublist ''%d'' d \<longrightarrow> strstr s ''%d'' = None"
    and body: "(if strstr s ''%d'' = None then Some s
      else if splice_date s d (the (strstr s ''%d'')) = None then None
      else f (the (splice_date s d (the (strstr s ''%d'')))) d) = Some t"
  show "sublist ''%d'' d \<longrightarrow> strstr s ''%d'' = None"
  proof (rule impI, rule ccontr)
    assume d: "sublist ''%d'' d" and c: "strstr s ''%d'' \<noteq> None"
    then obtain n where n: "splice_date s d (the (strstr s ''%d'')) = Some n" "f n d = Some t"
      using body by (auto split: if_splits)
    then have "sublist d n"
      by (auto simp: splice_date_def snprintf_wrap_def vsnprintf_wrap_def sublist_def split: if_splits)
    with d have "sublist ''%d'' n" by (meson sublist_order.order_trans)
    with ih [OF n(2)] d show False by (simp add: strstr_None)
  qed
qed

text \<open>
  C35: the dates in a line. The loop ends after one pass over the line when the date brings no
  percent sign and does not complete a directive, and replaces every directive by the date; when
  the date itself contains the directive and the line has one, it never returns.
\<close>

theorem translate_ends:
  "(plain_date d \<longrightarrow> translate s d = Some (rewrite [(''%d'', d)] s)) \<and>
   (sublist ''%d'' d \<and> strstr s ''%d'' \<noteq> None \<longrightarrow> translate s d = None)"
  using translate_plain [of d s] translate_returns [of s d] by (cases "translate s d") auto

lemma translate_ends_witness:
  "translate ''at %d: x'' ''2009'' = Some ''at 2009: x'' \<and> translate ''%d'' ''%d'' = None"
proof -
  have "translate ''at %d: x'' ''2009'' = Some (rewrite [(''%d'', ''2009'')] ''at %d: x'')"
    using translate_ends [of "''2009''" "''at %d: x''"] by (simp add: plain_date_def)
  moreover have "translate ''%d'' ''%d'' = None"
    using translate_ends [of "''%d''" "''%d''"] by simp
  ultimately show ?thesis by simp
qed

lemma write_loop_all:
  assumes "\<And>n. 0 < n \<Longrightarrow> 0 < fw_accept w n \<and> fw_accept w n \<le> int n" "fw_fds w fd = Some (ino, pos)" "rest \<noteq> []"
  shows "\<exists>w'. write_loop w fd rest = Some w' \<and> fw_data w' = (fw_data w)(ino := fw_data w ino @ rest) \<and> fw_names w' = fw_names w"
  using assms
proof (induction "length rest" arbitrary: w rest pos rule: less_induct)
  case less
  let ?n = "fw_accept w (length rest)" and ?v = "snd (sys_write w fd rest)"
  have n: "0 < ?n" "?n \<le> int (length rest)" using less.prems(1) [of "length rest"] less.prems(3) by auto
  have w1: "fst (sys_write w fd rest) = ?n" "fw_accept ?v = fw_accept w" "fw_names ?v = fw_names w"
    "fw_data ?v = (fw_data w)(ino := fw_data w ino @ take (nat ?n) rest)" "\<exists>q. fw_fds ?v fd = Some (ino, q)"
    using n less.prems(2) by (simp_all add: sys_write_def Let_def)
  show ?case
  proof (cases "nat ?n = length rest")
    case True
    with w1 n show ?thesis by (subst write_loop.simps) simp
  next
    case False
    let ?r = "drop (nat ?n) rest"
    from w1(5) obtain q where q: "fw_fds ?v fd = Some (ino, q)" by blast
    obtain w' where w': "write_loop ?v fd ?r = Some w'" "fw_data w' = (fw_data ?v)(ino := fw_data ?v ino @ ?r)"
        "fw_names w' = fw_names ?v"
      using less.hyps [of ?r ?v q] less.prems(1) w1(2) q n False by fastforce
    have "write_loop w fd rest = write_loop ?v fd ?r"
      using w1(1) n False by (subst write_loop.simps) simp
    with w' w1 show ?thesis by simp
  qed
qed

text \<open>
  C30: a line reaches the file whole. Below the size limit, with a date that holds no percent
  sign and does not begin with d, fileoutputter ends, and the file has grown by exactly the line
  with every %d replaced by the date, however many pieces the writes take.
\<close>

theorem fileoutputter_appends:
  assumes "ld_fd ld \<noteq> -1" "fw_fds w (ld_fd ld) = Some (ino, pos)" "ld_maxlog ld = 0 \<or> int pos \<le> ld_maxlog ld"
    and "\<And>n. 0 < n \<Longrightarrow> 0 < fw_accept w n \<and> fw_accept w n \<le> int n" "s \<noteq> []"
    and "\<And>f. ld_dateformat ld = Some f \<Longrightarrow> plain_date (fw_strftime w f)"
  shows "\<exists>w'. fileoutputter (Some ld) s w = Some (1, Some ld, w') \<and>
    fw_data w' = (fw_data w)(ino := fw_data w ino @
      (case ld_dateformat ld of None \<Rightarrow> s | Some f \<Rightarrow> rewrite [(''%d'', fw_strftime w f)] s)) \<and>
    fw_names w' = fw_names w"
proof -
  let ?out = "case ld_dateformat ld of None \<Rightarrow> s | Some f \<Rightarrow> rewrite [(''%d'', fw_strftime w f)] s"
  have ne: "?out \<noteq> []"
    using assms(5,6) by (cases s) (auto simp: plain_date_def split: option.splits)
  obtain w' where w': "write_loop w (ld_fd ld) ?out = Some w'" "fw_data w' = (fw_data w)(ino := fw_data w ino @ ?out)"
      "fw_names w' = fw_names w"
    using write_loop_all [OF assms(4,2) ne] by blast
  have "rotate_if_full ld w = Some (ld, w)"
    using assms(2,3) by (auto simp: rotate_if_full_def sys_position_def)
  then have "fileoutputter (Some ld) s w = Some (1, Some ld, w')"
    using assms(1,6) w'(1) by (auto simp: fileoutputter_def translate_plain plain_date_def split: option.splits)
  with w' show ?thesis by blast
qed

lemma fileoutputter_appends_witness:
  "\<exists>w'. fileoutputter (Some \<lparr>ld_name = Some ''log'', ld_dateformat = Some ''%a'', ld_maxlog = 9, ld_fd = 3\<rparr>) ''a%dd'' sample_files
     = Some (1, Some \<lparr>ld_name = Some ''log'', ld_dateformat = Some ''%a'', ld_maxlog = 9, ld_fd = 3\<rparr>, w') \<and>
   fw_data w' 0 = ''newaMond''"
proof -
  let ?ld = "\<lparr>ld_name = Some ''log'', ld_dateformat = Some ''%a'', ld_maxlog = 9, ld_fd = 3\<rparr>"
  have "\<exists>w'. fileoutputter (Some ?ld) ''a%dd'' sample_files = Some (1, Some ?ld, w') \<and>
    fw_data w' = (fw_data sample_files)(0 := fw_data sample_files 0 @
      (case ld_dateformat ?ld of None \<Rightarrow> ''a%dd'' | Some f \<Rightarrow> rewrite [(''%d'', fw_strftime sample_files f)] ''a%dd'')) \<and>
    fw_names w' = fw_names sample_files"
    by (rule fileoutputter_appends [where pos = 3]) (auto simp: sample_files_def plain_date_def)
  then show ?thesis by (auto simp: sample_files_def)
qed

end
