(* ===== verification/LogSyslog.thy ===== *)
theory LogSyslog
  imports LogFile
begin

text \<open>
  The log stream that writes to syslog (src/src/log/sl.c). The world records the identity of the
  open connection and the messages sent, with their priorities.
\<close>

record sworld =
  sw_ident :: "cstring option"
  sw_messages :: "(int \<times> cstring) list"

record syslog_data =
  sd_feature :: int
  sd_level :: int
  sd_service :: "cstring option"

definition LOG_ALERT :: int where "LOG_ALERT = 1"
definition LOG_ERR :: int where "LOG_ERR = 3"
definition LOG_WARNING :: int where "LOG_WARNING = 4"
definition LOG_NOTICE :: int where "LOG_NOTICE = 5"
definition LOG_DEBUG :: int where "LOG_DEBUG = 7"
definition LOG_USER :: int where "LOG_USER = 8"
definition LOG_DAEMON :: int where "LOG_DAEMON = 24"
definition LOG_AUTHPRIV :: int where "LOG_AUTHPRIV = 80"

definition syslog_levels :: "(cstring \<times> int) list" where
  "syslog_levels = [(''LOG_ERROR'', LOG_ERR), (''LOG_WARN'', LOG_WARNING), (''LOG_INFO'', LOG_NOTICE),
     (''LOG_DEBUG'', LOG_DEBUG)]"

fun syslogtrans_loop :: "(cstring \<times> int) list \<Rightarrow> cstring \<Rightarrow> int" where
  "syslogtrans_loop [] v = LOG_ALERT"
| "syslogtrans_loop ((n, l) # ls) v = (if strcmp n v = 0 then l else syslogtrans_loop ls v)"

definition syslogtrans :: "cstring \<Rightarrow> int" where
  "syslogtrans v = syslogtrans_loop syslog_levels v"

text \<open>\<open>translate\<close>: every \<open>%d\<close> is cut out, searching again from the start.\<close>

function sl_translate :: "cstring \<Rightarrow> cstring" where
  "sl_translate format =
     (case strstr format ''%d'' of None \<Rightarrow> format
      | Some p \<Rightarrow> sl_translate (take p format @ drop (p + 2) format))"
  by auto
termination
proof (relation "measure length", goal_cases)
  case (2 format p)
  then show ?case using strstr_SomeD(1) [of format "''%d''" p] by auto
qed simp

declare sl_translate.simps [simp del]

definition syslogoutputter :: "syslog_data option \<Rightarrow> cstring \<Rightarrow> sworld \<Rightarrow> int \<times> sworld" where
  "syslogoutputter data str w =
     (case data of None \<Rightarrow> (0, w)
      | Some ld \<Rightarrow>
          (let realstr = sl_translate str;
               realstr = (if length realstr > 1000 then take 1000 realstr else realstr)
           in (1, w\<lparr>sw_messages := sw_messages w @ [(or (sd_feature ld) (sd_level ld), realstr)]\<rparr>)))"

definition syslogoptioner :: "syslog_data option \<Rightarrow> cstring \<Rightarrow> cstring \<Rightarrow> sworld \<Rightarrow> syslog_data option \<times> sworld" where
  "syslogoptioner data name val w =
     (case data of None \<Rightarrow> (None, w)
      | Some ld \<Rightarrow>
          if strcmp name ''SERVICE'' = 0 then
            (Some (ld\<lparr>sd_service := Some val\<rparr>), w\<lparr>sw_ident := Some val\<rparr>)
          else if strcmp name ''FACILITY'' = 0 then
            (Some (ld\<lparr>sd_feature :=
               (if strcmp val ''LOG_AUTH'' = 0 \<or> strcmp val ''LOG_AUTHPRIV'' = 0 then LOG_AUTHPRIV
                else if strcmp val ''LOG_DAEMON'' = 0 then LOG_DAEMON else LOG_USER)\<rparr>), w)
          else if strcmp name ''LEVEL'' = 0 then (Some (ld\<lparr>sd_level := syslogtrans val\<rparr>), w)
          else (Some ld, w))"

definition sysloginit :: "bool \<Rightarrow> sworld \<Rightarrow> syslog_data option \<times> sworld" where
  "sysloginit mem w =
     (if mem then
        (Some \<lparr>sd_feature = LOG_DAEMON, sd_level = 0, sd_service = Some ''vomsd''\<rparr>, w\<lparr>sw_ident := Some ''vomsd''\<rparr>)
      else (None, w))"

text \<open>The destroyer reads its data without a test: \<open>None\<close>.\<close>

definition syslogdestroyer :: "syslog_data option \<Rightarrow> sworld \<Rightarrow> sworld option" where
  "syslogdestroyer data w = (case data of None \<Rightarrow> None | Some _ \<Rightarrow> Some (w\<lparr>sw_ident := None\<rparr>))"

section \<open>Properties\<close>

lemma sl_translate_clean: "strstr (sl_translate s) ''%d'' = None"
proof (induction s rule: sl_translate.induct)
  case (1 s)
  then show ?case by (subst sl_translate.simps) (simp split: option.splits)
qed

lemma sl_translate_length: "length (sl_translate s) \<le> length s"
proof (induction s rule: sl_translate.induct)
  case (1 s)
  show ?case
  proof (cases "strstr s ''%d''")
    case (Some p)
    with 1 [OF Some] strstr_SomeD(1) [OF Some] show ?thesis by (subst sl_translate.simps) simp
  qed (simp add: sl_translate.simps)
qed

text \<open>
  What reaches syslog. One message with the facility and level of the stream; its text has
  at most 1000 bytes, no more than the line, and no directive %d is left in it, not even one that
  cutting out another one would form.
\<close>

theorem syslog_message:
  "\<exists>t. syslogoutputter (Some ld) s w = (1, w\<lparr>sw_messages := sw_messages w @ [(or (sd_feature ld) (sd_level ld), t)]\<rparr>) \<and>
     length t \<le> 1000 \<and> length t \<le> length s \<and> strstr t ''%d'' = None"
proof -
  let ?r = "sl_translate s"
  let ?t = "if length ?r > 1000 then take 1000 ?r else ?r"
  have "\<not> sublist ''%d'' ?r" by (rule iffD1 [OF strstr_None sl_translate_clean])
  moreover have "sublist ?t ?r" by (simp add: prefix_imp_sublist take_is_prefix)
  ultimately have "\<not> sublist ''%d'' ?t" by (blast dest: sublist_order.order_trans)
  then have "strstr ?t ''%d'' = None" by (rule iffD2 [OF strstr_None])
  moreover have "length ?t \<le> 1000" "length ?t \<le> length s" using sl_translate_length [of s] by auto
  moreover have "syslogoutputter (Some ld) s w =
      (1, w\<lparr>sw_messages := sw_messages w @ [(or (sd_feature ld) (sd_level ld), ?t)]\<rparr>)"
    by (simp add: syslogoutputter_def Let_def)
  ultimately show ?thesis by (intro exI [of _ ?t] conjI)
qed

end
