(* ===== verification/LogCore.thy ===== *)
theory LogCore
  imports Prelude "HOL-Library.Monad_Syntax"
begin

text \<open>
  The logger (src/src/log/log.c): the list of output streams, the filter by level and type, and
  the expansion of the format of a line.

  A stream keeps the data of its implementation (\<open>'u\<close>) and acts on the world (\<open>'w\<close>: files,
  the syslog connection); its four functions are those the implementation registered. A
  function applied to NULL data it cannot take is \<open>None\<close>.
\<close>

unbundle bit_operations_syntax

section \<open>Data\<close>

definition T_PRE :: int where "T_PRE = 0"
definition T_STARTUP :: int where "T_STARTUP = 1"
definition T_REQUEST :: int where "T_REQUEST = 2"
definition T_RESULT :: int where "T_RESULT = 4"

definition LEV_ERROR :: int where "LEV_ERROR = 0"
definition LEV_WARN :: int where "LEV_WARN = 1"
definition LEV_INFO :: int where "LEV_INFO = 2"
definition LEV_DEBUG :: int where "LEV_DEBUG = 3"
definition LEV_NONE :: int where "LEV_NONE = 4"

lemmas lev_defs = LEV_ERROR_def LEV_WARN_def LEV_INFO_def LEV_DEBUG_def LEV_NONE_def

definition typenames :: "cstring list" where
  "typenames = [''STARTUP'', ''REQUEST'', ''RESULT'']"

definition levnames :: "cstring list" where
  "levnames = [''LOG_ERROR'', ''LOG_WARN'', ''LOG_INFO'', ''LOG_DEBUG'', ''NONE'']"

record ('u, 'w) output_stream =
  os_userdata :: "'u option"
  os_name :: cstring
  os_initter :: "'w \<Rightarrow> 'u option \<times> 'w"
  os_outputter :: "'u option \<Rightarrow> cstring \<Rightarrow> 'w \<Rightarrow> ('u option \<times> 'w) option"
  os_destroyer :: "'u option \<Rightarrow> 'w \<Rightarrow> 'w option"
  os_optioner :: "'u option \<Rightarrow> cstring \<Rightarrow> cstring \<Rightarrow> 'w \<Rightarrow> ('u option \<times> 'w) option"
  os_active :: int

record ('u, 'w) log_info =
  li_currlev :: int
  li_currtype :: int
  li_deftype :: int
  li_format :: "cstring option"
  li_dateformat :: "cstring option"
  li_service :: "cstring option"
  li_streamers :: "('u, 'w) output_stream list"

section \<open>Streams\<close>

definition LogAddStreamer ::
  "bool \<Rightarrow> ('u, 'w) log_info \<Rightarrow> cstring \<Rightarrow> ('w \<Rightarrow> 'u option \<times> 'w) \<Rightarrow>
   ('u option \<Rightarrow> cstring \<Rightarrow> 'w \<Rightarrow> ('u option \<times> 'w) option) \<Rightarrow> ('u option \<Rightarrow> 'w \<Rightarrow> 'w option) \<Rightarrow>
   ('u option \<Rightarrow> cstring \<Rightarrow> cstring \<Rightarrow> 'w \<Rightarrow> ('u option \<times> 'w) option) \<Rightarrow> ('u, 'w) log_info" where
  "LogAddStreamer mem li name i out d op =
     (if mem then
        li\<lparr>li_streamers := \<lparr>os_userdata = None, os_name = name, os_initter = i, os_outputter = out,
             os_destroyer = d, os_optioner = op, os_active = 0\<rparr> # li_streamers li\<rparr>
      else li)"

fun option_loop :: "('u, 'w) output_stream list \<Rightarrow> cstring \<Rightarrow> cstring \<Rightarrow> 'w \<Rightarrow>
    (('u, 'w) output_stream list \<times> 'w) option" where
  "option_loop [] name val w = Some ([], w)"
| "option_loop (s # ss) name val w = do {
     uw \<leftarrow> os_optioner s (os_userdata s) name val w;
     rw \<leftarrow> option_loop ss name val (snd uw);
     Some (s\<lparr>os_userdata := fst uw\<rparr> # fst rw, snd rw)
   }"

definition LogOption :: "('u, 'w) log_info \<Rightarrow> cstring \<Rightarrow> cstring \<Rightarrow> 'w \<Rightarrow> (('u, 'w) log_info \<times> 'w) option" where
  "LogOption li name val w = do {
     r \<leftarrow> option_loop (li_streamers li) name val w;
     Some (li\<lparr>li_streamers := fst r\<rparr>, snd r)
   }"

text \<open>The buffer of \<open>LogOptionInt\<close> holds 12 bytes with the NUL.\<close>

definition LogOptionInt :: "('u, 'w) log_info \<Rightarrow> cstring \<Rightarrow> int \<Rightarrow> 'w \<Rightarrow> (('u, 'w) log_info \<times> 'w) option" where
  "LogOptionInt li name v w = LogOption li name (take 11 (show_int v)) w"

fun activate_loop :: "cstring \<Rightarrow> ('u, 'w) output_stream list \<Rightarrow> 'w \<Rightarrow> ('u, 'w) output_stream list \<times> 'w" where
  "activate_loop name [] w = ([], w)"
| "activate_loop name (s # ss) w =
     (let (s, w) = (if strcmp name (os_name s) = 0
                    then (case os_initter s w of (u, w) \<Rightarrow>
                            (if u \<noteq> None then s\<lparr>os_userdata := u, os_active := 1\<rparr> else s\<lparr>os_userdata := u\<rparr>, w))
                    else (s, w));
          (ss, w) = activate_loop name ss w
      in (s # ss, w))"

definition LogActivate :: "('u, 'w) log_info option \<Rightarrow> cstring \<Rightarrow> 'w \<Rightarrow> ('u, 'w) log_info option \<times> 'w" where
  "LogActivate li name w =
     (case li of None \<Rightarrow> (None, w)
      | Some l \<Rightarrow> (let (ss, w) = activate_loop name (li_streamers l) w in (Some (l\<lparr>li_streamers := ss\<rparr>), w)))"

fun deactivate_loop :: "cstring \<Rightarrow> ('u, 'w) output_stream list \<Rightarrow> 'w \<Rightarrow> (('u, 'w) output_stream list \<times> 'w) option" where
  "deactivate_loop name [] w = Some ([], w)"
| "deactivate_loop name (s # ss) w = do {
     sw \<leftarrow> (if strcmp name (os_name s) = 0
            then do { w \<leftarrow> os_destroyer s (os_userdata s) w; Some (s\<lparr>os_userdata := None, os_active := 0\<rparr>, w) }
            else Some (s, w));
     rw \<leftarrow> deactivate_loop name ss (snd sw);
     Some (fst sw # fst rw, snd rw)
   }"

definition LogDeactivate :: "('u, 'w) log_info option \<Rightarrow> cstring \<Rightarrow> 'w \<Rightarrow> (('u, 'w) log_info option \<times> 'w) option" where
  "LogDeactivate li name w =
     (case li of None \<Rightarrow> Some (None, w)
      | Some l \<Rightarrow> do {
          r \<leftarrow> deactivate_loop name (li_streamers l) w;
          Some (Some (l\<lparr>li_streamers := fst r\<rparr>), snd r)
        })"

fun output_loop :: "cstring \<Rightarrow> ('u, 'w) output_stream list \<Rightarrow> 'w \<Rightarrow> (('u, 'w) output_stream list \<times> 'w) option" where
  "output_loop str [] w = Some ([], w)"
| "output_loop str (s # ss) w = do {
     sw \<leftarrow> (if os_active s \<noteq> 0
            then do { uw \<leftarrow> os_outputter s (os_userdata s) str w; Some (s\<lparr>os_userdata := fst uw\<rparr>, snd uw) }
            else Some (s, w));
     rw \<leftarrow> output_loop str ss (snd sw);
     Some (fst sw # fst rw, snd rw)
   }"

definition LogOutput :: "('u, 'w) log_info \<Rightarrow> cstring \<Rightarrow> 'w \<Rightarrow> (int \<times> ('u, 'w) log_info \<times> 'w) option" where
  "LogOutput li str w = do {
     r \<leftarrow> output_loop str (li_streamers li) w;
     Some (1, li\<lparr>li_streamers := fst r\<rparr>, snd r)
   }"

section \<open>Settings\<close>

text \<open>Each returns the previous setting; without a logger it returns a default.\<close>

definition LogLevel :: "('u, 'w) log_info option \<Rightarrow> int \<Rightarrow> int \<times> ('u, 'w) log_info option" where
  "LogLevel li l = (case li of None \<Rightarrow> (LEV_INFO, None) | Some i \<Rightarrow> (li_currlev i, Some (i\<lparr>li_currlev := l\<rparr>)))"

definition LogType :: "('u, 'w) log_info option \<Rightarrow> int \<Rightarrow> int \<times> ('u, 'w) log_info option" where
  "LogType li t = (case li of None \<Rightarrow> (T_STARTUP, None) | Some i \<Rightarrow> (li_currtype i, Some (i\<lparr>li_currtype := t\<rparr>)))"

definition SetCurLogType :: "('u, 'w) log_info option \<Rightarrow> int \<Rightarrow> int \<times> ('u, 'w) log_info option" where
  "SetCurLogType li t = (case li of None \<Rightarrow> (T_STARTUP, None) | Some i \<Rightarrow> (li_deftype i, Some (i\<lparr>li_deftype := t\<rparr>)))"

definition LogDateFormat :: "bool \<Rightarrow> ('u, 'w) log_info option \<Rightarrow> cstring \<Rightarrow> cstring option \<times> ('u, 'w) log_info option" where
  "LogDateFormat mem li fmt = (case li of None \<Rightarrow> (None, None)
     | Some i \<Rightarrow> if mem then (li_dateformat i, Some (i\<lparr>li_dateformat := Some fmt\<rparr>)) else (None, Some i))"

definition LogService :: "bool \<Rightarrow> ('u, 'w) log_info option \<Rightarrow> cstring \<Rightarrow> cstring option \<times> ('u, 'w) log_info option" where
  "LogService mem li nm = (case li of None \<Rightarrow> (None, None)
     | Some i \<Rightarrow> if mem then (li_service i, Some (i\<lparr>li_service := Some nm\<rparr>)) else (None, Some i))"

definition LogFormat :: "bool \<Rightarrow> ('u, 'w) log_info option \<Rightarrow> cstring \<Rightarrow> cstring option \<times> ('u, 'w) log_info option" where
  "LogFormat mem li fmt = (case li of None \<Rightarrow> (None, None)
     | Some i \<Rightarrow> if mem then (li_format i, Some (i\<lparr>li_format := Some fmt\<rparr>)) else (None, Some i))"

definition LogLevelMin :: "('u, 'w) log_info option \<Rightarrow> int \<Rightarrow> int" where
  "LogLevelMin li lev =
     (case li of None \<Rightarrow> 0
      | Some i \<Rightarrow> if li_currlev i \<ge> lev \<and> li_currlev i \<noteq> LEV_NONE then 1 else 0)"

section \<open>Expanding the format\<close>

text \<open>\<open>StringAdd\<close>: append the whole of \<open>src\<close> or its first \<open>len\<close> bytes; allocation succeeds.\<close>

definition StringAdd :: "cstring option \<Rightarrow> cstring option \<Rightarrow> int \<Rightarrow> cstring option" where
  "StringAdd dest src len =
     (case src of None \<Rightarrow> dest
      | Some s \<Rightarrow> Some ((case dest of None \<Rightarrow> [] | Some d \<Rightarrow> d) @ (if len = -1 then s else take (nat len) s)))"

text \<open>\<open>GetLen\<close>: the number at the pointer and the pointer after it, -1 when there is none.\<close>

definition GetLen :: "cstring \<Rightarrow> int \<times> cstring" where
  "GetLen msg =
     (if msg = [] \<or> \<not> isdigit (hd msg) then (-1, msg)
      else (case read_digits 0 msg of (n, r) \<Rightarrow> (int n, r)))"

record line_env =
  le_msg :: cstring
  le_pid :: int
  le_service :: "cstring option"
  le_file :: "cstring option"
  le_line :: int
  le_type :: int
  le_lev :: int
  le_func :: "cstring option"
  le_nodename :: "cstring option"

text \<open>The name of a type: its lowest bit. The loop does not end for a type without bits.\<close>

definition type_name :: "int \<Rightarrow> cstring option" where
  "type_name t =
     (if t AND 1 \<noteq> 0 then Some (typenames ! 0)
      else if t AND 2 \<noteq> 0 then Some (typenames ! 1)
      else if t AND 4 \<noteq> 0 then Some (typenames ! 2) else None)"

definition lev_name :: "int \<Rightarrow> cstring option" where
  "lev_name l = (if 0 \<le> l \<and> l < 5 then Some (levnames ! nat l) else None)"

datatype rendered = R_undef | R_err | R_line "cstring option"

text \<open>
  What a directive letter adds in mode 1, and whether the mode is reset: \<open>None\<close> is undefined
  behaviour, \<open>Some None\<close> the error exit.
\<close>

definition directive :: "line_env \<Rightarrow> char \<Rightarrow> (cstring option \<times> bool) option option" where
  "directive e c =
     (if c = CHR ''m'' then Some (Some (Some (le_msg e), True))
      else if c = CHR ''p'' then Some (Some (Some (show_int (le_pid e)), True))
      else if c = CHR ''s'' then Some (Some (le_service e, False))
      else if c = CHR ''f'' then Some (Some (le_file e, False))
      else if c = CHR ''l'' then Some (Some (Some (show_int (le_line e)), False))
      else if c = CHR ''T'' then map_option (\<lambda>n. Some (Some n, False)) (type_name (le_type e))
      else if c = CHR ''t'' then Some (Some (Some (show_int (le_type e)), False))
      else if c = CHR ''v'' then Some (Some (Some (show_int (le_lev e)), False))
      else if c = CHR ''V'' then map_option (\<lambda>n. Some (Some n, False)) (lev_name (le_lev e))
      else if c = CHR ''F'' then Some (Some (le_func e, False))
      else if c = CHR ''h'' then Some (map_option (\<lambda>n. (Some n, False)) (le_nodename e))
      else None)"

text \<open>The letter a directive letter prints in mode 0.\<close>

definition plain_letter :: "char \<Rightarrow> char" where
  "plain_letter c = (if c = CHR ''T'' then CHR ''N'' else if c = CHR ''t'' then CHR ''n'' else c)"

definition directive_letters :: "char list" where
  "directive_letters = ''mpsflTtvVFh''"

lemma read_digits_length: "length (snd (read_digits a s)) \<le> length s"
  by (induction a s rule: read_digits.induct) (auto simp: le_SucI)

lemma GetLen_length: "length (snd (GetLen s)) \<le> length s"
  using read_digits_length [of 0 s] by (auto simp: GetLen_def split: prod.splits)

function render :: "line_env \<Rightarrow> cstring \<Rightarrow> int \<Rightarrow> int \<Rightarrow> cstring option \<Rightarrow> rendered" where
  "render e [] mode len str = R_line str"
| "render e (c # fmt) mode len str =
     (if c = CHR ''%'' then
        (if mode = 1 then render e fmt 0 len (StringAdd str (Some ''%'') len)
         else if mode = 0 then
           (case GetLen (c # fmt) of (len, rest) \<Rightarrow> render e (tl rest) 1 len str)
         else R_err)
      else if c = CHR ''d'' then render e fmt mode len (StringAdd str (Some ''%d'') len)
      else if c \<in> set directive_letters then
        (if mode = 0 then render e fmt mode len (StringAdd str (Some [plain_letter c]) len)
         else if mode = 1 then
           (case directive e c of None \<Rightarrow> R_undef
            | Some None \<Rightarrow> R_err
            | Some (Some (t, reset)) \<Rightarrow> render e fmt (if reset then 0 else mode) len (StringAdd str t len))
         else R_err)
      else render e fmt 0 len (StringAdd str (Some [c]) (-1)))"
  by pat_completeness auto
termination
proof (relation "measure (\<lambda>(_, f, _). length f)", goal_cases)
  case (3 e c fmt mode len str x y)
  then have "length y \<le> Suc (length fmt)" using GetLen_length [of "c # fmt"] by (metis snd_conv length_Cons)
  then show ?case by (cases y) auto
qed auto

declare render.simps [simp del]

section \<open>Logging a message\<close>

definition clamp_level :: "int \<Rightarrow> int" where
  "clamp_level lev = (if lev \<ge> LEV_NONE then LEV_DEBUG else lev)"

definition printable_copy :: "cstring \<Rightarrow> cstring" where
  "printable_copy = map (\<lambda>c. if isprint c then c else CHR ''.'')"

text \<open>
  \<open>LogMessage\<close>: the result, the logger and the world. \<open>pid\<close> and \<open>node\<close> are the answers of
  \<open>getpid\<close> and \<open>uname\<close>.
\<close>

definition LogMessage ::
  "int \<Rightarrow> cstring option \<Rightarrow> ('u, 'w) log_info option \<Rightarrow> int \<Rightarrow> int \<Rightarrow> cstring \<Rightarrow> cstring option \<Rightarrow> int \<Rightarrow>
   cstring option \<Rightarrow> 'w \<Rightarrow> (int \<times> ('u, 'w) log_info option \<times> 'w) option" where
  "LogMessage pid node data lev type message func line file w =
     (case data of None \<Rightarrow> Some (1, None, w)
      | Some li \<Rightarrow>
          (let lev = clamp_level lev;
               type = (if type = T_PRE then li_deftype li else type)
           in case lev_name lev of None \<Rightarrow> None
              | Some lname \<Rightarrow>
                  (case LogOption li ''LEVEL'' lname w of None \<Rightarrow> None
                   | Some (li, w) \<Rightarrow>
                       if (li_currlev li \<ge> lev \<and> li_currtype li AND type \<noteq> 0) \<or> li_currlev li = LEV_DEBUG then
                         (case li_format li of None \<Rightarrow> None
                          | Some format \<Rightarrow>
                              (case render \<lparr>le_msg = printable_copy message, le_pid = pid, le_service = li_service li,
                                            le_file = file, le_line = line, le_type = type, le_lev = lev,
                                            le_func = func, le_nodename = node\<rparr> format 0 0 None of
                                 R_undef \<Rightarrow> None
                               | R_err \<Rightarrow> Some (0, Some li, w)
                               | R_line str \<Rightarrow>
                                   (case StringAdd str (Some [CHR 0x0A]) (-1) of None \<Rightarrow> None
                                    | Some str \<Rightarrow>
                                        (case LogOutput li str w of None \<Rightarrow> None
                                         | Some (_, li, w) \<Rightarrow> Some (1, Some li, w)))))
                       else Some (1, Some li, w))))"

definition LogMessageF ::
  "int \<Rightarrow> cstring option \<Rightarrow> cstring option \<Rightarrow> int \<Rightarrow> cstring option \<Rightarrow> ('u, 'w) log_info option \<Rightarrow> int \<Rightarrow> int \<Rightarrow>
   cstring \<Rightarrow> 'w \<Rightarrow> (int \<times> ('u, 'w) log_info option \<times> 'w) option" where
  "LogMessageF pid node func line file data lev type text w =
     (case data of None \<Rightarrow> Some (1, None, w)
      | Some li \<Rightarrow>
          (let lev = clamp_level lev
           in if li_currlev li \<ge> lev \<or> li_currlev li = LEV_DEBUG then
                (case vsnprintf_wrap True text of
                   Some str \<Rightarrow> LogMessage pid node data lev type str func line file w
                 | None \<Rightarrow> Some (0, data, w))
              else Some (1, data, w)))"

section \<open>Formats whose directives are separated\<close>

text \<open>
  A format as a list of items: a literal character that is no directive letter, or a directive.
  Directives are separated when no directive follows another at once.
\<close>

datatype item = Lit char | Dir char

fun item_text :: "item \<Rightarrow> cstring" where
  "item_text (Lit c) = [c]"
| "item_text (Dir c) = [CHR ''%'', c]"

definition good_item :: "item \<Rightarrow> bool" where
  "good_item i \<longleftrightarrow> (case i of Lit c \<Rightarrow> c \<notin> set (CHR ''%'' # CHR ''d'' # directive_letters)
                     | Dir c \<Rightarrow> c \<in> set (CHR ''%'' # CHR ''d'' # directive_letters))"

fun separated :: "item list \<Rightarrow> bool" where
  "separated (Dir c # Dir d # is) = False"
| "separated (i # is) = separated is"
| "separated [] = True"

lemma separated_Dir: "separated (Dir c # is) \<longleftrightarrow> separated is \<and> (\<forall>d js. is \<noteq> Dir d # js)"
proof (cases "is")
  case (Cons i js)
  then show ?thesis by (cases i) simp_all
qed simp

lemma separated_Lit: "separated (Lit c # is) = separated is"
  by (cases "is") simp_all

definition expand :: "line_env \<Rightarrow> item \<Rightarrow> cstring option option" where
  "expand e i =
     (case i of Lit c \<Rightarrow> Some (Some [c])
      | Dir c \<Rightarrow> if c = CHR ''%'' then Some (Some ''%'') else if c = CHR ''d'' then Some (Some ''%d'')
                 else (case directive e c of Some (Some (t, r)) \<Rightarrow> Some t | _ \<Rightarrow> None))"

definition opt_text :: "cstring option \<Rightarrow> cstring" where
  "opt_text t = (case t of None \<Rightarrow> [] | Some s \<Rightarrow> s)"

lemma expand_Lit [simp]: "expand e (Lit c) = Some (Some [c])"
  by (simp add: expand_def)

lemma opt_text_simps [simp]: "opt_text None = []" "opt_text (Some s) = s"
  by (simp_all add: opt_text_def)

lemma StringAdd_all: "opt_text (StringAdd d t (-1)) = opt_text d @ opt_text t"
  by (auto simp: StringAdd_def opt_text_def split: option.splits)

lemma GetLen_percent: "GetLen (CHR ''%'' # s) = (-1, CHR ''%'' # s)"
  by (simp add: GetLen_def isdigit_def)

lemma render_lit:
  "good_item (Lit c) \<Longrightarrow> render e (c # fmt) mode len str = render e fmt 0 len (StringAdd str (Some [c]) (-1))"
  by (subst render.simps) (simp add: good_item_def)

lemma render_dir:
  assumes "good_item (Dir c)" "expand e (Dir c) = Some t"
  shows "\<exists>m. render e (CHR ''%'' # c # fmt) 0 len str = render e fmt m (-1) (StringAdd str t (-1))"
proof -
  have first: "render e (CHR ''%'' # c # fmt) 0 len str = render e (c # fmt) 1 (-1) str"
    by (subst render.simps) (simp add: GetLen_percent)
  consider "c = CHR ''%''" | "c = CHR ''d''" | "c \<in> set directive_letters" "c \<noteq> CHR ''%''" "c \<noteq> CHR ''d''"
    using assms(1) by (auto simp: good_item_def)
  then show ?thesis
  proof cases
    case 3
    with assms(2) obtain r where "directive e c = Some (Some (t, r))"
      by (auto simp: expand_def split: option.splits)
    with 3 show ?thesis unfolding first by (subst render.simps) auto
  next
    case 1
    then have "render e (c # fmt) 1 (-1) str = render e fmt 0 (-1) (StringAdd str t (-1))"
      using assms(2) by (subst render.simps) (simp add: expand_def)
    with first show ?thesis by auto
  next
    case 2
    then have "render e (c # fmt) 1 (-1) str = render e fmt 1 (-1) (StringAdd str t (-1))"
      using assms(2) by (subst render.simps) (simp add: expand_def)
    with first show ?thesis by auto
  qed
qed

lemma render_separated:
  assumes "list_all good_item is" "separated is" "list_all (\<lambda>i. expand e i \<noteq> None) is"
    "mode = 0 \<or> (\<forall>c js. is \<noteq> Dir c # js)"
  shows "\<exists>r. render e (concat (map item_text is)) mode len str = R_line r \<and>
     opt_text r = opt_text str @ concat (map (\<lambda>i. opt_text (the (expand e i))) is)"
  using assms
proof (induction "is" arbitrary: mode len str)
  case Nil
  then show ?case by (simp add: render.simps)
next
  case (Cons i "is")
  show ?case
  proof (cases i)
    case (Lit c)
    have "separated is" using Cons.prems(2) Lit separated_Lit by simp
    with Cons.IH [of 0 len "StringAdd str (Some [c]) (-1)"] Cons.prems Lit show ?thesis
      by (auto simp: render_lit StringAdd_all)
  next
    case (Dir c)
    then have "separated (Dir c # is)" using Cons.prems(2) by simp
    then have sep: "separated is" "\<forall>d js. is \<noteq> Dir d # js" using separated_Dir by blast+
    from Cons.prems Dir obtain t where t: "expand e (Dir c) = Some t" and m: "mode = 0" by auto
    obtain m' where "render e (CHR ''%'' # c # concat (map item_text is)) 0 len str =
        render e (concat (map item_text is)) m' (-1) (StringAdd str t (-1))"
      using render_dir [of c e t "concat (map item_text is)" len str] Cons.prems(1) Dir t by auto
    with Cons.IH [of m' "-1" "StringAdd str t (-1)"] Cons.prems sep Dir t m show ?thesis
      by (auto simp: StringAdd_all)
  qed
qed

section \<open>What a message becomes\<close>

text \<open>Whether a message of level \<open>lev\<close> (clamped) and type \<open>type\<close> passes the filter.\<close>

definition passes :: "('u, 'w) log_info \<Rightarrow> int \<Rightarrow> int \<Rightarrow> bool" where
  "passes li lev type \<longleftrightarrow> (li_currlev li \<ge> lev \<and> li_currtype li AND type \<noteq> 0) \<or> li_currlev li = LEV_DEBUG"

text \<open>
  C27: the line of a message. A message that passes the filter, in a format whose directives are
  separated by other text, becomes one line: each directive replaced by its value, in order, the
  message with every unprintable byte turned into a dot, and a newline; it is given to every
  active stream.
\<close>

theorem LogMessage_line:
  assumes "LogOption li ''LEVEL'' lname w = Some (li1, w1)" "lev_name (clamp_level lev) = Some lname"
    and "passes li1 (clamp_level lev) (if type = T_PRE then li_deftype li else type)"
    and "li_format li1 = Some (concat (map item_text is))" "list_all good_item is" "separated is"
    and "e = \<lparr>le_msg = printable_copy message, le_pid = pid, le_service = li_service li1, le_file = file,
              le_line = line, le_type = (if type = T_PRE then li_deftype li else type),
              le_lev = clamp_level lev, le_func = func, le_nodename = node\<rparr>"
    and "list_all (\<lambda>i. expand e i \<noteq> None) is"
  shows "LogMessage pid node (Some li) lev type message func line file w =
    map_option (\<lambda>(_, l, w). (1, Some l, w))
      (LogOutput li1 (concat (map (\<lambda>i. opt_text (the (expand e i))) is) @ [CHR 0x0A]) w1)"
proof -
  obtain r where "render e (concat (map item_text is)) 0 0 None = R_line r"
      "opt_text r = concat (map (\<lambda>i. opt_text (the (expand e i))) is)"
    using render_separated [OF assms(5,6,8), of 0 0 None] by auto
  moreover have "StringAdd r (Some [CHR 0x0A]) (-1) = Some (opt_text r @ [CHR 0x0A])" for r
    by (simp add: StringAdd_def opt_text_def)
  ultimately show ?thesis
    using assms(1-4) unfolding LogMessage_def Let_def assms(7) passes_def
    by (auto split: option.splits)
qed

text \<open>Printable text.\<close>

definition printable :: "cstring option \<Rightarrow> bool" where
  "printable t \<longleftrightarrow> list_all isprint (opt_text t)"

lemma printable_simps [simp]: "printable None" "printable (Some s) = list_all isprint s"
  by (simp_all add: printable_def)

lemma isprint_digit: "(n :: nat) < 10 \<Longrightarrow> isprint (char_of (48 + n))"
  by (simp add: isprint_def)

lemma printable_show_nat: "list_all isprint (show_nat n)"
proof (induction n rule: show_nat.induct)
  case (1 n)
  then show ?case by (subst show_nat.simps) (auto simp: isprint_digit)
qed

lemma printable_show_int: "list_all isprint (show_int i)"
  by (simp add: show_int_def printable_show_nat isprint_def)

lemma printable_copy_ok: "list_all isprint (printable_copy m)"
  by (induction m) (auto simp: printable_copy_def isprint_def)

lemma StringAdd_printable: "printable d \<Longrightarrow> printable t \<Longrightarrow> printable (StringAdd d t n)"
  by (auto simp: StringAdd_def list_all_iff printable_def opt_text_def split: option.splits dest: in_set_takeD)

definition env_printable :: "line_env \<Rightarrow> bool" where
  "env_printable e \<longleftrightarrow> list_all isprint (le_msg e) \<and> printable (le_service e) \<and> printable (le_file e) \<and>
     printable (le_func e) \<and> printable (le_nodename e)"

lemma printable_names:
  "type_name t = Some n \<Longrightarrow> list_all isprint n" "lev_name l = Some n \<Longrightarrow> list_all isprint n"
proof -
  show "type_name t = Some n \<Longrightarrow> list_all isprint n"
    by (auto simp: type_name_def typenames_def isprint_def split: if_splits)
  assume "lev_name l = Some n"
  then have "n = levnames ! nat l" "nat l < length levnames"
    by (auto simp: lev_name_def levnames_def split: if_splits)
  then have "n \<in> set levnames" by (simp only: nth_mem)
  then show "list_all isprint n" by (auto simp: levnames_def isprint_def)
qed

lemma directive_printable:
  "env_printable e \<Longrightarrow> directive e c = Some (Some (t, r)) \<Longrightarrow> printable t"
  by (auto simp: directive_def env_printable_def printable_show_int printable_names split: if_splits)

lemma GetLen_suffix: "set (snd (GetLen s)) \<subseteq> set s"
proof -
  have "set (snd (read_digits a s)) \<subseteq> set s" for a
    by (induction a s rule: read_digits.induct) auto
  from this [of 0] show ?thesis by (auto simp: GetLen_def split: prod.splits)
qed

lemma render_printable:
  "render e fmt mode len str = R_line r \<Longrightarrow> env_printable e \<Longrightarrow> list_all isprint fmt \<Longrightarrow> printable str \<Longrightarrow> printable r"
proof (induction e fmt mode len str rule: render.induct)
  case (1 e mode len str)
  then show ?case by (simp add: render.simps)
next
  case (2 e c fmt mode len str)
  have c: "isprint c" "list_all isprint fmt" using "2.prems"(3) by auto
  have pieces: "list_all isprint ''%d''" "isprint (CHR ''%'')" "isprint (plain_letter c)"
    using c by (auto simp: isprint_def plain_letter_def)
  have rest: "list_all isprint (tl r)" if "GetLen (c # fmt) = (l, r)" for l r
    using GetLen_suffix [of "c # fmt"] that c by (cases r) (auto simp: list_all_iff)
  note P = StringAdd_printable [OF "2.prems"(4)]
  note rs = "2.prems"(1) [unfolded render.simps(2)]
  show ?case
  proof (cases "c = CHR ''%''")
    case True
    then show ?thesis
      using rs "2.IH"(1,2) "2.prems"(2,4) c P rest pieces by (auto split: if_splits prod.splits)
  next
    case nper: False
    show ?thesis
    proof (cases "c = CHR ''d''")
      case True
      then show ?thesis using rs "2.IH"(3) "2.prems"(2) c P pieces nper by auto
    next
      case nd: False
      show ?thesis
      proof (cases "c \<in> set directive_letters")
        case True
        then show ?thesis
          using rs "2.IH"(4,5) "2.prems"(2) c P pieces nper nd directive_printable [OF "2.prems"(2)]
          by (auto split: if_splits option.splits prod.splits)
      next
        case False
        then show ?thesis using rs "2.IH"(6) "2.prems"(2) c P nper nd by auto
      qed
    qed
  qed
qed

text \<open>
  C28: no forged lines. Whatever bytes a message holds, what reaches the streams is one line: its
  characters are printable and the only newline is its last. (The format, the service and the
  names of the caller are the program's own and taken as printable.)
\<close>

theorem LogMessage_one_line:
  assumes "LogMessage pid node (Some li) lev type message func line file w = Some (r, l, w2)"
    and "printable (li_format li)" "printable (li_service li)" "printable file" "printable func" "printable node"
  shows "(\<exists>li1. l = Some li1 \<and> LogOption li ''LEVEL'' (levnames ! nat (clamp_level lev)) w = Some (li1, w2)) \<or>
    (\<exists>li1 w1 li2 s. l = Some li2 \<and> LogOption li ''LEVEL'' (levnames ! nat (clamp_level lev)) w = Some (li1, w1) \<and>
       list_all isprint s \<and> LogOutput li1 (s @ [CHR 0x0A]) w1 = Some (1, li2, w2))"
proof -
  let ?type = "if type = T_PRE then li_deftype li else type"
  from assms(1) obtain li1 w1 where o: "LogOption li ''LEVEL'' (levnames ! nat (clamp_level lev)) w = Some (li1, w1)"
    by (auto simp: LogMessage_def Let_def lev_name_def split: option.splits if_splits)
  have fields: "li_format li1 = li_format li" "li_service li1 = li_service li"
    using o by (auto simp: LogOption_def bind_eq_Some_conv)
  let ?e = "\<lparr>le_msg = printable_copy message, le_pid = pid, le_service = li_service li1, le_file = file,
              le_line = line, le_type = ?type, le_lev = clamp_level lev, le_func = func, le_nodename = node\<rparr>"
  have env: "env_printable ?e" using assms fields by (simp add: env_printable_def printable_copy_ok)
  have out1: "fst x = 1" if "LogOutput l s w = Some x" for l s w and x :: "int \<times> ('a, 'b) log_info \<times> 'b"
    using that by (auto simp: LogOutput_def bind_eq_Some_conv)
  have ok: "list_all isprint (opt_text s)" if "render ?e fmt 0 0 None = R_line s" "li_format li = Some fmt" for s fmt
    using render_printable [OF that(1) env] that(2) assms(2) by (simp add: printable_def)
  show ?thesis
    using assms(1) o fields ok out1
    by (auto simp: LogMessage_def Let_def lev_name_def StringAdd_def opt_text_def
        split: option.splits if_splits rendered.splits) fastforce+
qed

section \<open>A sample logger\<close>

definition sample_stream :: "(unit, cstring list) output_stream" where
  "sample_stream =
     \<lparr>os_userdata = Some (), os_name = ''MEM'', os_initter = (\<lambda>w. (Some (), w)),
      os_outputter = (\<lambda>u s w. Some (u, w @ [s])), os_destroyer = (\<lambda>u w. Some w),
      os_optioner = (\<lambda>u n v w. Some (u, w)), os_active = 1\<rparr>"

definition sample_log :: "(unit, cstring list) log_info" where
  "sample_log =
     \<lparr>li_currlev = LEV_INFO, li_currtype = 7, li_deftype = 2,
      li_format = Some (concat (map item_text [Dir (CHR ''V''), Lit (CHR '':''), Dir (CHR ''m'')])),
      li_dateformat = None, li_service = None, li_streamers = [sample_stream]\<rparr>"

lemma sample_option: "LogOption sample_log n v w = Some (sample_log, w)"
  by (simp add: LogOption_def sample_log_def sample_stream_def)

lemma sample_levname: "lev_name (clamp_level 1) = Some ''LOG_WARN''"
  by (simp add: lev_name_def clamp_level_def lev_defs levnames_def)

lemma LogMessage_line_witness:
  "LogMessage 1 None (Some sample_log) 1 T_REQUEST [CHR ''a'', CHR 0x0A, CHR ''b''] None 3 None [] =
     Some (1, Some sample_log, [''LOG_WARN:a.b'' @ [CHR 0x0A]])"
proof -
  let ?is = "[Dir (CHR ''V''), Lit (CHR '':''), Dir (CHR ''m'')]"
  let ?e = "\<lparr>le_msg = printable_copy [CHR ''a'', CHR 0x0A, CHR ''b''], le_pid = 1, le_service = li_service sample_log,
     le_file = None, le_line = 3, le_type = (if T_REQUEST = T_PRE then li_deftype sample_log else T_REQUEST),
     le_lev = clamp_level 1, le_func = None, le_nodename = None\<rparr>"
  have ex: "map (\<lambda>i. expand ?e i) ?is = [Some (Some ''LOG_WARN''), Some (Some '':''), Some (Some ''a.b'')]"
    by (simp add: expand_def directive_def sample_levname printable_copy_def isprint_def)
  have "LogMessage 1 None (Some sample_log) 1 T_REQUEST [CHR ''a'', CHR 0x0A, CHR ''b''] None 3 None [] =
    map_option (\<lambda>(_, l, w). (1, Some l, w))
      (LogOutput sample_log (concat (map (\<lambda>i. opt_text (the (expand ?e i))) ?is) @ [CHR 0x0A]) [])"
  proof (rule LogMessage_line [OF sample_option sample_levname _ _ _ _ refl])
    show "passes sample_log (clamp_level 1) (if T_REQUEST = T_PRE then li_deftype sample_log else T_REQUEST)"
      by (simp add: passes_def sample_log_def clamp_level_def lev_defs T_REQUEST_def T_PRE_def)
    show "list_all (\<lambda>i. expand ?e i \<noteq> None) ?is" using ex by simp
  qed (simp_all add: sample_log_def good_item_def directive_letters_def)
  also have "concat (map (\<lambda>i. opt_text (the (expand ?e i))) ?is) = ''LOG_WARN:a.b''"
    using ex by simp
  finally show ?thesis by (simp add: LogOutput_def sample_log_def sample_stream_def)
qed

definition sample_log0 :: "(unit, cstring list) log_info" where
  "sample_log0 = sample_log\<lparr>li_format := Some []\<rparr>"

lemma sample_log0_message:
  "LogMessage 1 None (Some sample_log0) 1 T_REQUEST [CHR 0x0A] None 3 None [] = Some (1, Some sample_log0, [[CHR 0x0A]])"
proof -
  have o: "LogOption sample_log0 n v w = Some (sample_log0, w)" for n v w
    by (simp add: LogOption_def sample_log0_def sample_log_def sample_stream_def)
  have f: "li_format sample_log0 = Some []" "li_currlev sample_log0 = 2" "li_currtype sample_log0 = 7"
    "li_service sample_log0 = None"
    by (simp_all add: sample_log0_def sample_log_def lev_defs)
  have out: "LogOutput sample_log0 t [] = Some (1, sample_log0, [t])" for t
    by (simp add: LogOutput_def sample_log0_def sample_log_def sample_stream_def)
  show ?thesis
    by (simp add: LogMessage_def Let_def lev_name_def levnames_def o f out render.simps StringAdd_def
        T_REQUEST_def T_PRE_def clamp_level_def lev_defs)
qed

lemma LogMessage_one_line_witness:
  "(\<exists>li1. Some sample_log0 = Some li1 \<and>
      LogOption sample_log0 ''LEVEL'' (levnames ! nat (clamp_level 1)) [] = Some (li1, [[CHR 0x0A]])) \<or>
   (\<exists>li1 w1 li2 s. Some sample_log0 = Some li2 \<and>
      LogOption sample_log0 ''LEVEL'' (levnames ! nat (clamp_level 1)) [] = Some (li1, w1) \<and>
      list_all isprint s \<and> LogOutput li1 (s @ [CHR 0x0A]) w1 = Some (1, li2, [[CHR 0x0A]]))"
  by (rule LogMessage_one_line [OF sample_log0_message]) (simp_all add: sample_log0_def sample_log_def)

end
