(* ===== verification/LogSystem.thy ===== *)
theory LogSystem
  imports LogCore LogSyslog
begin

text \<open>
  The logger with its two streams (\<open>LogInit\<close> of src/src/log/log.c, \<open>FILEStreamerAdd\<close> of fs.c and
  \<open>SYSLOGStreamerAdd\<close> of sl.c), the contract the logger has with a stream as a locale, and the
  invariant of every sequence of calls.
\<close>

datatype stream_data = File_data file_data | Syslog_data syslog_data

text \<open>
  The world: the files, the connection to syslog, and for each allocation of the data of a stream
  whether it succeeds, with the number of those made.
\<close>

record log_world =
  lw_files :: fworld
  lw_syslog :: sworld
  lw_mem :: "nat \<Rightarrow> bool"
  lw_mallocs :: nat

definition stream_malloc :: "log_world \<Rightarrow> bool \<times> log_world" where
  "stream_malloc w = (lw_mem w (lw_mallocs w), w\<lparr>lw_mallocs := Suc (lw_mallocs w)\<rparr>)"

type_synonym logger = "(stream_data, log_world) log_info"

section \<open>The functions the streams register\<close>

text \<open>A \<open>void *\<close> that is not the stream's own data is undefined behaviour.\<close>

definition file_of :: "stream_data option \<Rightarrow> file_data option option" where
  "file_of u = (case u of None \<Rightarrow> Some None | Some (File_data d) \<Rightarrow> Some (Some d) | Some (Syslog_data _) \<Rightarrow> None)"

definition syslog_of :: "stream_data option \<Rightarrow> syslog_data option option" where
  "syslog_of u = (case u of None \<Rightarrow> Some None | Some (Syslog_data d) \<Rightarrow> Some (Some d) | Some (File_data _) \<Rightarrow> None)"

definition file_init :: "log_world \<Rightarrow> stream_data option \<times> log_world" where
  "file_init w = (case stream_malloc w of (mem, w) \<Rightarrow> (map_option File_data (fileinit mem), w))"

definition file_out :: "stream_data option \<Rightarrow> cstring \<Rightarrow> log_world \<Rightarrow> (stream_data option \<times> log_world) option" where
  "file_out u s w = do {
     d \<leftarrow> file_of u;
     r \<leftarrow> fileoutputter d s (lw_files w);
     (case r of (_, d, f) \<Rightarrow> Some (map_option File_data d, w\<lparr>lw_files := f\<rparr>))
   }"

definition file_destroy :: "stream_data option \<Rightarrow> log_world \<Rightarrow> log_world option" where
  "file_destroy u w = do { d \<leftarrow> file_of u; Some (w\<lparr>lw_files := filedestroy d (lw_files w)\<rparr>) }"

definition file_opt :: "stream_data option \<Rightarrow> cstring \<Rightarrow> cstring \<Rightarrow> log_world \<Rightarrow> (stream_data option \<times> log_world) option" where
  "file_opt u n v w = do {
     d \<leftarrow> file_of u;
     (case fileoptioner d n v (lw_files w) of (d, f) \<Rightarrow> Some (map_option File_data d, w\<lparr>lw_files := f\<rparr>))
   }"

definition syslog_init :: "log_world \<Rightarrow> stream_data option \<times> log_world" where
  "syslog_init w =
     (case stream_malloc w of (mem, w) \<Rightarrow>
        (case sysloginit mem (lw_syslog w) of (d, s) \<Rightarrow> (map_option Syslog_data d, w\<lparr>lw_syslog := s\<rparr>)))"

definition syslog_out :: "stream_data option \<Rightarrow> cstring \<Rightarrow> log_world \<Rightarrow> (stream_data option \<times> log_world) option" where
  "syslog_out u t w = do {
     d \<leftarrow> syslog_of u;
     (case syslogoutputter d t (lw_syslog w) of (_, s) \<Rightarrow> Some (u, w\<lparr>lw_syslog := s\<rparr>))
   }"

definition syslog_destroy :: "stream_data option \<Rightarrow> log_world \<Rightarrow> log_world option" where
  "syslog_destroy u w = do { d \<leftarrow> syslog_of u; s \<leftarrow> syslogdestroyer d (lw_syslog w); Some (w\<lparr>lw_syslog := s\<rparr>) }"

definition syslog_opt :: "stream_data option \<Rightarrow> cstring \<Rightarrow> cstring \<Rightarrow> log_world \<Rightarrow> (stream_data option \<times> log_world) option" where
  "syslog_opt u n v w = do {
     d \<leftarrow> syslog_of u;
     (case syslogoptioner d n v (lw_syslog w) of (d, s) \<Rightarrow> Some (map_option Syslog_data d, w\<lparr>lw_syslog := s\<rparr>))
   }"

text \<open>\<open>mem\<close> says whether the allocation of the stream succeeds, and of the logger.\<close>

definition FILEStreamerAdd :: "bool \<Rightarrow> logger \<Rightarrow> logger" where
  "FILEStreamerAdd mem h = LogAddStreamer mem h ''FILE'' file_init file_out file_destroy file_opt"

definition SYSLOGStreamerAdd :: "bool \<Rightarrow> logger \<Rightarrow> logger" where
  "SYSLOGStreamerAdd mem h = LogAddStreamer mem h ''SYSLOG'' syslog_init syslog_out syslog_destroy syslog_opt"

definition LogInit :: "bool \<Rightarrow> bool \<Rightarrow> bool \<Rightarrow> logger option" where
  "LogInit mem mem_file mem_syslog =
     (if mem then Some (SYSLOGStreamerAdd mem_syslog (FILEStreamerAdd mem_file
        \<lparr>li_currlev = 0, li_currtype = 0, li_deftype = 0, li_format = None, li_dateformat = None,
         li_service = None, li_streamers = []\<rparr>))
      else None)"

section \<open>The contract of a stream\<close>

text \<open>
  \<open>own\<close> are the data the stream makes, and \<open>ample\<close> says that the world has memory for all of them.
  Options and output may come when there are no data, options never fail, and destruction is
  promised for data of the stream's own.
\<close>

locale log_streamer =
  fixes init :: "'w \<Rightarrow> 'u option \<times> 'w"
    and out :: "'u option \<Rightarrow> cstring \<Rightarrow> 'w \<Rightarrow> ('u option \<times> 'w) option"
    and destroy :: "'u option \<Rightarrow> 'w \<Rightarrow> 'w option"
    and opt :: "'u option \<Rightarrow> cstring \<Rightarrow> cstring \<Rightarrow> 'w \<Rightarrow> ('u option \<times> 'w) option"
    and own :: "'u \<Rightarrow> bool"
    and ample :: "'w \<Rightarrow> bool"
  assumes init_own: "init w = (r, w') \<Longrightarrow> (\<forall>u. r = Some u \<longrightarrow> own u) \<and> (ample w \<longrightarrow> r \<noteq> None) \<and> ample w' = ample w"
    and opt_none: "\<exists>w'. opt None n v w = Some (None, w') \<and> ample w' = ample w"
    and opt_own: "own u \<Longrightarrow> \<exists>u' w'. opt (Some u) n v w = Some (Some u', w') \<and> own u' \<and> ample w' = ample w"
    and out_none: "\<exists>w'. out None s w = Some (None, w') \<and> ample w' = ample w"
    and out_own: "own u \<Longrightarrow> out (Some u) s w = Some (r, w') \<Longrightarrow> (\<exists>u'. r = Some u' \<and> own u') \<and> ample w' = ample w"
    and destroy_own: "own u \<Longrightarrow> \<exists>w'. destroy (Some u) w = Some w'"
    and destroy_ample: "destroy r w = Some w' \<Longrightarrow> ample w' = ample w"
begin

definition is_stream :: "('u, 'w) output_stream \<Rightarrow> bool" where
  "is_stream s \<longleftrightarrow> os_initter s = init \<and> os_outputter s = out \<and> os_destroyer s = destroy \<and> os_optioner s = opt"

text \<open>Data are the stream's own, and with memory (\<open>b\<close>) an active stream has data.\<close>

definition sound :: "bool \<Rightarrow> ('u, 'w) output_stream \<Rightarrow> bool" where
  "sound b s \<longleftrightarrow> is_stream s \<and> (\<forall>u. os_userdata s = Some u \<longrightarrow> own u) \<and> (b \<and> os_active s \<noteq> 0 \<longrightarrow> os_userdata s \<noteq> None)"

lemma sound_opt:
  assumes "sound b s"
  shows "\<exists>u' w'. os_optioner s (os_userdata s) n v w = Some (u', w') \<and> sound b (s\<lparr>os_userdata := u'\<rparr>) \<and> ample w' = ample w"
  using assms opt_none [of n v w] opt_own [of _ n v w]
  by (cases "os_userdata s") (fastforce simp: sound_def is_stream_def)+

lemma sound_init:
  assumes "sound b s" "b \<longrightarrow> ample w" "os_initter s w = (r, w')"
  shows "sound b (if r \<noteq> None then s\<lparr>os_userdata := r, os_active := 1\<rparr> else s\<lparr>os_userdata := r\<rparr>) \<and> ample w' = ample w"
  using assms init_own [of w r w'] by (auto simp: sound_def is_stream_def)

lemma sound_out:
  assumes "sound b s" "os_outputter s (os_userdata s) t w = Some (u', w')"
  shows "sound b (s\<lparr>os_userdata := u'\<rparr>) \<and> ample w' = ample w"
  using assms out_none [of t w] out_own [of _ t w u' w']
  by (cases "os_userdata s") (fastforce simp: sound_def is_stream_def)+

lemma sound_destroy:
  assumes "sound b s" "os_userdata s \<noteq> None"
  shows "\<exists>w'. os_destroyer s (os_userdata s) w = Some w'"
  using assms destroy_own by (fastforce simp: sound_def is_stream_def)

lemma sound_destroyed:
  assumes "sound b s" "os_destroyer s (os_userdata s) w = Some w'"
  shows "sound b (s\<lparr>os_userdata := None, os_active := 0\<rparr>) \<and> ample w' = ample w"
  using assms destroy_ample [of "os_userdata s" w w'] by (simp add: sound_def is_stream_def)

lemma sound_new: "is_stream s \<Longrightarrow> os_userdata s = None \<Longrightarrow> os_active s = 0 \<Longrightarrow> sound b s"
  by (simp add: sound_def)

end

lemma fileoptioner_data: "\<exists>d' w'. fileoptioner (Some d) n v w = (Some d', w')"
  by (cases "sys_open False w v") (auto simp: fileoptioner_def)

lemma syslogoptioner_data: "\<exists>d' w'. syslogoptioner (Some d) n v w = (Some d', w')"
  by (simp add: syslogoptioner_def)

text \<open>Every allocation succeeds.\<close>

definition ample_memory :: "log_world \<Rightarrow> bool" where
  "ample_memory w \<longleftrightarrow> (\<forall>n. lw_mem w n)"

lemma ample_memory_simps [simp]:
  "ample_memory (w\<lparr>lw_files := f\<rparr>) = ample_memory w" "ample_memory (w\<lparr>lw_syslog := s\<rparr>) = ample_memory w"
  "ample_memory (w\<lparr>lw_mallocs := n\<rparr>) = ample_memory w"
  by (simp_all add: ample_memory_def)

interpretation fl: log_streamer file_init file_out file_destroy file_opt "\<lambda>u. \<exists>d. u = File_data d" ample_memory
proof
  show "(\<forall>u. r = Some u \<longrightarrow> (\<exists>d. u = File_data d)) \<and> (ample_memory w \<longrightarrow> r \<noteq> None) \<and> ample_memory w' = ample_memory w"
    if "file_init w = (r, w')" for w r w'
    using that by (auto simp: file_init_def stream_malloc_def fileinit_def ample_memory_def)
  show "\<exists>w'. file_opt None n v w = Some (None, w') \<and> ample_memory w' = ample_memory w" for n v w
    by (simp add: file_opt_def file_of_def fileoptioner_def)
  show "\<exists>u' w'. file_opt (Some u) n v w = Some (Some u', w') \<and> (\<exists>d. u' = File_data d) \<and> ample_memory w' = ample_memory w"
    if own: "\<exists>d. u = File_data d" for u n v w
  proof -
    obtain d where "u = File_data d" using own by blast
    moreover obtain d' w' where "fileoptioner (Some d) n v (lw_files w) = (Some d', w')"
      using fileoptioner_data by blast
    ultimately show ?thesis by (simp add: file_opt_def file_of_def)
  qed
  show "\<exists>w'. file_out None s w = Some (None, w') \<and> ample_memory w' = ample_memory w" for s w
    by (simp add: file_out_def file_of_def fileoutputter_def)
  show "(\<exists>u'. r = Some u' \<and> (\<exists>d. u' = File_data d)) \<and> ample_memory w' = ample_memory w"
    if "\<exists>d. u = File_data d" "file_out (Some u) s w = Some (r, w')" for u s w r w'
    using that
    by (auto simp: file_out_def file_of_def fileoutputter_def bind_eq_Some_conv split: prod.splits if_splits)
  show "\<exists>w'. file_destroy (Some u) w = Some w'" if "\<exists>d. u = File_data d" for u w
    using that by (auto simp: file_destroy_def file_of_def)
  show "ample_memory w' = ample_memory w" if "file_destroy r w = Some w'" for r w w'
    using that by (auto simp: file_destroy_def bind_eq_Some_conv)
qed

interpretation sl: log_streamer syslog_init syslog_out syslog_destroy syslog_opt "\<lambda>u. \<exists>d. u = Syslog_data d" ample_memory
proof
  show "(\<forall>u. r = Some u \<longrightarrow> (\<exists>d. u = Syslog_data d)) \<and> (ample_memory w \<longrightarrow> r \<noteq> None) \<and> ample_memory w' = ample_memory w"
    if "syslog_init w = (r, w')" for w r w'
    using that by (auto simp: syslog_init_def stream_malloc_def sysloginit_def ample_memory_def split: if_splits)
  show "\<exists>w'. syslog_opt None n v w = Some (None, w') \<and> ample_memory w' = ample_memory w" for n v w
    by (simp add: syslog_opt_def syslog_of_def syslogoptioner_def)
  show "\<exists>u' w'. syslog_opt (Some u) n v w = Some (Some u', w') \<and> (\<exists>d. u' = Syslog_data d) \<and> ample_memory w' = ample_memory w"
    if own: "\<exists>d. u = Syslog_data d" for u n v w
  proof -
    obtain d where "u = Syslog_data d" using own by blast
    moreover obtain d' w' where "syslogoptioner (Some d) n v (lw_syslog w) = (Some d', w')"
      using syslogoptioner_data by blast
    ultimately show ?thesis by (simp add: syslog_opt_def syslog_of_def)
  qed
  show "\<exists>w'. syslog_out None s w = Some (None, w') \<and> ample_memory w' = ample_memory w" for s w
    by (simp add: syslog_out_def syslog_of_def syslogoutputter_def)
  show "(\<exists>u'. r = Some u' \<and> (\<exists>d. u' = Syslog_data d)) \<and> ample_memory w' = ample_memory w"
    if "\<exists>d. u = Syslog_data d" "syslog_out (Some u) s w = Some (r, w')" for u s w r w'
    using that by (auto simp: syslog_out_def syslog_of_def split: prod.splits)
  show "\<exists>w'. syslog_destroy (Some u) w = Some w'" if "\<exists>d. u = Syslog_data d" for u w
    using that by (auto simp: syslog_destroy_def syslog_of_def syslogdestroyer_def)
  show "ample_memory w' = ample_memory w" if "syslog_destroy r w = Some w'" for r w w'
    using that by (auto simp: syslog_destroy_def bind_eq_Some_conv)
qed

section \<open>The invariant of the logger\<close>

text \<open>\<open>b\<close>: memory was ample from the start.\<close>

definition sound_stream :: "bool \<Rightarrow> (stream_data, log_world) output_stream \<Rightarrow> bool" where
  "sound_stream b s \<longleftrightarrow> fl.sound b s \<or> sl.sound b s"

definition sound_logger :: "bool \<Rightarrow> logger \<Rightarrow> bool" where
  "sound_logger b li \<longleftrightarrow> list_all (sound_stream b) (li_streamers li)"

lemma sound_stream_opt:
  "sound_stream b s \<Longrightarrow> \<exists>u' w'. os_optioner s (os_userdata s) n v w = Some (u', w') \<and>
     sound_stream b (s\<lparr>os_userdata := u'\<rparr>) \<and> ample_memory w' = ample_memory w"
  using fl.sound_opt [of b s n v w] sl.sound_opt [of b s n v w] by (auto simp: sound_stream_def)

lemma option_loop_sound:
  "list_all (sound_stream b) ss \<Longrightarrow> \<exists>ss' w'. option_loop ss n v w = Some (ss', w') \<and> list_all (sound_stream b) ss' \<and>
     ample_memory w' = ample_memory w"
proof (induction ss arbitrary: w)
  case (Cons s ss)
  obtain u' w' where s: "os_optioner s (os_userdata s) n v w = Some (u', w')" "sound_stream b (s\<lparr>os_userdata := u'\<rparr>)"
    "ample_memory w' = ample_memory w"
    using sound_stream_opt [of b s n v w] Cons.prems by auto
  obtain ss' w'' where "option_loop ss n v w' = Some (ss', w'')" "list_all (sound_stream b) ss'" "ample_memory w'' = ample_memory w'"
    using Cons.IH [of w'] Cons.prems by auto
  with s show ?case by simp
qed simp

lemma LogOption_sound:
  "sound_logger b li \<Longrightarrow> \<exists>li' w'. LogOption li n v w = Some (li', w') \<and> sound_logger b li' \<and> ample_memory w' = ample_memory w"
  using option_loop_sound [of b "li_streamers li" n v w] by (auto simp: LogOption_def sound_logger_def)

lemma activate_loop_sound:
  "list_all (sound_stream b) ss \<Longrightarrow> b \<longrightarrow> ample_memory w \<Longrightarrow> activate_loop name ss w = (ss', w') \<Longrightarrow>
     list_all (sound_stream b) ss' \<and> ample_memory w' = ample_memory w"
proof (induction ss arbitrary: w ss' w')
  case (Cons s ss)
  obtain t v r u where t: "(if strcmp name (os_name s) = 0
      then (case os_initter s w of (u, w) \<Rightarrow> (if u \<noteq> None then s\<lparr>os_userdata := u, os_active := 1\<rparr> else s\<lparr>os_userdata := u\<rparr>, w))
      else (s, w)) = (t, v)" and r: "activate_loop name ss v = (r, w')" and ss': "ss' = t # r"
    using Cons.prems(3) by (auto simp: Let_def split: prod.splits)
  have "sound_stream b t \<and> ample_memory v = ample_memory w"
  proof (cases "strcmp name (os_name s) = 0")
    case True
    obtain x y where i: "os_initter s w = (x, y)" by force
    from t have "t = (if x \<noteq> None then s\<lparr>os_userdata := x, os_active := 1\<rparr> else s\<lparr>os_userdata := x\<rparr>)" "v = y"
      by (simp_all only: True if_True i prod.case prod.inject) auto
    then show ?thesis using Cons.prems(1,2) fl.sound_init [OF _ _ i, of b] sl.sound_init [OF _ _ i, of b]
      by (auto simp only: sound_stream_def list.pred_inject)
  next
    case False
    with t Cons.prems(1) show ?thesis by auto
  qed
  with Cons.IH [OF _ _ r] Cons.prems(1,2) ss' show ?case by auto
qed simp

lemma output_loop_sound:
  "list_all (sound_stream b) ss \<Longrightarrow> output_loop t ss w = Some (ss', w') \<Longrightarrow>
     list_all (sound_stream b) ss' \<and> ample_memory w' = ample_memory w"
proof (induction ss arbitrary: w ss' w')
  case (Cons s ss)
  show ?case
  proof (cases "os_active s \<noteq> 0")
    case True
    with Cons.prems(2) obtain u w1 r where o: "os_outputter s (os_userdata s) t w = Some (u, w1)"
      and r: "output_loop t ss w1 = Some (r, w')" and ss': "ss' = s\<lparr>os_userdata := u\<rparr> # r"
      by (auto simp: bind_eq_Some_conv)
    have "sound_stream b (s\<lparr>os_userdata := u\<rparr>) \<and> ample_memory w1 = ample_memory w"
      using Cons.prems(1) fl.sound_out [OF _ o] sl.sound_out [OF _ o] by (auto simp: sound_stream_def)
    with Cons.IH [OF _ r] Cons.prems(1) ss' show ?thesis by simp
  next
    case False
    with Cons.prems(2) obtain r where r: "output_loop t ss w = Some (r, w')" and "ss' = s # r"
      by (auto simp: bind_eq_Some_conv)
    with Cons.IH [OF _ r] Cons.prems(1) show ?thesis by simp
  qed
qed simp

lemma deactivate_loop_sound:
  "list_all (sound_stream b) ss \<Longrightarrow> deactivate_loop name ss w = Some (ss', w') \<Longrightarrow>
     list_all (sound_stream b) ss' \<and> ample_memory w' = ample_memory w"
proof (induction ss arbitrary: w ss' w')
  case (Cons s ss)
  show ?case
  proof (cases "strcmp name (os_name s) = 0")
    case True
    with Cons.prems(2) obtain w1 r where d: "os_destroyer s (os_userdata s) w = Some w1"
      and r: "deactivate_loop name ss w1 = Some (r, w')" and ss': "ss' = s\<lparr>os_userdata := None, os_active := 0\<rparr> # r"
      by (auto simp: bind_eq_Some_conv)
    have "sound_stream b (s\<lparr>os_userdata := None, os_active := 0\<rparr>) \<and> ample_memory w1 = ample_memory w"
      using Cons.prems(1) fl.sound_destroyed [OF _ d] sl.sound_destroyed [OF _ d] by (auto simp: sound_stream_def)
    with Cons.IH [OF _ r] Cons.prems(1) ss' show ?thesis by simp
  next
    case False
    with Cons.prems(2) obtain r where r: "deactivate_loop name ss w = Some (r, w')" and "ss' = s # r"
      by (auto simp: bind_eq_Some_conv)
    with Cons.IH [OF _ r] Cons.prems(1) show ?thesis by simp
  qed
qed simp

lemma LogMessage_cases:
  assumes "LogMessage pid node (Some li) lev type m func line file w = Some (r, l, w')"
  shows "\<exists>lname li1 w1. LogOption li ''LEVEL'' lname w = Some (li1, w1) \<and>
    (l = Some li1 \<and> w' = w1 \<or> (\<exists>t r' li2. LogOutput li1 t w1 = Some (r', li2, w') \<and> l = Some li2))"
proof -
  obtain lname where ln: "lev_name (clamp_level lev) = Some lname"
    using assms by (auto simp: LogMessage_def Let_def split: option.splits)
  then obtain li1 w1 where o: "LogOption li ''LEVEL'' lname w = Some (li1, w1)"
    using assms by (auto simp: LogMessage_def Let_def split: option.splits)
  have "l = Some li1 \<and> w' = w1 \<or> (\<exists>t r' li2. LogOutput li1 t w1 = Some (r', li2, w') \<and> l = Some li2)"
    using assms by (auto simp: LogMessage_def Let_def ln o split: option.splits if_splits rendered.splits)
  with o show ?thesis by blast
qed

lemma LogMessage_sound:
  assumes "sound_logger b li" "LogMessage pid node (Some li) lev type m func line file w = Some (r, l, w')"
  shows "\<exists>li'. l = Some li' \<and> sound_logger b li' \<and> ample_memory w' = ample_memory w"
proof -
  have out: "sound_logger b li2 \<and> ample_memory v' = ample_memory v"
    if "sound_logger b li1" "LogOutput li1 t v = Some (r', li2, v')" for li1 li2 t v r' v'
    using that output_loop_sound by (fastforce simp: LogOutput_def bind_eq_Some_conv sound_logger_def)
  have opt: "sound_logger b li1 \<and> ample_memory w1 = ample_memory w" if "LogOption li n v w = Some (li1, w1)" for li1 n v w1
    using LogOption_sound [OF assms(1), of n v w] that by auto
  from LogMessage_cases [OF assms(2)] obtain lname li1 w1 where o: "LogOption li ''LEVEL'' lname w = Some (li1, w1)"
    "l = Some li1 \<and> w' = w1 \<or> (\<exists>t r' li2. LogOutput li1 t w1 = Some (r', li2, w') \<and> l = Some li2)" by blast
  from opt [OF o(1)] o(2) out show ?thesis by metis
qed

section \<open>Sequences of calls\<close>

text \<open>The calls a program makes on a logger; what is undefined behaviour is no step.\<close>

inductive log_call :: "logger \<times> log_world \<Rightarrow> logger \<times> log_world \<Rightarrow> bool" where
  call_option: "LogOption li n v w = Some (li', w') \<Longrightarrow> log_call (li, w) (li', w')"
| call_option_int: "LogOptionInt li n i w = Some (li', w') \<Longrightarrow> log_call (li, w) (li', w')"
| call_activate: "LogActivate (Some li) n w = (Some li', w') \<Longrightarrow> log_call (li, w) (li', w')"
| call_deactivate: "LogDeactivate (Some li) n w = Some (Some li', w') \<Longrightarrow> log_call (li, w) (li', w')"
| call_level: "LogLevel (Some li) l = (r, Some li') \<Longrightarrow> log_call (li, w) (li', w)"
| call_type: "LogType (Some li) l = (r, Some li') \<Longrightarrow> log_call (li, w) (li', w)"
| call_deftype: "SetCurLogType (Some li) l = (r, Some li') \<Longrightarrow> log_call (li, w) (li', w)"
| call_format: "LogFormat mem (Some li) f = (r', Some li') \<Longrightarrow> log_call (li, w) (li', w)"
| call_dateformat: "LogDateFormat mem (Some li) f = (r', Some li') \<Longrightarrow> log_call (li, w) (li', w)"
| call_service: "LogService mem (Some li) f = (r', Some li') \<Longrightarrow> log_call (li, w) (li', w)"
| call_message: "LogMessage pid node (Some li) lev type m func line file w = Some (r, Some li', w') \<Longrightarrow>
     log_call (li, w) (li', w')"

inductive_cases log_callE: "log_call (li, w) x"

definition sound_state :: "bool \<Rightarrow> logger \<times> log_world \<Rightarrow> bool" where
  "sound_state b x \<longleftrightarrow> sound_logger b (fst x) \<and> (b \<longrightarrow> ample_memory (snd x))"

lemma LogOption_sound':
  "LogOption li n v w = Some (li', w') \<Longrightarrow> sound_logger b li \<Longrightarrow> sound_logger b li' \<and> ample_memory w' = ample_memory w"
  using LogOption_sound [of b li n v w] by auto

lemma LogMessage_sound':
  "LogMessage pid node (Some li) lev type m func line file w = Some (r, Some li', w') \<Longrightarrow> sound_logger b li \<Longrightarrow>
     sound_logger b li' \<and> ample_memory w' = ample_memory w"
  using LogMessage_sound by blast

lemma settings_sound:
  "LogLevel (Some li) l = (r, Some li') \<Longrightarrow> sound_logger b li \<Longrightarrow> sound_logger b li'"
  "LogType (Some li) l = (r, Some li') \<Longrightarrow> sound_logger b li \<Longrightarrow> sound_logger b li'"
  "SetCurLogType (Some li) l = (r, Some li') \<Longrightarrow> sound_logger b li \<Longrightarrow> sound_logger b li'"
  "LogFormat mem (Some li) f = (r', Some li') \<Longrightarrow> sound_logger b li \<Longrightarrow> sound_logger b li'"
  "LogDateFormat mem (Some li) f = (r', Some li') \<Longrightarrow> sound_logger b li \<Longrightarrow> sound_logger b li'"
  "LogService mem (Some li) f = (r', Some li') \<Longrightarrow> sound_logger b li \<Longrightarrow> sound_logger b li'"
  by (auto simp: LogLevel_def LogType_def SetCurLogType_def LogFormat_def LogDateFormat_def LogService_def
      sound_logger_def split: if_splits)

lemma LogActivate_sound:
  "LogActivate (Some li) n w = (Some li', w') \<Longrightarrow> sound_logger b li \<Longrightarrow> b \<longrightarrow> ample_memory w \<Longrightarrow>
     sound_logger b li' \<and> ample_memory w' = ample_memory w"
  using activate_loop_sound [of b "li_streamers li" w n]
  by (auto simp: LogActivate_def sound_logger_def split: prod.splits)

lemma LogDeactivate_sound:
  "LogDeactivate (Some li) n w = Some (Some li', w') \<Longrightarrow> sound_logger b li \<Longrightarrow>
     sound_logger b li' \<and> ample_memory w' = ample_memory w"
  using deactivate_loop_sound [of b "li_streamers li" n w]
  by (auto simp: LogDeactivate_def sound_logger_def bind_eq_Some_conv)

lemmas call_sound = LogOption_sound' LogMessage_sound' settings_sound LogActivate_sound LogDeactivate_sound

lemma log_call_sound: "log_call (li, w) (li', w') \<Longrightarrow> sound_state b (li, w) \<Longrightarrow> sound_state b (li', w')"
  by (erule log_callE) (auto simp: LogOptionInt_def sound_state_def dest: call_sound)

lemma LogInit_sound: "LogInit m0 m1 m2 = Some li \<Longrightarrow> sound_logger b li"
  using fl.sound_new sl.sound_new
  by (auto simp: LogInit_def SYSLOGStreamerAdd_def FILEStreamerAdd_def LogAddStreamer_def sound_logger_def
      sound_stream_def fl.is_stream_def sl.is_stream_def split: if_splits)

inductive log_run :: "logger \<times> log_world \<Rightarrow> logger \<times> log_world \<Rightarrow> bool" where
  run_refl: "log_run x x"
| run_step: "log_run x y \<Longrightarrow> log_call y z \<Longrightarrow> log_run x z"

lemma log_run_sound: "log_run x y \<Longrightarrow> sound_state b x \<Longrightarrow> sound_state b y"
proof (induction rule: log_run.induct)
  case (run_step x y z)
  then show ?case using log_call_sound by (cases y; cases z) auto
qed

lemma out_null [simp]: "file_out None t v = Some (None, v)" "syslog_out None t v = Some (None, v)"
  by (simp_all add: file_out_def file_of_def fileoutputter_def syslog_out_def syslog_of_def syslogoutputter_def)

lemma destroy_null: "file_destroy None v \<noteq> None" "syslog_destroy None v = None"
  by (simp_all add: file_destroy_def file_of_def syslog_destroy_def syslog_of_def syslogdestroyer_def)

text \<open>
  C31: the logger and its streams. After any sequence of calls on a fresh logger, whatever
  allocations failed, a stream is one of the two, and its data are its own or NULL: an output or an
  option of a file stream never sees the data of syslog, nor the other way round. Options never
  fail, output without data does nothing, and the destruction of a file stream is always defined,
  that of a syslog stream exactly when it has data. If all allocations of data succeed, an active
  stream has data.
\<close>

theorem streams_stay_sound:
  assumes "LogInit m0 m1 m2 = Some li" "log_run (li, w) (li', w')" "s \<in> set (li_streamers li')"
  shows "(os_outputter s = file_out \<and> os_optioner s = file_opt \<and> (\<forall>u. os_userdata s = Some u \<longrightarrow> (\<exists>d. u = File_data d)) \<and>
       os_destroyer s (os_userdata s) v \<noteq> None \<or>
     os_outputter s = syslog_out \<and> os_optioner s = syslog_opt \<and> (\<forall>u. os_userdata s = Some u \<longrightarrow> (\<exists>d. u = Syslog_data d)) \<and>
       (os_destroyer s (os_userdata s) v \<noteq> None \<longleftrightarrow> os_userdata s \<noteq> None)) \<and>
    os_optioner s (os_userdata s) n t v \<noteq> None \<and> os_outputter s None t v = Some (None, v) \<and>
    ((\<forall>n. lw_mem w n) \<and> os_active s \<noteq> 0 \<longrightarrow> os_userdata s \<noteq> None)"
proof -
  have s: "sound_stream b s" if "b \<longrightarrow> ample_memory w" for b
    using log_run_sound [OF assms(2), of b] LogInit_sound [OF assms(1), of b] assms(3) that
    by (auto simp: sound_state_def sound_logger_def list_all_iff)
  have "sound_stream False s" by (rule s) simp
  moreover have "(\<forall>n. lw_mem w n) \<and> os_active s \<noteq> 0 \<longrightarrow> os_userdata s \<noteq> None"
    using s [of True] by (auto simp: ample_memory_def sound_stream_def fl.sound_def sl.sound_def)
  moreover have "os_optioner s (os_userdata s) n t v \<noteq> None"
    using sound_stream_opt [OF \<open>sound_stream False s\<close>, of n t v] by auto
  moreover have "os_destroyer s (os_userdata s) v \<noteq> None" if a: "os_userdata s \<noteq> None"
    using \<open>sound_stream False s\<close> fl.sound_destroy [OF _ a, of False v] sl.sound_destroy [OF _ a, of False v]
    by (auto simp: sound_stream_def)
  ultimately show ?thesis
    using destroy_null [of v] by (cases "os_userdata s")
      (auto simp: sound_stream_def fl.sound_def sl.sound_def fl.is_stream_def sl.is_stream_def)
qed

text \<open>
  A stream that is activated again when there is no memory for its data. It stays active without
  data, those it had are lost, and deactivating the syslog stream is then undefined behaviour.
\<close>

theorem reactivation_loses_data:
  assumes "LogInit True m1 True = Some li" "lw_mem w (lw_mallocs w)" "\<not> lw_mem w (Suc (lw_mallocs w))"
  shows "\<exists>li1 w1 li2 w2. LogActivate (Some li) ''SYSLOG'' w = (Some li1, w1) \<and>
    LogActivate (Some li1) ''SYSLOG'' w1 = (Some li2, w2) \<and> os_active (hd (li_streamers li2)) = 1 \<and>
    os_userdata (hd (li_streamers li1)) \<noteq> None \<and> os_userdata (hd (li_streamers li2)) = None \<and>
    LogDeactivate (Some li2) ''SYSLOG'' w2 = None"
proof -
  have n: "strcmp ''SYSLOG'' ''FILE'' \<noteq> 0" "strcmp ''SYSLOG'' ''SYSLOG'' = 0" by code_simp+
  show ?thesis
    using assms
    by (cases m1) (auto simp: LogInit_def SYSLOGStreamerAdd_def FILEStreamerAdd_def LogAddStreamer_def LogActivate_def Let_def
        n syslog_init_def stream_malloc_def sysloginit_def LogDeactivate_def destroy_null(2))
qed

definition sample_log_world :: "(nat \<Rightarrow> bool) \<Rightarrow> log_world" where
  "sample_log_world mem = \<lparr>lw_files = sample_files, lw_syslog = \<lparr>sw_ident = None, sw_messages = []\<rparr>, lw_mem = mem, lw_mallocs = 0\<rparr>"

lemma reactivation_loses_data_witness:
  "\<exists>li li1 w1. LogInit True True True = Some li \<and>
     LogActivate (Some li) ''SYSLOG'' (sample_log_world (\<lambda>n. n = 0)) = (Some li1, w1) \<and> os_userdata (hd (li_streamers li1)) \<noteq> None"
proof -
  obtain li where li: "LogInit True True True = Some li" by (simp add: LogInit_def)
  with reactivation_loses_data [OF li, of "sample_log_world (\<lambda>n. n = 0)"] show ?thesis
    by (auto simp: sample_log_world_def)
qed

lemma streams_stay_sound_witness:
  "\<exists>li li' w' s. LogInit True True True = Some li \<and> log_run (li, sample_log_world (\<lambda>n. n = 0)) (li', w') \<and>
     s \<in> set (li_streamers li') \<and> os_active s = 1 \<and> os_userdata s \<noteq> None \<and>
     os_optioner s (os_userdata s) ''LEVEL'' ''LOG_WARN'' w' \<noteq> None \<and> os_destroyer s (os_userdata s) w' \<noteq> None"
proof -
  let ?w = "sample_log_world (\<lambda>n. n = 0)"
  obtain li where li: "LogInit True True True = Some li" by (simp add: LogInit_def)
  have n: "strcmp ''SYSLOG'' ''FILE'' \<noteq> 0" "strcmp ''SYSLOG'' ''SYSLOG'' = 0" by code_simp+
  obtain li' w' where a: "LogActivate (Some li) ''SYSLOG'' ?w = (Some li', w')"
    and h: "hd (li_streamers li') \<in> set (li_streamers li')" "os_active (hd (li_streamers li')) = 1"
      "os_userdata (hd (li_streamers li')) \<noteq> None"
    using li
    by (auto simp: LogInit_def SYSLOGStreamerAdd_def FILEStreamerAdd_def LogAddStreamer_def LogActivate_def Let_def
        n syslog_init_def stream_malloc_def sysloginit_def sample_log_world_def)
  from run_step [OF run_refl call_activate [OF a]] have run: "log_run (li, ?w) (li', w')" .
  from streams_stay_sound [OF li run h(1), where v = w' and n = "''LEVEL''" and t = "''LOG_WARN''"] li run h show ?thesis
    by blast
qed

end
