(* ===== verification/Bison.thy ===== *)
theory Bison
  imports Main
begin

text \<open>
  The parser driver of Bison's skeleton yacc.c, as it is compiled into the generated parsers
  (src/src/sslutils/signing_policy.c, and with the same text namespaces.c and utils/vomsparser.c).

  A parser is a record of tables and a function for its actions. The stack holds states with the
  values of their symbols, its top first; the bottom state 0 is left out, so the length of the list
  is the index \<open>yyssp - yyss\<close>. The tokens come as a list: each with its number, its value and the
  state of the scanner after it was read, from which the actions read strings; after the list the
  end of the input is read. The messages about errors go to functions that ignore them.
\<close>

section \<open>Tables\<close>

record yytables =
  yypact :: "int list"
  yypact_ninf :: int
  yydefact :: "nat list"
  yytable :: "int list"
  yytable_ninf :: int
  yycheck :: "int list"
  yylast :: int
  yyfinal :: nat
  yypgoto :: "int list"
  yydefgoto :: "int list"
  yyr1 :: "nat list"
  yyr2 :: "nat list"
  yyntokens :: nat
  yytranslate :: "int \<Rightarrow> int"

text \<open>An element of an array, \<open>None\<close> outside of it.\<close>

definition entry :: "'a list \<Rightarrow> int \<Rightarrow> 'a option" where
  "entry xs i = (if 0 \<le> i \<and> nat i < length xs then Some (xs ! nat i) else None)"

datatype yyact = Shift nat | Reduce nat | Fail

text \<open>\<open>yydefault\<close>, and the decision of \<open>yybackup\<close> with a lookahead.\<close>

definition yydefault :: "yytables \<Rightarrow> nat \<Rightarrow> yyact option" where
  "yydefault T s =
     map_option (\<lambda>n. if n = 0 then Fail else Reduce n) (entry (yydefact T) (int s))"

definition yydecide :: "yytables \<Rightarrow> nat \<Rightarrow> int \<Rightarrow> yyact option" where
  "yydecide T s tok =
     (case entry (yypact T) (int s) of
        None \<Rightarrow> None
      | Some p \<Rightarrow>
          (let n = p + tok
           in if n < 0 \<or> yylast T < n \<or> entry (yycheck T) n \<noteq> Some tok then yydefault T s
              else (case entry (yytable T) n of
                 None \<Rightarrow> None
               | Some y \<Rightarrow>
                   if y \<le> 0 then Some (if y = 0 \<or> y = yytable_ninf T then Fail else Reduce (nat (- y)))
                   else Some (Shift (nat y)))))"

text \<open>The state after a reduction to the symbol \<open>lhs\<close>.\<close>

definition yygoto :: "yytables \<Rightarrow> nat \<Rightarrow> nat \<Rightarrow> nat option" where
  "yygoto T s lhs =
     (case entry (yypgoto T) (int lhs - int (yyntokens T)) of
        None \<Rightarrow> None
      | Some p \<Rightarrow>
          (let g = p + int s
           in map_option nat
                (if 0 \<le> g \<and> g \<le> yylast T \<and> entry (yycheck T) g = Some (int s) then entry (yytable T) g
                 else entry (yydefgoto T) (int lhs - int (yyntokens T)))))"

section \<open>The machine\<close>

datatype ('v, 's) lexed = Lexed int 'v 's | Lex_bad

record ('v, 's, 'e) yyconf =
  yyss :: "(nat \<times> 'v) list"
  yychar :: "int option"
  yylval :: "'v option"
  yyerrstatus :: nat
  yyinput :: "('v, 's) lexed list"
  yyscan :: 's
  yyenv :: 'e

text \<open>
  \<open>act r vals scan env\<close> is the action of rule \<open>r\<close> on the values of its right-hand side; \<open>None\<close>
  is undefined behaviour.
\<close>

type_synonym ('v, 's, 'e) yyactions = "nat \<Rightarrow> 'v list \<Rightarrow> 's \<Rightarrow> 'e \<Rightarrow> ('v \<times> 'e) option"

datatype ('v, 's, 'e) yynext = Undef | Return int 'e | Continue "('v, 's, 'e) yyconf"

definition top_state :: "(nat \<times> 'v) list \<Rightarrow> nat" where
  "top_state ss = (case ss of [] \<Rightarrow> 0 | (s, _) # _ \<Rightarrow> s)"

text \<open>
  \<open>yynewstate\<close>. The stacks begin with YYINITDEPTH entries and are doubled when they are full, up to
  YYMAXDEPTH; \<open>mem n\<close> is whether there is memory when they are full at index \<open>n\<close>. An index is
  reached for the second time only when the first time there was memory.
\<close>

definition YYINITDEPTH :: nat where "YYINITDEPTH = 200"
definition YYMAXDEPTH :: nat where "YYMAXDEPTH = 10000"

definition full_at :: "nat \<Rightarrow> bool" where
  "full_at n \<longleftrightarrow> n \<in> (\<lambda>k. YYINITDEPTH * 2 ^ k - 1) ` {0..<6}"

definition yynewstate ::
  "yytables \<Rightarrow> (nat \<Rightarrow> bool) \<Rightarrow> nat \<Rightarrow> 'v \<Rightarrow> ('v, 's, 'e) yyconf \<Rightarrow> ('v, 's, 'e) yynext" where
  "yynewstate T mem s v c =
     (let ss = (s, v) # yyss c
      in if length ss = YYMAXDEPTH - 1 \<or> full_at (length ss) \<and> \<not> mem (length ss) then Return 2 (yyenv c)
         else if s = yyfinal T then Return 0 (yyenv c)
         else Continue (c\<lparr>yyss := ss\<rparr>))"

text \<open>The lookahead: it is read when there is none.\<close>

definition yyread :: "('v, 's, 'e) yyconf \<Rightarrow> (int \<times> ('v, 's, 'e) yyconf) option" where
  "yyread c =
     (case yychar c of
        Some ch \<Rightarrow> Some (ch, c)
      | None \<Rightarrow>
          (case yyinput c of
             [] \<Rightarrow> Some (0, c\<lparr>yychar := Some 0\<rparr>)
           | Lex_bad # _ \<Rightarrow> None
           | Lexed t v s # r \<Rightarrow>
               (let ch = (if t \<le> 0 then 0 else t)
                in Some (ch, c\<lparr>yychar := Some ch, yylval := Some v, yyinput := r, yyscan := s\<rparr>))))"

definition yyshift ::
  "yytables \<Rightarrow> (nat \<Rightarrow> bool) \<Rightarrow> nat \<Rightarrow> ('v, 's, 'e) yyconf \<Rightarrow> ('v, 's, 'e) yynext" where
  "yyshift T mem s c =
     (case yylval c of
        None \<Rightarrow> Undef
      | Some v \<Rightarrow> yynewstate T mem s v (c\<lparr>yychar := None, yyerrstatus := yyerrstatus c - 1\<rparr>))"

definition yyreduce ::
  "yytables \<Rightarrow> ('v, 's, 'e) yyactions \<Rightarrow> (nat \<Rightarrow> bool) \<Rightarrow> nat \<Rightarrow> ('v, 's, 'e) yyconf \<Rightarrow> ('v, 's, 'e) yynext" where
  "yyreduce T act mem r c =
     (case (entry (yyr2 T) (int r), entry (yyr1 T) (int r)) of
        (Some len, Some lhs) \<Rightarrow>
          if len = 0 \<or> length (yyss c) < len then Undef
          else (case act r (rev (map snd (take len (yyss c)))) (yyscan c) (yyenv c) of
             None \<Rightarrow> Undef
           | Some (v, e) \<Rightarrow>
               (let ss = drop len (yyss c)
                in case yygoto T (top_state ss) lhs of
                     None \<Rightarrow> Undef
                   | Some s \<Rightarrow> yynewstate T mem s v (c\<lparr>yyss := ss, yyenv := e\<rparr>)))
      | _ \<Rightarrow> Undef)"

text \<open>The states that are popped until one takes the error token: it and the stack under it.\<close>

definition takes_error :: "yytables \<Rightarrow> nat \<Rightarrow> nat option" where
  "takes_error T s =
     (case entry (yypact T) (int s) of
        None \<Rightarrow> None
      | Some p \<Rightarrow>
          if p \<noteq> yypact_ninf T \<and> 0 \<le> p + 1 \<and> p + 1 \<le> yylast T \<and> entry (yycheck T) (p + 1) = Some 1
          then (case entry (yytable T) (p + 1) of Some y \<Rightarrow> if 0 < y then Some (nat y) else None | None \<Rightarrow> None)
          else None)"

fun error_pop :: "yytables \<Rightarrow> (nat \<times> 'v) list \<Rightarrow> (nat \<times> (nat \<times> 'v) list) option" where
  "error_pop T [] = map_option (\<lambda>s. (s, [])) (takes_error T 0)"
| "error_pop T ((s, v) # ss) =
     (case takes_error T s of Some s' \<Rightarrow> Some (s', (s, v) # ss) | None \<Rightarrow> error_pop T ss)"

definition yyerrlab ::
  "yytables \<Rightarrow> (nat \<Rightarrow> bool) \<Rightarrow> ('v, 's, 'e) yyconf \<Rightarrow> ('v, 's, 'e) yynext" where
  "yyerrlab T mem c =
     (if yyerrstatus c = 3 \<and> yychar c = Some 0 then Return 1 (yyenv c)
      else (let c = (if yyerrstatus c = 3 \<and> yychar c \<noteq> None then c\<lparr>yychar := None\<rparr> else c)
            in case error_pop T (yyss c) of
                 None \<Rightarrow> Return 1 (yyenv c)
               | Some (s, ss) \<Rightarrow>
                   (case yylval c of
                      None \<Rightarrow> Undef
                    | Some v \<Rightarrow> yynewstate T mem s v (c\<lparr>yyss := ss, yyerrstatus := 3\<rparr>))))"

definition yyperform ::
  "yytables \<Rightarrow> ('v, 's, 'e) yyactions \<Rightarrow> (nat \<Rightarrow> bool) \<Rightarrow> yyact option \<Rightarrow> ('v, 's, 'e) yyconf \<Rightarrow> ('v, 's, 'e) yynext" where
  "yyperform T act mem a c =
     (case a of
        None \<Rightarrow> Undef
      | Some (Shift s) \<Rightarrow> yyshift T mem s c
      | Some (Reduce r) \<Rightarrow> yyreduce T act mem r c
      | Some Fail \<Rightarrow> yyerrlab T mem c)"

text \<open>\<open>yybackup\<close>: the lookahead is only read in states that need it.\<close>

definition yybackup ::
  "yytables \<Rightarrow> ('v, 's, 'e) yyactions \<Rightarrow> (nat \<Rightarrow> bool) \<Rightarrow> ('v, 's, 'e) yyconf \<Rightarrow> ('v, 's, 'e) yynext" where
  "yybackup T act mem c =
     (let s = top_state (yyss c)
      in if entry (yypact T) (int s) = Some (yypact_ninf T) then yyperform T act mem (yydefault T s) c
         else (case yyread c of
                 None \<Rightarrow> Undef
               | Some (ch, c) \<Rightarrow>
                   yyperform T act mem (yydecide T s (if ch \<le> 0 then 0 else yytranslate T ch)) c))"

text \<open>
  The parse: \<open>None\<close> when it does not return, \<open>Some None\<close> when it is undefined behaviour, and
  otherwise the answer and what the actions made.
\<close>

partial_function (option) yyrun ::
  "yytables \<Rightarrow> ('v, 's, 'e) yyactions \<Rightarrow> (nat \<Rightarrow> bool) \<Rightarrow> ('v, 's, 'e) yyconf \<Rightarrow> (int \<times> 'e) option option" where
  "yyrun T act mem c =
     (case yybackup T act mem c of
        Undef \<Rightarrow> Some None
      | Return r e \<Rightarrow> Some (Some (r, e))
      | Continue c \<Rightarrow> yyrun T act mem c)"

definition yyparse ::
  "yytables \<Rightarrow> ('v, 's, 'e) yyactions \<Rightarrow> (nat \<Rightarrow> bool) \<Rightarrow> ('v, 's) lexed list \<Rightarrow> 's \<Rightarrow> 'e \<Rightarrow> (int \<times> 'e) option option" where
  "yyparse T act mem input scan env =
     yyrun T act mem \<lparr>yyss = [], yychar = None, yylval = None, yyerrstatus = 0, yyinput = input,
       yyscan = scan, yyenv = env\<rparr>"

text \<open>What every action keeps, the parse keeps.\<close>

definition keeps :: "('v, 's, 'e) yyactions \<Rightarrow> ('e \<Rightarrow> bool) \<Rightarrow> bool" where
  "keeps act Q \<longleftrightarrow> (\<forall>r vals sc e v e'. act r vals sc e = Some (v, e') \<longrightarrow> Q e \<longrightarrow> Q e')"

lemma yynewstate_env:
  "yynewstate T mem s v c = Return i e \<Longrightarrow> e = yyenv c"
  "yynewstate T mem s v c = Continue c' \<Longrightarrow> yyenv c' = yyenv c"
  by (auto simp: yynewstate_def Let_def split: if_splits)

lemma yyperform_env:
  assumes "keeps act Q" "Q (yyenv c)"
  shows "yyperform T act mem a c = Return i e \<Longrightarrow> Q e" "yyperform T act mem a c = Continue c' \<Longrightarrow> Q (yyenv c')"
proof -
  have red: "(yyreduce T act mem r c = Return i e \<longrightarrow> Q e) \<and> (yyreduce T act mem r c = Continue c' \<longrightarrow> Q (yyenv c'))" for r
    using assms by (auto simp: keeps_def yyreduce_def Let_def split: option.splits if_splits prod.splits dest!: yynewstate_env)
  have sh: "(yyshift T mem s c = Return i e \<longrightarrow> Q e) \<and> (yyshift T mem s c = Continue c' \<longrightarrow> Q (yyenv c'))" for s
    using assms(2) by (auto simp: yyshift_def split: option.splits dest!: yynewstate_env)
  have er: "(yyerrlab T mem c = Return i e \<longrightarrow> Q e) \<and> (yyerrlab T mem c = Continue c' \<longrightarrow> Q (yyenv c'))"
    using assms(2) by (auto simp: yyerrlab_def Let_def split: option.splits if_splits prod.splits dest!: yynewstate_env)
  show "yyperform T act mem a c = Return i e \<Longrightarrow> Q e" "yyperform T act mem a c = Continue c' \<Longrightarrow> Q (yyenv c')"
    using red sh er by (auto simp: yyperform_def split: option.splits yyact.splits)
qed

lemma yyread_env: "yyread c = Some (ch, c') \<Longrightarrow> yyenv c' = yyenv c"
  by (auto simp: yyread_def Let_def split: option.splits list.splits lexed.splits)

lemma yybackup_env:
  assumes "keeps act Q" "Q (yyenv c)"
  shows "(\<forall>i e. yybackup T act mem c = Return i e \<longrightarrow> Q e) \<and> (\<forall>c'. yybackup T act mem c = Continue c' \<longrightarrow> Q (yyenv c'))"
proof -
  have rd: "Q (yyenv c')" if "yyread c = Some (ch, c')" for ch c' using yyread_env [OF that] assms(2) by simp
  have pf: "(\<forall>i e. yyperform T act mem a d = Return i e \<longrightarrow> Q e) \<and>
      (\<forall>c'. yyperform T act mem a d = Continue c' \<longrightarrow> Q (yyenv c'))" if "Q (yyenv d)" for a d
    using yyperform_env [OF assms(1) that] by blast
  show ?thesis
  proof (cases "yyread c")
    case None
    then show ?thesis using pf [OF assms(2)] by (simp add: yybackup_def Let_def)
  next
    case (Some x)
    obtain ch c' where x: "x = (ch, c')" by (cases x)
    show ?thesis using pf [OF assms(2)] pf [OF rd [of ch c']] Some x by (simp add: yybackup_def Let_def)
  qed
qed

lemma yyrun_env:
  assumes "keeps act Q"
    "yyrun T act mem c = Some r" "Q (yyenv c)"
  shows "case r of None \<Rightarrow> True | Some (i, e) \<Rightarrow> Q e"
proof -
  have "act = act \<longrightarrow> Q (yyenv c) \<longrightarrow> (case r of None \<Rightarrow> True | Some (i, e) \<Rightarrow> Q e)"
  proof (rule yyrun.raw_induct [where P = "\<lambda>T' act' mem' c r. act' = act \<longrightarrow> Q (yyenv c) \<longrightarrow>
      (case r of None \<Rightarrow> True | Some (i, e) \<Rightarrow> Q e)", OF _ assms(2)], intro impI)
    fix run T' act' mem' c r
    assume ih: "\<And>T' act' mem' c r. run T' act' mem' c = Some r \<Longrightarrow>
        act' = act \<longrightarrow> Q (yyenv c) \<longrightarrow> (case r of None \<Rightarrow> True | Some (i, e) \<Rightarrow> Q e)"
      and step: "(case yybackup T' act' mem' c of Undef \<Rightarrow> Some None | Return r e \<Rightarrow> Some (Some (r, e))
        | Continue c \<Rightarrow> run T' act' mem' c) = Some r" and a: "act' = act" and q: "Q (yyenv c)"
    have "(\<forall>i e. yybackup T' act mem' c = Return i e \<longrightarrow> Q e) \<and> (\<forall>c'. yybackup T' act mem' c = Continue c' \<longrightarrow> Q (yyenv c'))"
      by (rule yybackup_env [OF assms(1) q])
    then show "case r of None \<Rightarrow> True | Some (i, e) \<Rightarrow> Q e"
      using step ih a by (cases "yybackup T' act mem' c") auto
  qed
  then show ?thesis using assms(3) by simp
qed

end
