(* ===== verification/Flex.thy ===== *)
theory Flex
  imports Bison Prelude
begin

text \<open>
  The scanner driver of Flex's skeleton with full tables, as it is compiled into the generated
  scanners (src/src/sslutils/lex.signing.c and, with the same text, lex.namespaces.c).

  The state holds the buffer as far as it was written, the number of characters in it, the place of
  the next token with the character that is kept for it, and the rest of the file. Strings of tokens
  are pointers into the buffer: the number of times it was allocated, and an offset.

  A row of the transition table is written as its most frequent entry and the entries that differ.
  Rows lie one after the other: a character above 127 reads from the next one. A file is read in
  pieces of at most 8192 characters, until nothing is left; there is memory for the buffer.
\<close>

section \<open>Tables and state\<close>

type_synonym yyrow = "int \<times> (nat \<times> int) list"

record scan_tables =
  st_nxt :: "yyrow list"
  st_accept :: "nat list"
  st_nul :: "nat list"
  st_eob :: nat

definition row_entry :: "yyrow \<Rightarrow> nat \<Rightarrow> int" where
  "row_entry r c = (case map_of (snd r) c of None \<Rightarrow> fst r | Some n \<Rightarrow> n)"

definition nxt :: "scan_tables \<Rightarrow> nat \<Rightarrow> nat \<Rightarrow> int option" where
  "nxt T s c =
     (let s' = s + c div 128
      in if s' < length (st_nxt T) then Some (row_entry (st_nxt T ! s') (c mod 128)) else None)"

definition accepting :: "scan_tables \<Rightarrow> nat \<Rightarrow> nat" where
  "accepting T s = (if s < length (st_accept T) then st_accept T ! s else 0)"

record scan_state =
  sc_buf :: "char list"
  sc_size :: nat
  sc_gen :: nat
  sc_n :: nat
  sc_pos :: nat
  sc_hold :: char
  sc_start :: nat
  sc_eof :: bool
  sc_text :: nat
  sc_last :: "(nat \<times> nat) option"
  sc_file :: cstring
  sc_out :: cstring

definition YY_BUF_SIZE :: nat where "YY_BUF_SIZE = 16384"
definition YY_READ_BUF_SIZE :: nat where "YY_READ_BUF_SIZE = 8192"

text \<open>A new scanner on a file.\<close>

definition yylex_init :: "cstring \<Rightarrow> scan_state" where
  "yylex_init file =
     \<lparr>sc_buf = [NUL, NUL], sc_size = YY_BUF_SIZE, sc_gen = 0, sc_n = 0, sc_pos = 0, sc_hold = NUL, sc_start = 1,
      sc_eof = False, sc_text = 0, sc_last = None, sc_file = file, sc_out = []\<rparr>"

type_synonym text_ptr = "nat \<times> nat"

text \<open>A string in the buffer; the pointer dangles when the buffer was moved to new memory.\<close>

definition read_text :: "scan_state \<Rightarrow> text_ptr \<Rightarrow> cstring option" where
  "read_text st p =
     (let d = drop (snd p) (sc_buf st)
      in if fst p = sc_gen st \<and> NUL \<in> set d then Some (takeWhile (\<lambda>c. c \<noteq> NUL) d) else None)"

section \<open>Filling the buffer\<close>

text \<open>The loop that doubles the size until there is room; sizes fit an int.\<close>

function room_for :: "nat \<Rightarrow> nat \<Rightarrow> nat" where
  "room_for k sz = (if sz = 0 \<or> k + 1 < sz then sz else room_for k (2 * sz))"
  by auto
termination by (relation "measure (\<lambda>(k, sz). k + 2 - sz)") auto

declare room_for.simps [simp del]

definition overwrite_front :: "'a list \<Rightarrow> 'a list \<Rightarrow> 'a list" where
  "overwrite_front new old = new @ drop (length new) old"

datatype eob_act = End_of_file scan_state | Continue_scan scan_state | Last_match scan_state

text \<open>\<open>yy_get_next_buffer\<close>, with \<open>yy_c_buf_p\<close> at \<open>cp\<close>.\<close>

definition yy_get_next_buffer :: "nat \<Rightarrow> scan_state \<Rightarrow> eob_act option" where
  "yy_get_next_buffer cp st =
     (if cp > sc_n st + 1 then None
      else
        (let k = cp - sc_text st - 1;
             moved = take k (drop (sc_text st) (sc_buf st));
             sz = (if sc_eof st then sc_size st else room_for k (sc_size st));
             chunk = (if sc_eof st then [] else take (min YY_READ_BUF_SIZE (sz - k - 1)) (sc_file st));
             st' = st\<lparr>sc_buf := overwrite_front (moved @ chunk @ [NUL, NUL]) (sc_buf st), sc_size := sz,
                     sc_gen := (if sz = sc_size st then sc_gen st else Suc (sc_gen st)),
                     sc_n := length chunk + k, sc_file := drop (length chunk) (sc_file st), sc_text := 0\<rparr>
         in if chunk = [] then
              (if k = 0 then Some (End_of_file (st'\<lparr>sc_eof := False\<rparr>)) else Some (Last_match (st'\<lparr>sc_eof := True\<rparr>)))
            else Some (Continue_scan st')))"

section \<open>Matching\<close>

text \<open>The loop at \<open>yy_match\<close>: the state it ends in, the place and the last accepting state.\<close>

function yy_match ::
  "scan_tables \<Rightarrow> char list \<Rightarrow> nat \<Rightarrow> nat \<Rightarrow> (nat \<times> nat) option \<Rightarrow> (nat \<times> nat \<times> (nat \<times> nat) option) option" where
  "yy_match T buf s p last1 =
     (if p < length buf then
        (case nxt T s (of_char (buf ! p)) of
           None \<Rightarrow> None
         | Some t \<Rightarrow>
             if t > 0 then yy_match T buf (nat t) (Suc p) (if accepting T (nat t) \<noteq> 0 then Some (nat t, p) else last1)
             else Some (nat (- t), p, last1))
      else None)"
  by auto
termination by (relation "measure (\<lambda>(T, buf, s, p, l). length buf - p)") auto

declare yy_match.simps [simp del]

text \<open>\<open>yy_find_action\<close>: the action and the end of the token.\<close>

definition yy_find_action :: "scan_tables \<Rightarrow> nat \<Rightarrow> nat \<Rightarrow> (nat \<times> nat) option \<Rightarrow> (nat \<times> nat) option" where
  "yy_find_action T s cp last1 =
     (if accepting T s \<noteq> 0 then Some (accepting T s, cp)
      else (case last1 of
              None \<Rightarrow> None
            | Some (s, p) \<Rightarrow> if accepting T s \<noteq> 0 then Some (accepting T s, Suc p) else None))"

text \<open>\<open>yy_get_previous_state\<close> over the characters of the token so far, the first of them at \<open>p\<close>.\<close>

fun yy_get_previous_state ::
  "scan_tables \<Rightarrow> char list \<Rightarrow> nat \<Rightarrow> nat \<Rightarrow> (nat \<times> nat) option \<Rightarrow> (nat \<times> (nat \<times> nat) option) option" where
  "yy_get_previous_state T [] s p last1 = Some (s, last1)"
| "yy_get_previous_state T (c # cs) s p last1 =
     (case (if c \<noteq> NUL then nxt T s (of_char c) else map_option int (entry (st_nul T) (int s))) of
        None \<Rightarrow> None
      | Some t \<Rightarrow>
          if t < 0 then None
          else yy_get_previous_state T cs (nat t) (Suc p) (if accepting T (nat t) \<noteq> 0 then Some (nat t, p) else last1))"

datatype matched = Matched nat nat scan_state | At_eof scan_state | No_match

text \<open>The token so far: its state and place, from which the match goes on or the action is found.\<close>

definition again :: "scan_tables \<Rightarrow> nat \<Rightarrow> scan_state \<Rightarrow> (nat \<times> nat \<times> scan_state) option" where
  "again T amount st =
     map_option (\<lambda>(s, last1). (s, sc_text st + amount, st\<lparr>sc_last := last1\<rparr>))
       (yy_get_previous_state T (take amount (drop (sc_text st) (sc_buf st))) (sc_start st) (sc_text st) (sc_last st))"

definition settle :: "scan_tables \<Rightarrow> nat \<times> nat \<times> scan_state \<Rightarrow> matched" where
  "settle T x =
     (case x of (s, p, st) \<Rightarrow>
        (case yy_find_action T s p (sc_last st) of None \<Rightarrow> No_match | Some (act, cp) \<Rightarrow> Matched act cp st))"

text \<open>One match, through the ends of the buffer and the zeros in it.\<close>

partial_function (option) yy_scan :: "scan_tables \<Rightarrow> nat \<Rightarrow> nat \<Rightarrow> scan_state \<Rightarrow> matched option" where
  "yy_scan T s p st =
     (case yy_match T (sc_buf st) s p (sc_last st) of
        None \<Rightarrow> Some No_match
      | Some (s, cp, last1) \<Rightarrow>
          (case yy_find_action T s cp last1 of
             None \<Rightarrow> Some No_match
           | Some (act, cp) \<Rightarrow>
               if act \<noteq> st_eob T then Some (Matched act cp (st\<lparr>sc_last := last1\<rparr>))
               else if cp \<le> sc_n st then
                 (case again T (cp - sc_text st - 1) (st\<lparr>sc_last := last1\<rparr>) of
                    None \<Rightarrow> Some No_match
                  | Some (s, p, st) \<Rightarrow>
                      (case entry (st_nul T) (int s) of
                         None \<Rightarrow> Some No_match
                       | Some t \<Rightarrow>
                           if t = 0 then Some (settle T (s, p, st))
                           else yy_scan T t (Suc p)
                                  (st\<lparr>sc_last := if accepting T t \<noteq> 0 then Some (t, p) else sc_last st\<rparr>)))
               else
                 (case yy_get_next_buffer cp (st\<lparr>sc_last := last1\<rparr>) of
                    None \<Rightarrow> Some No_match
                  | Some (End_of_file st) \<Rightarrow> Some (At_eof (st\<lparr>sc_pos := 0\<rparr>))
                  | Some (Continue_scan st') \<Rightarrow>
                      (case again T (cp - sc_text st - 1) st' of
                         None \<Rightarrow> Some No_match
                       | Some (s, p, st) \<Rightarrow> yy_scan T s p st)
                  | Some (Last_match st) \<Rightarrow>
                      (case again T (sc_n st) st of
                         None \<Rightarrow> Some No_match
                       | Some x \<Rightarrow> Some (settle T x)))))"

section \<open>Tokens\<close>

text \<open>The start of a pass, and YY_DO_BEFORE_ACTION for a token that ends at \<open>cp\<close>.\<close>

definition begin_pass :: "scan_state \<Rightarrow> scan_state" where
  "begin_pass st = st\<lparr>sc_buf := (sc_buf st)[sc_pos st := sc_hold st], sc_text := sc_pos st\<rparr>"

definition before_action :: "nat \<Rightarrow> scan_state \<Rightarrow> scan_state" where
  "before_action cp st =
     st\<lparr>sc_hold := sc_buf st ! cp, sc_buf := (sc_buf st)[cp := NUL], sc_pos := cp\<rparr>"

text \<open>\<open>yytext\<close> as a pointer, and the matched characters.\<close>

definition yytext :: "scan_state \<Rightarrow> text_ptr" where
  "yytext st = (sc_gen st, sc_text st)"

definition yymatched :: "scan_state \<Rightarrow> cstring" where
  "yymatched st = take (sc_pos st - sc_text st) (drop (sc_text st) (sc_buf st))"

text \<open>\<open>BEGIN (c)\<close> and \<open>ECHO\<close>.\<close>

definition BEGIN :: "nat \<Rightarrow> scan_state \<Rightarrow> scan_state" where
  "BEGIN c st = st\<lparr>sc_start := 1 + 2 * c\<rparr>"

definition ECHO :: "scan_state \<Rightarrow> scan_state" where
  "ECHO st = st\<lparr>sc_out := sc_out st @ yymatched st\<rparr>"

text \<open>\<open>yytext [strlen (yytext) - 1] = 0\<close>: before the buffer it is \<open>None\<close>.\<close>

definition drop_quote :: "scan_state \<Rightarrow> scan_state option" where
  "drop_quote st =
     (case read_text st (yytext st) of
        None \<Rightarrow> None
      | Some s \<Rightarrow>
          if sc_text st + length s = 0 then None
          else Some (st\<lparr>sc_buf := (sc_buf st)[sc_text st + length s - 1 := NUL]\<rparr>))"

text \<open>
  The tokens a scanner delivers: the rules' actions give the new state and the token, if there is
  one. The last element of the list is the end of the file, whose value nobody looks at, or what is
  undefined.
\<close>

type_synonym 'v rules = "nat \<Rightarrow> scan_state \<Rightarrow> (scan_state \<times> (int \<times> 'v) option) option"

partial_function (option) yylex_all ::
  "scan_tables \<Rightarrow> 'v rules \<Rightarrow> 'v \<Rightarrow> scan_state \<Rightarrow> ('v, scan_state) lexed list option" where
  "yylex_all T rule none st =
     (case yy_scan T (sc_start st) (sc_pos st) (begin_pass st) of
        None \<Rightarrow> None
      | Some No_match \<Rightarrow> Some [Lex_bad]
      | Some (At_eof st) \<Rightarrow> Some [Lexed 0 none st]
      | Some (Matched act cp st) \<Rightarrow>
          (case rule act (before_action cp st) of
             None \<Rightarrow> Some [Lex_bad]
           | Some (st, None) \<Rightarrow> yylex_all T rule none st
           | Some (st, Some (t, v)) \<Rightarrow> Option.bind (yylex_all T rule none st) (\<lambda>ts. Some (Lexed t v st # ts))))"

section \<open>Rules\<close>

text \<open>
  What the actions of the scanners of the policies do: nothing, give a character back, print the text, change the start
  condition, deliver a token, or deliver a quoted string without its closing quote and go back to
  the initial condition. \<open>No_action\<close> is the fatal error of the driver.
\<close>

datatype effect = Skip | Trail | Print | Start nat | Token int | Quoted int | No_action

text \<open>The undoing of YY_DO_BEFORE_ACTION, and a rule with a trailing context of one character.\<close>

definition undo_action :: "scan_state \<Rightarrow> scan_state" where
  "undo_action st = st\<lparr>sc_buf := (sc_buf st)[sc_pos st := sc_hold st]\<rparr>"

definition give_back :: "scan_state \<Rightarrow> scan_state" where
  "give_back st = before_action (sc_pos st - 1) (undo_action st)"

definition do_effect :: "(text_ptr \<Rightarrow> 'v) \<Rightarrow> 'v \<Rightarrow> (nat \<Rightarrow> effect) \<Rightarrow> 'v rules" where
  "do_effect str none eff act st =
     (case eff act of
        Skip \<Rightarrow> Some (st, None)
      | Trail \<Rightarrow> Some (give_back st, None)
      | Print \<Rightarrow> Some (ECHO st, None)
      | Start c \<Rightarrow> Some (BEGIN c st, None)
      | Token t \<Rightarrow> Some (st, Some (t, none))
      | Quoted t \<Rightarrow> map_option (\<lambda>st. (BEGIN 0 st, Some (t, str (yytext st)))) (drop_quote st)
      | No_action \<Rightarrow> None)"

end
