(* ===== verification/FlexBuffer.thy ===== *)
theory FlexBuffer
  imports Flex
begin

text \<open>
  The scanners on plain files, without their tables: the lexer on lists of characters, the streams
  that deliver its tokens, and how a text and the strings of its tokens lie in the buffer.
\<close>

section \<open>A match on a list\<close>

text \<open>
  The loops on the characters that are left, with the number of matched ones: the last accepting
  state is kept with the length up to it.
\<close>

lemma of_char_NUL [simp]: "(of_char NUL :: nat) = 0"
  by (simp add: NUL_def of_char_def)

lemma of_char_nonzero: "c \<noteq> NUL \<Longrightarrow> (of_char c :: nat) \<noteq> 0"
  using char_of_char [of c] by (metis of_char_NUL char_of_char)

lemma drop_ConsD: "drop n xs = c # r \<Longrightarrow> n < length xs \<and> xs ! n = c \<and> drop (Suc n) xs = r"
  by (metis drop_eq_Nil drop_Suc drop_tl list.discI list.sel(3) nth_via_drop not_le_imp_less)

datatype munched = Jam nat nat "(nat \<times> nat) option" | Ends nat nat "(nat \<times> nat) option"

definition plain :: "cstring \<Rightarrow> bool" where
  "plain s \<longleftrightarrow> list_all (\<lambda>c. c \<noteq> NUL \<and> (of_char c :: nat) < 128) s"

lemma plain_simps [simp]:
  "plain []" "plain (c # s) \<longleftrightarrow> c \<noteq> NUL \<and> (of_char c :: nat) < 128 \<and> plain s"
  "plain (s @ t) \<longleftrightarrow> plain s \<and> plain t"
  by (auto simp: plain_def)

lemma plain_drop: "plain s \<Longrightarrow> plain (drop n s)" and plain_take: "plain s \<Longrightarrow> plain (take n s)"
  by (auto simp: plain_def list_all_iff dest: in_set_dropD in_set_takeD)

fun munch :: "scan_tables \<Rightarrow> nat \<Rightarrow> cstring \<Rightarrow> nat \<Rightarrow> (nat \<times> nat) option \<Rightarrow> munched" where
  "munch T s [] k l = Ends s k l"
| "munch T s (c # cs) k l =
     (let t = row_entry (st_nxt T ! s) (of_char c)
      in if t > 0 then munch T (nat t) cs (Suc k) (if accepting T (nat t) \<noteq> 0 then Some (nat t, Suc k) else l)
         else Jam (nat (- t)) k l)"

definition pick :: "scan_tables \<Rightarrow> nat \<Rightarrow> nat \<Rightarrow> (nat \<times> nat) option \<Rightarrow> (nat \<times> nat) option" where
  "pick T s k l =
     (if accepting T s \<noteq> 0 then Some (accepting T s, k)
      else (case l of None \<Rightarrow> None | Some (s, k) \<Rightarrow> if accepting T s \<noteq> 0 then Some (accepting T s, k) else None))"

text \<open>The action and the length of the longest match, and whether the text ended in it.\<close>

definition longest :: "scan_tables \<Rightarrow> nat \<Rightarrow> cstring \<Rightarrow> (nat \<times> nat \<times> bool) option" where
  "longest T s cs =
     (case munch T s cs 0 None of
        Jam s k l \<Rightarrow> map_option (\<lambda>(a, m). (a, m, False)) (pick T s k l)
      | Ends s k l \<Rightarrow> map_option (\<lambda>(a, m). (a, m, True)) (pick T s k l))"

text \<open>
  The tokens of a text: number, string, and whether the buffer was moved since the token before.
\<close>

datatype item = Item int "cstring option" bool

function lex_list :: "scan_tables \<Rightarrow> (nat \<Rightarrow> effect) \<Rightarrow> nat \<Rightarrow> bool \<Rightarrow> cstring \<Rightarrow> item list option" where
  "lex_list T eff s e cs =
     (if cs = [] then Some []
      else (case longest T s cs of
        None \<Rightarrow> None
      | Some (act, m, e') \<Rightarrow>
          if m = 0 then None
          else (case eff act of
             Skip \<Rightarrow> lex_list T eff s (e \<or> e') (drop m cs)
           | Trail \<Rightarrow> if m = 1 then None else lex_list T eff s (e \<or> e') (drop (m - 1) cs)
           | Print \<Rightarrow> lex_list T eff s (e \<or> e') (drop m cs)
           | Start c \<Rightarrow> lex_list T eff (1 + 2 * c) (e \<or> e') (drop m cs)
           | Token t \<Rightarrow> map_option ((#) (Item t None (e \<or> e'))) (lex_list T eff s False (drop m cs))
           | Quoted t \<Rightarrow>
               map_option ((#) (Item t (Some (butlast (take m cs))) (e \<or> e'))) (lex_list T eff 1 False (drop m cs))
           | No_action \<Rightarrow> None)))"
  by pat_completeness auto
termination
  by (relation "measure (\<lambda>(T, eff, s, e, cs). length cs)") (auto simp: less_diff_conv2 neq_Nil_conv)

declare lex_list.simps [simp del]

text \<open>
  A stream that delivers the items: strings can be read in the state after their token, and later
  ones until the buffer is moved.
\<close>

definition holds :: "scan_state \<Rightarrow> (text_ptr \<times> cstring) list \<Rightarrow> bool" where
  "holds st live \<longleftrightarrow> list_all (\<lambda>(p, x). read_text st p = Some x) live"

definition after_move :: "bool \<Rightarrow> (text_ptr \<times> cstring) list \<Rightarrow> (text_ptr \<times> cstring) list" where
  "after_move e live = (if e then [] else live)"

inductive delivers ::
  "(text_ptr \<Rightarrow> 'v) \<Rightarrow> 'v \<Rightarrow> (text_ptr \<times> cstring) list \<Rightarrow> item list \<Rightarrow> ('v, scan_state) lexed list \<Rightarrow> bool"
  for str :: "text_ptr \<Rightarrow> 'v" and none :: 'v where
  end_of_file: "delivers str none live [] [Lexed 0 none st]"
| token: "live' = after_move e live \<Longrightarrow> holds st live' \<Longrightarrow> delivers str none live' its ys \<Longrightarrow>
    delivers str none live (Item t None e # its) (Lexed t none st # ys)"
| quoted: "live' = (p, x) # after_move e live \<Longrightarrow> holds st live' \<Longrightarrow> delivers str none live' its ys \<Longrightarrow>
    delivers str none live (Item t (Some x) e # its) (Lexed t (str p) st # ys)"

section \<open>The buffer\<close>

text \<open>The places of the last accepting state, for a token that begins at \<open>b\<close>.\<close>

definition last_at :: "nat \<Rightarrow> (nat \<times> nat) option \<Rightarrow> (nat \<times> nat) option" where
  "last_at b l = map_option (\<lambda>(s, k). (s, b + k - 1)) l"

lemma last_at_simps [simp]: "last_at b None = None" "last_at b (Some (s, k)) = Some (s, b + k - 1)"
  by (simp_all add: last_at_def)

text \<open>A scanner that begins a token or is between two of them, with the text that is left.\<close>

definition loaded :: "cstring \<Rightarrow> scan_state \<Rightarrow> bool" where
  "loaded cs st \<longleftrightarrow>
     (\<exists>junk. drop (sc_text st) (sc_buf st) = cs @ NUL # NUL # junk) \<and> sc_n st = sc_text st + length cs \<and>
     sc_n st \<le> YY_READ_BUF_SIZE \<and> sc_size st = YY_BUF_SIZE \<and> sc_file st = []"

definition ready :: "cstring \<Rightarrow> scan_state \<Rightarrow> bool" where
  "ready cs st \<longleftrightarrow> loaded cs (begin_pass st)"

lemma drop_update: "n \<le> i \<Longrightarrow> drop n (xs[i := x]) = (drop n xs)[i - n := x]"
  by (simp add: drop_update_swap)

lemma room_enough: "k \<le> YY_READ_BUF_SIZE \<Longrightarrow> room_for k YY_BUF_SIZE = YY_BUF_SIZE"
  by (subst room_for.simps) (simp add: YY_READ_BUF_SIZE_def YY_BUF_SIZE_def)

text \<open>A token that lies whole before the place of the next one.\<close>

definition whole :: "cstring \<Rightarrow> scan_state \<Rightarrow> bool" where
  "whole w st \<longleftrightarrow> sc_pos st = sc_text st + length w \<and> take (Suc (length w)) (drop (sc_text st) (sc_buf st)) = w @ [NUL]"

lemma take_drop_cong: "take n xs = take n ys \<Longrightarrow> a + k \<le> n \<Longrightarrow> take k (drop a xs) = take k (drop a ys)"
  by (metis take_drop add.commute min.absorb1 take_take)

text \<open>A string in the buffer that ends before the place \<open>n\<close>.\<close>

definition held :: "nat \<Rightarrow> scan_state \<Rightarrow> text_ptr \<Rightarrow> cstring \<Rightarrow> bool" where
  "held n st p x \<longleftrightarrow>
     fst p = sc_gen st \<and> snd p + length x < n \<and> NUL \<notin> set x \<and>
     take (Suc (length x)) (drop (snd p) (sc_buf st)) = x @ [NUL]"

lemma read_prefix:
  assumes "take (Suc (length x)) d = x @ [NUL]" "NUL \<notin> set x"
  shows "NUL \<in> set d" "takeWhile (\<lambda>c. c \<noteq> NUL) d = x"
proof -
  have d: "d = x @ NUL # drop (Suc (length x)) d"
    using append_take_drop_id [of "Suc (length x)" d] assms(1) by simp
  show "NUL \<in> set d" by (subst d) simp
  show "takeWhile (\<lambda>c. c \<noteq> NUL) d = x" using assms(2) by (subst d) (auto simp: takeWhile_tail)
qed

lemma held_read: "held n st p x \<Longrightarrow> read_text st p = Some x"
  using read_prefix [of x "drop (snd p) (sc_buf st)"] by (simp add: held_def read_text_def Let_def)

lemma whole_read: "whole w st \<Longrightarrow> plain w \<Longrightarrow> read_text st (yytext st) = Some w"
  using read_prefix [of w "drop (sc_text st) (sc_buf st)"]
  by (auto simp: whole_def plain_def list_all_iff yytext_def read_text_def Let_def)

lemma held_mono: "held n st p x \<Longrightarrow> n \<le> m \<Longrightarrow> held m st p x"
  by (simp add: held_def)

lemma held_cong:
  assumes "held n st p x" "take n (sc_buf st') = take n (sc_buf st)" "sc_gen st' = sc_gen st"
  shows "held n st' p x"
  using assms take_drop_cong [OF assms(2), of "snd p" "Suc (length x)"] by (simp add: held_def)

lemma before_action_token:
  assumes "drop (sc_text st) (sc_buf st) = cs @ NUL # NUL # junk" "m \<le> length cs" "sc_n st = sc_text st + length cs"
    "sc_n st \<le> YY_READ_BUF_SIZE" "sc_size st = YY_BUF_SIZE" "sc_file st = []"
  shows "ready (drop m cs) (before_action (sc_text st + m) st)" "whole (take m cs) (before_action (sc_text st + m) st)"
    "loaded cs (undo_action (before_action (sc_text st + m) st))"
proof -
  let ?b = "sc_text st"
  have len: "?b + m < length (sc_buf st)"
    using arg_cong [OF assms(1), of length] assms(2) by simp
  have d: "drop (?b + m) (sc_buf st) = drop m cs @ NUL # NUL # junk"
    using arg_cong [OF assms(1), of "drop m"] assms(2) by (simp add: add.commute)
  show "ready (drop m cs) (before_action (?b + m) st)"
    using assms(2-) d len by (auto simp: ready_def loaded_def begin_pass_def before_action_def)
  show "loaded cs (undo_action (before_action (?b + m) st))"
    using assms len by (auto simp: loaded_def undo_action_def before_action_def)
  have "take (Suc m) (drop ?b ((sc_buf st)[?b + m := NUL])) = take m cs @ [NUL]"
    using assms(1,2) by (simp add: drop_update take_Suc_conv_app_nth nth_append)
  then show "whole (take m cs) (before_action (?b + m) st)"
    using assms(2) by (simp add: whole_def before_action_def)
qed

text \<open>What the actions keep.\<close>

lemma ready_simps [simp]:
  "ready cs (BEGIN c st) = ready cs st" "ready cs (ECHO st) = ready cs st"
  by (simp_all add: ready_def loaded_def begin_pass_def BEGIN_def ECHO_def)

lemma held_simps [simp]:
  "held n (BEGIN c st) = held n st" "held n (ECHO st) = held n st"
  by (simp_all add: held_def BEGIN_def ECHO_def fun_eq_iff)

lemma drop_quote_ok:
  assumes "whole w st" "plain w" "w \<noteq> []"
  shows "\<exists>st'. drop_quote st = Some st' \<and> (\<forall>cs. ready cs st \<longrightarrow> ready cs st') \<and> held (sc_pos st') st' (yytext st') (butlast w) \<and>
    yytext st' = yytext st \<and> (\<forall>p x. held (sc_text st) st p x \<longrightarrow> held (sc_pos st') st' p x)"
proof -
  let ?i = "sc_text st + length w - 1"
  let ?st = "st\<lparr>sc_buf := (sc_buf st)[?i := NUL]\<rparr>"
  obtain v c where w: "w = v @ [c]" using assms(3) by (cases w rule: rev_exhaust) auto
  have dq: "drop_quote st = Some ?st"
    using whole_read [OF assms(1,2)] assms(3) by (simp add: drop_quote_def)
  have pos: "sc_pos st = Suc ?i" "?i = sc_text st + length v" using assms(1,3) w by (auto simp: whole_def)
  have r: "ready cs st \<Longrightarrow> ready cs ?st" for cs
    using pos(1) by (auto simp: ready_def loaded_def begin_pass_def drop_update list_update_swap [of "sc_pos st" ?i])
  have tk: "take (Suc (Suc (length v))) (drop (sc_text st) (sc_buf st)) = v @ [c, NUL]"
    using assms(1) w by (simp add: whole_def)
  have len: "length v < length (drop (sc_text st) (sc_buf st))"
    using arg_cong [OF tk, of length] by (auto simp: min_def split: if_splits)
  have "take (length v) (drop (sc_text st) (sc_buf st)) = v"
    using arg_cong [OF tk, of "take (length v)"] by simp
  then have "take (Suc (length v)) ((drop (sc_text st) (sc_buf st))[length v := NUL]) = v @ [NUL]"
    using len by (simp add: take_Suc_conv_app_nth)
  then have h: "held (sc_pos ?st) ?st (yytext ?st) (butlast w)"
    using assms(2) w pos by (auto simp: held_def yytext_def drop_update plain_def list_all_iff)
  have "held (sc_pos st) ?st p x" if "held (sc_text st) st p x" for p x
    using held_cong [OF that, of ?st] held_mono [of "sc_text st" ?st p x "sc_pos st"] pos by simp
  then show ?thesis using dq r h by (auto simp: yytext_def)
qed

lemma give_back_ok:
  assumes "loaded cs (undo_action st)" "whole (take m cs) st" "m - 1 \<le> length cs" "0 < m" "m \<le> length cs"
  shows "ready (drop (m - 1) cs) (give_back st) \<and> sc_start (give_back st) = sc_start st \<and>
    (\<forall>p x. held (sc_text st) st p x \<longrightarrow> held (sc_pos (give_back st)) (give_back st) p x)"
proof -
  let ?u = "undo_action st"
  have pos: "sc_pos st - 1 = sc_text ?u + (m - 1)" "sc_text ?u = sc_text st" "sc_text st \<le> sc_pos st - 1"
    using assms(2,4,5) by (auto simp: whole_def undo_action_def)
  obtain junk where u: "drop (sc_text ?u) (sc_buf ?u) = cs @ NUL # NUL # junk" "sc_n ?u = sc_text ?u + length cs"
      "sc_n ?u \<le> YY_READ_BUF_SIZE" "sc_size ?u = YY_BUF_SIZE" "sc_file ?u = []"
    using assms(1) by (auto simp: loaded_def)
  have "held (sc_pos (give_back st)) (give_back st) p x" if "held (sc_text st) st p x" for p x
    using held_cong [OF that, of "give_back st"] held_mono [of "sc_text st" "give_back st" p x "sc_pos st - 1"] pos(3)
    by (simp add: give_back_def before_action_def undo_action_def)
  then show ?thesis
    using before_action_token(1) [OF u(1) assms(3) u(2-5)] pos(1)
    by (simp add: give_back_def before_action_def undo_action_def)
qed

lemma held_holds: "list_all (\<lambda>(p, x). held (sc_pos st) st p x) live \<Longrightarrow> holds st live"
  by (auto simp: holds_def list_all_iff dest: held_read)

lemma places [simp]:
  "sc_pos (BEGIN c st) = sc_pos st" "sc_pos (ECHO st) = sc_pos st" "sc_start (BEGIN c st) = 1 + 2 * c"
  "sc_start (ECHO st) = sc_start st" "yytext (BEGIN c st) = yytext st"
  by (simp_all add: BEGIN_def ECHO_def yytext_def)

lemma begin_pass_simps [simp]:
  "sc_start (begin_pass st) = sc_start st" "sc_text (begin_pass st) = sc_pos st"
  "held (sc_pos st) (begin_pass st) = held (sc_pos st) st"
  using take_drop_cong [of "sc_pos st" "sc_buf st" "sc_buf (begin_pass st)"]
  by (auto simp: begin_pass_def held_def fun_eq_iff)

text \<open>Tokens of a text in two parts.\<close>

lemma munch_append:
  "munch T s (xs @ ys) k l = (case munch T s xs k l of Jam s' n l' \<Rightarrow> Jam s' n l' | Ends s' n l' \<Rightarrow> munch T s' ys n l')"
  by (induction xs arbitrary: s k l) (auto simp: Let_def)

lemma lex_step:
  assumes "longest T s (w @ r) = Some (a, length w, e')" "w \<noteq> []"
  shows "lex_list T eff s e (w @ r) =
    (case eff a of
       Skip \<Rightarrow> lex_list T eff s (e \<or> e') r
     | Trail \<Rightarrow> if length w = 1 then None else lex_list T eff s (e \<or> e') (drop (length w - 1) (w @ r))
     | Print \<Rightarrow> lex_list T eff s (e \<or> e') r
     | Start c \<Rightarrow> lex_list T eff (1 + 2 * c) (e \<or> e') r
     | Token t \<Rightarrow> map_option ((#) (Item t None (e \<or> e'))) (lex_list T eff s False r)
     | Quoted t \<Rightarrow> map_option ((#) (Item t (Some (butlast w)) (e \<or> e'))) (lex_list T eff 1 False r)
     | No_action \<Rightarrow> None)"
  using assms by (subst lex_list.simps) (simp add: drop_Cons' split: effect.split)

lemma lex_Nil [simp]: "lex_list T eff s e [] = Some []"
  by (simp add: lex_list.simps)

definition unquoted :: "char \<Rightarrow> cstring \<Rightarrow> bool" where
  "unquoted q w \<longleftrightarrow> plain w \<and> q \<notin> set w"

lemma unquoted_codes: "unquoted q w \<Longrightarrow> list_all (\<lambda>x. (of_char x :: nat) \<noteq> of_char q) w"
  by (auto simp: unquoted_def list_all_iff)

end
