(* ===== verification/FlexSpec.thy ===== *)
theory FlexSpec
  imports FlexBuffer
begin

text \<open>
  The scanners on plain files: a file that is read in one piece and holds 7-bit characters other
  than zero. A locale has what the tables of the skeleton promise; in it the scan of the buffer is
  shown to deliver what the lexer on the list of characters delivers.
\<close>

section \<open>Tables\<close>

text \<open>
  Entries are states or jams in the state of their row; zeros lead to the state for the end of the
  buffer, in which everything jams; from a start state every character leads to an accepting state.
\<close>

definition other_entries :: "yyrow \<Rightarrow> int list" where
  "other_entries r = map snd (filter (\<lambda>e. fst e \<noteq> 0) (snd r))"

lemma other_entriesI: "map_of (snd r) c = Some n \<Longrightarrow> c \<noteq> 0 \<Longrightarrow> n \<in> set (fst r # other_entries r)"
  by (auto simp: other_entries_def image_iff intro!: bexI [of _ "(c, n)"] dest: map_of_SomeD)

definition row_fits :: "nat \<Rightarrow> nat \<Rightarrow> nat \<Rightarrow> nat \<Rightarrow> yyrow \<Rightarrow> nat \<Rightarrow> bool" where
  "row_fits eob len eobs s r a \<longleftrightarrow>
     (s \<noteq> eobs \<longrightarrow> map_of (snd r) 0 = Some (int eobs) \<and> a \<noteq> eob) \<and>
     list_all (\<lambda>n. n = - int s \<or> 0 < n \<and> nat n < len \<and> nat n \<noteq> eobs) (fst r # other_entries r)"

definition row_ok :: "scan_tables \<Rightarrow> nat \<Rightarrow> nat \<Rightarrow> nat \<Rightarrow> bool" where
  "row_ok T len eobs s \<longleftrightarrow> row_fits (st_eob T) len eobs s (st_nxt T ! s) (accepting T s)"

text \<open>The check of all rows in one pass.\<close>

fun rows_ok :: "nat \<Rightarrow> nat \<Rightarrow> nat \<Rightarrow> nat \<Rightarrow> yyrow list \<Rightarrow> nat list \<Rightarrow> bool" where
  "rows_ok eob len eobs s (r # rs) (a # as) \<longleftrightarrow> row_fits eob len eobs s r a \<and> rows_ok eob len eobs (Suc s) rs as"
| "rows_ok eob len eobs s [] [] \<longleftrightarrow> s = len"
| "rows_ok eob len eobs s _ _ \<longleftrightarrow> False"

lemma rows_ok_nth:
  "rows_ok eob len eobs s rs as \<Longrightarrow> i < length rs \<Longrightarrow> row_fits eob len eobs (s + i) (rs ! i) (as ! i) \<and> i < length as"
proof (induction eob len eobs s rs as arbitrary: i rule: rows_ok.induct)
  case (1 eob len eobs s r rs a as)
  then show ?case by (cases i) auto
qed auto

lemma rows_ok_length: "rows_ok eob len eobs s rs as \<Longrightarrow> len = s + length rs"
  by (induction eob len eobs s rs as rule: rows_ok.induct) auto

lemma rows_okD:
  assumes "st_nxt T = r # rs" "st_accept T = a # as" "rows_ok (st_eob T) len eobs 1 rs as" "0 < s" "s < length (st_nxt T)"
  shows "row_ok T (length (st_nxt T)) eobs s"
proof -
  obtain i where s: "s = Suc i" using assms(4) by (cases s) auto
  show ?thesis
    using rows_ok_nth [OF assms(3), of i] rows_ok_length [OF assms(3)] assms(1,2,5)
    by (simp add: row_ok_def accepting_def s)
qed

definition start_ok :: "scan_tables \<Rightarrow> nat \<Rightarrow> (nat \<Rightarrow> effect) \<Rightarrow> nat \<Rightarrow> bool" where
  "start_ok T eobs eff s \<longleftrightarrow>
     0 < s \<and> s < length (st_nxt T) \<and> s \<noteq> eobs \<and>
     (let r = st_nxt T ! s
      in list_all (\<lambda>n. 0 < n \<and> accepting T (nat n) \<noteq> 0 \<and> eff (accepting T (nat n)) \<noteq> Trail) (fst r # other_entries r))"

locale scanner =
  fixes T :: scan_tables and eobs :: nat and eff :: "nat \<Rightarrow> effect" and starts :: "nat set"
  assumes rows: "\<And>s. 0 < s \<Longrightarrow> s < length (st_nxt T) \<Longrightarrow> row_ok T (length (st_nxt T)) eobs s"
    and eob_row: "st_nxt T ! eobs = (- int eobs, [])"
    and eob_state: "0 < eobs" "eobs < length (st_nxt T)" "accepting T eobs = st_eob T" "st_eob T \<noteq> 0"
    and starts: "\<And>s. s \<in> starts \<Longrightarrow> start_ok T eobs eff s" "1 \<in> starts"
    and starts_closed: "\<And>act c. eff act = Start c \<Longrightarrow> 1 + 2 * c \<in> starts"
    and actions: "list_all (\<lambda>a. a = 0 \<or> a = st_eob T \<or> eff a \<noteq> No_action) (st_accept T)"
begin

lemma entry_cases:
  assumes "0 < s" "s < length (st_nxt T)" "c \<noteq> 0"
  shows "row_entry (st_nxt T ! s) c = - int s \<or>
    0 < row_entry (st_nxt T ! s) c \<and> nat (row_entry (st_nxt T ! s) c) < length (st_nxt T) \<and>
    nat (row_entry (st_nxt T ! s) c) \<noteq> eobs"
proof (cases "map_of (snd (st_nxt T ! s)) c")
  case None
  then show ?thesis using rows [OF assms(1,2)] by (simp add: row_ok_def row_fits_def row_entry_def Let_def)
next
  case (Some n)
  have "n \<in> set (fst (st_nxt T ! s) # other_entries (st_nxt T ! s))"
    by (rule other_entriesI [OF Some assms(3)])
  then have "n = - int s \<or> 0 < n \<and> nat n < length (st_nxt T) \<and> nat n \<noteq> eobs"
    using rows [OF assms(1,2)] unfolding row_ok_def row_fits_def Let_def list_all_iff by blast
  then show ?thesis by (simp add: row_entry_def Some)
qed

lemma entry_zero: "0 < s \<Longrightarrow> s < length (st_nxt T) \<Longrightarrow> s \<noteq> eobs \<Longrightarrow> row_entry (st_nxt T ! s) 0 = int eobs"
  using rows [of s] by (simp add: row_ok_def row_fits_def row_entry_def Let_def)

lemma start_entry:
  assumes "s \<in> starts" "c \<noteq> 0"
  shows "0 < row_entry (st_nxt T ! s) c \<and> accepting T (nat (row_entry (st_nxt T ! s) c)) \<noteq> 0 \<and>
    eff (accepting T (nat (row_entry (st_nxt T ! s) c))) \<noteq> Trail"
proof (cases "map_of (snd (st_nxt T ! s)) c")
  case None
  then show ?thesis using starts(1) [OF assms(1)] by (simp add: start_ok_def row_entry_def Let_def)
next
  case (Some n)
  have "n \<in> set (fst (st_nxt T ! s) # other_entries (st_nxt T ! s))"
    by (rule other_entriesI [OF Some assms(2)])
  then have "0 < n \<and> accepting T (nat n) \<noteq> 0 \<and> eff (accepting T (nat n)) \<noteq> Trail"
    using starts(1) [OF assms(1)] unfolding start_ok_def Let_def list_all_iff by blast
  then show ?thesis by (simp add: row_entry_def Some)
qed

lemma nxt_row: "s < length (st_nxt T) \<Longrightarrow> c < 128 \<Longrightarrow> nxt T s c = Some (row_entry (st_nxt T ! s) c)"
  by (simp add: nxt_def Let_def)

lemma match_zero:
  assumes "0 < s" "s < length (st_nxt T)" "s \<noteq> eobs" "drop p buf = NUL # NUL # junk"
  shows "yy_match T buf s p l = Some (eobs, Suc p, Some (eobs, p))"
proof -
  have p: "p < length buf" "Suc p < length buf" "buf ! p = NUL" "buf ! Suc p = NUL"
    using assms(4) by (auto dest!: drop_ConsD)
  have z: "nxt T s 0 = Some (int eobs)" "nxt T eobs 0 = Some (- int eobs)"
    using assms entry_zero eob_state(2) by (auto simp: nxt_row eob_row row_entry_def)
  have "yy_match T buf eobs (Suc p) (Some (eobs, p)) = Some (eobs, Suc p, Some (eobs, p))"
    using p z eob_state by (subst yy_match.simps) simp
  then show ?thesis using p z eob_state by (subst yy_match.simps) simp
qed

lemma match_munch:
  assumes "0 < s" "s < length (st_nxt T)" "s \<noteq> eobs" "plain cs" "drop (b + k) buf = cs @ NUL # NUL # junk"
  shows "yy_match T buf s (b + k) (last_at b l) =
    (case munch T s cs k l of
       Jam s n l \<Rightarrow> Some (s, b + n, last_at b l)
     | Ends s n l \<Rightarrow> Some (eobs, Suc (b + n), Some (eobs, b + n)))"
  using assms
proof (induction cs arbitrary: s k l)
  case Nil
  then show ?case by (simp add: match_zero)
next
  case (Cons c cs)
  let ?t = "row_entry (st_nxt T ! s) (of_char c)"
  have p: "b + k < length buf" "buf ! (b + k) = c" "drop (b + Suc k) buf = cs @ NUL # NUL # junk"
    using drop_ConsD [of "b + k" buf c "cs @ NUL # NUL # junk"] Cons.prems(5) by simp_all
  have c: "nxt T s (of_char c) = Some ?t" and nz: "(of_char c :: nat) \<noteq> 0"
    using Cons.prems by (simp_all add: nxt_row of_char_nonzero)
  have e: "?t = - int s \<or> 0 < ?t \<and> nat ?t < length (st_nxt T) \<and> nat ?t \<noteq> eobs"
    by (rule entry_cases [OF Cons.prems(1,2) nz])
  show ?case
  proof (cases "0 < ?t")
    case True
    then have "yy_match T buf (nat ?t) (b + Suc k) (last_at b (if accepting T (nat ?t) \<noteq> 0 then Some (nat ?t, Suc k) else l)) =
      (case munch T (nat ?t) cs (Suc k) (if accepting T (nat ?t) \<noteq> 0 then Some (nat ?t, Suc k) else l) of
         Jam s n l \<Rightarrow> Some (s, b + n, last_at b l)
       | Ends s n l \<Rightarrow> Some (eobs, Suc (b + n), Some (eobs, b + n)))"
      using Cons.prems p e by (intro Cons.IH) auto
    then show ?thesis using True p(1,2) c
      by (subst yy_match.simps) (auto simp: Let_def cong: if_cong split: if_splits)
  next
    case False
    then show ?thesis using p(1,2) c by (subst yy_match.simps) (simp add: Let_def)
  qed
qed

definition valid :: "nat \<Rightarrow> bool" where
  "valid s \<longleftrightarrow> 0 < s \<and> s < length (st_nxt T) \<and> s \<noteq> eobs"

definition last_ok :: "nat \<Rightarrow> (nat \<times> nat) option \<Rightarrow> bool" where
  "last_ok n l \<longleftrightarrow> (case l of None \<Rightarrow> True | Some (s, k) \<Rightarrow> valid s \<and> accepting T s \<noteq> 0 \<and> 0 < k \<and> k \<le> n \<and> (k = 1 \<longrightarrow> eff (accepting T s) \<noteq> Trail))"

lemma last_ok_simps [simp]: "last_ok n None" "last_ok n (Some (s, k)) \<longleftrightarrow>
     valid s \<and> accepting T s \<noteq> 0 \<and> 0 < k \<and> k \<le> n \<and> (k = 1 \<longrightarrow> eff (accepting T s) \<noteq> Trail)"
  by (simp_all add: last_ok_def)

lemma last_ok_mono: "last_ok n l \<Longrightarrow> n \<le> m \<Longrightarrow> last_ok m l"
  by (auto simp: last_ok_def split: option.splits)

lemma valid_start: "s \<in> starts \<Longrightarrow> valid s"
  using starts(1) by (simp add: valid_def start_ok_def Let_def)

lemma munch_ok:
  assumes "valid s" "plain cs" "last_ok k l" "k = 0 \<longrightarrow> s \<in> starts"
  shows "case munch T s cs k l of
      Jam s' n l' \<Rightarrow> valid s' \<and> k \<le> n \<and> (n = k \<longrightarrow> s' = s) \<and> n \<le> k + length cs \<and> last_ok n l' \<and> (l \<noteq> None \<longrightarrow> l' \<noteq> None)
    | Ends s' n l' \<Rightarrow> valid s' \<and> (n = k \<longrightarrow> s' = s) \<and> n = k + length cs \<and> last_ok n l' \<and> (l \<noteq> None \<longrightarrow> l' \<noteq> None)"
  using assms
proof (induction cs arbitrary: s k l)
  case (Cons c cs)
  let ?t = "row_entry (st_nxt T ! s) (of_char c)"
  have e: "?t = - int s \<or> 0 < ?t \<and> valid (nat ?t)"
    using Cons.prems entry_cases [of s "of_char c"] by (auto simp: valid_def of_char_nonzero)
  show ?case
  proof (cases "0 < ?t")
    case True
    then have v: "valid (nat ?t)" using e by auto
    define l2 where "l2 = (if accepting T (nat ?t) \<noteq> 0 then Some (nat ?t, Suc k) else l)"
    have l2: "last_ok (Suc k) l2" "l \<noteq> None \<longrightarrow> l2 \<noteq> None"
      using Cons.prems v last_ok_mono [of k l "Suc k"] start_entry [of s "of_char c"]
      by (auto simp: l2_def of_char_nonzero)
    have m: "munch T s (c # cs) k l = munch T (nat ?t) cs (Suc k) l2" using True by (simp add: l2_def Let_def)
    have "plain cs" "Suc k = 0 \<longrightarrow> nat ?t \<in> starts" using Cons.prems(2) by simp_all
    from Cons.IH [OF v this(1) l2(1) this(2)] l2(2) show ?thesis
      unfolding m by (cases "munch T (nat ?t) cs (Suc k) l2") simp_all
  next
    case False
    then show ?thesis using Cons.prems e by (auto simp: Let_def)
  qed
qed simp

lemma munch_start:
  assumes "s \<in> starts" "c \<noteq> NUL"
  shows "munch T s (c # cs) 0 l = munch T s (c # cs) 0 None"
  using start_entry [OF assms(1) of_char_nonzero [OF assms(2)]] by (simp add: Let_def)

lemma previous_munch:
  assumes "munch T s cs k l = Ends s' n l'" "valid s" "plain cs"
  shows "yy_get_previous_state T cs s (b + k) (last_at b l) = Some (s', last_at b l')"
  using assms
proof (induction cs arbitrary: s k l)
  case (Cons c cs)
  let ?t = "row_entry (st_nxt T ! s) (of_char c)"
  let ?l = "if accepting T (nat ?t) \<noteq> 0 then Some (nat ?t, Suc k) else l"
  have pos: "0 < ?t" and m: "munch T (nat ?t) cs (Suc k) ?l = Ends s' n l'"
    using Cons.prems(1) by (auto simp: Let_def split: if_splits)
  have c: "c \<noteq> NUL" "nxt T s (of_char c) = Some ?t" "valid (nat ?t)"
    using Cons.prems entry_cases [of s "of_char c"] pos by (auto simp: valid_def of_char_nonzero nxt_row)
  have "yy_get_previous_state T cs (nat ?t) (b + Suc k) (last_at b ?l) = Some (s', last_at b l')"
    using Cons.prems by (intro Cons.IH m c) simp
  then show ?case using c pos by (simp cong: if_cong split: if_splits)
qed simp

lemma find_pick:
  assumes "last_ok n l"
  shows "yy_find_action T s (b + k) (last_at b l) = map_option (\<lambda>(a, m). (a, b + m)) (pick T s k l)"
  using assms by (auto simp: yy_find_action_def pick_def split: option.splits)

lemma pick_ok:
  assumes "pick T s k l = Some (a, m)" "valid s" "last_ok k l"
  shows "a \<noteq> st_eob T \<and> m \<le> k"
  using assms rows by (fastforce simp: pick_def valid_def row_ok_def row_fits_def Let_def split: if_splits option.splits)

lemma match_start:
  assumes "s \<in> starts" "p < length buf" "buf ! p \<noteq> NUL" "(of_char (buf ! p) :: nat) < 128"
  shows "yy_match T buf s p l = yy_match T buf s p None"
  using start_entry [OF assms(1) of_char_nonzero [OF assms(3)]] valid_start [OF assms(1)] assms(2,4)
  by (subst (1 2) yy_match.simps) (simp add: valid_def nxt_row)

lemma previous_start:
  assumes "s \<in> starts" "plain cs" "cs \<noteq> []"
  shows "yy_get_previous_state T cs s p l = yy_get_previous_state T cs s p None"
proof -
  obtain c r where cs: "cs = c # r" "c \<noteq> NUL" "(of_char c :: nat) < 128" using assms(2,3) by (cases cs) auto
  then show ?thesis
    using start_entry [OF assms(1) of_char_nonzero] valid_start [OF assms(1)] by (simp add: valid_def nxt_row)
qed

lemma loaded_match:
  assumes "loaded cs st" "plain cs" "sc_start st \<in> starts" "cs \<noteq> []"
  shows "yy_match T (sc_buf st) (sc_start st) (sc_text st) l =
    (case munch T (sc_start st) cs 0 None of
       Jam s n l \<Rightarrow> Some (s, sc_text st + n, last_at (sc_text st) l)
     | Ends s n l \<Rightarrow> Some (eobs, Suc (sc_text st + n), Some (eobs, sc_text st + n)))"
proof -
  obtain junk where j: "drop (sc_text st) (sc_buf st) = cs @ NUL # NUL # junk"
    using assms(1) by (auto simp: loaded_def)
  obtain c r where cs: "cs = c # r" "c \<noteq> NUL" "(of_char c :: nat) < 128" using assms(2,4) by (cases cs) auto
  have "yy_match T (sc_buf st) (sc_start st) (sc_text st) l =
      yy_match T (sc_buf st) (sc_start st) (sc_text st) None"
    using drop_ConsD [of "sc_text st" "sc_buf st" c "r @ NUL # NUL # junk"] cs j
    by (intro match_start assms(3)) simp_all
  then show ?thesis
    using match_munch [of "sc_start st" cs "sc_text st" 0 "sc_buf st" junk None]
      valid_start [OF assms(3)] assms(2) j by (simp add: valid_def)
qed

lemma loaded_Nil_match:
  assumes "loaded [] st" "sc_start st \<in> starts"
  shows "yy_match T (sc_buf st) (sc_start st) (sc_text st) l =
    Some (eobs, Suc (sc_text st), Some (eobs, sc_text st))"
  using assms(1) valid_start [OF assms(2)] by (auto simp: loaded_def valid_def match_zero)

lemma scan_jam:
  assumes "loaded cs st" "plain cs" "cs \<noteq> []" "sc_start st \<in> starts"
    "longest T (sc_start st) cs = Some (a, m, False)"
  shows "\<exists>l. yy_scan T (sc_start st) (sc_text st) st =
    Some (Matched a (sc_text st + m) (st\<lparr>sc_last := l\<rparr>))"
proof -
  from assms(5) obtain s k l where m: "munch T (sc_start st) cs 0 None = Jam s k l" and p: "pick T s k l = Some (a, m)"
    by (auto simp: longest_def split: munched.splits)
  have ok: "valid s" "last_ok k l" using munch_ok [OF valid_start [OF assms(4)] assms(2), of 0 None] assms(4) m by simp_all
  show ?thesis
    using loaded_match [OF assms(1,2,4,3)] m p pick_ok [OF p ok] find_pick [OF ok(2), of s "sc_text st" k]
    by (subst yy_scan.simps) auto
qed

lemma scan_ends:
  assumes "loaded cs st" "plain cs" "cs \<noteq> []" "sc_start st \<in> starts"
    "longest T (sc_start st) cs = Some (a, m, True)"
  shows "\<exists>st'. yy_scan T (sc_start st) (sc_text st) st = Some (Matched a m st') \<and>
    sc_text st' = 0 \<and> (\<exists>junk. sc_buf st' = cs @ NUL # NUL # junk) \<and> sc_n st' = length cs \<and>
    sc_size st' = YY_BUF_SIZE \<and> sc_file st' = [] \<and> sc_gen st' = sc_gen st \<and> sc_start st' = sc_start st \<and>
    sc_out st' = sc_out st"
proof -
  from assms(5) obtain s k l where m: "munch T (sc_start st) cs 0 None = Ends s k l" and p: "pick T s k l = Some (a, m)"
    by (auto simp: longest_def split: munched.splits)
  have ok: "valid s" "last_ok k l" "k = length cs"
    using munch_ok [OF valid_start [OF assms(4)] assms(2), of 0 None] assms(4) m by auto
  let ?b = "sc_text st"
  let ?st = "st\<lparr>sc_last := Some (eobs, ?b + k)\<rparr>"
  obtain junk where j: "drop ?b (sc_buf st) = cs @ NUL # NUL # junk"
    using assms(1) by (auto simp: loaded_def)
  have n: "sc_n ?st = ?b + k" "sc_text ?st = ?b" "sc_size ?st = YY_BUF_SIZE" "sc_file ?st = []" "k \<le> YY_READ_BUF_SIZE"
    using assms(1) ok(3) by (simp_all add: loaded_def)
  obtain st' where g: "yy_get_next_buffer (Suc (?b + k)) ?st = Some (Last_match st')"
    and st': "sc_text st' = 0" "sc_buf st' = cs @ NUL # NUL # drop (k + 2) (sc_buf st)" "sc_n st' = k"
      "sc_size st' = YY_BUF_SIZE" "sc_file st' = []" "sc_gen st' = sc_gen st" "sc_start st' = sc_start st"
      "sc_out st' = sc_out st"
    using n j ok(3) assms(3) room_enough [OF n(5)]
    by (simp add: yy_get_next_buffer_def Let_def overwrite_front_def )
  have q: "yy_get_previous_state T cs (sc_start st) 0 (sc_last st') = Some (s, last_at 0 l)"
    using previous_munch [OF m valid_start [OF assms(4)] assms(2), of 0] previous_start [OF assms(4,2,3), of 0 "sc_last st'"]
    by simp
  have f: "yy_find_action T eobs (Suc (?b + k)) (Some (eobs, ?b + k)) = Some (st_eob T, Suc (?b + k))"
    using eob_state by (simp add: yy_find_action_def)
  have f2: "yy_find_action T s k (last_at 0 l) = Some (a, m)"
    using find_pick [OF ok(2), of s 0 k] p by simp
  show ?thesis
    using loaded_match [OF assms(1,2,4,3)] m f g n(1,2) st' q f2 ok(3)
    by (subst yy_scan.simps) (simp add: again_def settle_def)
qed

lemma scan_eof:
  assumes "loaded [] st" "sc_start st \<in> starts"
  shows "\<exists>st'. yy_scan T (sc_start st) (sc_text st) st = Some (At_eof st')"
  using loaded_Nil_match [OF assms] assms(1) eob_state room_enough [of 0]
  by (subst yy_scan.simps)
    (simp add: yy_find_action_def yy_get_next_buffer_def loaded_def Let_def YY_READ_BUF_SIZE_def)

lemma action_ok:
  assumes "valid s" "accepting T s \<noteq> 0"
  shows "accepting T s \<noteq> st_eob T \<and> eff (accepting T s) \<noteq> No_action"
proof -
  have ne: "accepting T s \<noteq> st_eob T" using assms(1) rows [of s] by (simp add: valid_def row_ok_def row_fits_def Let_def)
  have "accepting T s \<in> set (st_accept T)" using assms(2) by (auto simp: accepting_def split: if_splits)
  then show ?thesis using ne assms(2) actions by (auto simp: list_all_iff)
qed

lemma longest_start:
  assumes "s \<in> starts" "plain cs" "cs \<noteq> []"
  shows "\<exists>a m e. longest T s cs = Some (a, m, e) \<and> 0 < m \<and> eff a \<noteq> No_action \<and> (m = 1 \<longrightarrow> eff a \<noteq> Trail)"
proof -
  obtain c r where cs: "cs = c # r" "c \<noteq> NUL" "plain r" using assms(2,3) by (cases cs) auto
  let ?t = "nat (row_entry (st_nxt T ! s) (of_char c))"
  have t: "0 < row_entry (st_nxt T ! s) (of_char c)" "accepting T ?t \<noteq> 0" "valid ?t" "eff (accepting T ?t) \<noteq> Trail"
    using start_entry [OF assms(1) of_char_nonzero [OF cs(2)]] entry_cases [of s "of_char c"] valid_start [OF assms(1)] cs(2)
    by (auto simp: valid_def of_char_nonzero)
  have m: "munch T s cs 0 None = munch T ?t r 1 (Some (?t, 1))" using t cs(1) by (simp add: Let_def)
  show ?thesis
    using munch_ok [OF t(3) cs(3), of 1 "Some (?t, 1)"] t(2,3,4) m
    by (auto simp: longest_def pick_def action_ok split: munched.splits)
qed

lemma longest_le:
  assumes "longest T s cs = Some (a, m, e)" "s \<in> starts" "plain cs"
  shows "m \<le> length cs"
  using munch_ok [OF valid_start [OF assms(2)] assms(3), of 0 None] assms(2) assms(1)
  by (auto simp: longest_def split: munched.splits dest!: pick_ok)

lemma scan_token:
  assumes "loaded cs st" "plain cs" "cs \<noteq> []" "sc_start st \<in> starts"
    "longest T (sc_start st) cs = Some (a, m, e)"
  shows "\<exists>cp st1 st'. yy_scan T (sc_start st) (sc_text st) st = Some (Matched a cp st1) \<and>
    st' = before_action cp st1 \<and> ready (drop m cs) st' \<and> loaded cs (undo_action st') \<and> whole (take m cs) st' \<and> sc_start st' = sc_start st \<and>
    sc_gen st' = sc_gen st \<and> (\<not> e \<longrightarrow> sc_text st' = sc_text st \<and> take (sc_text st) (sc_buf st') = take (sc_text st) (sc_buf st))"
proof (cases e)
  case True
  then obtain st1 junk where sc: "yy_scan T (sc_start st) (sc_text st) st = Some (Matched a m st1)"
    and st1: "sc_text st1 = 0" "sc_buf st1 = cs @ NUL # NUL # junk" "sc_n st1 = length cs" "sc_size st1 = YY_BUF_SIZE"
      "sc_file st1 = []" "sc_gen st1 = sc_gen st" "sc_start st1 = sc_start st"
    using scan_ends [OF assms(1-4)] assms(5) by auto
  have n: "length cs \<le> YY_READ_BUF_SIZE" using assms(1) by (simp add: loaded_def)
  have "ready (drop m cs) (before_action m st1)" "whole (take m cs) (before_action m st1)"
    "loaded cs (undo_action (before_action m st1))"
    using before_action_token [of st1 cs junk m] longest_le [OF assms(5,4,2)] st1 n by simp_all
  moreover have "sc_start (before_action m st1) = sc_start st" "sc_gen (before_action m st1) = sc_gen st"
    using st1 by (simp_all add: before_action_def)
  ultimately show ?thesis using sc True by blast
next
  case False
  then obtain l where sc: "yy_scan T (sc_start st) (sc_text st) st =
      Some (Matched a (sc_text st + m) (st\<lparr>sc_last := l\<rparr>))"
    using scan_jam [OF assms(1-4)] assms(5) by auto
  let ?st1 = "st\<lparr>sc_last := l\<rparr>"
  obtain junk where j: "drop (sc_text st) (sc_buf ?st1) = cs @ NUL # NUL # junk"
    using assms(1) by (auto simp: loaded_def)
  have "ready (drop m cs) (before_action (sc_text st + m) ?st1)" "whole (take m cs) (before_action (sc_text st + m) ?st1)"
    "loaded cs (undo_action (before_action (sc_text st + m) ?st1))"
    using before_action_token [of ?st1 cs junk m] longest_le [OF assms(5,4,2)] j assms(1)
    by (simp_all add: loaded_def)
  moreover have "sc_start (before_action (sc_text st + m) ?st1) = sc_start st"
    "sc_gen (before_action (sc_text st + m) ?st1) = sc_gen st" "sc_text (before_action (sc_text st + m) ?st1) = sc_text st"
    "take (sc_text st) (sc_buf (before_action (sc_text st + m) ?st1)) = take (sc_text st) (sc_buf st)"
    by (simp_all add: before_action_def)
  ultimately show ?thesis using sc by blast
qed

text \<open>The scan delivers the tokens of the text.\<close>

theorem lexes:
  assumes "lex_list T eff s e cs = Some its" "plain cs" "loaded cs st0" "sc_start st0 = s" "s \<in> starts"
    "\<not> e \<longrightarrow> list_all (\<lambda>(p, x). held (sc_text st0) st0 p x) live"
    "yy_scan T (sc_start st) (sc_pos st) (begin_pass st) = yy_scan T s (sc_text st0) st0"
  shows "\<exists>ys. yylex_all T (do_effect str none eff) none st = Some ys \<and> delivers str none live its ys"
  using assms
proof (induction "length cs" arbitrary: cs s e its st st0 live rule: less_induct)
  case less
  show ?case
  proof (cases "cs = []")
    case True
    then obtain st' where "yy_scan T (sc_start st) (sc_pos st) (begin_pass st) = Some (At_eof st')"
      using scan_eof [of st0] less.prems by auto
    then show ?thesis using less.prems(1) True
      by (subst yylex_all.simps) (auto simp: lex_list.simps intro: delivers.end_of_file)
  next
    case False
    obtain a m e' where l: "longest T s cs = Some (a, m, e')" and m: "0 < m"
      using less.prems(1) False by (subst (asm) lex_list.simps) (auto split: option.splits if_splits prod.splits)
    obtain cp st1 st' where sc: "yy_scan T (sc_start st) (sc_pos st) (begin_pass st) = Some (Matched a cp st1)"
      and st': "st' = before_action cp st1" "ready (drop m cs) st'" "whole (take m cs) st'" "sc_start st' = s"
        "sc_gen st' = sc_gen st0"
        "\<not> e' \<longrightarrow> sc_text st' = sc_text st0 \<and> take (sc_text st0) (sc_buf st') = take (sc_text st0) (sc_buf st0)"
        "loaded cs (undo_action st')"
      using scan_token [OF less.prems(3,2) False, of a m e'] less.prems(4,5,7) l by auto
    let ?e = "e \<or> e'" and ?cs = "drop m cs"
    have shorter: "length ?cs < length cs" and pl: "plain ?cs" "plain (take m cs)" and ne: "take m cs \<noteq> []"
      using m False less.prems(2) by (simp_all add: plain_drop plain_take)
    have old: "\<not> ?e \<longrightarrow> list_all (\<lambda>(p, x). held (sc_text st') st' p x) live"
      using less.prems(6) st'(5,6) by (auto simp: list_all_iff intro: held_cong)
    have "sc_text st' \<le> sc_pos st'" using st'(3) by (simp add: whole_def)
    then have kept: "\<not> ?e \<longrightarrow> list_all (\<lambda>(p, x). held (sc_pos st') st' p x) live"
      using old by (auto simp: list_all_iff intro: held_mono)
    let ?live = "after_move ?e live"
    have live: "list_all (\<lambda>(p, x). held (sc_pos st') st' p x) ?live"
      using kept by (simp add: after_move_def)
    have step: "yylex_all T (do_effect str none eff) none st =
      (case do_effect str none eff a st' of
         None \<Rightarrow> Some [Lex_bad]
       | Some (st, None) \<Rightarrow> yylex_all T (do_effect str none eff) none st
       | Some (st, Some (t, v)) \<Rightarrow>
           Option.bind (yylex_all T (do_effect str none eff) none st) (\<lambda>ts. Some (Lexed t v st # ts)))"
      using sc st'(1) by (subst yylex_all.simps) simp
    note list1 = less.prems(1) [unfolded lex_list.simps [of T eff s e cs]]
    have hyp: "\<exists>ys. yylex_all T (do_effect str none eff) none st2 = Some ys \<and> delivers str none live its ys"
      if "lex_list T eff s e ?cs = Some its" "ready ?cs st2" "sc_start st2 = s" "s \<in> starts"
        "\<not> e \<longrightarrow> list_all (\<lambda>(p, x). held (sc_pos st2) st2 p x) live" for s e its st2 live
      using that by (intro less.hyps [OF shorter that(1) pl(1), of "begin_pass st2"]) (auto simp: ready_def)
    show ?thesis
    proof (cases "eff a")
      case Skip
      then show ?thesis using list1 False l m step hyp [of s ?e its st' live] st'(2,4) less.prems(5) kept
        by (simp add: do_effect_def)
    next
      case Trail
      then have m1: "0 < m - 1" "m - 1 \<le> length cs" and its: "lex_list T eff s ?e (drop (m - 1) cs) = Some its"
        using list1 False l m longest_le [OF l less.prems(5,2)] by (auto split: if_splits)
      have b: "ready (drop (m - 1) cs) (give_back st')" "sc_start (give_back st') = s"
        "\<not> ?e \<longrightarrow> list_all (\<lambda>(p, x). held (sc_pos (give_back st')) (give_back st') p x) live"
        using give_back_ok [OF st'(7,3) m1(2)] st'(4) longest_le [OF l less.prems(5,2)] old m1(1)
        by (auto simp: list_all_iff)
      have "length (drop (m - 1) cs) < length cs" "plain (drop (m - 1) cs)"
        using m1 False less.prems(2) by (cases cs; simp add: plain_drop)+
      from less.hyps [OF this(1) its this(2), of "begin_pass (give_back st')" live "give_back st'"] b less.prems(5) Trail step
      show ?thesis by (simp add: do_effect_def ready_def)
    next
      case Print
      then show ?thesis using list1 False l m step hyp [of s ?e its "ECHO st'" live] st'(2,4) less.prems(5) kept
        by (simp add: do_effect_def)
    next
      case (Start c)
      then show ?thesis using list1 False l m step hyp [of "1 + 2 * c" ?e its "BEGIN c st'" live] st'(2) starts_closed kept
        by (simp add: do_effect_def)
    next
      case (Token t)
      then obtain its' where its: "its = Item t None ?e # its'" "lex_list T eff s False ?cs = Some its'"
        using list1 False l m by auto
      then obtain ys where "yylex_all T (do_effect str none eff) none st' = Some ys" "delivers str none ?live its' ys"
        using hyp [OF its(2) st'(2,4) less.prems(5), of ?live] live by auto
      then show ?thesis using Token step its live
        by (auto simp: do_effect_def intro!: delivers.token held_holds)
    next
      case (Quoted t)
      obtain st2 where st2: "drop_quote st' = Some st2" "ready ?cs st2"
          "held (sc_pos st2) st2 (yytext st2) (butlast (take m cs))"
          "\<And>p x. held (sc_text st') st' p x \<Longrightarrow> held (sc_pos st2) st2 p x"
        using drop_quote_ok [OF st'(3) pl(2) ne] st'(2) by auto
      let ?live2 = "(yytext st2, butlast (take m cs)) # ?live"
      have live2: "list_all (\<lambda>(p, x). held (sc_pos st2) st2 p x) ?live2"
        using old st2(3,4) by (auto simp: list_all_iff after_move_def)
      obtain its' where its: "its = Item t (Some (butlast (take m cs))) ?e # its'" "lex_list T eff 1 False ?cs = Some its'"
        using Quoted list1 False l m by auto
      have b: "ready ?cs (BEGIN 0 st2)" "sc_start (BEGIN 0 st2) = 1" "1 \<in> starts"
        "list_all (\<lambda>(p, x). held (sc_pos (BEGIN 0 st2)) (BEGIN 0 st2) p x) ?live2"
        using st2(2) live2 starts(2) by simp_all
      then obtain ys where "yylex_all T (do_effect str none eff) none (BEGIN 0 st2) = Some ys" "delivers str none ?live2 its' ys"
        using hyp [OF its(2) b(1-3), of ?live2] by auto
      then show ?thesis using Quoted step its b(4) st2(1)
        by (auto simp: do_effect_def intro!: delivers.quoted held_holds)
    next
      case No_action
      then show ?thesis using list1 False l m by simp
    qed
  qed
qed

text \<open>A plain file that is read in one piece, from the start of the scanner.\<close>

theorem lexes_file:
  assumes "lex_list T eff 1 False cs = Some its" "plain cs" "length cs \<le> YY_READ_BUF_SIZE"
  shows "\<exists>ys. yylex_all T (do_effect str none eff) none (yylex_init cs) = Some ys \<and> delivers str none [] its ys"
proof -
  let ?st = "yylex_init cs"
  have bp: "begin_pass ?st = ?st" by (simp add: begin_pass_def yylex_init_def NUL_def)
  note v = valid_start [OF starts(2)]
  have m0: "yy_match T (sc_buf ?st) 1 0 None = Some (eobs, 1, Some (eobs, 0))"
    using match_zero [of 1 0 "sc_buf ?st" "[]" None] v by (simp add: yylex_init_def valid_def)
  have f0: "yy_find_action T eobs 1 (Some (eobs, 0)) = Some (st_eob T, 1)"
    using eob_state by (simp add: yy_find_action_def)
  show ?thesis
  proof (cases "cs = []")
    case True
    then have "yy_scan T 1 0 ?st = Some (At_eof ((?st\<lparr>sc_last := Some (eobs, 0)\<rparr>)))"
      using m0 f0 room_enough [of 0]
      by (subst yy_scan.simps)
        (simp add: yylex_init_def yy_get_next_buffer_def Let_def overwrite_front_def YY_READ_BUF_SIZE_def)
    then show ?thesis using assms(1) True bp
      by (subst yylex_all.simps) (auto simp: lex_list.simps yylex_init_def intro: delivers.end_of_file)
  next
    case False
    define st0 where "st0 = ?st\<lparr>sc_last := Some (eobs, 0), sc_buf := cs @ [NUL, NUL], sc_n := length cs, sc_file := []\<rparr>"
    have "yy_get_next_buffer 1 (?st\<lparr>sc_last := Some (eobs, 0)\<rparr>) = Some (Continue_scan st0)"
      using assms(3) False room_enough [of 0]
      by (simp add: yylex_init_def st0_def yy_get_next_buffer_def Let_def overwrite_front_def YY_READ_BUF_SIZE_def
          YY_BUF_SIZE_def)
    then have "yy_scan T 1 0 ?st = yy_scan T 1 0 st0"
      using m0 f0 by (subst yy_scan.simps) (simp add: yylex_init_def again_def st0_def)
    moreover have "loaded cs st0" using assms(3) by (auto simp: loaded_def st0_def yylex_init_def)
    ultimately show ?thesis
      using lexes [OF assms(1,2), of st0 "[]" ?st] starts(2) bp by (simp add: st0_def yylex_init_def)
  qed
qed

text \<open>Every plain text has tokens.\<close>

lemma lex_total:
  assumes "plain cs" "s \<in> starts"
  shows "\<exists>its. lex_list T eff s e cs = Some its"
  using assms
proof (induction "length cs" arbitrary: cs s e rule: less_induct)
  case less
  show ?case
  proof (cases "cs = []")
    case True
    then show ?thesis by (simp add: lex_list.simps)
  next
    case False
    then obtain a m e' where l: "longest T s cs = Some (a, m, e')" "0 < m" "eff a \<noteq> No_action" "m = 1 \<longrightarrow> eff a \<noteq> Trail"
      using longest_start less.prems by blast
    then have rest: "\<exists>its. lex_list T eff s' e'' (drop k cs) = Some its" if "s' \<in> starts" "0 < k" for s' e'' k
      using False less.prems(1) that by (intro less.hyps) (simp_all add: plain_drop)
    have step: "lex_list T eff s e cs = (case eff a of
             Skip \<Rightarrow> lex_list T eff s (e \<or> e') (drop m cs)
           | Trail \<Rightarrow> if m = 1 then None else lex_list T eff s (e \<or> e') (drop (m - 1) cs)
           | Print \<Rightarrow> lex_list T eff s (e \<or> e') (drop m cs)
           | Start c \<Rightarrow> lex_list T eff (1 + 2 * c) (e \<or> e') (drop m cs)
           | Token t \<Rightarrow> map_option ((#) (Item t None (e \<or> e'))) (lex_list T eff s False (drop m cs))
           | Quoted t \<Rightarrow>
               map_option ((#) (Item t (Some (butlast (take m cs))) (e \<or> e'))) (lex_list T eff 1 False (drop m cs))
           | No_action \<Rightarrow> None)"
      using l(1,2) False by (subst lex_list.simps) simp
    have go: "\<exists>its. lex_list T eff s e'' (drop k cs) = Some its" "\<exists>its. lex_list T eff 1 e'' (drop k cs) = Some its"
      "eff a = Start c \<Longrightarrow> \<exists>its. lex_list T eff (1 + 2 * c) e'' (drop k cs) = Some its" if "0 < k" for e'' c k
      using rest less.prems(2) starts(2) starts_closed that by auto
    show ?thesis
    proof (cases "eff a")
      case Trail
      then have "0 < m - 1" using l(2,4) by (cases m) auto
      from go(1) [OF this, of "e \<or> e'"] Trail l(4) show ?thesis by (simp add: step)
    next
      case (Token t)
      from go(1) [OF l(2), of False] Token show ?thesis by (auto simp: step)
    next
      case (Quoted t)
      from go(2) [OF l(2), of False] Quoted show ?thesis by (auto simp: step)
    next
      case (Start c)
      from go(3) [OF l(2) Start] Start show ?thesis by (simp add: step)
    qed (use l(3) go(1) [OF l(2), of "e \<or> e'"] in \<open>simp_all add: step\<close>)
  qed
qed

text \<open>The numbers of the tokens are those of the rules, and there are not more tokens than characters.\<close>

definition item_from :: "item \<Rightarrow> bool" where
  "item_from i \<longleftrightarrow> (case i of Item t x _ \<Rightarrow>
     x = None \<and> (\<exists>a. eff a = Token t) \<or> x \<noteq> None \<and> (\<exists>a. eff a = Quoted t))"

lemma lex_items:
  assumes "lex_list T eff s e cs = Some its"
  shows "list_all item_from its \<and> length its \<le> length cs"
  using assms
proof (induction "length cs" arbitrary: cs s e its rule: less_induct)
  case less
  show ?case
  proof (cases "cs = []")
    case True
    then show ?thesis using less.prems by (simp add: lex_list.simps)
  next
    case False
    obtain a m e' where l: "longest T s cs = Some (a, m, e')" and m: "0 < m"
      using less.prems False by (subst (asm) lex_list.simps) (auto split: option.splits if_splits prod.splits)
    note list1 = less.prems [unfolded lex_list.simps [of T eff s e cs]]
    have rest: "list_all item_from its \<and> length its \<le> length cs" if "lex_list T eff s' e'' (drop k cs) = Some its" "0 < k" for s' e'' k
      using less.hyps [OF _ that(1)] that(2) False by (cases cs) auto
    have more: "list_all item_from its' \<and> Suc (length its') \<le> length cs"
      if "lex_list T eff s' e'' (drop m cs) = Some its'" for s' e'' its'
      using less.hyps [OF _ that] m False by (cases cs) auto
    show ?thesis
    proof (cases "eff a")
      case Trail
      then have "lex_list T eff s (e \<or> e') (drop (m - 1) cs) = Some its" "0 < m - 1"
        using list1 False l m by (auto split: if_splits)
      then show ?thesis using rest by blast
    next
      case (Token t)
      then obtain its' where its: "its = Item t None (e \<or> e') # its'" "lex_list T eff s False (drop m cs) = Some its'"
        using list1 False l m by auto
      then show ?thesis using more [OF its(2)] Token by (auto simp: item_from_def)
    next
      case (Quoted t)
      then obtain its' where its: "its = Item t (Some (butlast (take m cs))) (e \<or> e') # its'"
          "lex_list T eff 1 False (drop m cs) = Some its'"
        using list1 False l m by auto
      then show ?thesis using more [OF its(2)] Quoted by (auto simp: item_from_def)
    next
      case (Start c)
      then have "lex_list T eff (1 + 2 * c) (e \<or> e') (drop m cs) = Some its" using list1 False l m by simp
      then show ?thesis using rest m by blast
    next
      case Skip
      then have "lex_list T eff s (e \<or> e') (drop m cs) = Some its" using list1 False l m by simp
      then show ?thesis using rest m by blast
    next
      case Print
      then have "lex_list T eff s (e \<or> e') (drop m cs) = Some its" using list1 False l m by simp
      then show ?thesis using rest m by blast
    qed (use list1 False l m in simp)
  qed
qed

text \<open>A match over the first characters of what is left, whatever follows.\<close>

lemma match_prefix:
  assumes "munch T s w k l = Ends s' n l'" "valid s" "plain w" "drop (b + k) buf = w @ rest"
  shows "yy_match T buf s (b + k) (last_at b l) = yy_match T buf s' (b + n) (last_at b l')"
  using assms
proof (induction w arbitrary: s k l)
  case (Cons c w)
  let ?t = "row_entry (st_nxt T ! s) (of_char c)"
  have p: "b + k < length buf" "buf ! (b + k) = c" "drop (b + Suc k) buf = w @ rest"
    using drop_ConsD [of "b + k" buf c "w @ rest"] Cons.prems(4) by simp_all
  define l2 where "l2 = (if accepting T (nat ?t) \<noteq> 0 then Some (nat ?t, Suc k) else l)"
  have pos: "0 < ?t" and m: "munch T (nat ?t) w (Suc k) l2 = Ends s' n l'"
    using Cons.prems(1) by (auto simp: Let_def l2_def split: if_splits)
  have c: "nxt T s (of_char c) = Some ?t" "valid (nat ?t)"
    using Cons.prems entry_cases [of s "of_char c"] pos by (auto simp: valid_def of_char_nonzero nxt_row)
  have "yy_match T buf (nat ?t) (b + Suc k) (last_at b l2) = yy_match T buf s' (b + n) (last_at b l')"
    using Cons.prems(3) p(3) by (intro Cons.IH [OF m c(2)]) simp_all
  then show ?case using pos p(1,2) c(1) by (subst yy_match.simps) (cases "accepting T (nat ?t) = 0"; simp add: l2_def)
qed simp

end

end
