(* ===== verification/FlexText.thy ===== *)
theory FlexText
  imports FlexSpec
begin

text \<open>
  The tokens of a given text: words before other characters, characters that end a token, and strings
  between quotes.
\<close>

context scanner
begin

abbreviation (input) lex where
  "lex \<equiv> lex_list T eff"

lemma longest_word:
  assumes "munch T s (w @ [c]) 0 None = Jam s' k l" "pick T s' k l = Some (a, length w)"
  shows "longest T s (w @ c # r) = Some (a, length w, False)"
  using assms munch_append [of T s "w @ [c]" r 0 None] by (simp add: longest_def)

definition closed :: "nat \<Rightarrow> bool" where
  "closed s \<longleftrightarrow> fst (st_nxt T ! s) = - int s \<and> list_all (\<lambda>e. fst e = 0) (snd (st_nxt T ! s))"

lemma munch_closed:
  assumes "closed s" "plain r"
  shows "munch T s r k l = (if r = [] then Ends s k l else Jam s k l)"
proof (cases r)
  case (Cons c cs)
  then have "(of_char c :: nat) \<noteq> 0" using assms(2) by (simp add: of_char_nonzero)
  then have "map_of (snd (st_nxt T ! s)) (of_char c) = None"
    using assms(1) by (auto simp: closed_def list_all_iff map_of_eq_None_iff)
  then have "row_entry (st_nxt T ! s) (of_char c) = - int s"
    using assms(1) by (simp add: row_entry_def closed_def)
  then show ?thesis using Cons by (simp add: Let_def)
qed simp

lemma longest_closed:
  assumes "munch T s w 0 None = Ends s' (length w) l" "closed s'" "accepting T s' = a" "a \<noteq> 0" "plain r"
  shows "longest T s (w @ r) = Some (a, length w, r = [])"
  using assms(1,3,4) munch_closed [OF assms(2,5)] by (simp add: longest_def munch_append pick_def)

definition loops :: "nat \<Rightarrow> nat \<Rightarrow> nat \<Rightarrow> nat \<Rightarrow> bool" where
  "loops s s' q c \<longleftrightarrow> fst (st_nxt T ! s) = int s' \<and> 0 < s' \<and> 0 < c \<and> map_of (snd (st_nxt T ! s)) q = Some (int c) \<and>
     list_all (\<lambda>e. fst e = 0 \<or> fst e = q) (snd (st_nxt T ! s))"

lemma loops_entry:
  assumes "loops s s' q c" "d \<noteq> NUL"
  shows "row_entry (st_nxt T ! s) (of_char d) = (if of_char d = q then int c else int s')"
proof (cases "of_char d = q")
  case False
  then have "map_of (snd (st_nxt T ! s)) (of_char d) = None"
    using assms of_char_nonzero [OF assms(2)] by (force simp: loops_def list_all_iff map_of_eq_None_iff)
  then show ?thesis using assms False by (simp add: row_entry_def loops_def)
qed (use assms in \<open>simp add: row_entry_def loops_def\<close>)

lemma munch_loop:
  assumes "loops s s q c" "accepting T s = 0" "plain w" "list_all (\<lambda>d. of_char d \<noteq> q) w"
  shows "munch T s w k l = Ends s (k + length w) l"
  using assms(3,4)
proof (induction w arbitrary: k)
  case (Cons d w)
  then show ?case using loops_entry [OF assms(1), of d] assms(1,2) by (simp add: loops_def Let_def)
qed simp

lemma longest_string:
  assumes "loops s0 s1 q c0" "loops s1 s2 q c" "loops s2 s2 q c" "accepting T s2 = 0" "closed c0" "closed c"
    "accepting T c0 = a" "accepting T c = a" "a \<noteq> 0" "plain w" "list_all (\<lambda>d. of_char d \<noteq> q) w" "of_char d = q" "d \<noteq> NUL" "plain r"
  shows "longest T s0 (w @ d # r) = Some (a, Suc (length w), r = [])"
proof (cases w)
  case Nil
  then have "munch T s0 (w @ [d]) 0 None = Ends c0 1 (Some (c0, 1))"
    using loops_entry [OF assms(1,13)] assms(1,7,9,12) by (simp add: loops_def Let_def)
  then show ?thesis using longest_closed [of s0 "w @ [d]" c0 _ a r] Nil assms(5,7,9,14) by simp
next
  case (Cons f v)
  have f: "of_char f \<noteq> q" "f \<noteq> NUL" "plain v" "list_all (\<lambda>d. of_char d \<noteq> q) v" using assms(10,11) Cons by simp_all
  define l where "l = (if accepting T s1 \<noteq> 0 then Some (s1, Suc 0) else None)"
  have 1: "munch T s0 (w @ [d]) 0 None = munch T s1 (v @ [d]) 1 l"
    using loops_entry [OF assms(1) f(2)] f(1) Cons assms(1) by (simp add: loops_def l_def Let_def)
  have "munch T s1 (v @ [d]) 1 l = Ends c (Suc (length w)) (Some (c, Suc (length w)))"
  proof (cases v)
    case Nil
    then show ?thesis using loops_entry [OF assms(2,13)] assms(2,8,9,12) Cons by (simp add: loops_def Let_def)
  next
    case (Cons g u)
    have g: "of_char g \<noteq> q" "g \<noteq> NUL" "plain u" "list_all (\<lambda>d. of_char d \<noteq> q) u" using f Cons by simp_all
    have "munch T s1 (v @ [d]) 1 l = munch T s2 (u @ [d]) 2 l"
      using loops_entry [OF assms(2) g(2)] g(1) Cons assms(2,4) by (simp add: loops_def Let_def numeral_2_eq_2)
    then show ?thesis
      using munch_loop [OF assms(3,4) g(3,4)] loops_entry [OF assms(3,13)] assms(3,8,9,12) Cons \<open>w = f # v\<close>
      by (simp add: munch_append loops_def Let_def)
  qed
  with 1 show ?thesis using longest_closed [of s0 "w @ [d]" c _ a r] assms(6,8,9,14) by simp
qed

text \<open>A word that no character goes on with.\<close>

definition complete :: "cstring \<Rightarrow> nat \<Rightarrow> bool" where
  "complete w a \<longleftrightarrow> w \<noteq> [] \<and>
     (case munch T 1 w 0 None of
        Jam _ _ _ \<Rightarrow> False | Ends s k l \<Rightarrow> k = length w \<and> closed s \<and> accepting T s = a \<and> a \<noteq> 0)"

lemma lex_complete:
  assumes "complete w a" "plain r"
  shows "eff a = Skip \<Longrightarrow> lex 1 e (w @ r) = lex 1 (e \<or> r = []) r"
    "eff a = Start i \<Longrightarrow> lex 1 e (w @ r) = lex (1 + 2 * i) (e \<or> r = []) r"
    "eff a = Token t \<Longrightarrow> lex 1 e (w @ r) = map_option ((#) (Item t None (e \<or> r = []))) (lex 1 False r)"
proof -
  obtain s l where m: "munch T 1 w 0 None = Ends s (length w) l" "closed s" "accepting T s = a" "a \<noteq> 0" and w: "w \<noteq> []"
    using assms(1) by (auto simp: complete_def simp del: munch.simps split: munched.splits)
  note step = lex_step [OF longest_closed [OF m assms(2)] w]
  show "eff a = Skip \<Longrightarrow> lex 1 e (w @ r) = lex 1 (e \<or> r = []) r"
    "eff a = Start i \<Longrightarrow> lex 1 e (w @ r) = lex (1 + 2 * i) (e \<or> r = []) r"
    "eff a = Token t \<Longrightarrow> lex 1 e (w @ r) = map_option ((#) (Item t None (e \<or> r = []))) (lex 1 False r)"
    using step by simp_all
qed

lemma lex_blank:
  assumes "complete [c] a" "eff a = Skip" "plain r"
  shows "lex 1 False (c # r) = lex 1 False r"
  using lex_complete(1) [OF assms(1,3,2), of False] by (cases "r = []") simp_all

lemma lex_word:
  assumes "complete w a" "eff a = Token t" "complete [c] a'" "eff a' = Skip" "plain [c]" "plain r"
  shows "lex 1 False (w @ c # r) = map_option ((#) (Item t None False)) (lex 1 False r)"
  using lex_complete(3) [OF assms(1) _ assms(2), of "c # r" False] lex_blank [OF assms(3,4,6)] assms(5,6) by simp

text \<open>A string between quotes \<open>d\<close>, which open the start condition \<open>i\<close>.\<close>

definition string_rule :: "char \<Rightarrow> nat \<Rightarrow> nat \<Rightarrow> nat \<Rightarrow> nat \<Rightarrow> nat \<Rightarrow> nat \<Rightarrow> nat \<Rightarrow> bool" where
  "string_rule d a0 i s1 s2 c0 c a \<longleftrightarrow>
     complete [d] a0 \<and> eff a0 = Start i \<and> loops (1 + 2 * i) s1 (of_char d) c0 \<and> loops s1 s2 (of_char d) c \<and>
     loops s2 s2 (of_char d) c \<and> accepting T s2 = 0 \<and> closed c0 \<and> closed c \<and> accepting T c0 = a \<and> accepting T c = a \<and> a \<noteq> 0"

lemma lex_string:
  assumes "string_rule d a0 i s1 s2 c0 c a" "eff a = Quoted t" "plain [d]" "unquoted d w"
    "complete [b] a'" "eff a' = Skip" "plain [b]" "plain r"
  shows "lex 1 False (d # w @ d # b # r) = map_option ((#) (Item t (Some w) False)) (lex 1 False r)"
proof -
  note sr = assms(1) [unfolded string_rule_def]
  note codes = unquoted_codes [OF assms(4)]
  have p: "plain (w @ d # b # r)" using assms by (simp add: unquoted_def)
  have "longest T (1 + 2 * i) (w @ d # b # r) = Some (a, Suc (length w), b # r = [])"
    by (rule longest_string [where ?s1.0 = s1 and ?s2.0 = s2 and ?c0.0 = c0 and c = c and q = "of_char d"])
      (use sr codes assms in \<open>simp_all add: unquoted_def\<close>)
  then have "lex (1 + 2 * i) False ((w @ [d]) @ b # r) = map_option ((#) (Item t (Some w) False)) (lex 1 False (b # r))"
    using lex_step [of T "1 + 2 * i" "w @ [d]" "b # r" a False eff False] assms(2) by simp
  moreover have "lex 1 False (d # w @ d # b # r) = lex (1 + 2 * i) False (w @ d # b # r)"
    using lex_complete(2) [OF _ p, of "[d]" a0 i False] sr by simp
  ultimately show ?thesis using lex_blank [OF assms(5,6,8)] by simp
qed

end

end
