(* ===== verification/SigningParser.thy ===== *)
theory SigningParser
  imports Bison Policy
begin

text \<open>
  The parser of signing policies (src/src/sslutils/signing_policy.c, generated from signing_policy.y
  and kept in the repository): its tables, its actions and \<open>parse_subjects\<close>.

  A string of the scanner is a pointer that \<open>rd\<close> reads in the state the scanner is in by then. The
  calls that may need memory are numbered; \<open>mem\<close> says which of them get it. \<open>parse_subjects\<close> ends
  the parts of its argument with zeros; of the copy it works on only the first part can be read
  afterwards.
\<close>

section \<open>The tables\<close>

definition signing_yytranslate :: "int \<Rightarrow> int" where
  "signing_yytranslate t =
     (if 0 \<le> t \<and> t \<le> 267 then (if t = 0 then 0 else if t < 256 then 2 else if t < 258 then t - 255 else t - 255) else 2)"

definition signing_tables :: yytables where
  "signing_tables =
     \<lparr>yypact = [-8, 1, -16, 0, -16, -1, -16, 9, -16, -16, -2, 8, -16, 6, 7, 4, 4, 11, 12, -16,
        4, -16, 16, 17, -16, -16, -16],
      yypact_ninf = -16,
      yydefact = [0, 0, 10, 0, 2, 0, 6, 0, 1, 3, 0, 0, 9, 0, 0, 0, 0, 0, 0, 4, 7, 5, 0, 0, 8, 11, 12],
      yytable = [8, 21, 1, 2, 13, 24, 10, 11, 17, 18, 1, 2, 12, 7, 14, 15, 16, 22, 23, 25, 26, 9],
      yytable_ninf = -1,
      yycheck = [0, 16, 10, 11, 6, 20, 7, 8, 4, 5, 10, 11, 3, 12, 6, 9, 9, 6, 6, 3, 3, 3],
      yylast = 21, yyfinal = 8,
      yypgoto = [-16, -16, 18, -16, -15, -16, -16],
      yydefgoto = [-1, 3, 4, 5, 19, 6, 20],
      yyr1 = [0, 13, 14, 14, 15, 15, 16, 17, 17, 18, 18, 19, 19],
      yyr2 = [0, 2, 1, 2, 5, 5, 1, 1, 2, 3, 1, 3, 3],
      yyntokens = 13, yytranslate = signing_yytranslate\<rparr>"

section \<open>The tokens\<close>

definition SUBJECTS :: int where "SUBJECTS = 258"
definition COND_SUBJECTS :: int where "COND_SUBJECTS = 259"
definition COND_BANNED :: int where "COND_BANNED = 260"
definition GLOBUS :: int where "GLOBUS = 261"
definition POS_RIGHTS :: int where "POS_RIGHTS = 262"
definition NEG_RIGHTS :: int where "NEG_RIGHTS = 263"
definition CA_SIGN :: int where "CA_SIGN = 264"
definition ACCESS_ID_CA :: int where "ACCESS_ID_CA = 265"
definition ACCESS_ID_ANYBODY :: int where "ACCESS_ID_ANYBODY = 266"
definition X509 :: int where "X509 = 267"

lemmas signing_tokens = SUBJECTS_def COND_SUBJECTS_def COND_BANNED_def GLOBUS_def POS_RIGHTS_def NEG_RIGHTS_def
  CA_SIGN_def ACCESS_ID_CA_def ACCESS_ID_ANYBODY_def X509_def

section \<open>The actions\<close>

text \<open>The union of the semantic values.\<close>

datatype 'p yyval = V_none | V_string 'p | V_cond "condition option" | V_policy "policy option"
  | V_array "condition cells option" | V_integer int

record parse_env =
  pe_policies :: "policy cells option"
  pe_next :: nat

text \<open>The number of the next call that may need memory.\<close>

definition quote_char :: "char \<Rightarrow> bool" where
  "quote_char c \<longleftrightarrow> c = CHR 0x27 \<or> c = CHR 0x22"

lemma dropWhile_drop_le: "length (dropWhile P (drop n r)) \<le> length r"
  using length_dropWhile_le [of P "drop n r"] by simp

function subjects_of :: "(nat \<Rightarrow> bool) \<Rightarrow> nat \<Rightarrow> cstring \<Rightarrow> cstring cells option \<Rightarrow> (cstring cells option \<times> nat) option" where
  "subjects_of mem n s list1 =
     (case s of
        [] \<Rightarrow> Some (list1, n)
      | d # r \<Rightarrow>
          if quote_char d then
            (case strchr r d of
               None \<Rightarrow> Some (list1, n)
             | Some k \<Rightarrow>
                 (case listadd (mem n) list1 (Some (take k r)) of
                    None \<Rightarrow> None
                  | Some list1 \<Rightarrow> subjects_of mem (Suc n) (dropWhile isspace (drop (Suc k) r)) list1))
          else map_option (\<lambda>list1. (list1, Suc n)) (listadd (mem n) list1 (Some s)))"
  by pat_completeness auto
termination
  by (relation "measure (\<lambda>(mem, n, s, l). length s)") (auto simp: le_imp_less_Suc dropWhile_drop_le)

declare subjects_of.simps [simp del]

definition parse_subjects :: "(nat \<Rightarrow> bool) \<Rightarrow> nat \<Rightarrow> cstring option \<Rightarrow> (cstring cells option \<times> nat) option" where
  "parse_subjects mem n string = (case string of None \<Rightarrow> Some (None, n) | Some s \<Rightarrow> subjects_of mem n s None)"

text \<open>What \<open>parse_subjects\<close> leaves of its argument.\<close>

definition cut_original :: "cstring \<Rightarrow> cstring" where
  "cut_original s =
     (case s of [] \<Rightarrow> []
      | d # r \<Rightarrow> if quote_char d then (case strchr r d of None \<Rightarrow> s | Some k \<Rightarrow> d # take k r) else s)"

text \<open>\<open>realcondition\<close>: rules 11 and 12.\<close>

definition real_condition ::
  "(nat \<Rightarrow> bool) \<Rightarrow> int \<Rightarrow> cstring \<Rightarrow> parse_env \<Rightarrow> (condition option \<times> parse_env) option" where
  "real_condition mem positive string e =
     (let n = pe_next e
      in if \<not> mem n then Some (None, e\<lparr>pe_next := Suc n\<rparr>)
         else (let original = (if mem (Suc n) then Some string else None)
               in case parse_subjects mem (n + 2) original of
                    None \<Rightarrow> None
                  | Some (subjects, n) \<Rightarrow>
                      Some (case subjects of None \<Rightarrow> None
                              | Some v \<Rightarrow> Some \<lparr>c_subjects = Some v, c_original = map_option cut_original original, c_positive = positive\<rparr>,
                            e\<lparr>pe_next := n\<rparr>)))"

text \<open>\<open>access_identity\<close> with a name: rule 9. Without subjects a NULL pointer is read.\<close>

definition access_identity ::
  "(nat \<Rightarrow> bool) \<Rightarrow> cstring \<Rightarrow> parse_env \<Rightarrow> (policy option \<times> parse_env) option" where
  "access_identity mem string e =
     (let n = pe_next e
      in if \<not> mem n then Some (None, e\<lparr>pe_next := Suc n\<rparr>)
         else (case parse_subjects mem (Suc n) (Some string) of
                 Some (Some v, n) \<Rightarrow>
                   (case v of
                      Some first # _ \<Rightarrow>
                        Some (if mem n then Some \<lparr>p_caname = Some first, p_self = 0, p_type = TYPE_SIGNING, p_conds = None\<rparr>
                              else None, e\<lparr>pe_next := Suc n\<rparr>)
                    | _ \<Rightarrow> None)
               | _ \<Rightarrow> None))"

text \<open>\<open>listadd\<close> on the policies.\<close>

definition add_policy :: "(nat \<Rightarrow> bool) \<Rightarrow> policy option \<Rightarrow> parse_env \<Rightarrow> ('p yyval \<times> parse_env) option" where
  "add_policy mem pol e =
     map_option (\<lambda>ps. (V_none, e\<lparr>pe_policies := ps, pe_next := Suc (pe_next e)\<rparr>))
       (listadd (mem (pe_next e)) (pe_policies e) pol)"

definition add_condition ::
  "(nat \<Rightarrow> bool) \<Rightarrow> condition cells option \<Rightarrow> condition option \<Rightarrow> parse_env \<Rightarrow> ('p yyval \<times> parse_env) option" where
  "add_condition mem array cond e =
     map_option (\<lambda>a. (V_array a, e\<lparr>pe_next := Suc (pe_next e)\<rparr>)) (listadd (mem (pe_next e)) array cond)"

definition signing_action ::
  "(nat \<Rightarrow> bool) \<Rightarrow> ('s \<Rightarrow> 'p \<Rightarrow> cstring option) \<Rightarrow> ('p yyval, 's, parse_env) yyactions" where
  "signing_action mem rd r vals sc e =
     (if r = 2 then (case vals of [V_policy p] \<Rightarrow> add_policy mem p e | _ \<Rightarrow> None)
      else if r = 3 then (case vals of [_, V_policy p] \<Rightarrow> add_policy mem p e | _ \<Rightarrow> None)
      else if r = 4 then
        (case vals of [V_policy p, _, _, _, V_array a] \<Rightarrow> Some (V_policy (map_option (\<lambda>p. p\<lparr>p_conds := a\<rparr>) p), e) | _ \<Rightarrow> None)
      else if r = 5 then
        (case vals of [V_policy p, _, _, _, V_array a] \<Rightarrow> Some (V_policy None, e) | _ \<Rightarrow> None)
      else if r = 6 then (case vals of [V_policy p] \<Rightarrow> Some (V_policy p, e) | _ \<Rightarrow> None)
      else if r = 7 then (case vals of [V_cond c] \<Rightarrow> add_condition mem None c e | _ \<Rightarrow> None)
      else if r = 8 then (case vals of [V_cond c, V_array a] \<Rightarrow> add_condition mem a c e | _ \<Rightarrow> None)
      else if r = 9 then
        (case vals of [_, _, V_string p] \<Rightarrow>
           (case rd sc p of None \<Rightarrow> None | Some s \<Rightarrow> map_option (\<lambda>(p, e). (V_policy p, e)) (access_identity mem s e))
         | _ \<Rightarrow> None)
      else if r = 10 then
        Some (V_policy (if mem (pe_next e) then Some \<lparr>p_caname = None, p_self = 0, p_type = 0, p_conds = None\<rparr> else None),
          e\<lparr>pe_next := Suc (pe_next e)\<rparr>)
      else if r = 11 \<or> r = 12 then
        (case vals of [_, _, V_string p] \<Rightarrow>
           (case rd sc p of None \<Rightarrow> None
            | Some s \<Rightarrow> map_option (\<lambda>(c, e). (V_cond c, e)) (real_condition mem (if r = 11 then 1 else 0) s e))
         | _ \<Rightarrow> None)
      else Some (hd vals, e))"

definition signingparse ::
  "(nat \<Rightarrow> bool) \<Rightarrow> (nat \<Rightarrow> bool) \<Rightarrow> ('s \<Rightarrow> 'p \<Rightarrow> cstring option) \<Rightarrow> ('p yyval, 's) lexed list \<Rightarrow> 's \<Rightarrow>
     policy cells option \<Rightarrow> (int \<times> parse_env) option option" where
  "signingparse stack mem rd input sc policies =
     yyparse signing_tables (signing_action mem rd) stack input sc \<lparr>pe_policies = policies, pe_next = 0\<rparr>"
end
