(* ===== verification/NamespaceParser.thy ===== *)
theory NamespaceParser
  imports SigningParser
begin

text \<open>
  The parser of namespaces (src/src/sslutils/namespaces.c, generated from namespaces.y and kept in
  the repository): its tables and its actions, on the values of SigningParser.
\<close>

section \<open>The tables\<close>

definition namespaces_yytranslate :: "int \<Rightarrow> int" where
  "namespaces_yytranslate t =
     (if 0 \<le> t \<and> t \<le> 264 then (if t = 0 then 0 else if t < 256 then 2 else t - 255) else 2)"

definition namespaces_tables :: yytables where
  "namespaces_tables =
     \<lparr>yypact = [3, -7, 0, -8, -2, -8, -8, -1, -1, -8, -8, -8, 1, -8, 5, -8],
      yypact_ninf = -8,
      yydefact = [0, 0, 0, 2, 0, 1, 3, 0, 0, 7, 8, 4, 0, 5, 0, 6],
      yytable = [5, 7, 4, 8, 1, 9, 10, 1, 15, 14, 6, 0, 13],
      yytable_ninf = -1,
      yycheck = [0, 3, 9, 5, 4, 6, 7, 4, 3, 8, 2, -1, 8],
      yylast = 12, yyfinal = 5,
      yypgoto = [-8, -8, 8, 4, -8],
      yydefgoto = [-1, 2, 3, 11, 12],
      yyr1 = [0, 10, 11, 11, 12, 12, 13, 14, 14],
      yyr2 = [0, 2, 1, 2, 4, 4, 3, 1, 1],
      yyntokens = 10, yytranslate = namespaces_yytranslate\<rparr>"

section \<open>The tokens\<close>

definition SUBJECT :: int where "SUBJECT = 258"
definition TO :: int where "TO = 259"
definition SELF :: int where "SELF = 260"
definition PERMIT :: int where "PERMIT = 261"
definition DENY :: int where "DENY = 262"
definition SUBJECT_WORD :: int where "SUBJECT_WORD = 263"
definition ISSUER :: int where "ISSUER = 264"

lemmas namespaces_tokens = SUBJECT_def TO_def SELF_def PERMIT_def DENY_def SUBJECT_WORD_def ISSUER_def

section \<open>The actions\<close>

text \<open>Rules 4 and 5; the name of rule 4 is read when the whole rule was seen.\<close>

definition namespace_policy ::
  "(nat \<Rightarrow> bool) \<Rightarrow> cstring option \<Rightarrow> condition option \<Rightarrow> parse_env \<Rightarrow> (policy option \<times> parse_env) option" where
  "namespace_policy mem name cond e =
     (let n = pe_next e
      in if \<not> mem n then Some (None, e\<lparr>pe_next := Suc n\<rparr>)
         else (let (caname, n) = (case name of None \<Rightarrow> (None, Suc n)
                                   | Some s \<Rightarrow> (if mem (Suc n) then Some s else None, n + 2))
               in map_option
                    (\<lambda>conds. (Some \<lparr>p_caname = caname, p_self = (if name = None then 1 else 0), p_type = TYPE_NAMESPACE,
                                p_conds = conds\<rparr>, e\<lparr>pe_next := Suc n\<rparr>))
                    (listadd (mem n) None cond)))"

text \<open>Rule 6.\<close>

definition namespace_condition ::
  "(nat \<Rightarrow> bool) \<Rightarrow> int \<Rightarrow> cstring \<Rightarrow> parse_env \<Rightarrow> (condition option \<times> parse_env) option" where
  "namespace_condition mem positive string e =
     (let n = pe_next e
      in if \<not> mem n then Some (None, e\<lparr>pe_next := Suc n\<rparr>)
         else (let original = (if mem (Suc n) then Some string else None)
               in map_option
                    (\<lambda>subjects. (map_option (\<lambda>v. \<lparr>c_subjects = Some v, c_original = original, c_positive = positive\<rparr>) subjects,
                                e\<lparr>pe_next := n + 3\<rparr>))
                    (listadd (mem (n + 2)) None original)))"

definition namespaces_action ::
  "(nat \<Rightarrow> bool) \<Rightarrow> ('s \<Rightarrow> 'p \<Rightarrow> cstring option) \<Rightarrow> ('p yyval, 's, parse_env) yyactions" where
  "namespaces_action mem rd r vals sc e =
     (if r = 2 then (case vals of [V_policy p] \<Rightarrow> add_policy mem p e | _ \<Rightarrow> None)
      else if r = 3 then (case vals of [_, V_policy p] \<Rightarrow> add_policy mem p e | _ \<Rightarrow> None)
      else if r = 4 then
        (case vals of [_, _, V_string p, V_cond c] \<Rightarrow>
           if mem (pe_next e) then
             (case rd sc p of None \<Rightarrow> None
              | Some s \<Rightarrow> map_option (\<lambda>(p, e). (V_policy p, e)) (namespace_policy mem (Some s) c e))
           else Some (V_policy None, e\<lparr>pe_next := Suc (pe_next e)\<rparr>)
         | _ \<Rightarrow> None)
      else if r = 5 then
        (case vals of [_, _, _, V_cond c] \<Rightarrow> map_option (\<lambda>(p, e). (V_policy p, e)) (namespace_policy mem None c e)
         | _ \<Rightarrow> None)
      else if r = 6 then
        (case vals of [V_integer i, _, V_string p] \<Rightarrow>
           if mem (pe_next e) then
             (case rd sc p of None \<Rightarrow> None
              | Some s \<Rightarrow> map_option (\<lambda>(c, e). (V_cond c, e)) (namespace_condition mem i s e))
           else Some (V_cond None, e\<lparr>pe_next := Suc (pe_next e)\<rparr>)
         | _ \<Rightarrow> None)
      else if r = 7 then Some (V_integer 1, e)
      else if r = 8 then Some (V_integer 0, e)
      else Some (hd vals, e))"

definition namespacesparse ::
  "(nat \<Rightarrow> bool) \<Rightarrow> (nat \<Rightarrow> bool) \<Rightarrow> ('s \<Rightarrow> 'p \<Rightarrow> cstring option) \<Rightarrow> ('p yyval, 's) lexed list \<Rightarrow> 's \<Rightarrow>
     policy cells option \<Rightarrow> (int \<times> parse_env) option option" where
  "namespacesparse stack mem rd input sc policies =
     yyparse namespaces_tables (namespaces_action mem rd) stack input sc \<lparr>pe_policies = policies, pe_next = 0\<rparr>"

end
