(* ===== verification/NamespaceScanner.thy ===== *)
theory NamespaceScanner
  imports FlexText NamespaceParser
begin

text \<open>
  The scanner of namespaces (src/src/sslutils/lex.namespaces.c, generated from namespaces.l and kept
  in the repository): its tables row by row, the actions of its rules, and that the tables are what
  the skeleton needs.
\<close>

section \<open>Tables\<close>

definition namespaces_rows_0 :: "yyrow list" where
  "namespaces_rows_0 =
    [(0, []),
     (8, [(0, 7), (10, 9), (34, 10), (35, 11), (39, 12), (68, 13), (73, 14), (80, 15), (83, 16), (84, 17), (92, 18), (100, 13), (105, 14), (112, 15), (115, 16), (116, 17)]),
     (8, [(0, 7), (10, 9), (34, 10), (35, 11), (39, 12), (68, 13), (73, 14), (80, 15), (83, 16), (84, 17), (92, 18), (100, 13), (105, 14), (112, 15), (115, 16), (116, 17)]),
     (19, [(0, 7), (39, 20)]), (19, [(0, 7), (39, 20)]), (21, [(0, 7), (34, 22)]), (21, [(0, 7), (34, 22)]),
     (-7, [])]"

definition namespaces_rows_1 :: "yyrow list" where
  "namespaces_rows_1 =
    [(-8, [(0, 7)]), (-9, [(0, 7)]), (-10, [(0, 7)]), (23, [(0, 7), (10, -11)]), (-12, [(0, 7)]),
     (-13, [(0, 7), (69, 24), (101, 24)]), (-14, [(0, 7), (83, 25), (115, 25)]),
     (-15, [(0, 7), (69, 26), (101, 26)])]"

definition namespaces_rows_2 :: "yyrow list" where
  "namespaces_rows_2 =
    [(-16, [(0, 7), (69, 27), (85, 28), (101, 27), (117, 28)]), (-17, [(0, 7), (79, 29), (111, 29)]),
     (-18, [(0, 7), (10, 30)]), (31, [(0, 7), (39, 32)]), (-20, [(0, 7)]), (33, [(0, 7), (34, 34)]),
     (-22, [(0, 7)]), (23, [(0, 7), (10, -23)])]"

definition namespaces_rows_3 :: "yyrow list" where
  "namespaces_rows_3 =
    [(-24, [(0, 7), (78, 35), (110, 35)]), (-25, [(0, 7), (83, 36), (115, 36)]),
     (-26, [(0, 7), (82, 37), (114, 37)]), (-27, [(0, 7), (76, 38), (108, 38)]),
     (-28, [(0, 7), (66, 39), (98, 39)]), (-29, [(0, 7)]), (-30, [(0, 7)]), (31, [(0, 7), (39, 32)])]"

definition namespaces_rows_4 :: "yyrow list" where
  "namespaces_rows_4 =
    [(-32, [(0, 7)]), (33, [(0, 7), (34, 34)]), (-34, [(0, 7)]), (-35, [(0, 7), (89, 40), (121, 40)]),
     (-36, [(0, 7), (85, 41), (117, 41)]), (-37, [(0, 7), (77, 42), (109, 42)]),
     (-38, [(0, 7), (70, 43), (102, 43)]), (-39, [(0, 7), (74, 44), (106, 44)])]"

definition namespaces_rows_5 :: "yyrow list" where
  "namespaces_rows_5 =
    [(-40, [(0, 7)]), (-41, [(0, 7), (69, 45), (101, 45)]), (-42, [(0, 7), (73, 46), (105, 46)]),
     (-43, [(0, 7)]), (-44, [(0, 7), (69, 47), (101, 47)]), (-45, [(0, 7), (82, 48), (114, 48)]),
     (-46, [(0, 7), (84, 49), (116, 49)]), (-47, [(0, 7), (67, 50), (99, 50)])]"

definition namespaces_rows_6 :: "yyrow list" where
  "namespaces_rows_6 =
    [(-48, [(0, 7)]), (-49, [(0, 7)]), (-50, [(0, 7), (84, 51), (116, 51)]), (-51, [(0, 7)])]"

definition namespaces_yy_nxt :: "yyrow list" where
  "namespaces_yy_nxt =
     namespaces_rows_0 @ namespaces_rows_1 @ namespaces_rows_2 @ namespaces_rows_3 @ namespaces_rows_4 @
     namespaces_rows_5 @ namespaces_rows_6"

definition namespaces_yy_accept :: "nat list" where
  "namespaces_yy_accept =
    [0, 0, 0, 0, 0, 0, 0, 16, 14, 13, 4, 1, 2, 14, 14, 14, 14, 14, 14, 15, 3, 15, 5, 1, 0, 0, 0, 0, 0, 6,
     12, 0, 3, 0, 5, 0, 0, 0, 0, 0, 9, 0, 0, 10, 0, 0, 0, 0, 7, 8, 0, 11]"

definition namespaces_yy_NUL_trans :: "nat list" where
  "namespaces_yy_NUL_trans =
    [0, 8, 8, 19, 19, 21, 21, 0, 0, 0, 0, 23, 0, 0, 0, 0, 0, 0, 0, 31, 0, 33, 0, 23, 0, 0, 0, 0, 0, 0, 0,
     31, 0, 33, 0, 0, 0, 0, 0, 0, 0, 0, 0, 0, 0, 0, 0, 0, 0, 0, 0, 0]"

definition namespaces_scan_tables :: scan_tables where
  "namespaces_scan_tables =
     \<lparr>st_nxt = namespaces_yy_nxt, st_accept = namespaces_yy_accept, st_nul = namespaces_yy_NUL_trans, st_eob = 16\<rparr>"

section \<open>Rules\<close>

definition namespaces_effect :: "nat \<Rightarrow> effect" where
  "namespaces_effect act =
     (if act = 1 then Skip
      else if act = 2 then Start 1
      else if act = 3 then Quoted SUBJECT
      else if act = 4 then Start 2
      else if act = 5 then Quoted SUBJECT
      else if act = 6 then Token TO
      else if act = 7 then Token ISSUER
      else if act = 8 then Token PERMIT
      else if act = 9 then Token DENY
      else if act = 10 then Token SELF
      else if act = 11 then Token SUBJECT_WORD
      else if act = 12 then Trail
      else if act = 13 \<or> act = 14 then Skip
      else if act = 15 then Print
      else No_action)"

definition namespaceslex :: "cstring \<Rightarrow> (text_ptr yyval, scan_state) lexed list option" where
  "namespaceslex file =
     yylex_all namespaces_scan_tables (do_effect V_string V_none namespaces_effect) V_none (yylex_init file)"

section \<open>The tables are those of a scanner\<close>

lemma namespaces_rows_ok: "rows_ok 16 52 7 1 (tl namespaces_yy_nxt) (tl namespaces_yy_accept)"
  by code_simp

lemma namespaces_lists:
  "namespaces_yy_nxt = (0, []) # tl namespaces_yy_nxt" "namespaces_yy_accept = 0 # tl namespaces_yy_accept"
  by (simp_all add: namespaces_yy_nxt_def namespaces_rows_0_def namespaces_yy_accept_def)

lemma namespaces_starts_ok:
  "list_all (\<lambda>s. start_ok namespaces_scan_tables 7 namespaces_effect s) [1, 3, 5] \<and>
   st_nxt namespaces_scan_tables ! 7 = (- 7, []) \<and>
   accepting namespaces_scan_tables 7 = st_eob namespaces_scan_tables"
  by code_simp

lemma namespaces_actions_ok:
  "list_all (\<lambda>a. a = 0 \<or> a = st_eob namespaces_scan_tables \<or> namespaces_effect a \<noteq> No_action)
     (st_accept namespaces_scan_tables)"
  by code_simp

lemma namespaces_length: "length (st_nxt namespaces_scan_tables) = 52"
  by code_simp

interpretation namespaces_scanner: scanner namespaces_scan_tables 7 namespaces_effect "{1, 3, 5}"
proof
  show "row_ok namespaces_scan_tables (length (st_nxt namespaces_scan_tables)) 7 s"
    if "0 < s" "s < length (st_nxt namespaces_scan_tables)" for s
    using namespaces_rows_ok namespaces_lists that
    by (intro rows_okD [where rs = "tl namespaces_yy_nxt" and as = "tl namespaces_yy_accept" and len = 52])
      (simp_all add: namespaces_scan_tables_def)
  show "start_ok namespaces_scan_tables 7 namespaces_effect s" if "s \<in> {1, 3, 5}" for s
    using namespaces_starts_ok that by auto
  show "1 + 2 * c \<in> {1, 3, 5}" if "namespaces_effect act = Start c" for act c
    using that by (auto simp: namespaces_effect_def split: if_splits)
  show "st_eob namespaces_scan_tables \<noteq> 0" by (simp add: namespaces_scan_tables_def)
qed (use namespaces_starts_ok namespaces_actions_ok namespaces_length in auto)

end
