(* ===== verification/ParserRun.thy ===== *)
theory ParserRun
  imports FlexSpec SigningParser
begin

text \<open>
  The driver of the parsers on the tokens of a text. A parser state is related to the tokens that
  are left, one of which may be read already; a shift, a default reduction, an error and the end
  are then one step each. It has memory for its stacks.
\<close>

section \<open>Tokens that are left\<close>

inductive feeds ::
  "int option \<Rightarrow> text_ptr yyval option \<Rightarrow> scan_state \<Rightarrow> (text_ptr yyval, scan_state) lexed list \<Rightarrow>
   (text_ptr \<times> cstring) list \<Rightarrow> item list \<Rightarrow> bool" where
  fresh: "delivers V_string V_none live its inp \<Longrightarrow> holds sc live \<Longrightarrow> feeds None lv sc inp live its"
| peeked: "delivers V_string V_none (after_move e live) its inp \<Longrightarrow> holds sc (after_move e live) \<Longrightarrow>
    feeds (Some t) (Some V_none) sc inp live (Item t None e # its)"
| peeked_string: "delivers V_string V_none ((p, x) # after_move e live) its inp \<Longrightarrow>
    holds sc ((p, x) # after_move e live) \<Longrightarrow>
    feeds (Some t) (Some (V_string p)) sc inp live (Item t (Some x) e # its)"
| at_end: "feeds (Some 0) (Some v) sc inp live []"

inductive_cases deliversE: "delivers str none live [] ys" "delivers str none live (Item t x e # its) ys"
inductive_cases feedsE: "feeds ch lv sc inp live []" "feeds ch lv sc inp live (Item t x e # its)"

definition next_token :: "item list \<Rightarrow> int" where
  "next_token its = (case its of [] \<Rightarrow> 0 | Item t _ _ # _ \<Rightarrow> t)"

lemma next_token_simps [simp]: "next_token [] = 0" "next_token (Item t x e # its) = t"
  by (simp_all add: next_token_def)

definition numbered :: "item list \<Rightarrow> bool" where
  "numbered its \<longleftrightarrow> list_all (\<lambda>i. case i of Item t _ _ \<Rightarrow> 0 < t) its"

lemma numbered_simps [simp]: "numbered []" "numbered (Item t x e # its) \<longleftrightarrow> 0 < t \<and> numbered its"
  by (simp_all add: numbered_def)

type_synonym env = parse_env

abbreviation conf where
  "conf ss ch lv sc inp env \<equiv>
     \<lparr>yyss = ss, yychar = ch, yylval = lv, yyerrstatus = 0, yyinput = inp, yyscan = sc, yyenv = env\<rparr>"

lemma yyread_feeds:
  assumes "feeds ch lv sc inp live its" "numbered its"
  shows "\<exists>lv' sc' inp'. yyread (conf ss ch lv sc inp env) =
      Some (next_token its, conf ss (Some (next_token its)) lv' sc' inp' env) \<and>
    feeds (Some (next_token its)) lv' sc' inp' live its"
proof (cases its)
  case Nil
  then show ?thesis using assms(1)
    by (auto elim!: feedsE deliversE simp: yyread_def intro: feeds.at_end)
next
  case (Cons i r)
  obtain t x e where "its = Item t x e # r" using Cons by (cases i) auto
  with assms show ?thesis
    by (auto elim!: feedsE deliversE simp: yyread_def
        intro: feeds.peeked feeds.peeked_string simp del: split_paired_Ex)
qed

section \<open>Steps\<close>

text \<open>Tables without a rule for errors; in \<open>waits\<close> a state looks at the next token.\<close>

definition no_error_rule :: "yytables \<Rightarrow> bool" where
  "no_error_rule T \<longleftrightarrow> 1 \<notin> set (yycheck T)"

definition waits :: "yytables \<Rightarrow> nat \<Rightarrow> bool" where
  "waits T s \<longleftrightarrow> (case entry (yypact T) (int s) of None \<Rightarrow> False | Some p \<Rightarrow> p \<noteq> yypact_ninf T)"

lemma takes_no_error: "no_error_rule T \<Longrightarrow> takes_error T s = None"
  by (auto simp: takes_error_def no_error_rule_def entry_def in_set_conv_nth split: option.splits)

lemma pops_no_error: "no_error_rule T \<Longrightarrow> error_pop T ss = None"
  by (induction ss) (auto simp: takes_no_error)

text \<open>The decision about the next token, for a scanner that gives no other numbers.\<close>

definition decision :: "yytables \<Rightarrow> nat \<Rightarrow> int \<Rightarrow> yyact option" where
  "decision T s t = yydecide T s (if t \<le> 0 then 0 else yytranslate T t)"

lemma run_decide:
  assumes "feeds ch lv sc inp live its" "numbered its" "waits T (top_state ss)"
  shows "\<exists>lv' sc' inp'. feeds (Some (next_token its)) lv' sc' inp' live its \<and>
    yyrun T act mem (conf ss ch lv sc inp env) =
      (case yyperform T act mem (decision T (top_state ss) (next_token its))
              (conf ss (Some (next_token its)) lv' sc' inp' env) of
         Undef \<Rightarrow> Some None
       | Return r e \<Rightarrow> Some (Some (r, e))
       | Continue c \<Rightarrow> yyrun T act mem c)"
proof -
  obtain lv' sc' inp' where r: "yyread (conf ss ch lv sc inp env) =
      Some (next_token its, conf ss (Some (next_token its)) lv' sc' inp' env)"
    and f: "feeds (Some (next_token its)) lv' sc' inp' live its"
    using yyread_feeds [OF assms(1,2), where ss = ss and env = env] by blast
  have "yybackup T act mem (conf ss ch lv sc inp env) =
      yyperform T act mem (decision T (top_state ss) (next_token its)) (conf ss (Some (next_token its)) lv' sc' inp' env)"
    using r assms(3) by (auto simp: yybackup_def decision_def waits_def split: option.splits)
  then show ?thesis using f by (subst yyrun.simps) auto
qed

lemma run_error:
  assumes "feeds ch lv sc inp live its" "numbered its" "waits T (top_state ss)" "no_error_rule T"
    "decision T (top_state ss) (next_token its) = Some Fail"
  shows "yyrun T act mem (conf ss ch lv sc inp env) = Some (Some (1, env))"
  using run_decide [OF assms(1-3), of act mem env] assms(4,5)
  by (auto simp: yyperform_def yyerrlab_def pops_no_error)

text \<open>The stack does not get too high when all tokens that are left fit on it.\<close>

definition roomy :: "(nat \<times> 'v) list \<Rightarrow> item list \<Rightarrow> bool" where
  "roomy ss its \<longleftrightarrow> length ss + length its < YYMAXDEPTH - 2"

lemma run_shift:
  assumes "feeds ch lv sc inp live (Item t x e # its)" "numbered (Item t x e # its)" "waits T (top_state ss)"
    "decision T (top_state ss) t = Some (Shift s)" "s \<noteq> yyfinal T" "roomy ss (Item t x e # its)" "\<And>n. mem n"
  shows "\<exists>v lv' sc' inp' live'. feeds None lv' sc' inp' live' its \<and> roomy ((s, v) # ss) its \<and>
    (case x of None \<Rightarrow> v = V_none \<and> live' = after_move e live
     | Some y \<Rightarrow> \<exists>p. v = V_string p \<and> live' = (p, y) # after_move e live \<and> holds sc' live') \<and>
    yyrun T act mem (conf ss ch lv sc inp env) = yyrun T act mem (conf ((s, v) # ss) None lv' sc' inp' env)"
proof -
  obtain lv' sc' inp' where f: "feeds (Some t) lv' sc' inp' live (Item t x e # its)"
    and r: "yyrun T act mem (conf ss ch lv sc inp env) =
      (case yyperform T act mem (decision T (top_state ss) t) (conf ss (Some t) lv' sc' inp' env) of
         Undef \<Rightarrow> Some None
       | Return r e \<Rightarrow> Some (Some (r, e))
       | Continue c \<Rightarrow> yyrun T act mem c)"
    using run_decide [OF assms(1-3), of act mem env] by auto
  have len: "Suc (length ss) \<noteq> YYMAXDEPTH - 1" "roomy ((s, v) # ss) its" for v
    using assms(6) by (auto simp: roomy_def YYMAXDEPTH_def)
  have go: "yyrun T act mem (conf ss ch lv sc inp env) = yyrun T act mem (conf ((s, v) # ss) None lv' sc' inp' env)"
    if "lv' = Some v" for v
    using r that assms(4,5,7) len(1) by (simp add: yyperform_def yyshift_def yynewstate_def Let_def)
  have "x = None \<and> lv' = Some V_none \<and> feeds None lv' sc' inp' (after_move e live) its \<or>
    (\<exists>p y. x = Some y \<and> lv' = Some (V_string p) \<and> holds sc' ((p, y) # after_move e live) \<and>
      feeds None lv' sc' inp' ((p, y) # after_move e live) its)"
    using f by (auto elim!: feedsE intro: feeds.fresh simp del: split_paired_Ex)
  then show ?thesis
  proof (elim disjE exE conjE)
    assume "x = None" "lv' = Some V_none" "feeds None lv' sc' inp' (after_move e live) its"
    then show ?thesis using go [of V_none] len(2) by auto
  next
    fix p y
    assume "x = Some y" "lv' = Some (V_string p)" "holds sc' ((p, y) # after_move e live)"
      "feeds None lv' sc' inp' ((p, y) # after_move e live) its"
    then show ?thesis using go [of "V_string p"] len(2)
      by (intro exI [of _ "V_string p"] exI [of _ lv'] exI [of _ sc'] exI [of _ inp']
          exI [of _ "(p, y) # after_move e live"]) auto
  qed
qed

text \<open>A reduction: by default, or for the next token.\<close>

definition reduces :: "yytables \<Rightarrow> nat \<Rightarrow> nat \<Rightarrow> bool" where
  "reduces T s r \<longleftrightarrow> entry (yypact T) (int s) = Some (yypact_ninf T) \<and> yydefault T s = Some (Reduce r)"

definition reduced :: "yytables \<Rightarrow> ('v, 's, 'e) yyactions \<Rightarrow> nat \<Rightarrow> (nat \<times> 'v) list \<Rightarrow> 's \<Rightarrow> 'e \<Rightarrow>
    ((nat \<times> 'v) list \<times> 'e) option" where
  "reduced T act r ss sc env =
     (case (entry (yyr2 T) (int r), entry (yyr1 T) (int r)) of
        (Some len, Some lhs) \<Rightarrow>
          if len = 0 \<or> length ss < len then None
          else (case act r (rev (map snd (take len ss))) sc env of
             None \<Rightarrow> None
           | Some (v, e) \<Rightarrow> map_option (\<lambda>s. ((s, v) # drop len ss, e)) (yygoto T (top_state (drop len ss)) lhs))
      | _ \<Rightarrow> None)"

lemma reduced_length: "reduced T act r ss sc env = Some (ss', e) \<Longrightarrow> length ss' \<le> length ss"
  by (auto simp: reduced_def split: option.splits if_splits prod.splits)

lemma yyreduce_reduced:
  assumes "\<And>n. mem n" "roomy ss its"
  shows "yyreduce T act mem r (conf ss ch lv sc inp env) =
    (case reduced T act r ss sc env of
       None \<Rightarrow> Undef
     | Some (ss', e) \<Rightarrow>
         if top_state ss' = yyfinal T then Return 0 e else Continue (conf ss' ch lv sc inp e))"
proof (cases "reduced T act r ss sc env")
  case None
  then show ?thesis
    by (auto simp: reduced_def yyreduce_def Let_def split: option.splits if_splits prod.splits)
next
  case (Some x)
  obtain ss' e where x: "x = (ss', e)" by (cases x)
  have "length ss' \<noteq> YYMAXDEPTH - 1"
    using reduced_length [of T act r ss sc env ss' e] Some x assms(2) by (auto simp: roomy_def YYMAXDEPTH_def)
  then show ?thesis using Some x assms(1)
    by (auto simp: reduced_def yyreduce_def yynewstate_def top_state_def Let_def split: option.splits if_splits prod.splits)
qed

lemma run_reduce:
  assumes "reduces T (top_state ss) r" "reduced T act r ss sc env = Some (ss', e)" "top_state ss' \<noteq> yyfinal T"
    "\<And>n. mem n" "roomy ss its"
  shows "yyrun T act mem (conf ss ch lv sc inp env) = yyrun T act mem (conf ss' ch lv sc inp e)"
  using assms(1,2,3) yyreduce_reduced [OF assms(4,5), where T = T and act = act and r = r]
  by (subst yyrun.simps) (simp add: yybackup_def yyperform_def reduces_def)

lemma run_reduce_undef:
  assumes "reduces T (top_state ss) r" "reduced T act r ss sc env = None" "\<And>n. mem n" "roomy ss its"
  shows "yyrun T act mem (conf ss ch lv sc inp env) = Some None"
  using assms(1,2) yyreduce_reduced [OF assms(3,4), where T = T and act = act and r = r]
  by (subst yyrun.simps) (simp add: yybackup_def yyperform_def reduces_def)

lemma run_reduce_for:
  assumes "feeds ch lv sc inp live its" "numbered its" "waits T (top_state ss)"
    "decision T (top_state ss) (next_token its) = Some (Reduce r)"
    "\<And>sc. reduced T act r ss sc env = Some (ss', e)" "top_state ss' \<noteq> yyfinal T" "\<And>n. mem n" "roomy ss its"
  shows "\<exists>ch' lv' sc' inp'. feeds ch' lv' sc' inp' live its \<and>
    yyrun T act mem (conf ss ch lv sc inp env) = yyrun T act mem (conf ss' ch' lv' sc' inp' e)"
  using run_decide [OF assms(1-3), of act mem env] yyreduce_reduced [OF assms(7,8), where T = T and act = act and r = r] assms(4-6)
  by (fastforce simp: yyperform_def)

lemma run_accept:
  assumes "feeds ch lv sc inp live []" "waits T (top_state ss)" "decision T (top_state ss) 0 = Some (Shift (yyfinal T))"
    "roomy ss []" "\<And>n. mem n"
  shows "yyrun T act mem (conf ss ch lv sc inp env) = Some (Some (0, env))"
proof -
  obtain lv' sc' inp' where f: "feeds (Some 0) lv' sc' inp' live []" and
    r: "yyrun T act mem (conf ss ch lv sc inp env) =
      (case yyperform T act mem (decision T (top_state ss) 0) (conf ss (Some 0) lv' sc' inp' env) of
         Undef \<Rightarrow> Some None
       | Return r e \<Rightarrow> Some (Some (r, e))
       | Continue c \<Rightarrow> yyrun T act mem c)"
    using run_decide [OF assms(1) _ assms(2), of act mem env] by auto
  have "lv' \<noteq> None" using f by (auto elim: feedsE)
  then show ?thesis using r assms(3-5)
    by (auto simp: yyperform_def yyshift_def yynewstate_def roomy_def YYMAXDEPTH_def)
qed

section \<open>What a run gives\<close>

text \<open>The answer from a stack and the tokens that are left; \<open>freshly\<close> when no token was read ahead.\<close>

definition freshly ::
  "yytables \<Rightarrow> (text_ptr yyval, scan_state, env) yyactions \<Rightarrow> (text_ptr \<times> cstring) list \<Rightarrow> (nat \<times> text_ptr yyval) list \<Rightarrow>
   item list \<Rightarrow> env \<Rightarrow> ((int \<times> env) option option \<Rightarrow> bool) \<Rightarrow> bool" where
  "freshly T act live ss its env P \<longleftrightarrow>
     (\<forall>lv sc inp. feeds None lv sc inp live its \<longrightarrow> P (yyrun T act (\<lambda>_. True) (conf ss None lv sc inp env)))"

definition yields ::
  "yytables \<Rightarrow> (text_ptr yyval, scan_state, env) yyactions \<Rightarrow> (text_ptr \<times> cstring) list \<Rightarrow> (nat \<times> text_ptr yyval) list \<Rightarrow>
   item list \<Rightarrow> env \<Rightarrow> ((int \<times> env) option option \<Rightarrow> bool) \<Rightarrow> bool" where
  "yields T act live ss its env P \<longleftrightarrow>
     (\<forall>ch lv sc inp. feeds ch lv sc inp live its \<longrightarrow> P (yyrun T act (\<lambda>_. True) (conf ss ch lv sc inp env)))"

lemma yields_freshly: "yields T act live ss its env P \<Longrightarrow> freshly T act live ss its env P"
  by (simp add: yields_def freshly_def)

lemma yields_error:
  assumes "decision T (top_state ss) (next_token its) = Some Fail" "waits T (top_state ss)" "no_error_rule T" "numbered its"
    "P (Some (Some (1, env)))"
  shows "yields T act live ss its env P"
  unfolding yields_def
proof (intro allI impI)
  fix ch lv sc inp
  assume "feeds ch lv sc inp live its"
  from run_error [OF this assms(4,2,3,1), of act "\<lambda>_. True" env] assms(5) show "P (yyrun T act (\<lambda>_. True) (conf ss ch lv sc inp env))"
    by simp
qed

lemma yields_accept:
  assumes "decision T (top_state ss) 0 = Some (Shift (yyfinal T))" "waits T (top_state ss)" "roomy ss []"
    "P (Some (Some (0, env)))"
  shows "yields T act live ss [] env P"
  unfolding yields_def
proof (intro allI impI)
  fix ch lv sc inp
  assume "feeds ch lv sc inp live []"
  from run_accept [OF this assms(2,1,3), of "\<lambda>_. True" act env] assms(4)
  show "P (yyrun T act (\<lambda>_. True) (conf ss ch lv sc inp env))" by simp
qed

lemma yields_shift:
  assumes "decision T (top_state ss) t = Some (Shift s)" "waits T (top_state ss)" "s \<noteq> yyfinal T"
    "numbered (Item t x e # its)" "roomy ss (Item t x e # its)"
    "x = None \<Longrightarrow> freshly T act (after_move e live) ((s, V_none) # ss) its env P"
    "\<And>p y. x = Some y \<Longrightarrow> freshly T act ((p, y) # after_move e live) ((s, V_string p) # ss) its env P"
  shows "yields T act live ss (Item t x e # its) env P"
  unfolding yields_def
proof (intro allI impI)
  fix ch lv sc inp
  assume f: "feeds ch lv sc inp live (Item t x e # its)"
  obtain v lv' sc' inp' live' where "feeds None lv' sc' inp' live' its"
    "case x of None \<Rightarrow> v = V_none \<and> live' = after_move e live
     | Some y \<Rightarrow> \<exists>p. v = V_string p \<and> live' = (p, y) # after_move e live \<and> holds sc' live'"
    "yyrun T act (\<lambda>_. True) (conf ss ch lv sc inp env) =
      yyrun T act (\<lambda>_. True) (conf ((s, v) # ss) None lv' sc' inp' env)"
    using run_shift [OF f assms(4,2,1,3,5), of "\<lambda>_. True" act env] by blast
  then show "P (yyrun T act (\<lambda>_. True) (conf ss ch lv sc inp env))"
    using assms(6,7) by (auto simp: freshly_def split: option.splits)
qed

lemma freshly_reduce:
  assumes "reduces T (top_state ss) r" "\<And>sc. holds sc live \<Longrightarrow> reduced T act r ss sc env = Some (ss', e)"
    "top_state ss' \<noteq> yyfinal T" "roomy ss its" "freshly T act live ss' its e P"
  shows "freshly T act live ss its env P"
  unfolding freshly_def
proof (intro allI impI)
  fix lv sc inp
  assume f: "feeds None lv sc inp live its"
  then have h: "holds sc live" by (auto elim: feeds.cases)
  show "P (yyrun T act (\<lambda>_. True) (conf ss None lv sc inp env))"
    using run_reduce [OF assms(1) assms(2) [OF h] assms(3) _ assms(4), of "\<lambda>_. True" None lv inp] assms(5) f
    by (simp add: freshly_def)
qed

lemma yields_reduce:
  assumes "reduces T (top_state ss) r" "\<And>sc. reduced T act r ss sc env = Some (ss', e)" "top_state ss' \<noteq> yyfinal T"
    "roomy ss its" "yields T act live ss' its e P"
  shows "yields T act live ss its env P"
  using run_reduce [OF assms(1,2,3) _ assms(4)] assms(5) by (simp add: yields_def)

lemma freshly_undefined:
  assumes "reduces T (top_state ss) r" "\<And>sc. holds sc live \<Longrightarrow> reduced T act r ss sc env = None" "roomy ss its" "P (Some None)"
  shows "freshly T act live ss its env P"
  unfolding freshly_def
proof (intro allI impI)
  fix lv sc inp
  assume f: "feeds None lv sc inp live its"
  then have h: "holds sc live" by (auto elim: feeds.cases)
  show "P (yyrun T act (\<lambda>_. True) (conf ss None lv sc inp env))"
    using run_reduce_undef [OF assms(1) assms(2) [OF h] _ assms(3), of "\<lambda>_. True" None lv inp] assms(4) by simp
qed

lemma yields_reduce_for:
  assumes "decision T (top_state ss) (next_token its) = Some (Reduce r)" "waits T (top_state ss)" "numbered its"
    "\<And>sc. reduced T act r ss sc env = Some (ss', e)" "top_state ss' \<noteq> yyfinal T" "roomy ss its"
    "yields T act live ss' its e P"
  shows "yields T act live ss its env P"
  unfolding yields_def
proof (intro allI impI)
  fix ch lv sc inp
  assume f: "feeds ch lv sc inp live its"
  show "P (yyrun T act (\<lambda>_. True) (conf ss ch lv sc inp env))"
    using run_reduce_for [OF f assms(3,2,1,4,5) _ assms(6), of "\<lambda>_. True"] assms(7) by (auto simp: yields_def)
qed

section \<open>Answers up to the environment\<close>

text \<open>Tokens of a scanner: numbers up to \<open>hi\<close>, the first of which carries a string.\<close>

definition proper :: "int \<Rightarrow> item list \<Rightarrow> bool" where
  "proper hi its \<longleftrightarrow> list_all (\<lambda>i. case i of Item t x e \<Rightarrow> 258 \<le> t \<and> t \<le> hi \<and> (t = 258 \<longleftrightarrow> x \<noteq> None)) its"

lemma proper_simps [simp]:
  "proper hi []"
  "proper hi (Item t x e # its) \<longleftrightarrow> 258 \<le> t \<and> t \<le> hi \<and> (t = 258 \<longleftrightarrow> x \<noteq> None) \<and> proper hi its"
  by (simp_all add: proper_def)

lemma proper_numbered: "proper hi its \<Longrightarrow> numbered its"
  unfolding proper_def numbered_def by (erule list.pred_mono_strong) (simp split: item.splits)

lemma proper_next: "proper hi its \<Longrightarrow> next_token its \<in> set (0 # [258..hi])"
  by (cases its) (auto simp: proper_def next_token_def split: item.splits)

text \<open>The environment holds the policies \<open>ps\<close>; the answer with its environment fits the expected one.\<close>

definition good_env :: "policy list \<Rightarrow> env \<Rightarrow> bool" where
  "good_env ps e \<longleftrightarrow> terminated (pe_policies e) \<and> contents (pe_policies e) = ps"

fun fits :: "(int \<times> env) option option \<Rightarrow> (int \<times> policy list) option \<Rightarrow> bool" where
  "fits (Some (Some (i, e))) (Some (j, ps)) \<longleftrightarrow> i = j \<and> good_env ps e"
| "fits (Some None) None \<longleftrightarrow> True"
| "fits _ _ \<longleftrightarrow> False"

definition gives ::
  "yytables \<Rightarrow> (text_ptr yyval, scan_state, env) yyactions \<Rightarrow> int \<Rightarrow> bool \<Rightarrow> (text_ptr \<times> cstring) list \<Rightarrow>
   (nat \<times> text_ptr yyval) list \<Rightarrow> item list \<Rightarrow> policy list \<Rightarrow> (int \<times> policy list) option \<Rightarrow> bool" where
  "gives T act hi fresh live ss its ps out \<longleftrightarrow>
     (\<forall>env. good_env ps env \<longrightarrow> proper hi its \<longrightarrow> roomy ss its \<longrightarrow>
        (if fresh then freshly else yields) T act live ss its env (\<lambda>R. fits R out))"

lemma gives_fresh: "gives T act hi False live ss its ps out \<Longrightarrow> gives T act hi fresh live ss its ps out"
  by (auto simp: gives_def intro: yields_freshly)

lemma gives_error:
  assumes "decision T (top_state ss) (next_token its) = Some Fail" "waits T (top_state ss)" "no_error_rule T"
  shows "gives T act hi fresh live ss its ps (Some (1, ps))"
  by (rule gives_fresh) (use yields_error [OF assms proper_numbered] in \<open>simp add: gives_def\<close>)

lemma gives_accept:
  assumes "decision T (top_state ss) 0 = Some (Shift (yyfinal T))" "waits T (top_state ss)"
  shows "gives T act hi fresh live ss [] ps (Some (0, ps))"
  by (rule gives_fresh) (use yields_accept [OF assms] in \<open>simp add: gives_def\<close>)

lemma gives_shift:
  assumes "decision T (top_state ss) t = Some (Shift s)" "waits T (top_state ss)" "s \<noteq> yyfinal T"
    "x = None \<Longrightarrow> gives T act hi True (after_move e live) ((s, V_none) # ss) its ps out"
    "\<And>p y. x = Some y \<Longrightarrow> gives T act hi True ((p, y) # after_move e live) ((s, V_string p) # ss) its ps out"
  shows "gives T act hi fresh live ss (Item t x e # its) ps out"
proof (rule gives_fresh, unfold gives_def, intro allI impI, unfold if_False)
  fix env
  assume g: "good_env ps env" "proper hi (Item t x e # its)" "roomy ss (Item t x e # its)"
  then have r: "proper hi its" "roomy ((s, v) # ss) its" for v by (auto simp: roomy_def)
  show "yields T act live ss (Item t x e # its) env (\<lambda>R. fits R out)"
    using assms(4,5) g(1) r by (intro yields_shift [OF assms(1-3) proper_numbered [OF g(2)] g(3)]) (auto simp: gives_def)
qed

lemma roomy_shorter: "roomy ss its \<Longrightarrow> length ss' \<le> length ss \<Longrightarrow> roomy ss' its"
  by (simp add: roomy_def)

lemma gives_reduce:
  assumes "reduces T (top_state ss) r" "top_state ss' \<noteq> yyfinal T" "length ss' \<le> length ss"
    "\<And>env. good_env ps env \<Longrightarrow> \<exists>e. good_env ps' e \<and> (\<forall>sc. (fresh \<longrightarrow> holds sc live) \<longrightarrow> reduced T act r ss sc env = Some (ss', e))"
    "gives T act hi fresh live ss' its ps' out"
  shows "gives T act hi fresh live ss its ps out"
  unfolding gives_def
proof (intro allI impI)
  fix env
  assume g: "good_env ps env" "proper hi its" "roomy ss its"
  obtain e where e: "good_env ps' e" "\<And>sc. (fresh \<longrightarrow> holds sc live) \<Longrightarrow> reduced T act r ss sc env = Some (ss', e)"
    using assms(4) [OF g(1)] by blast
  show "(if fresh then freshly else yields) T act live ss its env (\<lambda>R. fits R out)"
    using assms(5) e(1) g(2) roomy_shorter [OF g(3) assms(3)] freshly_reduce [OF assms(1) e(2) assms(2) g(3)]
      yields_reduce [OF assms(1) e(2) assms(2) g(3)]
    by (auto simp: gives_def)
qed

lemma gives_undefined:
  assumes "reduces T (top_state ss) r"
    "\<And>env sc. good_env ps env \<Longrightarrow> holds sc live \<Longrightarrow> reduced T act r ss sc env = None"
  shows "gives T act hi True live ss its ps None"
  using assms by (auto simp: gives_def intro: freshly_undefined)

lemma gives_reduce_for:
  assumes "proper hi its \<Longrightarrow> decision T (top_state ss) (next_token its) = Some (Reduce r)" "waits T (top_state ss)"
    "top_state ss' \<noteq> yyfinal T" "length ss' \<le> length ss"
    "\<And>env. good_env ps env \<Longrightarrow> \<exists>e. good_env ps' e \<and> (\<forall>sc. reduced T act r ss sc env = Some (ss', e))"
    "gives T act hi False live ss' its ps' out"
  shows "gives T act hi fresh live ss its ps out"
proof (rule gives_fresh, unfold gives_def, intro allI impI, unfold if_False)
  fix env
  assume g: "good_env ps env" "proper hi its" "roomy ss its"
  obtain e where e: "good_env ps' e" "\<And>sc. reduced T act r ss sc env = Some (ss', e)"
    using assms(5) [OF g(1)] by blast
  show "yields T act live ss its env (\<lambda>R. fits R out)"
    using assms(6) e(1) g(2) roomy_shorter [OF g(3) assms(4)]
    by (intro yields_reduce_for [OF assms(1) [OF g(2)] assms(2) proper_numbered [OF g(2)] e(2) assms(3) g(3)])
      (auto simp: gives_def)
qed

section \<open>Parsing by recursive descent\<close>

text \<open>A parse that is undefined, an error, or a value and the tokens that are left.\<close>

datatype 'a parsed = Unsafe | Refused | Taken 'a "item list"

fun bind_parsed :: "'a parsed \<Rightarrow> ('a \<Rightarrow> item list \<Rightarrow> 'b parsed) \<Rightarrow> 'b parsed" where
  "bind_parsed Unsafe f = Unsafe"
| "bind_parsed Refused f = Refused"
| "bind_parsed (Taken x r) f = f x r"

fun expect :: "int \<Rightarrow> item list \<Rightarrow> cstring option parsed" where
  "expect t (Item t' x e # r) = (if t' = t then Taken x r else Refused)"
| "expect t [] = Refused"

lemma expect_shorter: "expect t its = Taken x r \<Longrightarrow> length r < length its"
  by (cases "(t, its)" rule: expect.cases) (auto split: if_splits)

lemma bind_TakenD: "bind_parsed p f = Taken y r \<Longrightarrow> \<exists>x r'. p = Taken x r' \<and> f x r' = Taken y r"
  by (cases p) auto

text \<open>The answer after a part was parsed: with an error the policies so far stay.\<close>

definition outcome ::
  "'a parsed \<Rightarrow> policy list \<Rightarrow> ('a \<Rightarrow> item list \<Rightarrow> (int \<times> policy list) option) \<Rightarrow> (int \<times> policy list) option" where
  "outcome p ps f = (case p of Unsafe \<Rightarrow> None | Refused \<Rightarrow> Some (1, ps) | Taken x r \<Rightarrow> f x r)"

lemma outcome_simps [simp]:
  "outcome Unsafe ps f = None" "outcome Refused ps f = Some (1, ps)" "outcome (Taken x r) ps f = f x r"
  by (simp_all add: outcome_def)

lemma outcome_bind: "outcome (bind_parsed p f) ps g = outcome p ps (\<lambda>x r. outcome (f x r) ps g)"
  by (cases p) simp_all

lemma outcome_if: "outcome (if c then p else q) ps g = (if c then outcome p ps g else outcome q ps g)"
  by (cases c) simp_all

text \<open>A state that takes one token only.\<close>

definition goes :: "yytables \<Rightarrow> int \<Rightarrow> nat \<Rightarrow> int \<Rightarrow> nat \<Rightarrow> bool" where
  "goes T hi s t s' \<longleftrightarrow>
     list_all (\<lambda>t'. decision T s t' = Some (if t' = t then Shift s' else Fail)) (0 # [258..hi]) \<and> waits T s \<and>
     s' \<noteq> yyfinal T \<and> 258 \<le> t"

lemma gives_proper:
  "(proper hi its \<Longrightarrow> gives T act hi fresh live ss its ps out) \<Longrightarrow> gives T act hi fresh live ss its ps out"
  by (simp add: gives_def)

lemma gives_expect:
  assumes "goes T hi (top_state ss) t s'" "no_error_rule T"
    "\<And>r live. t \<noteq> 258 \<Longrightarrow> length r < length its \<Longrightarrow> gives T act hi True live ((s', V_none) # ss) r ps (f None r)"
    "\<And>p x r live. t = 258 \<Longrightarrow> length r < length its \<Longrightarrow> gives T act hi True ((p, x) # live) ((s', V_string p) # ss) r ps (f (Some x) r)"
  shows "gives T act hi fresh live ss its ps (outcome (expect t its) ps f)"
proof (rule gives_proper)
  assume pr: "proper hi its"
  have d: "decision T (top_state ss) (next_token its) = Some (if next_token its = t then Shift s' else Fail)"
    using assms(1) proper_next [OF pr] unfolding goes_def list_all_iff by blast
  have w: "waits T (top_state ss)" "s' \<noteq> yyfinal T" "258 \<le> t" using assms(1) by (simp_all add: goes_def)
  show "gives T act hi fresh live ss its ps (outcome (expect t its) ps f)"
  proof (cases its)
    case Nil
    then show ?thesis using gives_error [OF _ w(1) assms(2), of its] d w(3) by simp
  next
    case (Cons i r)
    obtain t' x e where i: "i = Item t' x e" by (cases i)
    show ?thesis
    proof (cases "t' = t")
      case True
      then have "t = 258 \<longleftrightarrow> x \<noteq> None" using pr Cons i by simp
      then show ?thesis using assms(3,4) True d w Cons i by (auto intro!: gives_shift)
    next
      case False
      then show ?thesis using gives_error [OF _ w(1) assms(2), of its] d Cons i by simp
    qed
  qed
qed

text \<open>A token and then a string.\<close>

lemma gives_word_string:
  assumes "goes T hi (top_state ss) t s1" "goes T hi s1 258 s2" "t \<noteq> 258" "no_error_rule T"
    "\<And>p x r live. length r < length its \<Longrightarrow>
      gives T act hi True ((p, x) # live) ((s2, V_string p) # (s1, V_none) # ss) r ps (f (Some x) r)"
  shows "gives T act hi fresh live ss its ps (outcome (expect t its) ps (\<lambda>_ r. outcome (expect 258 r) ps f))"
proof (rule gives_expect [OF assms(1,4)])
  show "gives T act hi True live ((s1, V_none) # ss) r ps (outcome (expect 258 r) ps f)" if "length r < length its" for r live
    by (rule gives_expect [where s' = s2]) (use that assms(2,4,5) in \<open>simp_all add: top_state_def\<close>)
qed (use assms(3) in simp)

text \<open>Tokens between which the buffer is not moved: strings stay where they were read.\<close>

definition steady :: "item list \<Rightarrow> bool" where
  "steady its \<longleftrightarrow> list_all (\<lambda>i. case i of Item _ _ e \<Rightarrow> \<not> e) its"

lemma steady_simps [simp]: "steady []" "steady (Item t x e # its) \<longleftrightarrow> \<not> e \<and> steady its"
  by (simp_all add: steady_def)

lemma gives_expect_steady:
  assumes "goes T hi (top_state ss) t s'" "no_error_rule T" "steady its"
    "\<And>r. t \<noteq> 258 \<Longrightarrow> steady r \<Longrightarrow> length r < length its \<Longrightarrow> gives T act hi True live ((s', V_none) # ss) r ps (f None r)"
    "\<And>p x r. t = 258 \<Longrightarrow> steady r \<Longrightarrow> length r < length its \<Longrightarrow>
       gives T act hi True ((p, x) # live) ((s', V_string p) # ss) r ps (f (Some x) r)"
  shows "gives T act hi fresh live ss its ps (outcome (expect t its) ps f)"
proof (cases "\<exists>x r. its = Item t x False # r \<and> steady r")
  case True
  then obtain x r where its: "its = Item t x False # r" "steady r" by blast
  show ?thesis
  proof (rule gives_proper)
    assume pr: "proper hi its"
    have d: "decision T (top_state ss) t = Some (Shift s')"
      using assms(1) proper_next [OF pr] its(1) unfolding goes_def list_all_iff by fastforce
    have x: "t = 258 \<longleftrightarrow> x \<noteq> None" using pr its by simp
    have w: "waits T (top_state ss)" "s' \<noteq> yyfinal T" using assms(1) by (simp_all add: goes_def)
    show "gives T act hi fresh live ss its ps (outcome (expect t its) ps f)"
      using assms(4,5) its x d w by (auto simp: after_move_def intro!: gives_shift)
  qed
next
  case False
  then have r: "expect t its = Refused" using assms(3) by (cases "(t, its)" rule: expect.cases) auto
  have "258 \<le> t" using assms(1) by (simp add: goes_def)
  then have n: "next_token its \<noteq> t" using False assms(3) by (cases "(t, its)" rule: expect.cases) auto
  show ?thesis
  proof (rule gives_proper)
    assume pr: "proper hi its"
    have "decision T (top_state ss) (next_token its) = Some Fail" "waits T (top_state ss)"
      using assms(1) proper_next [OF pr] n unfolding goes_def list_all_iff by auto
    from gives_error [OF this assms(2)] r show "gives T act hi fresh live ss its ps (outcome (expect t its) ps f)" by simp
  qed
qed

end
