(* ===== verification/SigningSpec.thy ===== *)
theory SigningSpec
  imports ParserRun
begin

text \<open>
  The parser of signing policies against a parser by recursive descent: on the tokens of a text,
  with memory for everything, they give the same answer and the same policies.
\<close>

section \<open>The reference\<close>

text \<open>The subjects in a string: quoted ones, and what follows them when it is not quoted.\<close>

function subjects :: "cstring \<Rightarrow> cstring list" where
  "subjects s =
     (case s of [] \<Rightarrow> []
      | d # r \<Rightarrow>
          if quote_char d then
            (case strchr r d of None \<Rightarrow> []
             | Some k \<Rightarrow> take k r # subjects (dropWhile isspace (drop (Suc k) r)))
          else [s])"
  by pat_completeness auto
termination
  by (relation "measure length") (auto simp: le_imp_less_Suc dropWhile_drop_le)

declare subjects.simps [simp del]

definition to_cells :: "'a list \<Rightarrow> 'a cells option" where
  "to_cells xs = (if xs = [] then None else Some (map Some xs @ [None]))"

definition condition_of :: "int \<Rightarrow> cstring \<Rightarrow> condition option" where
  "condition_of positive s =
     map_option (\<lambda>v. \<lparr>c_subjects = Some v, c_original = Some (cut_original s), c_positive = positive\<rparr>)
       (to_cells (subjects s))"

definition policy_of :: "cstring option \<Rightarrow> condition list \<Rightarrow> policy" where
  "policy_of name conds = \<lparr>p_caname = name, p_self = 0, p_type = TYPE_SIGNING, p_conds = to_cells conds\<rparr>"

definition identity :: "item list \<Rightarrow> cstring option parsed" where
  "identity its =
     (if next_token its = ACCESS_ID_ANYBODY then Taken None (tl its)
      else bind_parsed (expect ACCESS_ID_CA its) (\<lambda>_ r. bind_parsed (expect X509 r) (\<lambda>_ r.
        bind_parsed (expect SUBJECTS r) (\<lambda>x r.
          case subjects (the x) of [] \<Rightarrow> Unsafe | name # _ \<Rightarrow> Taken (Some name) r))))"

definition at_condition :: "item list \<Rightarrow> bool" where
  "at_condition its \<longleftrightarrow> next_token its = COND_SUBJECTS \<or> next_token its = COND_BANNED"

definition one_condition :: "item list \<Rightarrow> condition option parsed" where
  "one_condition its =
     (if at_condition its then
        bind_parsed (expect GLOBUS (tl its)) (\<lambda>_ r. bind_parsed (expect SUBJECTS r) (\<lambda>x r.
          Taken (condition_of (if next_token its = COND_SUBJECTS then 1 else 0) (the x)) r))
      else Refused)"

definition add_front :: "condition list \<Rightarrow> condition option \<Rightarrow> condition list" where
  "add_front cs c = cs @ (case c of None \<Rightarrow> [] | Some c \<Rightarrow> [c])"

text \<open>The conditions of a policy: they come last to first.\<close>

lemma one_condition_shorter: "one_condition its = Taken c r \<Longrightarrow> length r < length its"
  by (auto simp: one_condition_def dest!: bind_TakenD expect_shorter split: if_splits)

function all_conditions :: "item list \<Rightarrow> condition list parsed" where
  "all_conditions its =
     (case one_condition its of
        Unsafe \<Rightarrow> Unsafe | Refused \<Rightarrow> Refused
      | Taken c r \<Rightarrow>
          if at_condition r then
            (case all_conditions r of Unsafe \<Rightarrow> Unsafe | Refused \<Rightarrow> Refused | Taken cs r \<Rightarrow> Taken (add_front cs c) r)
          else Taken (add_front [] c) r)"
  by pat_completeness auto
termination by (relation "measure length") (auto dest: one_condition_shorter)

declare all_conditions.simps [simp del]

definition one_entry :: "item list \<Rightarrow> policy option parsed" where
  "one_entry its =
     bind_parsed (identity its) (\<lambda>name r.
       if next_token r = POS_RIGHTS then
         bind_parsed (expect GLOBUS (tl r)) (\<lambda>_ r. bind_parsed (expect CA_SIGN r) (\<lambda>_ r.
           bind_parsed (all_conditions r) (\<lambda>cs r. Taken (Some (policy_of name cs)) r)))
       else
         bind_parsed (expect NEG_RIGHTS r) (\<lambda>_ r. bind_parsed (expect GLOBUS r) (\<lambda>_ r.
           bind_parsed (expect CA_SIGN r) (\<lambda>_ r. bind_parsed (all_conditions r) (\<lambda>cs r. Taken None r)))))"

lemma all_conditions_shorter: "all_conditions its = Taken c r \<Longrightarrow> length r < length its"
proof (induction its arbitrary: c r rule: all_conditions.induct)
  case (1 its)
  obtain c0 r0 where one: "one_condition its = Taken c0 r0"
    and rest: "r0 = r \<or> at_condition r0 \<and> (\<exists>cs. all_conditions r0 = Taken cs r)"
    using "1.prems" by (subst (asm) all_conditions.simps) (auto split: parsed.splits if_splits)
  from rest show ?case
  proof (elim disjE conjE exE)
    fix cs
    assume "at_condition r0" "all_conditions r0 = Taken cs r"
    from "1.IH" [OF one this] one_condition_shorter [OF one] show ?thesis by simp
  qed (use one_condition_shorter [OF one] in simp)
qed

lemma identity_shorter: "identity its = Taken n r \<Longrightarrow> length r < length its"
  by (cases its) (auto simp: identity_def ACCESS_ID_ANYBODY_def dest!: bind_TakenD expect_shorter split: if_splits list.splits)

lemma one_entry_shorter: "one_entry its = Taken c r \<Longrightarrow> length r < length its"
  by (auto simp: one_entry_def dest!: bind_TakenD expect_shorter identity_shorter all_conditions_shorter split: if_splits)

text \<open>The answer and the policies: those before the first error.\<close>

function policies_of :: "policy list \<Rightarrow> item list \<Rightarrow> (int \<times> policy list) option" where
  "policies_of ps its =
     (case one_entry its of
        Unsafe \<Rightarrow> None
      | Refused \<Rightarrow> Some (1, ps)
      | Taken p r \<Rightarrow>
          (let ps' = ps @ (case p of None \<Rightarrow> [] | Some p \<Rightarrow> [p])
           in if r = [] then Some (0, ps') else policies_of ps' r))"
  by pat_completeness auto
termination by (relation "measure (\<lambda>(ps, its). length its)") (auto dest: one_entry_shorter)

declare policies_of.simps [simp del]

section \<open>The tables\<close>

lemma signing_goes:
  "goes signing_tables 267 1 X509 7" "goes signing_tables 267 7 SUBJECTS 12"
  "goes signing_tables 267 10 GLOBUS 13" "goes signing_tables 267 11 GLOBUS 14"
  "goes signing_tables 267 13 CA_SIGN 15" "goes signing_tables 267 14 CA_SIGN 16"
  "goes signing_tables 267 17 GLOBUS 22" "goes signing_tables 267 18 GLOBUS 23"
  "goes signing_tables 267 22 SUBJECTS 25" "goes signing_tables 267 23 SUBJECTS 26"
  by code_simp+

lemma signing_waits:
  "list_all (waits signing_tables) [0, 3, 5, 15, 16, 20]"
  by code_simp

lemma signing_decisions:
  "list_all (\<lambda>s. list_all (\<lambda>t. decision signing_tables s t =
      Some (if t = ACCESS_ID_CA then Shift 1 else if t = ACCESS_ID_ANYBODY then Shift 2
        else if s = 3 \<and> t = 0 then Shift 8 else Fail)) (0 # [258..267])) [0, 3]"
  "list_all (\<lambda>t. decision signing_tables 5 t =
      Some (if t = POS_RIGHTS then Shift 10 else if t = NEG_RIGHTS then Shift 11 else Fail)) (0 # [258..267])"
  "list_all (\<lambda>s. list_all (\<lambda>t. decision signing_tables s t =
      Some (if t = COND_SUBJECTS then Shift 17 else if t = COND_BANNED then Shift 18
        else if s = 20 then Reduce 7 else Fail)) (0 # [258..267])) [15, 16, 20]"
  by code_simp+

lemma signing_no_error: "no_error_rule signing_tables"
  by code_simp

lemma signing_reduces:
  "reduces signing_tables 2 10" "reduces signing_tables 4 2" "reduces signing_tables 6 6" "reduces signing_tables 9 3"
  "reduces signing_tables 12 9" "reduces signing_tables 19 4" "reduces signing_tables 21 5" "reduces signing_tables 24 8"
  "reduces signing_tables 25 11" "reduces signing_tables 26 12"
  by code_simp+

lemma signing_final: "yyfinal signing_tables = 8"
  by (simp add: signing_tables_def)

lemma signing_goto:
  "yygoto signing_tables 0 18 = Some 6" "yygoto signing_tables 3 18 = Some 6"
  "yygoto signing_tables 0 16 = Some 5" "yygoto signing_tables 3 16 = Some 5"
  "yygoto signing_tables 0 15 = Some 4" "yygoto signing_tables 3 15 = Some 9" "yygoto signing_tables 0 14 = Some 3"
  "yygoto signing_tables 15 19 = Some 20" "yygoto signing_tables 16 19 = Some 20" "yygoto signing_tables 20 19 = Some 20"
  "yygoto signing_tables 15 17 = Some 19" "yygoto signing_tables 16 17 = Some 21" "yygoto signing_tables 20 17 = Some 24"
  by code_simp+

lemma signing_gotos:
  "s = 0 \<or> s = 3 \<Longrightarrow> yygoto signing_tables s 18 = Some 6"
  "s = 0 \<or> s = 3 \<Longrightarrow> yygoto signing_tables s 16 = Some 5"
  "s = 15 \<or> s = 16 \<or> s = 20 \<Longrightarrow> yygoto signing_tables s 19 = Some 20"
  by (auto simp: signing_goto)

lemma signing_lengths:
  "entry (yyr2 signing_tables) 2 = Some 1" "entry (yyr2 signing_tables) 3 = Some 2" "entry (yyr2 signing_tables) 4 = Some 5"
  "entry (yyr2 signing_tables) 5 = Some 5" "entry (yyr2 signing_tables) 6 = Some 1" "entry (yyr2 signing_tables) 7 = Some 1"
  "entry (yyr2 signing_tables) 8 = Some 2" "entry (yyr2 signing_tables) 9 = Some 3" "entry (yyr2 signing_tables) 10 = Some 1"
  "entry (yyr2 signing_tables) 11 = Some 3" "entry (yyr2 signing_tables) 12 = Some 3"
  "entry (yyr1 signing_tables) 2 = Some 14" "entry (yyr1 signing_tables) 3 = Some 14" "entry (yyr1 signing_tables) 4 = Some 15"
  "entry (yyr1 signing_tables) 5 = Some 15" "entry (yyr1 signing_tables) 6 = Some 16" "entry (yyr1 signing_tables) 7 = Some 17"
  "entry (yyr1 signing_tables) 8 = Some 17" "entry (yyr1 signing_tables) 9 = Some 18" "entry (yyr1 signing_tables) 10 = Some 18"
  "entry (yyr1 signing_tables) 11 = Some 19" "entry (yyr1 signing_tables) 12 = Some 19"
  by code_simp+

section \<open>The actions\<close>

lemma to_cells_simps [simp]: "to_cells [] = None" "xs \<noteq> [] \<Longrightarrow> to_cells xs = Some (map Some xs @ [None])"
  by (simp_all add: to_cells_def)

lemma listadd_to_cells: "listadd True (to_cells xs) (Some d) = Some (to_cells (xs @ [d]))"
proof (cases "xs = []")
  case False
  then show ?thesis by (simp add: listadd_def scan_terminated)
qed (simp add: listadd_def)

lemma listadd_add_front: "listadd True (to_cells cs) c = Some (to_cells (add_front cs c))"
  by (cases c) (simp_all add: add_front_def listadd_to_cells del: to_cells_simps(2), simp add: listadd_def)

lemma subjects_of_subjects: "\<exists>m. subjects_of (\<lambda>_. True) n s (to_cells l) = Some (to_cells (l @ subjects s), m)"
proof (induction s arbitrary: n l rule: subjects.induct)
  case (1 s)
  show ?case
  proof (cases s)
    case Nil
    then show ?thesis by (simp add: subjects_of.simps subjects.simps)
  next
    case (Cons d r)
    show ?thesis
    proof (cases "quote_char d")
      case False
      then show ?thesis using Cons listadd_to_cells [of l s]
        by (simp add: subjects_of.simps [of _ _ "d # r"] subjects.simps [of "d # r"] del: to_cells_simps(2))
    next
      case True
      show ?thesis
      proof (cases "strchr r d")
        case None
        then show ?thesis using Cons True
          by (simp add: subjects_of.simps [of _ _ "d # r"] subjects.simps [of "d # r"] del: to_cells_simps(2))
      next
        case (Some k)
        show ?thesis
          using 1 [OF Cons True Some, of "Suc n" "l @ [take k r]"] Cons True Some listadd_to_cells [of l "take k r"]
          by (simp add: subjects_of.simps [of _ _ "d # r"] subjects.simps [of "d # r"] del: to_cells_simps(2))
      qed
    qed
  qed
qed

lemma parse_subjects_subjects: "\<exists>m. parse_subjects (\<lambda>_. True) n (Some s) = Some (to_cells (subjects s), m)"
  using subjects_of_subjects [of n s "[]"] by (simp add: parse_subjects_def)

lemma real_condition_of: "\<exists>m. real_condition (\<lambda>_. True) i s e = Some (condition_of i s, e\<lparr>pe_next := m\<rparr>)"
  using parse_subjects_subjects [of "pe_next e + 2" s]
  by (cases "to_cells (subjects s)") (auto simp: real_condition_def condition_of_def Let_def simp del: to_cells_simps)

lemma access_identity_of:
  "\<exists>m. access_identity (\<lambda>_. True) s e =
    (case subjects s of [] \<Rightarrow> None | name # _ \<Rightarrow> Some (Some (policy_of (Some name) []), e\<lparr>pe_next := m\<rparr>))"
  using parse_subjects_subjects [of "Suc (pe_next e)" s]
  by (cases "subjects s") (auto simp: access_identity_def policy_of_def Let_def)

lemma add_condition_of:
  "\<exists>m. add_condition (\<lambda>_. True) (to_cells cs) c e = Some (V_array (to_cells (add_front cs c)), e\<lparr>pe_next := m\<rparr>)"
  using listadd_add_front [of cs c] by (auto simp: add_condition_def)

lemma good_env_next [simp]: "good_env ps (e\<lparr>pe_next := m\<rparr>) = good_env ps e"
  by (simp add: good_env_def)

lemma add_policy_of:
  assumes "good_env ps e"
  shows "\<exists>e'. add_policy (\<lambda>_. True) p e = Some (V_none, e') \<and> good_env (ps @ (case p of None \<Rightarrow> [] | Some p \<Rightarrow> [p])) e'"
proof (cases p)
  case None
  then show ?thesis using assms by (auto simp: add_policy_def listadd_def good_env_def)
next
  case (Some q)
  then show ?thesis using assms listadd_Some [of "pe_policies e" q] by (auto simp: add_policy_def good_env_def)
qed

section \<open>The runs of the parser\<close>

abbreviation (input) sact :: "(text_ptr yyval, scan_state, env) yyactions" where
  "sact \<equiv> signing_action (\<lambda>_. True) read_text"

abbreviation (input) sgives where
  "sgives \<equiv> gives signing_tables sact 267"

lemma holds_Cons: "holds sc ((p, x) # live) \<longleftrightarrow> read_text sc p = Some x \<and> holds sc live"
  by (simp add: holds_def)

lemma reduced_condition:
  assumes "top_state ss = 15 \<or> top_state ss = 16 \<or> top_state ss = 20" "good_env ps env" "r = 11 \<or> r = 12"
  shows "\<exists>e. good_env ps e \<and> (\<forall>sc. (True \<longrightarrow> holds sc ((p, x) # live)) \<longrightarrow>
    reduced signing_tables sact r ((a, V_string p) # (b, u) # (c, w) # ss) sc env =
      Some ((20, V_cond (condition_of (if r = 11 then 1 else 0) x)) # ss, e))"
proof -
  obtain m where m: "real_condition (\<lambda>_. True) (if r = 11 then 1 else 0) x env =
      Some (condition_of (if r = 11 then 1 else 0) x, env\<lparr>pe_next := m\<rparr>)"
    using real_condition_of by blast
  show ?thesis
    using assms(3)
  proof (elim disjE)
    assume "r = 11"
    then show ?thesis using assms m
      by (intro exI [of _ "env\<lparr>pe_next := m\<rparr>"])
        (simp add: reduced_def signing_lengths signing_action_def holds_Cons signing_gotos(3))
  next
    assume "r = 12"
    then show ?thesis using assms m
      by (intro exI [of _ "env\<lparr>pe_next := m\<rparr>"])
        (simp add: reduced_def signing_lengths signing_action_def holds_Cons signing_gotos(3))
  qed
qed

lemma top_state_Cons [simp]: "top_state ((s, v) # ss) = s"
  by (simp add: top_state_def)

lemma condition_decision:
  assumes "top_state ss = 15 \<or> top_state ss = 16 \<or> top_state ss = 20" "proper 267 its"
  shows "waits signing_tables (top_state ss)" "decision signing_tables (top_state ss) (next_token its) =
      Some (if next_token its = COND_SUBJECTS then Shift 17 else if next_token its = COND_BANNED then Shift 18
        else if top_state ss = 20 then Reduce 7 else Fail)"
proof -
  have s: "top_state ss \<in> set [15, 16, 20]" "top_state ss \<in> set [0, 3, 5, 15, 16, 20]" using assms(1) by auto
  from bspec [OF signing_waits [unfolded list_all_iff] s(2)] show "waits signing_tables (top_state ss)" .
  from bspec [OF bspec [OF signing_decisions(3) [unfolded list_all_iff] s(1)] proper_next [OF assms(2)]]
  show "decision signing_tables (top_state ss) (next_token its) =
      Some (if next_token its = COND_SUBJECTS then Shift 17 else if next_token its = COND_BANNED then Shift 18
        else if top_state ss = 20 then Reduce 7 else Fail)" .
qed

lemma run_condition:
  assumes "top_state ss = 15 \<or> top_state ss = 16 \<or> top_state ss = 20" "top_state ss = 20 \<Longrightarrow> at_condition its"
    "\<And>c r live. length r < length its \<Longrightarrow> sgives True live ((20, V_cond c) # ss) r ps (f c r)"
  shows "sgives fresh live ss its ps (outcome (one_condition its) ps f)"
proof (rule gives_proper)
  assume pr: "proper 267 its"
  note d = condition_decision [OF assms(1) pr]
  have cond: "sgives True live ((25, V_string p) # (22, V_none) # (17, V_none) # ss) r ps (f (condition_of 1 x) r)"
    "sgives True live ((26, V_string p) # (23, V_none) # (18, V_none) # ss) r ps (f (condition_of 0 x) r)"
    if "live = (p, x) # l" "length r < length its" for p x r live l
    unfolding that(1)
    by (rule gives_reduce [where ps' = ps and r = 11 and ss' = "(20, V_cond (condition_of 1 x)) # ss"],
        simp_all add: signing_reduces signing_final assms(3) that(2),
        use reduced_condition [OF assms(1), of ps _ 11 p x l] in simp)
     (rule gives_reduce [where ps' = ps and r = 12 and ss' = "(20, V_cond (condition_of 0 x)) # ss"],
        simp_all add: signing_reduces signing_final assms(3) that(2),
        use reduced_condition [OF assms(1), of ps _ 12 p x l] in simp)
  show "sgives fresh live ss its ps (outcome (one_condition its) ps f)"
  proof (cases its)
    case Nil
    then have "decision signing_tables (top_state ss) (next_token its) = Some Fail"
      using d(2) assms(2) by (auto simp: at_condition_def signing_tokens)
    from gives_error [OF this d(1) signing_no_error] Nil show ?thesis
      by (simp add: one_condition_def at_condition_def signing_tokens)
  next
    case (Cons i r)
    obtain t x e where i: "its = Item t x e # r" using Cons by (cases i) simp
    have x: "t \<noteq> SUBJECTS \<Longrightarrow> x = None" using pr i by (simp add: SUBJECTS_def)
    consider "t = COND_SUBJECTS" | "t = COND_BANNED" | "\<not> at_condition its"
      using i by (auto simp: at_condition_def)
    then show ?thesis
    proof cases
      case 1
      have "sgives True live ((17, V_none) # ss) r ps (outcome (expect GLOBUS r) ps
          (\<lambda>_ r. outcome (expect SUBJECTS r) ps (\<lambda>x r. f (condition_of 1 (the x)) r)))" for live
        unfolding SUBJECTS_def
        by (rule gives_word_string [where ?s1.0 = 22 and ?s2.0 = 25]) (use signing_goes cond(1) signing_no_error i in \<open>simp_all add: signing_tokens\<close>)
      then show ?thesis using 1 i d x
        by (auto simp: one_condition_def at_condition_def outcome_bind signing_tokens signing_final
            intro!: gives_shift [where s = 17])
    next
      case 2
      have "sgives True live ((18, V_none) # ss) r ps (outcome (expect GLOBUS r) ps
          (\<lambda>_ r. outcome (expect SUBJECTS r) ps (\<lambda>x r. f (condition_of 0 (the x)) r)))" for live
        unfolding SUBJECTS_def
        by (rule gives_word_string [where ?s1.0 = 23 and ?s2.0 = 26]) (use signing_goes cond(2) signing_no_error i in \<open>simp_all add: signing_tokens\<close>)
      then show ?thesis using 2 i d x
        by (auto simp: one_condition_def at_condition_def outcome_bind signing_tokens signing_final
            intro!: gives_shift [where s = 18])
    next
      case 3
      then have "decision signing_tables (top_state ss) (next_token its) = Some Fail"
        using d(2) assms(2) by (auto simp: at_condition_def)
      from gives_error [OF this d(1) signing_no_error] 3 show ?thesis by (simp add: one_condition_def)
    qed
  qed
qed

lemma outcome_conditions:
  "outcome (all_conditions its) ps f =
     outcome (one_condition its) ps (\<lambda>c r.
       if at_condition r then outcome (all_conditions r) ps (\<lambda>cs r. f (add_front cs c) r) else f (add_front [] c) r)"
  by (subst all_conditions.simps) (auto split: parsed.splits)

definition conditions_state :: "nat \<Rightarrow> nat" where
  "conditions_state s = (if s = 15 then 19 else if s = 16 then 21 else 24)"

lemma conditions_state_goto: "s = 15 \<or> s = 16 \<or> s = 20 \<Longrightarrow> yygoto signing_tables s 17 = Some (conditions_state s)"
  by (auto simp: conditions_state_def signing_goto)

text \<open>Rules 7 and 8.\<close>

lemma run_array:
  assumes "top_state ss = 15 \<or> top_state ss = 16 \<or> top_state ss = 20"
    "sgives False live ((conditions_state (top_state ss), V_array (to_cells (add_front cs c))) # ss) its ps out"
  shows "sgives False live ((24, V_array (to_cells cs)) # (20, V_cond c) # ss) its ps out"
    "cs = [] \<Longrightarrow> \<not> at_condition its \<Longrightarrow> sgives True live ((20, V_cond c) # ss) its ps out"
proof -
  have red: "\<exists>e. good_env ps e \<and> (\<forall>sc. reduced signing_tables sact 8 ((24, V_array (to_cells cs)) # (20, V_cond c) # ss) sc env =
      Some ((conditions_state (top_state ss), V_array (to_cells (add_front cs c))) # ss, e))"
    "cs = [] \<Longrightarrow> \<exists>e. good_env ps e \<and> (\<forall>sc. reduced signing_tables sact 7 ((20, V_cond c) # ss) sc env =
      Some ((conditions_state (top_state ss), V_array (to_cells (add_front cs c))) # ss, e))"
    if "good_env ps env" for env
    using add_condition_of [of cs c env, where 'a = text_ptr] that
    by (auto simp: reduced_def signing_lengths signing_action_def conditions_state_goto [OF assms(1)] simp del: to_cells_simps(2))
  have fin: "conditions_state (top_state ss) \<noteq> 8" by (simp add: conditions_state_def)
  show "sgives False live ((24, V_array (to_cells cs)) # (20, V_cond c) # ss) its ps out"
    by (rule gives_reduce [OF _ _ _ _ assms(2), where r = 8]) (use red fin in \<open>simp_all add: signing_reduces signing_final\<close>)
  assume cs: "cs = []" "\<not> at_condition its"
  have w: "waits signing_tables 20" using signing_waits by simp
  show "sgives True live ((20, V_cond c) # ss) its ps out"
    by (rule gives_reduce_for [OF _ _ _ _ _ assms(2), where r = 7])
      (use red(2) [OF _ cs(1)] fin cs(2) w condition_decision [of "(20, V_cond c) # ss" its] in
        \<open>simp_all add: signing_final at_condition_def\<close>)
qed

lemma run_conditions:
  assumes "top_state ss = 15 \<or> top_state ss = 16 \<or> top_state ss = 20" "top_state ss = 20 \<Longrightarrow> at_condition its"
    "\<And>cs r live. length r < length its \<Longrightarrow>
      sgives False live ((conditions_state (top_state ss), V_array (to_cells cs)) # ss) r ps (f cs r)"
  shows "sgives fresh live ss its ps (outcome (all_conditions its) ps f)"
  using assms
proof (induction "length its" arbitrary: its ss live fresh f rule: less_induct)
  case less
  show ?case
  proof (subst outcome_conditions, rule run_condition [OF less.prems(1,2)])
    fix c :: "condition option" and r :: "item list" and live
    assume len: "length r < length its"
    show "sgives True live ((20, V_cond c) # ss) r ps
      (if at_condition r then outcome (all_conditions r) ps (\<lambda>cs r. f (add_front cs c) r) else f (add_front [] c) r)"
    proof (cases "at_condition r")
      case True
      have "sgives True live ((20, V_cond c) # ss) r ps (outcome (all_conditions r) ps (\<lambda>cs r. f (add_front cs c) r))"
        by (rule less.hyps [OF len])
          (use True len less.prems(3) run_array(1) [OF less.prems(1)] in \<open>simp_all add: conditions_state_def\<close>)
      then show ?thesis using True by simp
    next
      case False
      then show ?thesis
        using run_array(2) [OF less.prems(1), of _ "[]" c r] less.prems(3) [OF len] by simp
    qed
  qed
qed

lemma identity_decision:
  assumes "top_state ss = 0 \<or> top_state ss = 3" "proper 267 its" "top_state ss = 3 \<Longrightarrow> its \<noteq> []"
  shows "waits signing_tables (top_state ss)" "decision signing_tables (top_state ss) (next_token its) =
      Some (if next_token its = ACCESS_ID_CA then Shift 1 else if next_token its = ACCESS_ID_ANYBODY then Shift 2 else Fail)"
proof -
  have s: "top_state ss \<in> set [0, 3]" "top_state ss \<in> set [0, 3, 5, 15, 16, 20]" using assms(1) by auto
  from bspec [OF signing_waits [unfolded list_all_iff] s(2)] show "waits signing_tables (top_state ss)" .
  have "next_token its \<noteq> 0" if "top_state ss = 3"
    using assms(3) [OF that] assms(2) by (cases its) (auto simp: proper_def next_token_def split: item.splits)
  then show "decision signing_tables (top_state ss) (next_token its) =
      Some (if next_token its = ACCESS_ID_CA then Shift 1 else if next_token its = ACCESS_ID_ANYBODY then Shift 2 else Fail)"
    using bspec [OF bspec [OF signing_decisions(1) [unfolded list_all_iff] s(1)] proper_next [OF assms(2)]] by auto
qed

lemma run_rule6:
  assumes "top_state ss = 0 \<or> top_state ss = 3" "sgives True live ((5, V_policy p) # ss) its ps out"
  shows "sgives True live ((6, V_policy p) # ss) its ps out"
  by (rule gives_reduce [OF _ _ _ _ assms(2), where r = 6])
    (auto simp: signing_reduces signing_final reduced_def signing_lengths signing_action_def signing_gotos(2) [OF assms(1)])

lemma run_anybody:
  assumes "top_state ss = 0 \<or> top_state ss = 3" "sgives True live ((5, V_policy (Some (policy_of None []))) # ss) its ps out"
  shows "sgives True live ((2, v) # ss) its ps out"
proof (rule gives_reduce [OF _ _ _ _ run_rule6 [OF assms], where r = 10])
  show "\<exists>e. good_env ps e \<and> (\<forall>sc. (True \<longrightarrow> holds sc live) \<longrightarrow>
      reduced signing_tables sact 10 ((2, v) # ss) sc env = Some ((6, V_policy (Some (policy_of None []))) # ss, e))"
    if "good_env ps env" for env
    using that by (intro exI [of _ "env\<lparr>pe_next := Suc (pe_next env)\<rparr>"])
      (simp add: reduced_def signing_lengths signing_action_def signing_gotos(1) [OF assms(1)] policy_of_def TYPE_SIGNING_def)
qed (simp_all add: signing_reduces signing_final)

lemma run_ca:
  assumes "top_state ss = 0 \<or> top_state ss = 3"
    "\<And>name. sgives True ((p, x) # live) ((5, V_policy (Some (policy_of name []))) # ss) its ps (f name its)"
  shows "sgives True ((p, x) # live) ((12, V_string p) # (7, v) # (1, w) # ss) its ps
    (outcome (case subjects x of [] \<Rightarrow> Unsafe | name # _ \<Rightarrow> Taken (Some name) its) ps f)"
proof (cases "subjects x")
  case Nil
  have "sgives True ((p, x) # live) ((12, V_string p) # (7, v) # (1, w) # ss) its ps None"
  proof (rule gives_undefined [where r = 9])
    show "reduced signing_tables sact 9 ((12, V_string p) # (7, v) # (1, w) # ss) sc env = None"
      if "good_env ps env" "holds sc ((p, x) # live)" for env sc
      using that access_identity_of [of x env] Nil
      by (simp add: reduced_def signing_lengths signing_action_def holds_Cons)
  qed (simp add: signing_reduces)
  then show ?thesis using Nil by simp
next
  case (Cons name names)
  have "sgives True ((p, x) # live) ((12, V_string p) # (7, v) # (1, w) # ss) its ps (f (Some name) its)"
  proof (rule gives_reduce [OF _ _ _ _ run_rule6 [OF assms(1) assms(2) [of "Some name"]], where r = 9])
    fix env
    assume g: "good_env ps env"
    obtain m where "access_identity (\<lambda>_. True) x env = Some (Some (policy_of (Some name) []), env\<lparr>pe_next := m\<rparr>)"
      using access_identity_of [of x env] Cons by auto
    then show "\<exists>e. good_env ps e \<and> (\<forall>sc. (True \<longrightarrow> holds sc ((p, x) # live)) \<longrightarrow>
        reduced signing_tables sact 9 ((12, V_string p) # (7, v) # (1, w) # ss) sc env =
          Some ((6, V_policy (Some (policy_of (Some name) []))) # ss, e))"
      using g by (intro exI [of _ "env\<lparr>pe_next := m\<rparr>"])
        (simp add: reduced_def signing_lengths signing_action_def holds_Cons signing_gotos(1) [OF assms(1)])
  qed (simp_all add: signing_reduces signing_final)
  then show ?thesis using Cons by simp
qed

lemma run_identity:
  assumes "top_state ss = 0 \<or> top_state ss = 3" "top_state ss = 3 \<Longrightarrow> its \<noteq> []"
    "\<And>name r live. length r < length its \<Longrightarrow> sgives True live ((5, V_policy (Some (policy_of name []))) # ss) r ps (f name r)"
  shows "sgives fresh live ss its ps (outcome (identity its) ps f)"
proof (rule gives_proper)
  assume pr: "proper 267 its"
  note d = identity_decision [OF assms(1) pr assms(2)]
  show "sgives fresh live ss its ps (outcome (identity its) ps f)"
  proof (cases "next_token its = ACCESS_ID_CA \<or> next_token its = ACCESS_ID_ANYBODY")
    case False
    then have "decision signing_tables (top_state ss) (next_token its) = Some Fail" using d(2) by auto
    moreover have "identity its = Refused" using False by (cases "(ACCESS_ID_CA, its)" rule: expect.cases) (auto simp: identity_def)
    ultimately show ?thesis using gives_error [OF _ d(1) signing_no_error] by simp
  next
    case True
    then obtain t x e r where its: "its = Item t x e # r"
      by (cases its) (auto simp: signing_tokens next_token_def split: item.splits)
    then have x: "x = None" using pr True by (auto simp: signing_tokens)
    show ?thesis
    proof (cases "t = ACCESS_ID_ANYBODY")
      case True
      then show ?thesis using its x d run_anybody [OF assms(1) assms(3)]
        by (auto simp: identity_def signing_tokens signing_final intro!: gives_shift [where s = 2])
    next
      case False
      have ca: "sgives True ((p, x) # live) ((12, V_string p) # (7, V_none) # (1, V_none) # ss) r' ps
          (outcome (case subjects x of [] \<Rightarrow> Unsafe | name # _ \<Rightarrow> Taken (Some name) r') ps f)"
        if "length r' < length r" for p x r' live
        by (rule run_ca [OF assms(1)], rule assms(3)) (use that its in simp)
      have "sgives True live ((1, V_none) # ss) r ps (outcome (expect X509 r) ps
          (\<lambda>_ r. outcome (expect SUBJECTS r) ps (\<lambda>x r.
            outcome (case subjects (the x) of [] \<Rightarrow> Unsafe | name # _ \<Rightarrow> Taken (Some name) r) ps f)))" for live
        unfolding SUBJECTS_def
        by (rule gives_word_string [where ?s1.0 = 7 and ?s2.0 = 12])
          (use signing_goes ca signing_no_error in \<open>simp_all add: signing_tokens\<close>)
      then show ?thesis using False True its x d
        by (auto simp: identity_def outcome_bind signing_tokens signing_final intro!: gives_shift [where s = 1])
    qed
  qed
qed

definition entry_state :: "nat \<Rightarrow> nat" where
  "entry_state s = (if s = 0 then 4 else 9)"

lemma entry_state_goto: "s = 0 \<or> s = 3 \<Longrightarrow> yygoto signing_tables s 15 = Some (entry_state s)"
  by (auto simp: entry_state_def signing_goto)

text \<open>Rules 4 and 5.\<close>

lemma run_rights:
  assumes "top_state ss = 0 \<or> top_state ss = 3"
  shows "sgives False live ((entry_state (top_state ss), V_policy (Some (policy_of name cs))) # ss) its ps out \<Longrightarrow>
      sgives False live ((19, V_array (to_cells cs)) # (15, v1) # (13, v2) # (10, v3) # (5, V_policy (Some (policy_of name []))) # ss)
        its ps out"
    "sgives False live ((entry_state (top_state ss), V_policy None) # ss) its ps out \<Longrightarrow>
      sgives False live ((21, V_array (to_cells cs)) # (16, v1) # (14, v2) # (11, v3) # (5, V_policy (Some (policy_of name []))) # ss)
        its ps out"
proof -
  have fin: "entry_state (top_state ss) \<noteq> 8" by (simp add: entry_state_def)
  have red: "reduced signing_tables sact 4 ((19, V_array (to_cells cs)) # (15, v1) # (13, v2) # (10, v3) #
        (5, V_policy (Some (policy_of name []))) # ss) sc env =
      Some ((entry_state (top_state ss), V_policy (Some (policy_of name cs))) # ss, env)"
    "reduced signing_tables sact 5 ((21, V_array (to_cells cs)) # (16, v1) # (14, v2) # (11, v3) #
        (5, V_policy (Some (policy_of name []))) # ss) sc env =
      Some ((entry_state (top_state ss), V_policy None) # ss, env)" for sc env
    by (simp_all add: reduced_def signing_lengths signing_action_def entry_state_goto [OF assms] policy_of_def del: to_cells_simps(2))
  assume a: "sgives False live ((entry_state (top_state ss), V_policy (Some (policy_of name cs))) # ss) its ps out"
  show "sgives False live ((19, V_array (to_cells cs)) # (15, v1) # (13, v2) # (10, v3) # (5, V_policy (Some (policy_of name []))) # ss)
        its ps out"
    by (rule gives_reduce [OF _ _ _ _ a, where r = 4]) (use fin red in \<open>auto simp: signing_reduces signing_final\<close>)
next
  have fin: "entry_state (top_state ss) \<noteq> 8" by (simp add: entry_state_def)
  have red: "reduced signing_tables sact 5 ((21, V_array (to_cells cs)) # (16, v1) # (14, v2) # (11, v3) #
        (5, V_policy (Some (policy_of name []))) # ss) sc env =
      Some ((entry_state (top_state ss), V_policy None) # ss, env)" for sc env
    by (simp add: reduced_def signing_lengths signing_action_def entry_state_goto [OF assms] policy_of_def)
  assume a: "sgives False live ((entry_state (top_state ss), V_policy None) # ss) its ps out"
  show "sgives False live ((21, V_array (to_cells cs)) # (16, v1) # (14, v2) # (11, v3) # (5, V_policy (Some (policy_of name []))) # ss)
        its ps out"
    by (rule gives_reduce [OF _ _ _ _ a, where r = 5]) (use fin red in \<open>auto simp: signing_reduces signing_final\<close>)
qed

lemma next_tokenE: "next_token its = t \<Longrightarrow> t \<noteq> 0 \<Longrightarrow> \<exists>x e r. its = Item t x e # r"
  by (cases its) (auto simp: next_token_def split: item.splits)

lemma expect_other: "next_token its \<noteq> t \<Longrightarrow> expect t its = Refused"
  by (cases "(t, its)" rule: expect.cases) auto

lemma run_entry:
  assumes "top_state ss = 0 \<or> top_state ss = 3" "top_state ss = 3 \<Longrightarrow> its \<noteq> []"
    "\<And>p r live. length r < length its \<Longrightarrow> sgives False live ((entry_state (top_state ss), V_policy p) # ss) r ps (f p r)"
  shows "sgives fresh live ss its ps (outcome (one_entry its) ps f)"
  unfolding one_entry_def outcome_bind
proof (rule run_identity [OF assms(1,2)])
  fix name :: "cstring option" and r :: "item list" and live
  assume len: "length r < length its"
  let ?ss = "(5, V_policy (Some (policy_of name []))) # ss"
  define pos where "pos r = outcome (expect GLOBUS r) ps (\<lambda>_ r. outcome (expect CA_SIGN r) ps (\<lambda>_ r.
    outcome (all_conditions r) ps (\<lambda>cs r. f (Some (policy_of name cs)) r)))" for r
  define neg where "neg r = outcome (expect GLOBUS r) ps (\<lambda>_ r. outcome (expect CA_SIGN r) ps (\<lambda>_ r.
    outcome (all_conditions r) ps (\<lambda>cs r. f None r)))" for r
  have pos: "sgives True live ((10, V_none) # ?ss) r ps (pos r)" if "length r < length its" for r live
    unfolding pos_def
  proof (rule gives_expect [OF _ signing_no_error, where s' = 13])
    fix r' :: "item list" and live
    assume r': "length r' < length r"
    show "sgives True live ((13, V_none) # (10, V_none) # ?ss) r' ps (outcome (expect CA_SIGN r') ps (\<lambda>_ r.
        outcome (all_conditions r) ps (\<lambda>cs r. f (Some (policy_of name cs)) r)))"
    proof (rule gives_expect [OF _ signing_no_error, where s' = 15])
      fix r'' :: "item list" and live
      assume "length r'' < length r'"
      then show "sgives True live ((15, V_none) # (13, V_none) # (10, V_none) # ?ss) r'' ps
          (outcome (all_conditions r'') ps (\<lambda>cs r. f (Some (policy_of name cs)) r))"
        using that r' by (intro run_conditions) (auto simp: conditions_state_def intro!: run_rights(1) [OF assms(1)] assms(3))
    qed (use signing_goes in \<open>simp_all add: signing_tokens\<close>)
  qed (use signing_goes in \<open>simp_all add: signing_tokens\<close>)
  have neg: "sgives True live ((11, V_none) # ?ss) r ps (neg r)" if "length r < length its" for r live
    unfolding neg_def
  proof (rule gives_expect [OF _ signing_no_error, where s' = 14])
    fix r' :: "item list" and live
    assume r': "length r' < length r"
    show "sgives True live ((14, V_none) # (11, V_none) # ?ss) r' ps (outcome (expect CA_SIGN r') ps (\<lambda>_ r.
        outcome (all_conditions r) ps (\<lambda>cs r. f None r)))"
    proof (rule gives_expect [OF _ signing_no_error, where s' = 16])
      fix r'' :: "item list" and live
      assume "length r'' < length r'"
      then show "sgives True live ((16, V_none) # (14, V_none) # (11, V_none) # ?ss) r'' ps
          (outcome (all_conditions r'') ps (\<lambda>cs r. f None r))"
        using that r' by (intro run_conditions) (auto simp: conditions_state_def intro!: run_rights(2) [OF assms(1)] assms(3))
    qed (use signing_goes in \<open>simp_all add: signing_tokens\<close>)
  qed (use signing_goes in \<open>simp_all add: signing_tokens\<close>)
  show "sgives True live ?ss r ps
    (outcome (if next_token r = POS_RIGHTS then
         bind_parsed (expect GLOBUS (tl r)) (\<lambda>_ r. bind_parsed (expect CA_SIGN r) (\<lambda>_ r.
           bind_parsed (all_conditions r) (\<lambda>cs r. Taken (Some (policy_of name cs)) r)))
       else
         bind_parsed (expect NEG_RIGHTS r) (\<lambda>_ r. bind_parsed (expect GLOBUS r) (\<lambda>_ r.
           bind_parsed (expect CA_SIGN r) (\<lambda>_ r. bind_parsed (all_conditions r) (\<lambda>cs r. Taken None r))))) ps f)"
  proof (rule gives_proper)
    assume pr: "proper 267 r"
    have w: "waits signing_tables 5" using signing_waits by simp
    have d: "decision signing_tables 5 (next_token r) =
        Some (if next_token r = POS_RIGHTS then Shift 10 else if next_token r = NEG_RIGHTS then Shift 11 else Fail)"
      by (rule bspec [OF signing_decisions(2) [unfolded list_all_iff] proper_next [OF pr]])
    have fin: "r = Item t x e # r0 \<Longrightarrow> length r0 < length its" for t x e r0 using len by simp
    consider (pos) t x e r0 where "r = Item t x e # r0" "t = POS_RIGHTS" | (neg) t x e r0 where "r = Item t x e # r0" "t = NEG_RIGHTS"
      | (other) "next_token r \<noteq> POS_RIGHTS" "next_token r \<noteq> NEG_RIGHTS"
      using next_tokenE [of r POS_RIGHTS] next_tokenE [of r NEG_RIGHTS] by (fastforce simp: signing_tokens)
    then show "sgives True live ?ss r ps
      (outcome (if next_token r = POS_RIGHTS then
           bind_parsed (expect GLOBUS (tl r)) (\<lambda>_ r. bind_parsed (expect CA_SIGN r) (\<lambda>_ r.
             bind_parsed (all_conditions r) (\<lambda>cs r. Taken (Some (policy_of name cs)) r)))
         else
           bind_parsed (expect NEG_RIGHTS r) (\<lambda>_ r. bind_parsed (expect GLOBUS r) (\<lambda>_ r.
             bind_parsed (expect CA_SIGN r) (\<lambda>_ r. bind_parsed (all_conditions r) (\<lambda>cs r. Taken None r))))) ps f)"
    proof cases
      case pos
      then have "sgives True live ?ss (Item POS_RIGHTS None e # r0) ps (pos r0)"
        using d w fin by (intro gives_shift [where s = 10] \<open>\<And>r live. length r < length its \<Longrightarrow> sgives True live ((10, V_none) # ?ss) r ps (pos r)\<close>)
          (simp_all add: signing_final)
      then show ?thesis using pos pr by (simp add: pos_def outcome_bind signing_tokens)
    next
      case neg
      then have "sgives True live ?ss (Item NEG_RIGHTS None e # r0) ps (neg r0)"
        using d w fin by (intro gives_shift [where s = 11] \<open>\<And>r live. length r < length its \<Longrightarrow> sgives True live ((11, V_none) # ?ss) r ps (neg r)\<close>)
          (simp_all add: signing_final signing_tokens)
      then show ?thesis using neg pr by (simp add: neg_def outcome_bind signing_tokens)
    next
      case other
      then have "decision signing_tables (top_state ?ss) (next_token r) = Some Fail" using d by simp
      from gives_error [OF this _ signing_no_error] w other show ?thesis by (simp add: expect_other)
    qed
  qed
qed

text \<open>Rules 2 and 3.\<close>

lemma run_eacl:
  assumes "ss = [] \<or> ss = [(3, v)]"
    "\<And>w. sgives False live [(3, w)] its (ps @ (case p of None \<Rightarrow> [] | Some p \<Rightarrow> [p])) out"
  shows "sgives False live ((entry_state (top_state ss), V_policy p) # ss) its ps out"
proof -
  define r where "r = (if ss = [] then 2 else 3 :: nat)"
  show ?thesis
  proof (rule gives_reduce [OF _ _ _ _ assms(2) [of V_none], where r = r])
    fix env
    assume "good_env ps env"
    from add_policy_of [OF this, of p, where 'a = text_ptr] obtain e where
      e: "add_policy (\<lambda>_. True) p env = Some (V_none :: text_ptr yyval, e)"
        "good_env (ps @ (case p of None \<Rightarrow> [] | Some p \<Rightarrow> [p])) e" by blast
    then show "\<exists>e. good_env (ps @ (case p of None \<Rightarrow> [] | Some p \<Rightarrow> [p])) e \<and> (\<forall>sc. (False \<longrightarrow> holds sc live) \<longrightarrow>
        reduced signing_tables sact r ((entry_state (top_state ss), V_policy p) # ss) sc env = Some ([(3, V_none)], e))"
      using assms(1) by (intro exI [of _ e])
        (auto simp: r_def reduced_def signing_lengths signing_action_def signing_goto top_state_def)
  qed (use assms(1) in \<open>auto simp: r_def entry_state_def top_state_def signing_reduces signing_final\<close>)
qed

lemma policies_outcome:
  "policies_of ps its = outcome (one_entry its) ps (\<lambda>p r.
     let ps' = ps @ (case p of None \<Rightarrow> [] | Some p \<Rightarrow> [p]) in if r = [] then Some (0, ps') else policies_of ps' r)"
  by (subst policies_of.simps) (simp split: parsed.split)

lemma run_policies:
  assumes "ss = [] \<or> ss = [(3, v)] \<and> its \<noteq> []"
  shows "sgives fresh live ss its ps (policies_of ps its)"
  using assms
proof (induction "length its" arbitrary: its ss v ps live fresh rule: less_induct)
  case less
  have top: "top_state ss = 0 \<or> top_state ss = 3" "top_state ss = 3 \<Longrightarrow> its \<noteq> []"
    using less.prems by (auto simp: top_state_def)
  show ?case
  proof (subst policies_outcome, rule run_entry [OF top])
    fix p :: "policy option" and r :: "item list" and live
    assume len: "length r < length its"
    let ?ps = "ps @ (case p of None \<Rightarrow> [] | Some p \<Rightarrow> [p])"
    have w: "waits signing_tables 3" using signing_waits by simp
    have acc: "decision signing_tables 3 0 = Some (Shift (yyfinal signing_tables))"
      using signing_decisions(1) by (simp add: signing_final signing_tokens)
    have "sgives False live [(3, w)] r ?ps (if r = [] then Some (0, ?ps) else policies_of ?ps r)" for w
      using less.hyps [OF len, of "[(3, w)]" w False live ?ps] gives_accept [of signing_tables "[(3, w)]"] \<open>waits signing_tables 3\<close> acc
      by (cases "r = []") simp_all
    then show "sgives False live ((entry_state (top_state ss), V_policy p) # ss) r ps
        (let ps' = ?ps in if r = [] then Some (0, ps') else policies_of ps' r)"
      using less.prems unfolding Let_def by (intro run_eacl [where v = v]) auto
  qed
qed

text \<open>The parser answers as the parser by recursive descent does.\<close>

lemma signingparse_answers:
  assumes "delivers V_string V_none [] its ys" "proper 267 its" "length its < YYMAXDEPTH - 2" "terminated policies"
  shows "fits (signingparse (\<lambda>_. True) (\<lambda>_. True) read_text ys sc policies) (policies_of (contents policies) its)"
proof -
  have "sgives True [] [] its (contents policies) (policies_of (contents policies) its)"
    by (rule run_policies) simp
  moreover have "good_env (contents policies) \<lparr>pe_policies = policies, pe_next = 0\<rparr>"
    using assms(4) by (simp add: good_env_def)
  ultimately have "freshly signing_tables sact [] [] its \<lparr>pe_policies = policies, pe_next = 0\<rparr>
      (\<lambda>R. fits R (policies_of (contents policies) its))"
    using assms(2,3) by (simp add: gives_def roomy_def)
  moreover have "feeds None None sc ys [] its"
    using assms(1) by (intro feeds.fresh) (simp_all add: holds_def)
  ultimately show ?thesis by (simp add: freshly_def signingparse_def yyparse_def)
qed

end
