(* ===== verification/NamespaceSpec.thy ===== *)
theory NamespaceSpec
  imports ParserRun NamespaceParser SigningSpec
begin

text \<open>
  The parser of namespaces against a parser by recursive descent, on tokens between which the buffer
  of the scanner is not moved: the name of a rule is read after the rule's last token.
\<close>

section \<open>The reference\<close>

definition namespace_subject :: "int \<Rightarrow> cstring \<Rightarrow> condition" where
  "namespace_subject positive s =
     \<lparr>c_subjects = Some [Some s, None], c_original = Some s, c_positive = positive\<rparr>"

definition namespace_of :: "cstring option \<Rightarrow> condition \<Rightarrow> policy" where
  "namespace_of name cond =
     \<lparr>p_caname = name, p_self = (if name = None then 1 else 0), p_type = TYPE_NAMESPACE, p_conds = Some [Some cond, None]\<rparr>"

definition permission :: "item list \<Rightarrow> condition parsed" where
  "permission its =
     bind_parsed (if next_token its = PERMIT then Taken 1 (tl its) else if next_token its = DENY then Taken 0 (tl its) else Refused)
       (\<lambda>i r. bind_parsed (expect SUBJECT_WORD r) (\<lambda>_ r. bind_parsed (expect SUBJECT r) (\<lambda>x r.
          Taken (namespace_subject i (the x)) r)))"

definition issuer :: "item list \<Rightarrow> cstring option parsed" where
  "issuer its =
     (if next_token its = SELF then Taken None (tl its) else expect SUBJECT its)"

definition one_rule :: "item list \<Rightarrow> policy parsed" where
  "one_rule its =
     bind_parsed (expect TO its) (\<lambda>_ r. bind_parsed (expect ISSUER r) (\<lambda>_ r. bind_parsed (issuer r) (\<lambda>name r.
       bind_parsed (permission r) (\<lambda>c r. Taken (namespace_of name c) r))))"

lemma permission_shorter: "permission its = Taken c r \<Longrightarrow> length r < length its"
  by (cases its) (auto simp: permission_def PERMIT_def DENY_def dest!: bind_TakenD expect_shorter split: if_splits)

lemma issuer_shorter: "issuer its = Taken c r \<Longrightarrow> length r < length its"
  by (cases its) (auto simp: issuer_def SELF_def dest!: expect_shorter split: if_splits)

lemma one_rule_shorter: "one_rule its = Taken c r \<Longrightarrow> length r < length its"
  by (auto simp: one_rule_def dest!: bind_TakenD expect_shorter issuer_shorter permission_shorter)

function namespaces_of :: "policy list \<Rightarrow> item list \<Rightarrow> (int \<times> policy list) option" where
  "namespaces_of ps its =
     (case one_rule its of
        Unsafe \<Rightarrow> None
      | Refused \<Rightarrow> Some (1, ps)
      | Taken p r \<Rightarrow> if r = [] then Some (0, ps @ [p]) else namespaces_of (ps @ [p]) r)"
  by pat_completeness auto
termination by (relation "measure (\<lambda>(ps, its). length its)") (auto dest: one_rule_shorter)

declare namespaces_of.simps [simp del]

section \<open>The tables\<close>

lemma namespaces_goes:
  "goes namespaces_tables 264 0 TO 1" "goes namespaces_tables 264 1 ISSUER 4"
  "goes namespaces_tables 264 12 SUBJECT_WORD 14" "goes namespaces_tables 264 14 SUBJECT 15"
  by code_simp+

lemma namespaces_waits: "list_all (waits namespaces_tables) [0, 2, 4, 7, 8]"
  by code_simp

lemma namespaces_decisions:
  "list_all (\<lambda>t. decision namespaces_tables 2 t =
      Some (if t = TO then Shift 1 else if t = 0 then Shift 5 else Fail)) (0 # [258..264])"
  "list_all (\<lambda>t. decision namespaces_tables 4 t =
      Some (if t = SUBJECT then Shift 7 else if t = SELF then Shift 8 else Fail)) (0 # [258..264])"
  "list_all (\<lambda>s. list_all (\<lambda>t. decision namespaces_tables s t =
      Some (if t = PERMIT then Shift 9 else if t = DENY then Shift 10 else Fail)) (0 # [258..264])) [7, 8]"
  by code_simp+

lemma namespaces_no_error: "no_error_rule namespaces_tables"
  by code_simp

lemma namespaces_reduces:
  "reduces namespaces_tables 3 2" "reduces namespaces_tables 6 3" "reduces namespaces_tables 9 7"
  "reduces namespaces_tables 10 8" "reduces namespaces_tables 11 4" "reduces namespaces_tables 13 5"
  "reduces namespaces_tables 15 6"
  by code_simp+

lemma namespaces_final: "yyfinal namespaces_tables = 5"
  by (simp add: namespaces_tables_def)

lemma namespaces_goto:
  "yygoto namespaces_tables 0 12 = Some 3" "yygoto namespaces_tables 2 12 = Some 6" "yygoto namespaces_tables 0 11 = Some 2"
  "yygoto namespaces_tables 7 13 = Some 11" "yygoto namespaces_tables 8 13 = Some 13"
  "yygoto namespaces_tables 7 14 = Some 12" "yygoto namespaces_tables 8 14 = Some 12"
  by code_simp+

lemma namespaces_lengths:
  "entry (yyr2 namespaces_tables) 2 = Some 1" "entry (yyr2 namespaces_tables) 3 = Some 2"
  "entry (yyr2 namespaces_tables) 4 = Some 4" "entry (yyr2 namespaces_tables) 5 = Some 4"
  "entry (yyr2 namespaces_tables) 6 = Some 3" "entry (yyr2 namespaces_tables) 7 = Some 1"
  "entry (yyr2 namespaces_tables) 8 = Some 1"
  "entry (yyr1 namespaces_tables) 2 = Some 11" "entry (yyr1 namespaces_tables) 3 = Some 11"
  "entry (yyr1 namespaces_tables) 4 = Some 12" "entry (yyr1 namespaces_tables) 5 = Some 12"
  "entry (yyr1 namespaces_tables) 6 = Some 13" "entry (yyr1 namespaces_tables) 7 = Some 14"
  "entry (yyr1 namespaces_tables) 8 = Some 14"
  by code_simp+

section \<open>The runs of the parser\<close>

abbreviation (input) nact :: "(text_ptr yyval, scan_state, env) yyactions" where
  "nact \<equiv> namespaces_action (\<lambda>_. True) read_text"

abbreviation (input) ngives where
  "ngives \<equiv> gives namespaces_tables nact 264"

definition permission_state :: "nat \<Rightarrow> nat" where
  "permission_state s = (if s = 7 then 11 else 13)"

lemma permission_gotos:
  "s = 7 \<or> s = 8 \<Longrightarrow> yygoto namespaces_tables s 13 = Some (permission_state s)"
  "s = 7 \<or> s = 8 \<Longrightarrow> yygoto namespaces_tables s 14 = Some 12"
  by (auto simp: permission_state_def namespaces_goto)

text \<open>Rule 6, and rules 7 and 8.\<close>

lemma run_subject:
  assumes "top_state ss = 7 \<or> top_state ss = 8"
    "ngives True ((p, x) # live) ((permission_state (top_state ss), V_cond (Some (namespace_subject i x))) # ss) its ps out"
  shows "ngives True ((p, x) # live) ((15, V_string p) # (14, v) # (12, V_integer i) # ss) its ps out"
proof (rule gives_reduce [OF _ _ _ _ assms(2), where r = 6])
  show "\<exists>e. good_env ps e \<and> (\<forall>sc. (True \<longrightarrow> holds sc ((p, x) # live)) \<longrightarrow>
      reduced namespaces_tables nact 6 ((15, V_string p) # (14, v) # (12, V_integer i) # ss) sc env =
        Some ((permission_state (top_state ss), V_cond (Some (namespace_subject i x))) # ss, e))"
    if "good_env ps env" for env
    using that by (intro exI [of _ "env\<lparr>pe_next := pe_next env + 3\<rparr>"])
      (simp add: reduced_def namespaces_lengths namespaces_action_def holds_Cons permission_gotos(1) [OF assms(1)]
        namespace_condition_def namespace_subject_def listadd_def Let_def)
qed (simp_all add: namespaces_reduces namespaces_final permission_state_def)

lemma run_answer:
  assumes "top_state ss = 7 \<or> top_state ss = 8"
  shows "ngives True live ((12, V_integer 1) # ss) its ps out \<Longrightarrow> ngives True live ((9, v) # ss) its ps out"
    "ngives True live ((12, V_integer 0) # ss) its ps out \<Longrightarrow> ngives True live ((10, v) # ss) its ps out"
proof -
  assume a: "ngives True live ((12, V_integer 1) # ss) its ps out"
  show "ngives True live ((9, v) # ss) its ps out"
    by (rule gives_reduce [OF _ _ _ _ a, where r = 7])
      (auto simp: namespaces_reduces namespaces_final reduced_def namespaces_lengths namespaces_action_def
        permission_gotos(2) [OF assms])
next
  assume a: "ngives True live ((12, V_integer 0) # ss) its ps out"
  show "ngives True live ((10, v) # ss) its ps out"
    by (rule gives_reduce [OF _ _ _ _ a, where r = 8])
      (auto simp: namespaces_reduces namespaces_final reduced_def namespaces_lengths namespaces_action_def
        permission_gotos(2) [OF assms])
qed

lemma run_subject_words:
  assumes "top_state ss = 7 \<or> top_state ss = 8" "steady its"
    "\<And>p x r. steady r \<Longrightarrow> length r < length its \<Longrightarrow>
      ngives True ((p, x) # live) ((permission_state (top_state ss), V_cond (Some (namespace_subject i x))) # ss) r ps
        (f (namespace_subject i x) r)"
  shows "ngives fresh live ((12, V_integer i) # ss) its ps (outcome (expect SUBJECT_WORD its) ps
      (\<lambda>_ r. outcome (expect SUBJECT r) ps (\<lambda>x r. f (namespace_subject i (the x)) r)))"
proof (rule gives_expect_steady [OF _ namespaces_no_error assms(2), where s' = 14])
  fix r
  assume r: "steady r" "length r < length its"
  show "ngives True live ((14, V_none) # (12, V_integer i) # ss) r ps
      (outcome (expect SUBJECT r) ps (\<lambda>x r. f (namespace_subject i (the x)) r))"
    by (rule gives_expect_steady [OF _ namespaces_no_error r(1), where s' = 15])
      (use r namespaces_goes in \<open>auto simp: SUBJECT_def intro!: run_subject [OF assms(1)] assms(3)\<close>)
qed (use namespaces_goes in \<open>simp_all add: namespaces_tokens\<close>)

lemma run_permission:
  assumes "top_state ss = 7 \<or> top_state ss = 8" "steady its"
    "\<And>c p x r. steady r \<Longrightarrow> length r < length its \<Longrightarrow>
      ngives True ((p, x) # live) ((permission_state (top_state ss), V_cond (Some c)) # ss) r ps (f c r)"
  shows "ngives fresh live ss its ps (outcome (permission its) ps f)"
proof (rule gives_proper)
  assume pr: "proper 264 its"
  have s: "top_state ss \<in> set [7, 8]" "top_state ss \<in> set [0, 2, 4, 7, 8]" using assms(1) by auto
  from bspec [OF namespaces_waits [unfolded list_all_iff] s(2)] have w: "waits namespaces_tables (top_state ss)" .
  from bspec [OF bspec [OF namespaces_decisions(3) [unfolded list_all_iff] s(1)] proper_next [OF pr]]
  have d: "decision namespaces_tables (top_state ss) (next_token its) =
      Some (if next_token its = PERMIT then Shift 9 else if next_token its = DENY then Shift 10 else Fail)" .
  show "ngives fresh live ss its ps (outcome (permission its) ps f)"
  proof (cases "next_token its = PERMIT \<or> next_token its = DENY")
    case False
    then have "decision namespaces_tables (top_state ss) (next_token its) = Some Fail" using d by auto
    from gives_error [OF this w namespaces_no_error] False show ?thesis by (simp add: permission_def)
  next
    case True
    then obtain t x e r where its: "its = Item t x e # r" "t = PERMIT \<or> t = DENY"
      using next_tokenE [of its PERMIT] next_tokenE [of its DENY] by (fastforce simp: namespaces_tokens)
    then have x: "x = None" "e = False" "steady r" using pr assms(2) by (auto simp: namespaces_tokens)
    have "ngives True live ((12, V_integer i) # ss) r ps (outcome (expect SUBJECT_WORD r) ps
        (\<lambda>_ r. outcome (expect SUBJECT r) ps (\<lambda>x r. f (namespace_subject i (the x)) r)))" for i
      by (rule run_subject_words [OF assms(1) x(3)]) (use assms(3) its(1) in simp)
    note words = this run_answer [OF assms(1) this]
    from its(2) show ?thesis
    proof
      assume "t = PERMIT"
      then show ?thesis
        using its(1) x d w words
        by (auto simp: permission_def outcome_bind namespaces_tokens namespaces_final after_move_def intro!: gives_shift [where s = 9])
    next
      assume "t = DENY"
      then show ?thesis
        using its(1) x d w words
        by (auto simp: permission_def outcome_bind namespaces_tokens namespaces_final after_move_def intro!: gives_shift [where s = 10])
    qed
  qed
qed

definition rule_state :: "nat \<Rightarrow> nat" where
  "rule_state s = (if s = 0 then 3 else 6)"

lemma rule_state_goto: "s = 0 \<or> s = 2 \<Longrightarrow> yygoto namespaces_tables s 12 = Some (rule_state s)"
  by (auto simp: rule_state_def namespaces_goto)

text \<open>Rules 4 and 5.\<close>

lemma run_named:
  assumes "top_state ss = 0 \<or> top_state ss = 2"
    "ngives True ((p2, x2) # (p, x) # live) ((rule_state (top_state ss), V_policy (Some (namespace_of (Some x) c))) # ss) its ps out"
  shows "ngives True ((p2, x2) # (p, x) # live)
    ((11, V_cond (Some c)) # (7, V_string p) # (4, v1) # (1, v2) # ss) its ps out"
proof (rule gives_reduce [OF _ _ _ _ assms(2), where r = 4])
  show "\<exists>e. good_env ps e \<and> (\<forall>sc. (True \<longrightarrow> holds sc ((p2, x2) # (p, x) # live)) \<longrightarrow>
      reduced namespaces_tables nact 4 ((11, V_cond (Some c)) # (7, V_string p) # (4, v1) # (1, v2) # ss) sc env =
        Some ((rule_state (top_state ss), V_policy (Some (namespace_of (Some x) c))) # ss, e))"
    if "good_env ps env" for env
    using that by (intro exI [of _ "env\<lparr>pe_next := pe_next env + 3\<rparr>"])
      (simp add: reduced_def namespaces_lengths namespaces_action_def holds_Cons rule_state_goto [OF assms(1)]
        namespace_policy_def namespace_of_def listadd_def Let_def)
qed (simp_all add: namespaces_reduces namespaces_final rule_state_def)

lemma run_self:
  assumes "top_state ss = 0 \<or> top_state ss = 2"
    "ngives True live ((rule_state (top_state ss), V_policy (Some (namespace_of None c))) # ss) its ps out"
  shows "ngives True live ((13, V_cond (Some c)) # (8, v) # (4, v1) # (1, v2) # ss) its ps out"
proof (rule gives_reduce [OF _ _ _ _ assms(2), where r = 5])
  show "\<exists>e. good_env ps e \<and> (\<forall>sc. (True \<longrightarrow> holds sc live) \<longrightarrow>
      reduced namespaces_tables nact 5 ((13, V_cond (Some c)) # (8, v) # (4, v1) # (1, v2) # ss) sc env =
        Some ((rule_state (top_state ss), V_policy (Some (namespace_of None c))) # ss, e))"
    if "good_env ps env" for env
    using that by (intro exI [of _ "env\<lparr>pe_next := pe_next env + 2\<rparr>"])
      (simp add: reduced_def namespaces_lengths namespaces_action_def rule_state_goto [OF assms(1)]
        namespace_policy_def namespace_of_def listadd_def Let_def)
qed (simp_all add: namespaces_reduces namespaces_final rule_state_def)

lemma run_issuer:
  assumes "top_state ss = 0 \<or> top_state ss = 2" "steady its"
    "\<And>name c r live. steady r \<Longrightarrow> length r < length its \<Longrightarrow>
      ngives True live ((rule_state (top_state ss), V_policy (Some (namespace_of name c))) # ss) r ps (f (namespace_of name c) r)"
  shows "ngives fresh live ((4, v1) # (1, v2) # ss) its ps (outcome (issuer its) ps
      (\<lambda>name r. outcome (permission r) ps (\<lambda>c r. f (namespace_of name c) r)))"
proof (rule gives_proper)
  assume pr: "proper 264 its"
  have w: "waits namespaces_tables 4" using namespaces_waits by simp
  from bspec [OF namespaces_decisions(2) [unfolded list_all_iff] proper_next [OF pr]]
  have d: "decision namespaces_tables 4 (next_token its) =
      Some (if next_token its = SUBJECT then Shift 7 else if next_token its = SELF then Shift 8 else Fail)" .
  show "ngives fresh live ((4, v1) # (1, v2) # ss) its ps (outcome (issuer its) ps
      (\<lambda>name r. outcome (permission r) ps (\<lambda>c r. f (namespace_of name c) r)))"
  proof (cases "next_token its = SUBJECT \<or> next_token its = SELF")
    case False
    then have "decision namespaces_tables (top_state ((4, v1) # (1, v2) # ss)) (next_token its) = Some Fail" using d by auto
    from gives_error [OF this _ namespaces_no_error] w False show ?thesis by (simp add: issuer_def expect_other)
  next
    case True
    then obtain t x e r where its: "its = Item t x e # r" "t = SUBJECT \<or> t = SELF"
      using next_tokenE [of its SUBJECT] next_tokenE [of its SELF] by (fastforce simp: namespaces_tokens)
    then have x: "t = SUBJECT \<longleftrightarrow> x \<noteq> None" "e = False" "steady r" using pr assms(2) by (auto simp: namespaces_tokens)
    have named: "ngives True ((p, y) # live) ((7, V_string p) # (4, v1) # (1, v2) # ss) r ps
        (outcome (permission r) ps (\<lambda>c r. f (namespace_of (Some y) c) r))" for p y
      by (rule run_permission [OF _ x(3)])
        (use its(1) in \<open>auto simp: permission_state_def simp del: One_nat_def intro!: run_named [OF assms(1)] assms(3)\<close>)
    have self: "ngives True live ((8, V_none) # (4, v1) # (1, v2) # ss) r ps
        (outcome (permission r) ps (\<lambda>c r. f (namespace_of None c) r))"
      by (rule run_permission [OF _ x(3)])
        (use its(1) in \<open>auto simp: permission_state_def simp del: One_nat_def intro!: run_self [OF assms(1)] assms(3)\<close>)
    from its(2) show ?thesis
    proof
      assume "t = SUBJECT"
      then show ?thesis
        using its(1) x d w named
        by (auto simp: issuer_def outcome_bind namespaces_tokens namespaces_final after_move_def intro!: gives_shift [where s = 7])
    next
      assume "t = SELF"
      then show ?thesis
        using its(1) x d w self
        by (auto simp: issuer_def outcome_bind namespaces_tokens namespaces_final after_move_def intro!: gives_shift [where s = 8])
    qed
  qed
qed

lemma run_rule:
  assumes "top_state ss = 0 \<or> top_state ss = 2" "top_state ss = 2 \<Longrightarrow> its \<noteq> []" "steady its"
    "\<And>p r live. steady r \<Longrightarrow> length r < length its \<Longrightarrow>
      ngives True live ((rule_state (top_state ss), V_policy (Some p)) # ss) r ps (f p r)"
  shows "ngives fresh live ss its ps (outcome (one_rule its) ps f)"
proof -
  have rest: "ngives True live ((1, V_none) # ss) r ps (outcome (expect ISSUER r) ps (\<lambda>_ r. outcome (issuer r) ps
      (\<lambda>name r. outcome (permission r) ps (\<lambda>c r. f (namespace_of name c) r))))"
    if "steady r" "length r < length its" for r live
  proof (rule gives_expect_steady [OF _ namespaces_no_error that(1), where s' = 4])
    fix r'
    assume r': "steady r'" "length r' < length r"
    show "ngives True live ((4, V_none) # (1, V_none) # ss) r' ps (outcome (issuer r') ps
        (\<lambda>name r. outcome (permission r) ps (\<lambda>c r. f (namespace_of name c) r)))"
      by (rule run_issuer [OF assms(1) r'(1)]) (use assms(4) r' that in simp)
  qed (use namespaces_goes in \<open>simp_all add: namespaces_tokens\<close>)
  have eq: "outcome (one_rule its) ps f = outcome (expect TO its) ps (\<lambda>_ r. outcome (expect ISSUER r) ps (\<lambda>_ r.
      outcome (issuer r) ps (\<lambda>name r. outcome (permission r) ps (\<lambda>c r. f (namespace_of name c) r))))"
    by (simp add: one_rule_def outcome_bind)
  show ?thesis
  proof (cases "top_state ss = 0")
    case True
    show ?thesis unfolding eq
      by (rule gives_expect_steady [OF _ namespaces_no_error assms(3), where s' = 1])
        (use True namespaces_goes rest in \<open>simp_all add: namespaces_tokens\<close>)
  next
    case False
    then have top: "top_state ss = 2" using assms(1) by simp
    show ?thesis
    proof (rule gives_proper)
      assume pr: "proper 264 its"
      have w: "waits namespaces_tables 2" using namespaces_waits by simp
      have nz: "next_token its \<noteq> 0"
        using assms(2) [OF top] pr by (cases its) (auto simp: proper_def next_token_def split: item.splits)
      have d: "decision namespaces_tables 2 (next_token its) = Some (if next_token its = TO then Shift 1 else Fail)"
        using bspec [OF namespaces_decisions(1) [unfolded list_all_iff] proper_next [OF pr]] nz by auto
      show "ngives fresh live ss its ps (outcome (one_rule its) ps f)"
      proof (cases "next_token its = TO")
        case True
        then obtain x e r where its: "its = Item TO x e # r"
          using next_tokenE [of its TO] by (auto simp: namespaces_tokens)
        then show ?thesis unfolding eq
          using pr assms(3) d w top rest [of r]
          by (auto simp: namespaces_tokens namespaces_final after_move_def simp del: One_nat_def intro!: gives_shift [where s = 1])
      next
        case False
        then show ?thesis unfolding eq
          using gives_error [OF _ _ namespaces_no_error, of ss its] d w top by (simp add: expect_other)
      qed
    qed
  qed
qed

text \<open>Rules 2 and 3.\<close>

lemma run_rules:
  assumes "ss = [] \<or> ss = [(2, v)]" "\<And>w. ngives True live [(2, w)] its (ps @ [p]) out"
  shows "ngives True live ((rule_state (top_state ss), V_policy (Some p)) # ss) its ps out"
proof -
  define r where "r = (if ss = [] then 2 else 3 :: nat)"
  show ?thesis
  proof (rule gives_reduce [OF _ _ _ _ assms(2) [of V_none], where r = r])
    fix env
    assume "good_env ps env"
    from add_policy_of [OF this, of "Some p", where 'a = text_ptr] obtain e where
      e: "add_policy (\<lambda>_. True) (Some p) env = Some (V_none :: text_ptr yyval, e)" "good_env (ps @ [p]) e" by auto
    then show "\<exists>e. good_env (ps @ [p]) e \<and> (\<forall>sc. (True \<longrightarrow> holds sc live) \<longrightarrow>
        reduced namespaces_tables nact r ((rule_state (top_state ss), V_policy (Some p)) # ss) sc env = Some ([(2, V_none)], e))"
      using assms(1) by (intro exI [of _ e])
        (auto simp: r_def reduced_def namespaces_lengths namespaces_action_def namespaces_goto top_state_def)
  qed (use assms(1) in \<open>auto simp: r_def rule_state_def top_state_def namespaces_reduces namespaces_final\<close>)
qed

lemma namespaces_outcome:
  "namespaces_of ps its = outcome (one_rule its) ps (\<lambda>p r. if r = [] then Some (0, ps @ [p]) else namespaces_of (ps @ [p]) r)"
  by (subst namespaces_of.simps) (simp split: parsed.split)

lemma run_namespaces:
  assumes "ss = [] \<or> ss = [(2, v)] \<and> its \<noteq> []" "steady its"
  shows "ngives fresh live ss its ps (namespaces_of ps its)"
  using assms
proof (induction "length its" arbitrary: its ss v ps live fresh rule: less_induct)
  case less
  have top: "top_state ss = 0 \<or> top_state ss = 2" "top_state ss = 2 \<Longrightarrow> its \<noteq> []"
    using less.prems by (auto simp: top_state_def)
  show ?case
  proof (subst namespaces_outcome, rule run_rule [OF top less.prems(2)])
    fix p :: policy and r :: "item list" and live
    assume r: "steady r" "length r < length its"
    have w: "waits namespaces_tables 2" using namespaces_waits by simp
    have acc: "decision namespaces_tables 2 0 = Some (Shift (yyfinal namespaces_tables))"
      using namespaces_decisions(1) by (simp add: namespaces_final namespaces_tokens)
    have "ngives True live [(2, w)] r (ps @ [p]) (if r = [] then Some (0, ps @ [p]) else namespaces_of (ps @ [p]) r)" for w
      using less.hyps [OF r(2), of "[(2, w)]" w True live "ps @ [p]"] gives_accept [of namespaces_tables "[(2, w)]"]
        \<open>waits namespaces_tables 2\<close> acc r(1)
      by (cases "r = []") simp_all
    then show "ngives True live ((rule_state (top_state ss), V_policy (Some p)) # ss) r ps
        (if r = [] then Some (0, ps @ [p]) else namespaces_of (ps @ [p]) r)"
      using less.prems by (intro run_rules [where v = v]) auto
  qed
qed

lemma namespacesparse_answers:
  assumes "delivers V_string V_none [] its ys" "proper 264 its" "length its < YYMAXDEPTH - 2" "terminated policies" "steady its"
  shows "fits (namespacesparse (\<lambda>_. True) (\<lambda>_. True) read_text ys sc policies) (namespaces_of (contents policies) its)"
proof -
  have "ngives True [] [] its (contents policies) (namespaces_of (contents policies) its)"
    by (rule run_namespaces) (use assms(5) in simp_all)
  moreover have "good_env (contents policies) \<lparr>pe_policies = policies, pe_next = 0\<rparr>"
    using assms(4) by (simp add: good_env_def)
  ultimately have "freshly namespaces_tables nact [] [] its \<lparr>pe_policies = policies, pe_next = 0\<rparr>
      (\<lambda>R. fits R (namespaces_of (contents policies) its))"
    using assms(2,3) by (simp add: gives_def roomy_def)
  moreover have "feeds None None sc ys [] its"
    using assms(1) by (intro feeds.fresh) (simp_all add: holds_def)
  ultimately show ?thesis by (simp add: freshly_def namespacesparse_def yyparse_def)
qed

end
