(* ===== verification/SigningScanner.thy ===== *)
theory SigningScanner
  imports FlexText SigningParser
begin

text \<open>
  The scanner of signing policies (src/src/sslutils/lex.signing.c, generated from signing_policy.l
  and kept in the repository): its tables row by row, the actions of its rules, and that the tables
  are what the skeleton needs.
\<close>

section \<open>Tables\<close>

definition signing_rows_0 :: "yyrow list" where
  "signing_rows_0 =
    [(0, []),
     (8, [(0, 7), (10, 9), (34, 10), (35, 11), (39, 12), (67, 13), (88, 14), (97, 15), (99, 16), (103, 17), (110, 18), (112, 19)]),
     (8, [(0, 7), (10, 9), (34, 10), (35, 11), (39, 12), (67, 13), (88, 14), (97, 15), (99, 16), (103, 17), (110, 18), (112, 19)]),
     (20, [(0, 7), (39, 21)]), (20, [(0, 7), (39, 21)]), (22, [(0, 7), (34, 23)]), (22, [(0, 7), (34, 23)]),
     (-7, [])]"

definition signing_rows_1 :: "yyrow list" where
  "signing_rows_1 =
    [(-8, [(0, 7)]), (-9, [(0, 7)]), (-10, [(0, 7)]), (24, [(0, 7), (10, -11)]), (-12, [(0, 7)]),
     (-13, [(0, 7), (65, 25)]), (-14, [(0, 7), (53, 26)]), (-15, [(0, 7), (99, 27)])]"

definition signing_rows_2 :: "yyrow list" where
  "signing_rows_2 =
    [(-16, [(0, 7), (111, 28)]), (-17, [(0, 7), (108, 29)]), (-18, [(0, 7), (101, 30)]),
     (-19, [(0, 7), (111, 31)]), (32, [(0, 7), (39, 33)]), (-21, [(0, 7)]), (34, [(0, 7), (34, 35)]),
     (-23, [(0, 7)])]"

definition signing_rows_3 :: "yyrow list" where
  "signing_rows_3 =
    [(24, [(0, 7), (10, -24)]), (-25, [(0, 7), (58, 36)]), (-26, [(0, 7), (48, 37)]), (-27, [(0, 7), (99, 38)]),
     (-28, [(0, 7), (110, 39)]), (-29, [(0, 7), (111, 40)]), (-30, [(0, 7), (103, 41)]),
     (-31, [(0, 7), (115, 42)])]"

definition signing_rows_4 :: "yyrow list" where
  "signing_rows_4 =
    [(32, [(0, 7), (39, 33)]), (-33, [(0, 7)]), (34, [(0, 7), (34, 35)]), (-35, [(0, 7)]),
     (-36, [(0, 7), (115, 43)]), (-37, [(0, 7), (57, 44)]), (-38, [(0, 7), (101, 45)]),
     (-39, [(0, 7), (100, 46)])]"

definition signing_rows_5 :: "yyrow list" where
  "signing_rows_5 =
    [(-40, [(0, 7), (98, 47)]), (-41, [(0, 7), (95, 48)]), (-42, [(0, 7), (95, 49)]),
     (-43, [(0, 7), (105, 50)]), (-44, [(0, 7)]), (-45, [(0, 7), (115, 51)]), (-46, [(0, 7), (95, 52)]),
     (-47, [(0, 7), (117, 53)])]"

definition signing_rows_6 :: "yyrow list" where
  "signing_rows_6 =
    [(-48, [(0, 7), (114, 54)]), (-49, [(0, 7), (114, 55)]), (-50, [(0, 7), (103, 56)]),
     (-51, [(0, 7), (115, 57)]), (-52, [(0, 7), (98, 58), (115, 59)]), (-53, [(0, 7), (115, 60)]),
     (-54, [(0, 7), (105, 61)]), (-55, [(0, 7), (105, 62)])]"

definition signing_rows_7 :: "yyrow list" where
  "signing_rows_7 =
    [(-56, [(0, 7), (110, 63)]), (-57, [(0, 7), (95, 64)]), (-58, [(0, 7), (97, 65)]),
     (-59, [(0, 7), (117, 66)]), (-60, [(0, 7)]), (-61, [(0, 7), (103, 67)]), (-62, [(0, 7), (103, 68)]),
     (-63, [(0, 7)])]"

definition signing_rows_8 :: "yyrow list" where
  "signing_rows_8 =
    [(-64, [(0, 7), (105, 69)]), (-65, [(0, 7), (110, 70)]), (-66, [(0, 7), (98, 71)]),
     (-67, [(0, 7), (104, 72)]), (-68, [(0, 7), (104, 73)]), (-69, [(0, 7), (100, 74)]),
     (-70, [(0, 7), (110, 75)]), (-71, [(0, 7), (106, 76)])]"

definition signing_rows_9 :: "yyrow list" where
  "signing_rows_9 =
    [(-72, [(0, 7), (116, 77)]), (-73, [(0, 7), (116, 78)]), (-74, [(0, 7), (95, 79)]),
     (-75, [(0, 7), (101, 80)]), (-76, [(0, 7), (101, 81)]), (-77, [(0, 7), (115, 82)]),
     (-78, [(0, 7), (115, 83)]), (-79, [(0, 7), (65, 84), (67, 85)])]"

definition signing_rows_10 :: "yyrow list" where
  "signing_rows_10 =
    [(-80, [(0, 7), (100, 86)]), (-81, [(0, 7), (99, 87)]), (-82, [(0, 7)]), (-83, [(0, 7)]),
     (-84, [(0, 7), (78, 88)]), (-85, [(0, 7), (65, 89)]), (-86, [(0, 7), (95, 90)]),
     (-87, [(0, 7), (116, 91)])]"

definition signing_rows_11 :: "yyrow list" where
  "signing_rows_11 =
    [(-88, [(0, 7), (89, 92)]), (-89, [(0, 7)]), (-90, [(0, 7), (115, 93)]), (-91, [(0, 7), (115, 94)]),
     (-92, [(0, 7), (66, 95)]), (-93, [(0, 7), (117, 96)]), (-94, [(0, 7)]), (-95, [(0, 7), (79, 97)])]"

definition signing_rows_12 :: "yyrow list" where
  "signing_rows_12 =
    [(-96, [(0, 7), (98, 98)]), (-97, [(0, 7), (68, 99)]), (-98, [(0, 7), (106, 100)]),
     (-99, [(0, 7), (89, 101)]), (-100, [(0, 7), (101, 102)]), (-101, [(0, 7)]), (-102, [(0, 7), (99, 103)]),
     (-103, [(0, 7), (116, 104)])]"

definition signing_rows_13 :: "yyrow list" where
  "signing_rows_13 =
    [(-104, [(0, 7), (115, 105)]), (-105, [(0, 7)])]"

definition signing_yy_nxt :: "yyrow list" where
  "signing_yy_nxt =
     signing_rows_0 @ signing_rows_1 @ signing_rows_2 @ signing_rows_3 @ signing_rows_4 @
     signing_rows_5 @ signing_rows_6 @ signing_rows_7 @ signing_rows_8 @ signing_rows_9 @
     signing_rows_10 @ signing_rows_11 @ signing_rows_12 @ signing_rows_13"

definition signing_yy_accept :: "nat list" where
  "signing_yy_accept =
    [0, 0, 0, 0, 0, 0, 0, 18, 16, 15, 4, 1, 2, 16, 16, 16, 16, 16, 16, 16, 17, 3, 17, 5, 1, 0, 0, 0, 0, 0,
     0, 0, 0, 3, 0, 5, 0, 0, 0, 0, 0, 0, 0, 0, 14, 0, 0, 0, 0, 0, 0, 0, 0, 0, 0, 0, 0, 0, 0, 0, 8, 0, 0, 11,
     0, 0, 0, 0, 0, 0, 0, 0, 0, 0, 0, 0, 0, 0, 0, 0, 0, 0, 10, 9, 0, 0, 0, 0, 0, 12, 0, 0, 0, 0, 6, 0, 0, 0,
     0, 0, 0, 13, 0, 0, 0, 7]"

definition signing_yy_NUL_trans :: "nat list" where
  "signing_yy_NUL_trans =
    [0, 8, 8, 20, 20, 22, 22, 0, 0, 0, 0, 24, 0, 0, 0, 0, 0, 0, 0, 0, 32, 0, 34, 0, 24, 0, 0, 0, 0, 0, 0, 0,
     32, 0, 34, 0, 0, 0, 0, 0, 0, 0, 0, 0, 0, 0, 0, 0, 0, 0, 0, 0, 0, 0, 0, 0, 0, 0, 0, 0, 0, 0, 0, 0, 0, 0,
     0, 0, 0, 0, 0, 0, 0, 0, 0, 0, 0, 0, 0, 0, 0, 0, 0, 0, 0, 0, 0, 0, 0, 0, 0, 0, 0, 0, 0, 0, 0, 0, 0, 0,
     0, 0, 0, 0, 0, 0]"

definition signing_scan_tables :: scan_tables where
  "signing_scan_tables =
     \<lparr>st_nxt = signing_yy_nxt, st_accept = signing_yy_accept, st_nul = signing_yy_NUL_trans, st_eob = 18\<rparr>"

section \<open>Rules\<close>

definition signing_effect :: "nat \<Rightarrow> effect" where
  "signing_effect act =
     (if act = 1 then Skip
      else if act = 2 then Start 1
      else if act = 3 then Quoted SUBJECTS
      else if act = 4 then Start 2
      else if act = 5 then Quoted SUBJECTS
      else if act = 6 then Token COND_SUBJECTS
      else if act = 7 then Token COND_BANNED
      else if act = 8 then Token GLOBUS
      else if act = 9 then Token POS_RIGHTS
      else if act = 10 then Token NEG_RIGHTS
      else if act = 11 then Token CA_SIGN
      else if act = 12 then Token ACCESS_ID_CA
      else if act = 13 then Token ACCESS_ID_ANYBODY
      else if act = 14 then Token X509
      else if act = 15 \<or> act = 16 then Skip
      else if act = 17 then Print
      else No_action)"

definition signinglex :: "cstring \<Rightarrow> (text_ptr yyval, scan_state) lexed list option" where
  "signinglex file = yylex_all signing_scan_tables (do_effect V_string V_none signing_effect) V_none (yylex_init file)"

section \<open>The tables are those of a scanner\<close>

lemmas signing_rows = signing_rows_0_def signing_rows_1_def signing_rows_2_def signing_rows_3_def signing_rows_4_def
  signing_rows_5_def signing_rows_6_def signing_rows_7_def signing_rows_8_def signing_rows_9_def
  signing_rows_10_def signing_rows_11_def signing_rows_12_def signing_rows_13_def

lemma signing_rows_ok: "rows_ok 18 106 7 1 (tl signing_yy_nxt) (tl signing_yy_accept)"
  by code_simp

lemma signing_lists: "signing_yy_nxt = (0, []) # tl signing_yy_nxt" "signing_yy_accept = 0 # tl signing_yy_accept"
  by (simp_all add: signing_yy_nxt_def signing_rows_0_def signing_yy_accept_def)

lemma signing_starts_ok:
  "list_all (\<lambda>s. start_ok signing_scan_tables 7 signing_effect s) [1, 3, 5] \<and>
   st_nxt signing_scan_tables ! 7 = (- 7, []) \<and> accepting signing_scan_tables 7 = st_eob signing_scan_tables"
  by code_simp

lemma signing_actions_ok:
  "list_all (\<lambda>a. a = 0 \<or> a = st_eob signing_scan_tables \<or> signing_effect a \<noteq> No_action) (st_accept signing_scan_tables)"
  by code_simp

lemma signing_length: "length (st_nxt signing_scan_tables) = 106"
  by code_simp

interpretation signing_scanner: scanner signing_scan_tables 7 signing_effect "{1, 3, 5}"
proof
  show "row_ok signing_scan_tables (length (st_nxt signing_scan_tables)) 7 s"
    if "0 < s" "s < length (st_nxt signing_scan_tables)" for s
    using signing_rows_ok signing_lists that
    by (intro rows_okD [where rs = "tl signing_yy_nxt" and as = "tl signing_yy_accept" and len = 106])
      (simp_all add: signing_scan_tables_def)
  show "start_ok signing_scan_tables 7 signing_effect s" if "s \<in> {1, 3, 5}" for s
    using signing_starts_ok that by auto
  show "1 + 2 * c \<in> {1, 3, 5}" if "signing_effect act = Start c" for act c
    using that by (auto simp: signing_effect_def split: if_splits)
  show "st_eob signing_scan_tables \<noteq> 0" by (simp add: signing_scan_tables_def)
qed (use signing_starts_ok signing_actions_ok signing_length in auto)

end
