(* ===== verification/SigningFile.thy ===== *)
theory SigningFile
  imports SigningScanner SigningSpec
begin

text \<open>
  Files of signing policies from the characters to the policies: the scanner and the parser put
  together as \<open>read_pathrestriction\<close> does, the answer for any plain file of at most 8192 characters,
  and that the policies written to a file are read back.
\<close>

section \<open>A file\<close>

definition parse_signing_file :: "cstring \<Rightarrow> policy cells option \<Rightarrow> (int \<times> parse_env) option option" where
  "parse_signing_file file policies =
     (case signinglex file of
        None \<Rightarrow> None
      | Some tokens \<Rightarrow> signingparse (\<lambda>_. True) (\<lambda>_. True) read_text tokens (yylex_init file) policies)"

text \<open>The answer by the lexer on lists and the parser by recursive descent.\<close>

definition signing_answer :: "policy list \<Rightarrow> cstring \<Rightarrow> (int \<times> policy list) option" where
  "signing_answer ps file =
     (case lex_list signing_scan_tables signing_effect 1 False file of
        None \<Rightarrow> None
      | Some its \<Rightarrow> policies_of ps its)"

lemma signing_items:
  assumes "lex_list signing_scan_tables signing_effect s e cs = Some its"
  shows "proper 267 its" "length its \<le> length cs"
proof -
  have "proper 267 its" if "list_all signing_scanner.item_from its"
    using that unfolding proper_def
    by (rule list.pred_mono_strong)
      (auto simp: signing_scanner.item_from_def signing_effect_def signing_tokens split: item.splits if_splits)
  with signing_scanner.lex_items [OF assms] show "proper 267 its" "length its \<le> length cs" by auto
qed

lemma signing_file_fits:
  assumes "plain file" "length file \<le> YY_READ_BUF_SIZE" "terminated policies"
  shows "fits (parse_signing_file file policies) (signing_answer (contents policies) file)"
proof -
  obtain its where its: "lex_list signing_scan_tables signing_effect 1 False file = Some its"
    using signing_scanner.lex_total [OF assms(1), of 1 False] by auto
  obtain ys where ys: "signinglex file = Some ys" "delivers V_string V_none [] its ys"
    using signing_scanner.lexes_file [OF its assms(1,2), of V_string V_none] by (auto simp: signinglex_def)
  have "length its < YYMAXDEPTH - 2"
    using signing_items(2) [OF its] assms(2) by (simp add: YYMAXDEPTH_def YY_READ_BUF_SIZE_def)
  from signingparse_answers [OF ys(2) signing_items(1) [OF its] this assms(3)] its ys(1)
  show ?thesis by (simp add: parse_signing_file_def signing_answer_def)
qed

section \<open>Words\<close>

lemma plain_codes [simp]: "CHR 0x22 \<noteq> NUL" "CHR 0x27 \<noteq> NUL" "CHR 0x0A \<noteq> NUL" "CHR '' '' \<noteq> NUL"
  by (simp_all add: NUL_def)

lemma codes [simp]:
  "(of_char (CHR 0x22) :: nat) < 128" "(of_char (CHR 0x27) :: nat) < 128" "(of_char (CHR 0x0A) :: nat) < 128"
  "(of_char (CHR '' '') :: nat) < 128"
  by (simp_all add: of_char_def)

lemma signing_singles:
  "signing_scanner.complete '' '' 16" "signing_scanner.complete [CHR 0x0A] 15"
  "signing_scanner.string_rule (CHR 0x27) 2 1 20 32 21 33 3"
  unfolding signing_scanner.complete_def signing_scanner.string_rule_def signing_scanner.closed_def signing_scanner.loops_def
  by code_simp+

text \<open>The words of the tokens; each ends before a blank or a newline.\<close>

definition keyword :: "int \<Rightarrow> cstring" where
  "keyword t =
     (if t = COND_SUBJECTS then ''cond_subjects'' else if t = COND_BANNED then ''cond_banned_subjects''
      else if t = GLOBUS then ''globus'' else if t = POS_RIGHTS then ''pos_rights''
      else if t = NEG_RIGHTS then ''neg_rights'' else if t = CA_SIGN then ''CA:sign''
      else if t = ACCESS_ID_CA then ''access_id_CA'' else if t = ACCESS_ID_ANYBODY then ''access_id_ANYBODY''
      else ''X509'')"

lemma keyword_ends:
  "list_all (\<lambda>t. signing_scanner.complete (keyword t) (nat (t - 253)) \<and>
     signing_effect (nat (t - 253)) = Token t \<and> plain (keyword t)) [259..267]"
  unfolding signing_scanner.complete_def signing_scanner.closed_def
  by code_simp

abbreviation (input) slex where
  "slex \<equiv> lex_list signing_scan_tables signing_effect"

section \<open>Writing policies\<close>

text \<open>
  A policy as it is written: the authority or anybody, whether it grants rights, and its conditions,
  each with whether it permits and the subjects.
\<close>

datatype written = Written "cstring option" bool "(bool \<times> cstring list) list"

fun written_subjects :: "cstring list \<Rightarrow> cstring" where
  "written_subjects [] = []"
| "written_subjects (s # ss) = CHR 0x22 # s @ CHR 0x22 # (if ss = [] then [] else CHR '' '' # written_subjects ss)"

fun written_condition :: "bool \<times> cstring list \<Rightarrow> cstring" where
  "written_condition (pos, ss) =
     keyword (if pos then COND_SUBJECTS else COND_BANNED) @ CHR '' '' # keyword GLOBUS @ CHR '' '' #
     CHR 0x27 # written_subjects ss @ [CHR 0x27, CHR 0x0A]"

definition written_identity :: "cstring option \<Rightarrow> cstring" where
  "written_identity name =
     (case name of
        None \<Rightarrow> keyword ACCESS_ID_ANYBODY @ [CHR 0x0A]
      | Some n \<Rightarrow> keyword ACCESS_ID_CA @ CHR '' '' # keyword X509 @ CHR '' '' # CHR 0x27 # n @ [CHR 0x27, CHR 0x0A])"

fun written_policy :: "written \<Rightarrow> cstring" where
  "written_policy (Written name rights conds) =
     written_identity name @ keyword (if rights then POS_RIGHTS else NEG_RIGHTS) @ CHR '' '' # keyword GLOBUS @ CHR '' '' #
     keyword CA_SIGN @ CHR 0x0A # concat (map written_condition conds)"

definition written_file :: "written list \<Rightarrow> cstring" where
  "written_file ws = concat (map written_policy ws)"

text \<open>What can be written so: names and subjects without quotes, of 7-bit characters.\<close>

definition bare :: "cstring \<Rightarrow> bool" where
  "bare s \<longleftrightarrow> plain s \<and> CHR 0x22 \<notin> set s \<and> CHR 0x27 \<notin> set s"

fun writable :: "written \<Rightarrow> bool" where
  "writable (Written name rights conds) \<longleftrightarrow>
     (case name of None \<Rightarrow> True | Some n \<Rightarrow> n \<noteq> [] \<and> bare n) \<and> conds \<noteq> [] \<and>
     list_all (\<lambda>(pos, ss). ss \<noteq> [] \<and> list_all bare ss) conds"

text \<open>The policy that is read back: its conditions in reverse order.\<close>

fun read_condition :: "bool \<times> cstring list \<Rightarrow> condition" where
  "read_condition (pos, ss) =
     \<lparr>c_subjects = Some (map Some ss @ [None]), c_original = Some (CHR 0x22 # hd ss), c_positive = (if pos then 1 else 0)\<rparr>"

fun read_policies :: "written \<Rightarrow> policy list" where
  "read_policies (Written name rights conds) =
     (if rights then [policy_of name (rev (map read_condition conds))] else [])"

text \<open>The tokens of what is written.\<close>

abbreviation (input) tok where
  "tok t \<equiv> Item t None False"

fun condition_items :: "bool \<times> cstring list \<Rightarrow> item list" where
  "condition_items (pos, ss) =
     [tok (if pos then COND_SUBJECTS else COND_BANNED), tok GLOBUS, Item SUBJECTS (Some (written_subjects ss)) False]"

fun policy_items :: "written \<Rightarrow> item list" where
  "policy_items (Written name rights conds) =
     (case name of None \<Rightarrow> [tok ACCESS_ID_ANYBODY]
      | Some n \<Rightarrow> [tok ACCESS_ID_CA, tok X509, Item SUBJECTS (Some n) False]) @
     [tok (if rights then POS_RIGHTS else NEG_RIGHTS), tok GLOBUS, tok CA_SIGN] @ concat (map condition_items conds)"

section \<open>The tokens of the text\<close>

lemma bare_plain [simp]: "bare s \<Longrightarrow> plain s"
  by (simp add: bare_def)

lemma plain_subjects: "list_all bare ss \<Longrightarrow> plain (written_subjects ss)"
  by (induction ss) auto

lemma subjects_no_quote: "list_all bare ss \<Longrightarrow> CHR 0x27 \<notin> set (written_subjects ss)"
  by (induction ss) (auto simp: bare_def)

lemma unquoted_subjects: "list_all bare ss \<Longrightarrow> unquoted (CHR 0x27) (written_subjects ss)"
  by (simp add: unquoted_def plain_subjects subjects_no_quote)

text \<open>A word and the character after it.\<close>

lemma slex_keyword:
  assumes "259 \<le> t" "t \<le> 267" "c = CHR '' '' \<or> c = CHR 0x0A" "plain r"
  shows "slex 1 False (keyword t @ c # r) = map_option ((#) (tok t)) (slex 1 False r)"
proof -
  have "t \<in> set [259..267]" using assms(1,2) unfolding set_upto by simp
  from bspec [OF keyword_ends [unfolded list_all_iff] this]
  have k: "signing_scanner.complete (keyword t) (nat (t - 253))" "signing_effect (nat (t - 253)) = Token t" by auto
  show ?thesis
    using assms(3) signing_scanner.lex_word [OF k, where a' = 16] signing_scanner.lex_word [OF k, where a' = 15]
      signing_singles(1,2) assms(4)
    by (auto simp: signing_effect_def)
qed

lemma plain_keyword: "259 \<le> t \<Longrightarrow> t \<le> 267 \<Longrightarrow> plain (keyword t)"
  using bspec [OF keyword_ends [unfolded list_all_iff], of t] unfolding set_upto by simp

lemma token_bounds [simp]:
  "259 \<le> COND_SUBJECTS" "COND_SUBJECTS \<le> 267" "259 \<le> COND_BANNED" "COND_BANNED \<le> 267" "259 \<le> GLOBUS" "GLOBUS \<le> 267"
  "259 \<le> POS_RIGHTS" "POS_RIGHTS \<le> 267" "259 \<le> NEG_RIGHTS" "NEG_RIGHTS \<le> 267" "259 \<le> CA_SIGN" "CA_SIGN \<le> 267"
  "259 \<le> ACCESS_ID_CA" "ACCESS_ID_CA \<le> 267" "259 \<le> ACCESS_ID_ANYBODY" "ACCESS_ID_ANYBODY \<le> 267" "259 \<le> X509" "X509 \<le> 267"
  by (simp_all add: signing_tokens)

lemmas signing_keyword = slex_keyword [OF token_bounds(1,2)]
  slex_keyword [OF token_bounds(3,4)]
  slex_keyword [OF token_bounds(5,6)]
  slex_keyword [OF token_bounds(7,8)]
  slex_keyword [OF token_bounds(9,10)]
  slex_keyword [OF token_bounds(11,12)]
  slex_keyword [OF token_bounds(13,14)]
  slex_keyword [OF token_bounds(15,16)]
  slex_keyword [OF token_bounds(17,18)]

lemma plain_keywords [simp]:
  "plain (keyword COND_SUBJECTS)" "plain (keyword COND_BANNED)" "plain (keyword GLOBUS)" "plain (keyword POS_RIGHTS)"
  "plain (keyword NEG_RIGHTS)" "plain (keyword CA_SIGN)" "plain (keyword ACCESS_ID_CA)" "plain (keyword ACCESS_ID_ANYBODY)"
  "plain (keyword X509)"
  by (rule plain_keyword; simp add: signing_tokens)+

lemma slex_quoted_line:
  assumes "unquoted (CHR 0x27) w" "plain r"
  shows "slex 1 False (CHR 0x27 # w @ CHR 0x27 # CHR 0x0A # r) = map_option ((#) (Item SUBJECTS (Some w) False)) (slex 1 False r)"
  by (rule signing_scanner.lex_string [OF signing_singles(3) _ _ assms(1) signing_singles(2) _ _ assms(2)])
    (simp_all add: signing_effect_def)

lemma option_append: "map_option ((@) (xs @ ys)) m = map_option ((@) xs) (map_option ((@) ys) m)"
  by (cases m) simp_all

lemma slex_condition:
  assumes "list_all bare ss" "plain r"
  shows "slex 1 False (written_condition (pos, ss) @ r) = map_option ((@) (condition_items (pos, ss))) (slex 1 False r)"
proof -
  have t: "259 \<le> (if pos then COND_SUBJECTS else COND_BANNED)" "(if pos then COND_SUBJECTS else COND_BANNED) \<le> 267"
    "259 \<le> GLOBUS" "GLOBUS \<le> 267" by (simp_all add: signing_tokens)
  have p: "plain (CHR 0x27 # written_subjects ss @ CHR 0x27 # CHR 0x0A # r)"
    using assms by (simp add: plain_subjects)
  then have "plain (keyword GLOBUS @ CHR '' '' # CHR 0x27 # written_subjects ss @ CHR 0x27 # CHR 0x0A # r)" by simp
  from slex_keyword [OF t(1,2) _ this, of "CHR '' ''"] slex_keyword [OF t(3,4) _ p, of "CHR '' ''"]
    slex_quoted_line [OF unquoted_subjects [OF assms(1)] assms(2)]
  show ?thesis by (cases "slex 1 False r") (simp_all split del: if_split)
qed

lemma plain_condition: "list_all bare ss \<Longrightarrow> plain (written_condition (pos, ss))"
  by (simp add: plain_subjects)

lemma slex_conditions:
  assumes "list_all (\<lambda>(pos, ss). ss \<noteq> [] \<and> list_all bare ss) conds" "plain r"
  shows "slex 1 False (concat (map written_condition conds) @ r) =
      map_option ((@) (concat (map condition_items conds))) (slex 1 False r) \<and> plain (concat (map written_condition conds))"
  using assms(1)
proof (induction conds)
  case (Cons c conds)
  obtain pos ss where c: "c = (pos, ss)" by (cases c)
  have ih: "slex 1 False (concat (map written_condition conds) @ r) =
      map_option ((@) (concat (map condition_items conds))) (slex 1 False r)" "plain (concat (map written_condition conds))"
    using Cons by simp_all
  show ?case
    using slex_condition [of ss "concat (map written_condition conds) @ r" pos] ih Cons.prems assms(2) plain_condition [of ss pos]
    by (cases "slex 1 False r") (simp_all add: c del: written_condition.simps condition_items.simps)
next
  case Nil
  then show ?case by (cases "slex 1 False r") simp_all
qed

lemma slex_identity:
  assumes "case name of None \<Rightarrow> True | Some n \<Rightarrow> n \<noteq> [] \<and> bare n" "plain r"
  shows "slex 1 False (written_identity name @ r) =
      map_option ((@) (case name of None \<Rightarrow> [tok ACCESS_ID_ANYBODY]
        | Some n \<Rightarrow> [tok ACCESS_ID_CA, tok X509, Item SUBJECTS (Some n) False])) (slex 1 False r)"
proof (cases name)
  case None
  then show ?thesis using signing_keyword(8) [of "CHR 0x0A" r] assms(2)
    by (cases "slex 1 False r") (simp_all add: written_identity_def)
next
  case (Some n)
  then have n: "unquoted (CHR 0x27) n" using assms(1) by (simp add: unquoted_def bare_def)
  then have "plain (CHR 0x27 # n @ CHR 0x27 # CHR 0x0A # r)" using assms(2) by (simp add: unquoted_def)
  then show ?thesis
    using signing_keyword(7) [of "CHR '' ''" "keyword X509 @ CHR '' '' # CHR 0x27 # n @ CHR 0x27 # CHR 0x0A # r"]
      signing_keyword(9) [of "CHR '' ''" "CHR 0x27 # n @ CHR 0x27 # CHR 0x0A # r"] slex_quoted_line [OF n assms(2)] Some
    by (cases "slex 1 False r") (simp_all add: written_identity_def)
qed

lemma plain_identity:
  "(case name of None \<Rightarrow> True | Some n \<Rightarrow> n \<noteq> [] \<and> bare n) \<Longrightarrow> plain (written_identity name)"
  by (cases name) (simp_all add: written_identity_def)

lemma plain_conditions:
  "list_all (\<lambda>(pos, ss). ss \<noteq> [] \<and> list_all bare ss) conds \<Longrightarrow> plain (concat (map written_condition conds))"
  using slex_conditions [of conds "[]"] by simp

lemma slex_policy:
  assumes "writable w" "plain r"
  shows "slex 1 False (written_policy w @ r) = map_option ((@) (policy_items w)) (slex 1 False r) \<and> plain (written_policy w)"
proof -
  obtain name rights conds where w: "w = Written name rights conds" by (cases w)
  have c: "list_all (\<lambda>(pos, ss). ss \<noteq> [] \<and> list_all bare ss) conds"
    and n: "case name of None \<Rightarrow> True | Some n \<Rightarrow> n \<noteq> [] \<and> bare n" using assms(1) w by simp_all
  let ?c = "concat (map written_condition conds)"
  define k where "k = (if rights then POS_RIGHTS else NEG_RIGHTS)"
  have k: "259 \<le> k" "k \<le> 267" "plain (keyword k)" by (simp_all add: k_def)
  define r1 where "r1 = keyword CA_SIGN @ CHR 0x0A # ?c @ r"
  define r2 where "r2 = keyword GLOBUS @ CHR '' '' # r1"
  have p: "plain (?c @ r)" "plain r1" "plain r2" using plain_conditions [OF c] assms(2) by (simp_all add: r1_def r2_def)
  have l2: "slex 1 False r2 = map_option ((#) (tok GLOBUS)) (slex 1 False r1)"
    unfolding r2_def by (rule signing_keyword(3)) (use p in simp_all)
  have l1: "slex 1 False r1 = map_option ((#) (tok CA_SIGN)) (slex 1 False (?c @ r))"
    unfolding r1_def by (rule signing_keyword(6)) (use p in simp_all)
  have "slex 1 False (written_policy w @ r) = slex 1 False (written_identity name @ keyword k @ CHR '' '' # r2)"
    by (simp add: w k_def r1_def r2_def)
  also have "\<dots> = map_option ((@) (policy_items w)) (slex 1 False r)"
    using slex_identity [OF n, of "keyword k @ CHR '' '' # r2"] slex_keyword [OF k(1,2) _ p(3), of "CHR '' ''"]
      l2 l1 slex_conditions [OF c assms(2)] p k(3)
    by (cases "slex 1 False r") (simp_all add: w k_def [symmetric] split del: if_split)
  finally show ?thesis using plain_identity [OF n] plain_conditions [OF c] k(3) by (simp add: w k_def)
qed

section \<open>The policies of the text\<close>

lemma subjects_written:
  assumes "list_all bare ss"
  shows "subjects (written_subjects ss) = ss"
  using assms
proof (induction ss)
  case Nil
  then show ?case by (simp add: subjects.simps)
next
  case (Cons s ss)
  have q: "CHR 0x22 \<notin> set s" using Cons.prems by (simp add: bare_def)
  have sp: "dropWhile isspace (if ss = [] then [] else CHR '' '' # written_subjects ss) = written_subjects ss"
    by (cases ss) (simp_all add: isspace_def of_char_def)
  show ?case
    using strchr_append [OF q, of "if ss = [] then [] else CHR '' '' # written_subjects ss"] Cons sp
    by (subst subjects.simps) (simp add: quote_char_def)
qed

lemma condition_written:
  assumes "ss \<noteq> []" "list_all bare ss"
  shows "condition_of (if pos then 1 else 0) (written_subjects ss) = Some (read_condition (pos, ss))"
proof -
  obtain s t where ss: "ss = s # t" using assms(1) by (cases ss) auto
  have q: "CHR 0x22 \<notin> set s" using assms(2) ss by (simp add: bare_def)
  have "cut_original (written_subjects ss) = CHR 0x22 # s"
    using strchr_append [OF q] ss by (simp add: cut_original_def quote_char_def)
  then show ?thesis using subjects_written [OF assms(2)] assms(1) ss by (simp add: condition_of_def)
qed

lemma subjects_name: "n \<noteq> [] \<Longrightarrow> bare n \<Longrightarrow> subjects n = [n]"
  by (cases n) (auto simp: subjects.simps bare_def quote_char_def)

lemma token_differ [simp]:
  "COND_SUBJECTS \<noteq> COND_BANNED" "COND_BANNED \<noteq> COND_SUBJECTS" "NEG_RIGHTS \<noteq> POS_RIGHTS" "POS_RIGHTS \<noteq> NEG_RIGHTS"
  "ACCESS_ID_CA \<noteq> ACCESS_ID_ANYBODY" "ACCESS_ID_ANYBODY \<noteq> COND_SUBJECTS" "ACCESS_ID_ANYBODY \<noteq> COND_BANNED"
  "ACCESS_ID_CA \<noteq> COND_SUBJECTS" "ACCESS_ID_CA \<noteq> COND_BANNED"
  by (simp_all add: signing_tokens)

lemma one_condition_written:
  assumes "ss \<noteq> []" "list_all bare ss"
  shows "one_condition (condition_items (pos, ss) @ r) = Taken (Some (read_condition (pos, ss))) r"
  using condition_written [OF assms, of pos]
  by (cases pos) (simp_all add: one_condition_def at_condition_def del: read_condition.simps)

lemma at_condition_items: "at_condition (condition_items c @ r)"
  by (cases c) (simp add: at_condition_def)

lemma conditions_written:
  assumes "list_all (\<lambda>(pos, ss). ss \<noteq> [] \<and> list_all bare ss) conds" "conds \<noteq> []" "\<not> at_condition r"
  shows "all_conditions (concat (map condition_items conds) @ r) = Taken (rev (map read_condition conds)) r"
  using assms(1,2)
proof (induction conds)
  case (Cons c conds)
  obtain pos ss where c: "c = (pos, ss)" by (cases c)
  have one: "one_condition (condition_items (pos, ss) @ r') = Taken (Some (read_condition (pos, ss))) r'" for r'
    using Cons.prems c by (intro one_condition_written) simp_all
  show ?case
  proof (cases conds)
    case Nil
    then show ?thesis using one [of r] assms(3) c
      by (subst all_conditions.simps) (simp add: add_front_def del: condition_items.simps read_condition.simps)
  next
    case (Cons c' conds')
    then have "at_condition (concat (map condition_items conds) @ r)"
      using at_condition_items [of c' "concat (map condition_items conds') @ r"] by simp
    then show ?thesis
      using one [of "concat (map condition_items conds) @ r"] Cons.IH Cons.prems Cons c
      by (subst all_conditions.simps) (simp add: add_front_def del: condition_items.simps read_condition.simps)
  qed
qed simp

lemma one_entry_written:
  assumes "writable w" "\<not> at_condition r"
  shows "\<exists>p. one_entry (policy_items w @ r) = Taken p r \<and> (case p of None \<Rightarrow> [] | Some p \<Rightarrow> [p]) = read_policies w"
proof -
  obtain name rights conds where w: "w = Written name rights conds" by (cases w)
  have c: "list_all (\<lambda>(pos, ss). ss \<noteq> [] \<and> list_all bare ss) conds" "conds \<noteq> []"
    and n: "case name of None \<Rightarrow> True | Some n \<Rightarrow> n \<noteq> [] \<and> bare n" using assms(1) w by simp_all
  have i: "identity ((case name of None \<Rightarrow> [tok ACCESS_ID_ANYBODY]
        | Some n \<Rightarrow> [tok ACCESS_ID_CA, tok X509, Item SUBJECTS (Some n) False]) @ r') = Taken name r'" for r'
    using n subjects_name by (cases name) (simp_all add: identity_def)
  show ?thesis
    using i conditions_written [OF c assms(2)] by (simp add: w one_entry_def)
qed

lemma policies_written:
  assumes "list_all writable ws" "ws \<noteq> []"
  shows "policies_of ps (concat (map policy_items ws)) = Some (0, ps @ concat (map read_policies ws))"
  using assms
proof (induction ws arbitrary: ps)
  case (Cons w ws)
  let ?r = "concat (map policy_items ws)"
  have first: "next_token ?r = 0 \<and> ?r = [] \<or> next_token ?r = ACCESS_ID_CA \<or> next_token ?r = ACCESS_ID_ANYBODY"
  proof (cases ws)
    case (Cons w' ws')
    then show ?thesis by (cases w') (auto split: option.splits)
  qed simp
  then have "\<not> at_condition ?r" by (auto simp: at_condition_def) (simp_all add: signing_tokens)
  from one_entry_written [OF _ this, of w] Cons.prems obtain p where
    p: "one_entry (policy_items w @ ?r) = Taken p ?r" "(case p of None \<Rightarrow> [] | Some p \<Rightarrow> [p]) = read_policies w" by auto
  have empty: "?r = [] \<longleftrightarrow> ws = []"
  proof (cases ws)
    case (Cons w' ws')
    then show ?thesis by (cases w') (auto split: option.splits)
  qed simp
  show ?case using p empty Cons.IH [of "ps @ read_policies w"] Cons.prems
    by (subst policies_of.simps) (simp add: Let_def)
qed simp

lemma slex_file:
  assumes "list_all writable ws"
  shows "slex 1 False (written_file ws) = Some (concat (map policy_items ws)) \<and> plain (written_file ws)"
  using assms
proof (induction ws)
  case (Cons w ws)
  then show ?case using slex_policy [of w "written_file ws"]
    by (simp add: written_file_def)
qed (simp add: written_file_def)

lemma signing_file_read:
  assumes "list_all writable ws" "ws \<noteq> []" "length (written_file ws) \<le> YY_READ_BUF_SIZE" "terminated policies"
  shows "fits (parse_signing_file (written_file ws) policies)
    (Some (0, contents policies @ concat (map read_policies ws)))"
  using signing_file_fits [OF _ assms(3,4)] slex_file [OF assms(1)] policies_written [OF assms(1,2)]
  by (simp add: signing_answer_def)

end
