(* ===== verification/NamespaceFile.thy ===== *)
theory NamespaceFile
  imports NamespaceScanner NamespaceSpec SigningFile
begin

text \<open>
  Files of namespaces from the characters to the policies: the scanner and the parser put together,
  the answer for plain files whose last token ends before the end of the text, and that the
  namespaces written to a file are read back.
\<close>

section \<open>A file\<close>

definition parse_namespaces_file :: "cstring \<Rightarrow> policy cells option \<Rightarrow> (int \<times> parse_env) option option" where
  "parse_namespaces_file file policies =
     (case namespaceslex file of
        None \<Rightarrow> None
      | Some tokens \<Rightarrow> namespacesparse (\<lambda>_. True) (\<lambda>_. True) read_text tokens (yylex_init file) policies)"

abbreviation (input) nlex where
  "nlex \<equiv> lex_list namespaces_scan_tables namespaces_effect"

lemma namespaces_items:
  assumes "nlex s e cs = Some its"
  shows "proper 264 its" "length its \<le> length cs"
proof -
  have "proper 264 its" if "list_all namespaces_scanner.item_from its"
    using that unfolding proper_def
    by (rule list.pred_mono_strong)
      (auto simp: namespaces_scanner.item_from_def namespaces_effect_def namespaces_tokens split: item.splits if_splits)
  with namespaces_scanner.lex_items [OF assms] show "proper 264 its" "length its \<le> length cs" by auto
qed

lemma namespaces_file_fits:
  assumes "plain file" "length file \<le> YY_READ_BUF_SIZE" "terminated policies" "nlex 1 False file = Some its" "steady its"
  shows "fits (parse_namespaces_file file policies) (namespaces_of (contents policies) its)"
proof -
  obtain ys where ys: "namespaceslex file = Some ys" "delivers V_string V_none [] its ys"
    using namespaces_scanner.lexes_file [OF assms(4,1,2), of V_string V_none] by (auto simp: namespaceslex_def)
  have "length its < YYMAXDEPTH - 2"
    using namespaces_items(2) [OF assms(4)] assms(2) by (simp add: YYMAXDEPTH_def YY_READ_BUF_SIZE_def)
  from namespacesparse_answers [OF ys(2) namespaces_items(1) [OF assms(4)] this assms(3,5)] ys(1)
  show ?thesis by (simp add: parse_namespaces_file_def)
qed

section \<open>Words\<close>

lemma namespaces_singles:
  "namespaces_scanner.complete '' '' 14" "namespaces_scanner.complete [CHR 0x0A] 13"
  "namespaces_scanner.string_rule (CHR 0x22) 4 2 21 33 22 34 5"
  unfolding namespaces_scanner.complete_def namespaces_scanner.string_rule_def namespaces_scanner.closed_def
    namespaces_scanner.loops_def
  by code_simp+

text \<open>The words of the tokens.\<close>

definition nkeyword :: "int \<Rightarrow> cstring" where
  "nkeyword t =
     (if t = TO then ''TO'' else if t = ISSUER then ''ISSUER'' else if t = PERMIT then ''PERMIT''
      else if t = DENY then ''DENY'' else if t = SELF then ''SELF'' else ''SUBJECT'')"

definition naction :: "int \<Rightarrow> nat" where
  "naction t =
     (if t = TO then 6 else if t = ISSUER then 7 else if t = PERMIT then 8 else if t = DENY then 9
      else if t = SELF then 10 else 11)"

lemma nkeyword_ends:
  "list_all (\<lambda>t. namespaces_scanner.complete (nkeyword t) (naction t) \<and>
     namespaces_effect (naction t) = Token t \<and> plain (nkeyword t)) [259..264]"
  unfolding namespaces_scanner.complete_def namespaces_scanner.closed_def
  by code_simp

section \<open>Writing namespaces\<close>

text \<open>A rule: the issuer or the authority itself, whether it permits, and the subject.\<close>

datatype written_rule = Rule "cstring option" bool cstring

fun written_namespace :: "written_rule \<Rightarrow> cstring" where
  "written_namespace (Rule name pos subject) =
     nkeyword TO @ CHR '' '' # nkeyword ISSUER @ CHR '' '' #
     (case name of None \<Rightarrow> nkeyword SELF @ [CHR 0x0A] | Some n \<Rightarrow> CHR 0x22 # n @ [CHR 0x22, CHR 0x0A]) @
     nkeyword (if pos then PERMIT else DENY) @ CHR '' '' # nkeyword SUBJECT_WORD @ CHR '' '' #
     CHR 0x22 # subject @ [CHR 0x22, CHR 0x0A]"

fun rule_writable :: "written_rule \<Rightarrow> bool" where
  "rule_writable (Rule name pos subject) \<longleftrightarrow> (case name of None \<Rightarrow> True | Some n \<Rightarrow> bare n) \<and> bare subject"

fun rule_policy :: "written_rule \<Rightarrow> policy" where
  "rule_policy (Rule name pos subject) = namespace_of name (namespace_subject (if pos then 1 else 0) subject)"

fun rule_items :: "written_rule \<Rightarrow> item list" where
  "rule_items (Rule name pos subject) =
     [tok TO, tok ISSUER, case name of None \<Rightarrow> tok SELF | Some n \<Rightarrow> Item SUBJECT (Some n) False,
      tok (if pos then PERMIT else DENY), tok SUBJECT_WORD, Item SUBJECT (Some subject) False]"

section \<open>The tokens of the text\<close>

lemma nlex_keyword:
  assumes "259 \<le> t" "t \<le> 264" "c = CHR '' '' \<or> c = CHR 0x0A" "plain r"
  shows "nlex 1 False (nkeyword t @ c # r) = map_option ((#) (tok t)) (nlex 1 False r)"
proof -
  have "t \<in> set [259..264]" using assms(1,2) unfolding set_upto by simp
  from bspec [OF nkeyword_ends [unfolded list_all_iff] this]
  have k: "namespaces_scanner.complete (nkeyword t) (naction t)" "namespaces_effect (naction t) = Token t" by auto
  show ?thesis
    using assms(3) namespaces_scanner.lex_word [OF k, where a' = 14] namespaces_scanner.lex_word [OF k, where a' = 13]
      namespaces_singles(1,2) assms(4)
    by (auto simp: namespaces_effect_def)
qed

lemma ntoken_bounds [simp]:
  "259 \<le> TO" "TO \<le> 264" "259 \<le> ISSUER" "ISSUER \<le> 264" "259 \<le> PERMIT" "PERMIT \<le> 264" "259 \<le> DENY" "DENY \<le> 264"
  "259 \<le> SELF" "SELF \<le> 264" "259 \<le> SUBJECT_WORD" "SUBJECT_WORD \<le> 264"
  by (simp_all add: namespaces_tokens)

lemma plain_nkeyword [simp]: "259 \<le> t \<Longrightarrow> t \<le> 264 \<Longrightarrow> plain (nkeyword t)"
  using bspec [OF nkeyword_ends [unfolded list_all_iff], of t] unfolding set_upto by simp

lemma nlex_quoted_line:
  assumes "bare w" "plain r"
  shows "nlex 1 False (CHR 0x22 # w @ CHR 0x22 # CHR 0x0A # r) = map_option ((#) (Item SUBJECT (Some w) False)) (nlex 1 False r)"
  using assms(1)
  by (intro namespaces_scanner.lex_string [OF namespaces_singles(3) _ _ _ namespaces_singles(2) _ _ assms(2)])
    (simp_all add: namespaces_effect_def unquoted_def bare_def)

lemma nlex_rule:
  assumes "rule_writable w" "plain r"
  shows "nlex 1 False (written_namespace w @ r) = map_option ((@) (rule_items w)) (nlex 1 False r) \<and> plain (written_namespace w)"
proof -
  obtain name pos subject where w: "w = Rule name pos subject" by (cases w)
  have b: "bare subject" "case name of None \<Rightarrow> True | Some n \<Rightarrow> bare n" using assms(1) w by simp_all
  define k where "k = (if pos then PERMIT else DENY)"
  have k: "259 \<le> k" "k \<le> 264" by (simp_all add: k_def)
  define r1 where "r1 = CHR 0x22 # subject @ CHR 0x22 # CHR 0x0A # r"
  define r2 where "r2 = nkeyword SUBJECT_WORD @ CHR '' '' # r1"
  define r3 where "r3 = nkeyword k @ CHR '' '' # r2"
  define r4 where "r4 = (case name of None \<Rightarrow> nkeyword SELF @ [CHR 0x0A] | Some n \<Rightarrow> CHR 0x22 # n @ [CHR 0x22, CHR 0x0A]) @ r3"
  define r5 where "r5 = nkeyword ISSUER @ CHR '' '' # r4"
  have p1: "plain r1" using b(1) assms(2) by (simp add: r1_def)
  have p2: "plain r2" using p1 by (simp add: r2_def)
  have p3: "plain r3" using p2 k by (simp add: r3_def)
  have p4: "plain r4" using p3 b(2) by (cases name) (simp_all add: r4_def)
  have p5: "plain r5" using p4 by (simp add: r5_def)
  have "nlex 1 False r1 = map_option ((#) (Item SUBJECT (Some subject) False)) (nlex 1 False r)"
    unfolding r1_def by (rule nlex_quoted_line [OF b(1) assms(2)])
  moreover have "nlex 1 False r2 = map_option ((#) (tok SUBJECT_WORD)) (nlex 1 False r1)"
    unfolding r2_def by (rule nlex_keyword) (use p1 in simp_all)
  moreover have "nlex 1 False r3 = map_option ((#) (tok k)) (nlex 1 False r2)"
    unfolding r3_def by (rule nlex_keyword [OF k]) (use p2 in simp_all)
  moreover have "nlex 1 False r4 =
      map_option ((#) (case name of None \<Rightarrow> tok SELF | Some n \<Rightarrow> Item SUBJECT (Some n) False)) (nlex 1 False r3)"
    using b(2) nlex_quoted_line [OF _ p3] nlex_keyword [of SELF "CHR 0x0A" r3] p3
    by (cases name) (simp_all add: r4_def)
  moreover have "nlex 1 False r5 = map_option ((#) (tok ISSUER)) (nlex 1 False r4)"
    unfolding r5_def by (rule nlex_keyword) (use p4 in simp_all)
  moreover have "nlex 1 False (nkeyword TO @ CHR '' '' # r5) = map_option ((#) (tok TO)) (nlex 1 False r5)"
    by (rule nlex_keyword) (use p5 in simp_all)
  moreover have t: "written_namespace w @ r = nkeyword TO @ CHR '' '' # r5"
    by (simp add: w r1_def r2_def r3_def r4_def r5_def k_def)
  ultimately have "nlex 1 False (written_namespace w @ r) = map_option ((@) (rule_items w)) (nlex 1 False r)"
    by (cases "nlex 1 False r") (simp_all add: w k_def)
  moreover have "plain (written_namespace w @ r)" using t p5 by simp
  ultimately show ?thesis by simp
qed

section \<open>The namespaces of the text\<close>

definition written_namespaces :: "written_rule list \<Rightarrow> cstring" where
  "written_namespaces ws = concat (map written_namespace ws)"

lemma nlex_file:
  assumes "list_all rule_writable ws"
  shows "nlex 1 False (written_namespaces ws) = Some (concat (map rule_items ws)) \<and> plain (written_namespaces ws)"
  using assms
proof (induction ws)
  case (Cons w ws)
  then show ?case using nlex_rule [of w "written_namespaces ws"] by (simp add: written_namespaces_def)
qed (simp add: written_namespaces_def)

lemma steady_rules: "steady (concat (map rule_items ws))"
proof (induction ws)
  case (Cons w ws)
  then show ?case by (cases w) (auto simp: steady_def split: option.splits)
qed simp

lemma namespaces_written:
  "ws \<noteq> [] \<Longrightarrow> namespaces_of ps (concat (map rule_items ws)) = Some (0, ps @ map rule_policy ws)"
proof (induction ws arbitrary: ps)
  case (Cons w ws)
  let ?r = "concat (map rule_items ws)"
  have "one_rule (rule_items w @ ?r) = Taken (rule_policy w) ?r"
  proof (cases w)
    case (Rule name pos subject)
    have "SUBJECT \<noteq> SELF" "PERMIT \<noteq> DENY" "DENY \<noteq> PERMIT" by (simp_all add: namespaces_tokens)
    then show ?thesis using Rule
      by (cases name) (simp_all add: one_rule_def issuer_def permission_def)
  qed
  moreover have "?r = [] \<longleftrightarrow> ws = []"
  proof (cases ws)
    case (Cons w' ws')
    then show ?thesis by (cases w') simp
  qed simp
  ultimately show ?case using Cons.IH [of "ps @ [rule_policy w]"]
    by (subst namespaces_of.simps) simp
qed simp

lemma namespaces_file_read:
  assumes "list_all rule_writable ws" "ws \<noteq> []" "length (written_namespaces ws) \<le> YY_READ_BUF_SIZE" "terminated policies"
  shows "fits (parse_namespaces_file (written_namespaces ws) policies) (Some (0, contents policies @ map rule_policy ws))"
  using namespaces_file_fits [OF _ assms(3,4) _ steady_rules, of ws] nlex_file [OF assms(1)]
    namespaces_written [OF assms(2)]
  by simp

end
