(* ===== verification/PolicyFiles.thy ===== *)
theory PolicyFiles
  imports NamespaceFile
begin

text \<open>
  The parsers in the reading of the policies of a chain: whatever a file holds, what they return are
  terminated arrays, so the reading of Policy runs on them; the files of a certificate that were
  written as policies and namespaces give these. Then what the scanners do with quotes that do not
  close as expected, and with bytes above 127.
\<close>

section \<open>Arrays stay what they are\<close>

text \<open>What appending keeps of the array of policies, every action and every parse keeps.\<close>

definition append_keeps :: "(policy cells option \<Rightarrow> bool) \<Rightarrow> bool" where
  "append_keeps Q \<longleftrightarrow> (\<forall>mem v d w. Q v \<longrightarrow> listadd mem v d = Some w \<longrightarrow> Q w)"

lemma add_policy_keeps: "append_keeps Q \<Longrightarrow> add_policy mem p e = Some (v, e') \<Longrightarrow> Q (pe_policies e) \<Longrightarrow> Q (pe_policies e')"
  by (auto simp: add_policy_def append_keeps_def)

lemma policies_kept:
  "add_condition mem a c e = Some (v, e') \<Longrightarrow> pe_policies e' = pe_policies e"
  "real_condition mem i s e = Some (c', e') \<Longrightarrow> pe_policies e' = pe_policies e"
  "access_identity mem s e = Some (p', e') \<Longrightarrow> pe_policies e' = pe_policies e"
  "namespace_policy mem name c e = Some (p', e') \<Longrightarrow> pe_policies e' = pe_policies e"
  "namespace_condition mem i s e = Some (c', e') \<Longrightarrow> pe_policies e' = pe_policies e"
  by (auto simp: add_condition_def real_condition_def access_identity_def namespace_policy_def namespace_condition_def Let_def
      split: option.splits list.splits if_splits prod.splits)

lemma signing_keeps:
  assumes "append_keeps Q"
  shows "keeps (signing_action mem rd) (\<lambda>e. Q (pe_policies e))"
  unfolding keeps_def
proof (intro allI impI)
  fix r vals sc e v e'
  assume a: "signing_action mem rd r vals sc e = Some (v, e')" and e: "Q (pe_policies e)"
  have "Q (pe_policies e')" if "pe_policies e' = pe_policies e" using that e by simp
  moreover have "Q (pe_policies e')" if "add_policy mem p e = Some (x, e')" for p and x :: "'a yyval"
    using add_policy_keeps [OF assms that e] .
  ultimately show "Q (pe_policies e')"
    using a by (auto simp: signing_action_def split: if_splits list.splits yyval.splits option.splits dest: policies_kept)
qed

lemma namespaces_keeps:
  assumes "append_keeps Q"
  shows "keeps (namespaces_action mem rd) (\<lambda>e. Q (pe_policies e))"
  unfolding keeps_def
proof (intro allI impI)
  fix r vals sc e v e'
  assume a: "namespaces_action mem rd r vals sc e = Some (v, e')" and e: "Q (pe_policies e)"
  have "Q (pe_policies e')" if "pe_policies e' = pe_policies e" using that e by simp
  moreover have "Q (pe_policies e')" if "add_policy mem p e = Some (x, e')" for p and x :: "'a yyval"
    using add_policy_keeps [OF assms that e] .
  ultimately show "Q (pe_policies e')"
    using a by (auto simp: namespaces_action_def split: if_splits list.splits yyval.splits option.splits dest: policies_kept)
qed

lemma parses_keep:
  assumes "append_keeps Q" "Q policies"
  shows "signingparse stack mem rd input sc policies = Some (Some (i, e)) \<Longrightarrow> Q (pe_policies e)"
    "namespacesparse stack mem rd input sc policies = Some (Some (i, e)) \<Longrightarrow> Q (pe_policies e)"
  using yyrun_env [OF signing_keeps [OF assms(1)]] yyrun_env [OF namespaces_keeps [OF assms(1)]] assms(2)
  by (fastforce simp: signingparse_def namespacesparse_def yyparse_def)+

lemma terminated_keeps: "append_keeps terminated"
  by (auto simp: append_keeps_def listadd_def terminated_def split: option.splits if_splits)

text \<open>Arrays with nothing after their terminator.\<close>

definition exact :: "policy cells option \<Rightarrow> bool" where
  "exact v \<longleftrightarrow> v = to_cells (contents v)"

lemma exactI: "exact (to_cells ps)"
  by (simp add: exact_def to_cells_def contents_def)

lemma exact_terminated: "exact v \<Longrightarrow> terminated v"
  unfolding exact_def by (metis to_cells_def terminated_def in_set_conv_decomp option.case)

lemma exact_block: "exact v \<Longrightarrow> contents v = ps \<Longrightarrow> ps \<noteq> [] \<Longrightarrow> v = Some (block_of ps)"
  by (simp add: exact_def to_cells_def block_of_def)

lemma exact_keeps: "append_keeps exact"
  unfolding append_keeps_def
proof (intro allI impI)
  fix mem v d w
  assume v: "exact v" and w: "listadd mem v d = Some w"
  have m: "listadd True (to_cells xs) (Some p) = Some (to_cells (xs @ [p]))" for xs and p :: policy
    by (rule listadd_to_cells)
  obtain xs where x: "v = to_cells xs" using v by (auto simp: exact_def)
  show "exact w"
  proof (cases d)
    case (Some p)
    have "w = to_cells (xs @ [p]) \<or> w = None"
      using w m [of xs p] Some x by (cases mem) (auto simp: listadd_def split: option.splits)
    then show ?thesis using exactI [of "xs @ [p]"] exactI [of "[]"] by (elim disjE) (simp_all only: to_cells_simps(1))
  qed (use v w in \<open>simp add: listadd_def\<close>)
qed

section \<open>The policies of a chain\<close>

text \<open>
  The two parsers as Policy uses them: their answer is ignored. Where a parse is undefined or does
  not return, the value says nothing.
\<close>

definition parsed_policies :: "(int \<times> parse_env) option option \<Rightarrow> policy cells option \<Rightarrow> policy cells option" where
  "parsed_policies answer policies = (case answer of Some (Some (_, e)) \<Rightarrow> pe_policies e | _ \<Rightarrow> policies)"

definition file_parsers :: policy_parsers where
  "file_parsers =
     \<lparr>pp_signing = (\<lambda>file ps. parsed_policies (parse_signing_file file ps) ps),
      pp_namespaces = (\<lambda>file ps. parsed_policies (parse_namespaces_file file ps) ps)\<rparr>"

lemma file_parsers_keep:
  assumes "append_keeps Q" "Q ps"
  shows "Q (pp_signing file_parsers file ps)" "Q (pp_namespaces file_parsers file ps)"
  using assms parses_keep [OF assms]
  by (auto simp: file_parsers_def parsed_policies_def parse_signing_file_def parse_namespaces_file_def split: option.splits)

text \<open>A parse that fits an answer with policies leaves these.\<close>

lemma fits_parsed:
  "fits R (Some (i, ps)) \<Longrightarrow> terminated (parsed_policies R v) \<and> contents (parsed_policies R v) = ps"
  by (cases "(R, Some (i, ps))" rule: fits.cases) (auto simp: parsed_policies_def good_env_def)

lemma rename_written: "map (rename hash) (concat (map read_policies ws)) = concat (map read_policies ws)"
proof (induction ws)
  case (Cons w ws)
  then show ?case by (cases w) (simp add: rename_def policy_of_def)
qed simp

lemma rename_exact: "rename_policies hash (to_cells ps) = Some (to_cells (map (rename hash) ps))"
  using rename_self_from [of 0 ps hash "[]"] by (simp add: rename_policies_def to_cells_def)

lemma written_signings:
  assumes "list_all writable ws" "ws \<noteq> []" "length (written_file ws) \<le> YY_READ_BUF_SIZE"
  shows "pp_signing file_parsers (written_file ws) (to_cells ps) = to_cells (ps @ concat (map read_policies ws))"
proof -
  have c: "contents (to_cells ps) = ps" by (simp add: to_cells_def contents_def)
  from fits_parsed [OF signing_file_read [OF assms exact_terminated [OF exactI [of ps]]], of "to_cells ps"] c
  have "contents (pp_signing file_parsers (written_file ws) (to_cells ps)) = ps @ concat (map read_policies ws)"
    by (simp add: file_parsers_def)
  then show ?thesis using file_parsers_keep(1) [OF exact_keeps exactI [of ps], of "written_file ws"] by (simp add: exact_def)
qed

lemma written_names:
  assumes "list_all rule_writable ns" "ns \<noteq> []" "length (written_namespaces ns) \<le> YY_READ_BUF_SIZE"
  shows "pp_namespaces file_parsers (written_namespaces ns) (to_cells ps) = to_cells (ps @ map rule_policy ns)"
proof -
  have c: "contents (to_cells ps) = ps" by (simp add: to_cells_def contents_def)
  from fits_parsed [OF namespaces_file_read [OF assms exact_terminated [OF exactI [of ps]]], of "to_cells ps"] c
  have "contents (pp_namespaces file_parsers (written_namespaces ns) (to_cells ps)) = ps @ map rule_policy ns"
    by (simp add: file_parsers_def)
  then show ?thesis using file_parsers_keep(2) [OF exact_keeps exactI [of ps], of "written_namespaces ns"] by (simp add: exact_def)
qed

lemma read_written:
  assumes "fs (path @ ''/'' @ take 8 (gethash o1 cert) @ ''.signing_policy'') = Some (written_file ws)"
    "fs (path @ ''/'' @ take 8 (gethash o1 cert) @ ''.namespaces'') = Some (written_namespaces ns)"
    "list_all writable ws" "ws \<noteq> []" "length (written_file ws) \<le> YY_READ_BUF_SIZE"
    "list_all rule_writable ns" "ns \<noteq> []" "length (written_namespaces ns) \<le> YY_READ_BUF_SIZE"
  shows "read_pathrestriction o1 file_parsers fs [cert] path None None =
    Some (to_cells (map (rename (gethash o1 cert)) (map rule_policy ns)), to_cells (concat (map read_policies ws)))"
proof -
  let ?h = "gethash o1 cert"
  have n: "None = to_cells ([] :: policy list)" by (simp add: to_cells_def)
  have "open_from_dir fs path (''/'' @ take 8 ?h @ ''.signing_policy'') = Some (written_file ws)"
    "open_from_dir fs path (''/'' @ take 8 ?h @ ''.namespaces'') = Some (written_namespaces ns)"
    using assms(1,2) by (simp_all add: open_from_dir_def snprintf_wrap_Some)
  then show ?thesis
    using written_signings [OF assms(3-5), of "[]"] written_names [OF assms(6-8), of "[]"]
    by (simp add: n rename_exact rename_written del: map_map to_cells_simps)
qed

section \<open>An authority without a name\<close>

text \<open>\<open>access_id_CA X509 ''\<close>: the list of subjects is NULL, and its first element is read.\<close>

lemma empty_authority:
  assumes "plain r" "length r \<le> 8000" "terminated policies"
  shows "parse_signing_file (keyword ACCESS_ID_CA @ CHR '' '' # keyword X509 @ CHR '' '' # CHR 0x27 # CHR 0x27 # CHR 0x0A # r) policies =
    Some None"
proof -
  let ?file = "keyword ACCESS_ID_CA @ CHR '' '' # keyword X509 @ CHR '' '' # CHR 0x27 # CHR 0x27 # CHR 0x0A # r"
  obtain its where its: "slex 1 False r = Some its"
    using signing_scanner.lex_total [OF assms(1), of 1 False] by auto
  have p: "plain (CHR 0x27 # CHR 0x27 # CHR 0x0A # r)" using assms(1) by simp
  have "slex 1 False ?file = Some (tok ACCESS_ID_CA # tok X509 # Item SUBJECTS (Some []) False # its)"
    using signing_keyword(7) [of "CHR '' ''" "keyword X509 @ CHR '' '' # CHR 0x27 # CHR 0x27 # CHR 0x0A # r"]
      signing_keyword(9) [of "CHR '' ''" "CHR 0x27 # CHR 0x27 # CHR 0x0A # r"] slex_quoted_line [of "[]" r] assms(1) p its
    by (simp add: unquoted_def)
  then have "signing_answer (contents policies) ?file = None"
    by (simp add: signing_answer_def policies_of.simps one_entry_def identity_def subjects.simps)
  moreover have "length ?file \<le> YY_READ_BUF_SIZE"
    using assms(2) by (simp add: YY_READ_BUF_SIZE_def keyword_def signing_tokens)
  moreover have "plain ?file" using p by simp
  ultimately have "fits (parse_signing_file ?file policies) None"
    using signing_file_fits [of ?file policies] assms(3) by simp
  then show ?thesis by (cases "(parse_signing_file ?file policies, None :: (int \<times> policy list) option)" rule: fits.cases) auto
qed

section \<open>Bytes above 127\<close>

lemma signing_string_rows:
  "signing_scanner.loops 3 20 39 21" "signing_scanner.loops 20 32 39 33" "signing_scanner.loops 32 32 39 33"
  "signing_scanner.closed 33" "accepting signing_scan_tables 33 = 3" "accepting signing_scan_tables 32 = 0"
  "accepting signing_scan_tables 20 = 17" "st_eob signing_scan_tables = 18" "length (st_nxt signing_scan_tables) = 106"
  unfolding signing_scanner.closed_def signing_scanner.loops_def
  by code_simp+

lemma high_byte_code:
  assumes "129 \<le> (of_char c :: nat)"
  shows "of_char c div 128 = (1 :: nat)" "of_char c mod 128 \<noteq> (0 :: nat)"
proof -
  obtain k where k: "of_char c = 128 + (k :: nat)" "0 < k" "k < 128"
    using assms nat_of_char_less_256 [of c] that [of "of_char c - 128"] by linarith
  show "of_char c div 128 = (1 :: nat)" "of_char c mod 128 \<noteq> (0 :: nat)"
    unfolding k(1) using k(2,3) by simp_all
qed

text \<open>
  Bytes above 127 in a quoted string. The table has 128 columns, so a byte above 128 is looked up in
  the row after the row of the state, in which no character goes on and which accepts: the string ends
  before the byte, as if it were closed there, and the token the parser gets is the text so far
  without its last character, cut as if it were the quote.
\<close>

theorem high_byte_ends_string:
  assumes "drop (sc_pos st) (sc_buf (begin_pass st)) = w @ c # rest" "unquoted (CHR 0x27) w" "2 \<le> length w"
    "129 \<le> (of_char c :: nat)" "sc_start st = 3"
  shows "\<exists>st1 st2. yy_scan signing_scan_tables 3 (sc_pos st) (begin_pass st) = Some (Matched 3 (sc_pos st + length w) st1) \<and>
    do_effect str none signing_effect 3 (before_action (sc_pos st + length w) st1) = Some (st2, Some (SUBJECTS, str (yytext st2))) \<and>
    read_text st2 (yytext st2) = Some (butlast w)"
proof -
  let ?T = signing_scan_tables and ?buf = "sc_buf (begin_pass st)" and ?p = "sc_pos st"
  obtain f g v where w: "w = f # g # v" using assms(3) by (cases w; cases "tl w") auto
  have q: "of_char (CHR 0x27) = (39 :: nat)" by (simp add: of_char_def)
  have pl: "plain w" using assms(2) by (simp add: unquoted_def)
  have codes: "of_char f \<noteq> (39 :: nat)" "of_char g \<noteq> (39 :: nat)" "list_all (\<lambda>d. (of_char d :: nat) \<noteq> 39) v"
    "f \<noteq> NUL" "g \<noteq> NUL" "plain v"
  proof -
    have "list_all (\<lambda>d. (of_char d :: nat) \<noteq> 39) w"
      using unquoted_codes [OF assms(2)] unfolding q .
    then show "of_char f \<noteq> (39 :: nat)" "of_char g \<noteq> (39 :: nat)" "list_all (\<lambda>d. (of_char d :: nat) \<noteq> 39) v"
      "f \<noteq> NUL" "g \<noteq> NUL" "plain v" using pl w by simp_all
  qed
  note rows = signing_string_rows
  have m: "munch ?T 3 w 0 None = Ends 32 (length w) (Some (20, 1))"
    using signing_scanner.loops_entry [OF rows(1) codes(4)] signing_scanner.loops_entry [OF rows(2) codes(5)] codes(1,2)
      signing_scanner.munch_loop [OF rows(3,6) codes(6,3), of 2 "Some (20, 1)"] rows(6,7)
    by (simp add: w Let_def numeral_2_eq_2)
  have first: "?p < length ?buf" "?buf ! ?p = f" using drop_ConsD [of ?p ?buf f] assms(1) w by simp_all
  have "yy_match ?T ?buf 3 ?p l = yy_match ?T ?buf 3 ?p None" for l
    using first codes(4) pl w by (intro signing_scanner.match_start) simp_all
  also have "yy_match ?T ?buf 3 ?p None = yy_match ?T ?buf 32 (?p + length w) (Some (20, ?p))"
    using signing_scanner.match_prefix [OF m _ pl, of ?p ?buf "c # rest"] assms(1) signing_scanner.valid_start [of 3] by simp
  also have "\<dots> = Some (33, ?p + length w, Some (20, ?p))"
  proof -
    have "drop (length w + ?p) ?buf = c # rest"
      using arg_cong [OF assms(1), of "drop (length w)"] by simp
    from drop_ConsD [OF this] have at: "?p + length w < length ?buf" "?buf ! (?p + length w) = c"
      by (simp_all add: add.commute)
    note d = high_byte_code [OF assms(4)]
    have "row_entry (st_nxt ?T ! 33) (of_char c mod 128) = - 33"
    proof -
      have "map_of (snd (st_nxt ?T ! 33)) (of_char c mod 128) = None"
        using rows(4) d(2) by (auto simp: signing_scanner.closed_def list_all_iff map_of_eq_None_iff)
      then show ?thesis using rows(4) by (simp add: row_entry_def signing_scanner.closed_def)
    qed
    then have "nxt ?T 32 (of_char c) = Some (- 33)" using d(1) rows(9) by (simp add: nxt_def Let_def)
    then show ?thesis using at by (subst yy_match.simps) simp
  qed
  finally have match: "yy_match ?T ?buf 3 ?p l = Some (33, ?p + length w, Some (20, ?p))" for l .
  let ?st1 = "(begin_pass st)\<lparr>sc_last := Some (20, ?p)\<rparr>"
  have scan: "yy_scan ?T 3 ?p (begin_pass st) = Some (Matched 3 (?p + length w) ?st1)"
    using match rows by (subst yy_scan.simps) (simp add: yy_find_action_def)
  let ?s = "before_action (?p + length w) ?st1"
  have "take (Suc (length w)) (drop ?p (?buf[?p + length w := NUL])) = w @ [NUL]"
    using assms(1) by (simp add: drop_update_swap take_Suc_conv_app_nth)
  then have "whole w ?s" by (simp add: whole_def before_action_def)
  from drop_quote_ok [OF this pl] w obtain st2 where
    "drop_quote ?s = Some st2" "held (sc_pos st2) st2 (yytext st2) (butlast w)" by auto
  then have "do_effect str none signing_effect 3 ?s = Some (BEGIN 0 st2, Some (SUBJECTS, str (yytext (BEGIN 0 st2))))"
    "read_text (BEGIN 0 st2) (yytext (BEGIN 0 st2)) = Some (butlast w)"
    using held_read by (simp_all add: do_effect_def signing_effect_def)
  with scan show ?thesis by blast
qed

definition sample_high :: scan_state where
  "sample_high = (yylex_init [])\<lparr>sc_buf := ''abc'' @ [CHR 0xE9, CHR ''d'', CHR 0x27, NUL, NUL], sc_hold := CHR ''a'', sc_start := 3\<rparr>"

lemma high_byte_ends_string_witness:
  "\<exists>st1 st2. yy_scan signing_scan_tables 3 0 (begin_pass sample_high) = Some (Matched 3 3 st1) \<and>
    do_effect V_string V_none signing_effect 3 (before_action 3 st1) = Some (st2, Some (SUBJECTS, V_string (yytext st2))) \<and>
    read_text st2 (yytext st2) = Some ''ab''"
proof -
  have "drop (sc_pos sample_high) (sc_buf (begin_pass sample_high)) = ''abc'' @ CHR 0xE9 # [CHR ''d'', CHR 0x27, NUL, NUL]"
    "sc_pos sample_high = 0" "sc_start sample_high = 3"
    by (simp_all add: sample_high_def begin_pass_def yylex_init_def)
  moreover have "unquoted (CHR 0x27) ''abc''" "129 \<le> (of_char (CHR 0xE9) :: nat)" by code_simp+
  ultimately show ?thesis
    using high_byte_ends_string [of sample_high "''abc''" "CHR 0xE9" "[CHR ''d'', CHR 0x27, NUL, NUL]" V_string V_none] by (simp add: numeral_3_eq_3)
qed

end
