(* ===== verification/PolicyVerdict.thy ===== *)
theory PolicyVerdict
  imports PolicyFiles
begin

text \<open>
  The files of policies from their text to the verdict on a certificate: the properties of the
  scanners, the parsers, the reading and the evaluation put together, each applied to a small
  directory.
\<close>

section \<open>Sample files\<close>

definition sample_signings :: "written list" where
  "sample_signings = [Written (Some ''/CN=ca'') True [(True, [''/CN=*'']), (False, [''/CN=x'', ''/CN=y''])]]"

definition sample_names :: "written_rule list" where
  "sample_names = [Rule (Some ''/CN=other'') True ''ab'', Rule None False ''ab'', Rule (Some ''/CN=ca'') True ''a'']"

lemma sample_bare: "bare ''/CN=ca''" "bare ''/CN=*''" "bare ''/CN=x''" "bare ''/CN=y''" "bare ''/CN=other''" "bare ''ab''" "bare ''a''"
  by code_simp+

lemma sample_signings_ok:
  "list_all writable sample_signings" "sample_signings \<noteq> []" "length (written_file sample_signings) \<le> YY_READ_BUF_SIZE"
  by (simp_all add: sample_signings_def sample_bare written_file_def written_identity_def keyword_def signing_tokens
      YY_READ_BUF_SIZE_def)

lemma sample_names_ok:
  "list_all rule_writable sample_names" "sample_names \<noteq> []" "length (written_namespaces sample_names) \<le> YY_READ_BUF_SIZE"
  by (simp_all add: sample_names_def sample_bare written_namespaces_def nkeyword_def namespaces_tokens YY_READ_BUF_SIZE_def)

lemma sample_plain: "plain (written_file sample_signings)" "plain (written_namespaces sample_names)"
  using slex_file [OF sample_signings_ok(1)] nlex_file [OF sample_names_ok(1)] by simp_all

lemma no_policies: "terminated None" "contents (None :: policy cells option) = []"
  by (simp_all add: terminated_def contents_def)

section \<open>The scanner\<close>

text \<open>
  The scanner of signing policies on a text of 7-bit characters that fits one read. It always
  reaches the end of the file without undefined behaviour, and the tokens it delivers are those of
  the longest-match lexer on lists, with strings that can be read where the parser gets them; there
  are no more tokens than characters.
\<close>

theorem signinglex_tokens:
  assumes "plain file" "length file \<le> YY_READ_BUF_SIZE"
  shows "\<exists>its ys. lex_list signing_scan_tables signing_effect 1 False file = Some its \<and> signinglex file = Some ys \<and>
    delivers V_string V_none [] its ys \<and> proper 267 its \<and> length its \<le> length file"
proof -
  obtain its where its: "slex 1 False file = Some its"
    using signing_scanner.lex_total [OF assms(1), of 1 False] by auto
  from signing_scanner.lexes_file [OF this assms, of V_string V_none] signing_items [OF this] its
  show ?thesis by (auto simp: signinglex_def)
qed

lemma signinglex_tokens_witness:
  "\<exists>ys. signinglex (written_file sample_signings) = Some ys \<and>
     delivers V_string V_none [] (concat (map policy_items sample_signings)) ys"
  using signinglex_tokens [OF sample_plain(1) sample_signings_ok(3)] slex_file [OF sample_signings_ok(1)] by auto

section \<open>Files\<close>

text \<open>
  C5: a file of signing policies that fits one read, of 7-bit characters. The table-driven scanner
  and the table-driven parser together return, with the answer and the policies that the
  longest-match lexer on lists and a parser by recursive descent give, added to the policies there
  were; what they do is undefined exactly when the reference meets an authority without a name.
\<close>

theorem signing_file_answer:
  assumes "plain file" "length file \<le> YY_READ_BUF_SIZE" "terminated policies"
  shows "case signing_answer (contents policies) file of
      None \<Rightarrow> parse_signing_file file policies = Some None
    | Some (answer, ps) \<Rightarrow> \<exists>e. parse_signing_file file policies = Some (Some (answer, e)) \<and>
        terminated (pe_policies e) \<and> contents (pe_policies e) = ps"
  using signing_file_fits [OF assms]
  by (cases "(parse_signing_file file policies, signing_answer (contents policies) file)" rule: fits.cases)
    (auto simp: good_env_def)

lemma signing_file_answer_witness:
  "\<exists>e. parse_signing_file (written_file sample_signings) None = Some (Some (0, e)) \<and>
     contents (pe_policies e) = concat (map read_policies sample_signings)"
proof -
  have "signing_answer [] (written_file sample_signings) = Some (0, concat (map read_policies sample_signings))"
    using slex_file [OF sample_signings_ok(1)] policies_written [OF sample_signings_ok(1,2), of "[]"]
    by (simp add: signing_answer_def)
  then show ?thesis
    using signing_file_answer [OF sample_plain(1) sample_signings_ok(3) no_policies(1)] no_policies(2) by auto
qed

lemma fits_Some: "fits R (Some (i, ps)) \<Longrightarrow> \<exists>e. R = Some (Some (i, e)) \<and> contents (pe_policies e) = ps"
  by (cases "(R, Some (i, ps))" rule: fits.cases) (auto simp: good_env_def)

text \<open>
  C14: signing policies that were written to a file are read back. The policies that grant rights
  come in their order after those there were, with the name of the authority and its subjects; the
  conditions of each come in reverse order, and of the text a condition came from only the first
  subject with its opening quote can be read afterwards. Policies that deny rights are dropped.
\<close>

theorem signing_file_roundtrip:
  assumes "list_all writable ws" "ws \<noteq> []" "length (written_file ws) \<le> YY_READ_BUF_SIZE" "terminated policies"
  shows "\<exists>e. parse_signing_file (written_file ws) policies = Some (Some (0, e)) \<and>
    contents (pe_policies e) = contents policies @ concat (map read_policies ws)"
  by (rule fits_Some [OF signing_file_read [OF assms]])

lemma signing_file_roundtrip_witness:
  "\<exists>e. parse_signing_file (written_file sample_signings) None = Some (Some (0, e)) \<and>
     contents (pe_policies e) =
       [policy_of (Some ''/CN=ca'') [read_condition (False, [''/CN=x'', ''/CN=y'']), read_condition (True, [''/CN=*''])]]"
  using signing_file_roundtrip [OF sample_signings_ok no_policies(1)] no_policies(2)
  by (simp add: sample_signings_def)

text \<open>
  C15: namespaces that were written to a file are read back: each rule gives one policy, in their
  order after the policies there were, with the name of the issuer or the mark for the authority's own
  subject, and one condition with the subject and its sign.
\<close>

theorem namespaces_file_roundtrip:
  assumes "list_all rule_writable ws" "ws \<noteq> []" "length (written_namespaces ws) \<le> YY_READ_BUF_SIZE" "terminated policies"
  shows "\<exists>e. parse_namespaces_file (written_namespaces ws) policies = Some (Some (0, e)) \<and>
    contents (pe_policies e) = contents policies @ map rule_policy ws"
  by (rule fits_Some [OF namespaces_file_read [OF assms]])

lemma namespaces_file_roundtrip_witness:
  "\<exists>e. parse_namespaces_file (written_namespaces sample_names) None = Some (Some (0, e)) \<and>
     contents (pe_policies e) = map rule_policy sample_names"
  using namespaces_file_roundtrip [OF sample_names_ok no_policies(1)] no_policies(2) by simp

section \<open>Arrays\<close>

text \<open>
  C38: whatever the tokens are, wherever memory fails for the stack of the parser, for the nodes and for the
  arrays, and whatever a parse answers: the array of policies it leaves is terminated.
\<close>

theorem parses_terminated:
  assumes "terminated policies"
    "signingparse stack mem rd input sc policies = Some (Some (i, e)) \<or>
     namespacesparse stack mem rd input sc policies = Some (Some (i, e))"
  shows "terminated (pe_policies e)"
  using assms(2) by (elim disjE) (rule parses_keep [OF terminated_keeps assms(1)], assumption)+

lemma parses_terminated_witness:
  "\<exists>ys e. signingparse (\<lambda>_. True) (\<lambda>_. True) read_text ys (yylex_init (written_file sample_signings)) None = Some (Some (0, e)) \<and>
     terminated (pe_policies e)"
proof -
  obtain e where "parse_signing_file (written_file sample_signings) None = Some (Some (0, e))"
    using fits_Some [OF signing_file_read [OF sample_signings_ok no_policies(1)]] by blast
  then obtain ys where p: "signingparse (\<lambda>_. True) (\<lambda>_. True) read_text ys (yylex_init (written_file sample_signings)) None =
      Some (Some (0, e))"
    by (auto simp: parse_signing_file_def split: option.splits)
  from p parses_terminated [OF no_policies(1) disjI1 [OF p]] show ?thesis by blast
qed

section \<open>The verdict of a directory\<close>

text \<open>What the rules of a namespaces file say of a subject: the first that applies and whose pattern hits.\<close>

fun rule_applies :: "ossl \<Rightarrow> cstring \<Rightarrow> cstring \<Rightarrow> written_rule \<Rightarrow> bool" where
  "rule_applies o1 iss subject (Rule name pos pattern) \<longleftrightarrow>
     (case name of None \<Rightarrow> True | Some n \<Rightarrow> n = iss) \<and> ns_hit o1 pattern subject"

definition rules_verdict :: "ossl \<Rightarrow> cstring \<Rightarrow> cstring \<Rightarrow> written_rule list \<Rightarrow> int" where
  "rules_verdict o1 iss subject ns =
     (case find (rule_applies o1 iss subject) ns of
        Some (Rule name False pattern) \<Rightarrow> SUCCESS_DENY
      | _ \<Rightarrow> SUCCESS_PERMIT)"

lemma rule_verdict:
  fixes name :: "cstring option" and pos :: bool and pattern :: cstring
  assumes "o_oneline o1 (x_subject cert) = Some subject" "o_oneline o1 (x_issuer cert) = Some iss"
  defines "p \<equiv> rename (gethash o1 cert) (rule_policy (Rule name pos pattern))"
  shows "policy_matches o1 cert p = Some (case name of None \<Rightarrow> True | Some n \<Rightarrow> n = iss)"
    "restriction_evaluate_policy o1 (Some cert) (Some p) =
      Some (if ns_hit o1 pattern subject then (if pos then SUCCESS_PERMIT else SUCCESS_DENY) else SUCCESS_UNDECIDED)"
proof -
  show "policy_matches o1 cert p = Some (case name of None \<Rightarrow> True | Some n \<Rightarrow> n = iss)"
    using assms(2) by (cases name) (auto simp: p_def policy_matches_def rename_def namespace_of_def strcmp_eq_0)
  let ?cs = "[namespace_subject (if pos then 1 else 0) pattern]"
  have "p_type p = TYPE_NAMESPACE" "p_conds p = Some (block_of ?cs)"
    by (auto simp: p_def rename_def namespace_of_def block_of_def)
  then show "restriction_evaluate_policy o1 (Some cert) (Some p) =
      Some (if ns_hit o1 pattern subject then (if pos then SUCCESS_PERMIT else SUCCESS_DENY) else SUCCESS_UNDECIDED)"
    using policy_verdict_decide [of p ?cs o1 cert subject] assms(1)
    by (auto simp: namespace_subject_def good_cond_def type_ok_def block_of_def decide_def type_hit_def)
qed

lemma rules_readable:
  fixes ns :: "written_rule list"
  assumes "o_oneline o1 (x_subject cert) = Some subject" "o_oneline o1 (x_issuer cert) = Some iss"
  defines "ps \<equiv> map (rename (gethash o1 cert)) (map rule_policy ns)"
  shows "readable o1 cert ps"
    "(let v = first_decided (map (policy_verdict o1 cert) (matching o1 cert ps))
      in if v = SUCCESS_UNDECIDED then SUCCESS_PERMIT else v) = rules_verdict o1 iss subject ns"
proof -
  show "readable o1 cert ps"
  proof -
    have "policy_matches o1 cert (rename (gethash o1 cert) (rule_policy w)) \<noteq> None \<and>
        restriction_evaluate_policy o1 (Some cert) (Some (rename (gethash o1 cert) (rule_policy w))) \<noteq> None" for w
      using rule_verdict [OF assms(1,2)] by (cases w) (simp del: rule_policy.simps)
    then show ?thesis by (auto simp: readable_def ps_def list_all_iff)
  qed
  show "(let v = first_decided (map (policy_verdict o1 cert) (matching o1 cert ps))
      in if v = SUCCESS_UNDECIDED then SUCCESS_PERMIT else v) = rules_verdict o1 iss subject ns"
    unfolding ps_def
  proof (induction ns)
    case Nil
    then show ?case by (simp add: matching_def rules_verdict_def)
  next
    case (Cons w ns)
    obtain name pos pattern where w: "w = Rule name pos pattern" by (cases w)
    note v = rule_verdict [OF assms(1,2), of name pos pattern]
    show ?case
      using Cons v by (auto simp: w matching_def rules_verdict_def policy_verdict_def Let_def verdict_defs
          simp del: rule_policy.simps split: if_splits)
  qed
qed

text \<open>
  C4: the verdict of a directory. For a certificate that is not self-signed, with the files of its hash in
  the directory of the certificates: the files are scanned, parsed, renamed and evaluated without undefined
  behaviour, and the verdict is that of the first rule of the namespaces that is about the issuer (or about the
  authority itself) and whose pattern matches the normalised subject; without such a rule the
  certificate is permitted. The signing policies do not count.
\<close>

theorem namespaces_file_verdict:
  assumes "fs (path @ ''/'' @ take 8 (gethash o1 cert) @ ''.signing_policy'') = Some (written_file ws)"
    "fs (path @ ''/'' @ take 8 (gethash o1 cert) @ ''.namespaces'') = Some (written_namespaces ns)"
    "list_all writable ws" "ws \<noteq> []" "length (written_file ws) \<le> YY_READ_BUF_SIZE"
    "list_all rule_writable ns" "ns \<noteq> []" "length (written_namespaces ns) \<le> YY_READ_BUF_SIZE"
    "o_oneline o1 (x_subject cert) = Some subject" "o_oneline o1 (x_issuer cert) = Some iss"
    "\<not> isselfsigned o1 cert"
  shows "\<exists>names signs. read_pathrestriction o1 file_parsers fs [cert] path None None = Some (names, signs) \<and>
    restriction_evaluate o1 [cert] names signs = Some (rules_verdict o1 iss subject ns)"
proof -
  let ?ps = "map (rename (gethash o1 cert)) (map rule_policy ns)"
  have names: "to_cells ?ps = Some (block_of ?ps)" using assms(7) by (simp add: block_of_def)
  note e = evaluate_cert_decided [OF rules_readable(1) [OF assms(9,10)] assms(11), of ns]
  have "restriction_evaluate o1 [cert] (to_cells ?ps) signs = Some (rules_verdict o1 iss subject ns)" for signs
    using namespace_last [of o1 "[cert]" "Some (block_of ?ps)"] e rules_readable(2) [OF assms(9,10), of ns]
      namespace_never_undecided [of o1 "[cert]" "Some (block_of ?ps)"]
    by (simp add: restriction_evaluate_def names visit_order_def evaluable_def Let_def verdict_defs del: map_map)
  then show ?thesis using read_written [OF assms(1-8)] by blast
qed


lemma namespaces_file_verdict_witness:
  "\<exists>names signs. read_pathrestriction sample_ossl file_parsers
       (\<lambda>f. if f = ''/etc/00000001.signing_policy'' then Some (written_file sample_signings)
            else if f = ''/etc/00000001.namespaces'' then Some (written_namespaces sample_names) else None)
       [sample_cert [sample_cn ''ab''] [sample_cn ''ca''] []] ''/etc'' None None = Some (names, signs) \<and>
     restriction_evaluate sample_ossl [sample_cert [sample_cn ''ab''] [sample_cn ''ca''] []] names signs = Some SUCCESS_DENY"
proof -
  let ?c = "sample_cert [sample_cn ''ab''] [sample_cn ''ca''] []"
  have h: "gethash sample_ossl ?c = ''00000001''"
    by (simp add: gethash_def sample_ossl_def sample_cert_def hex8_def hexdigit_def)
  have n: "o_oneline sample_ossl (x_subject ?c) = Some ''/CN=ab''" "o_oneline sample_ossl (x_issuer ?c) = Some ''/CN=ca''"
    by (simp_all add: sample_ossl_def sample_cert_def sample_cn_def)
  have s: "\<not> isselfsigned sample_ossl ?c" by (simp add: sample_selfsigned)
  have "ns_hit sample_ossl ''ab'' ''/CN=ab''"
    by (simp add: ns_hit_def canon_def alias_rules_def sample_ossl_def sublist_Cons_right)
  then have v: "rules_verdict sample_ossl ''/CN=ca'' ''/CN=ab'' sample_names = SUCCESS_DENY"
    by (simp add: rules_verdict_def sample_names_def)
  show ?thesis
    using namespaces_file_verdict [OF _ _ sample_signings_ok sample_names_ok n s, where path = "''/etc''"
        and fs = "\<lambda>f. if f = ''/etc/00000001.signing_policy'' then Some (written_file sample_signings)
            else if f = ''/etc/00000001.namespaces'' then Some (written_namespaces sample_names) else None"]
    by (simp add: h v del: read_pathrestriction.simps)
qed

section \<open>An entry for anybody\<close>

text \<open>
  A signing policy for anybody has no name, and looking for the policies of a certificate compares its name:
  once a file begins with an entry for anybody that grants rights, evaluating a certificate that
  is not self-signed against it passes NULL to \<open>strcmp\<close>.
\<close>

theorem anybody_undefined:
  assumes "list_all writable (Written None True conds # ws)"
    "length (written_file (Written None True conds # ws)) \<le> YY_READ_BUF_SIZE" "\<not> isselfsigned o1 cert"
  shows "\<exists>e. parse_signing_file (written_file (Written None True conds # ws)) None = Some (Some (0, e)) \<and>
    evaluate_cert o1 cert (pe_policies e) = None"
proof -
  let ?w = "Written None True conds # ws" and ?p = "policy_of None (rev (map read_condition conds))"
  obtain e where e: "parse_signing_file (written_file ?w) None = Some (Some (0, e))"
    using fits_Some [OF signing_file_read [OF assms(1) _ assms(2) no_policies(1)]] by blast
  have "pe_policies e = to_cells ([] @ concat (map read_policies ?w))"
    using written_signings [OF assms(1) _ assms(2), of "[]"] e
    by (simp add: file_parsers_def parsed_policies_def)
  then have "pe_policies e = Some (block_of (?p # concat (map read_policies ws)))"
    by (simp add: block_of_def)
  moreover have "policy_matches o1 cert ?p = None"
    by (simp add: policy_matches_def policy_of_def split: option.split)
  ultimately have "evaluate_cert o1 cert (pe_policies e) = None"
    using assms(3)
    by (simp add: evaluate_cert_def evaluate_loop.simps find_policy_def find_policy_loop.simps cell_def block_of_def)
  with e show ?thesis by blast
qed

lemma anybody_undefined_witness:
  "\<exists>e. parse_signing_file (written_file [Written None True [(True, [''/CN=x''])]]) None = Some (Some (0, e)) \<and>
     evaluate_cert sample_ossl (sample_cert [sample_cn ''ab''] [sample_cn ''ca''] []) (pe_policies e) = None"
  by (rule anybody_undefined)
    (simp_all add: sample_selfsigned sample_bare written_file_def written_identity_def keyword_def signing_tokens YY_READ_BUF_SIZE_def)

section \<open>An authority without a name\<close>

text \<open>
  The entry \<open>access_id_CA X509 ''\<close>, with an empty name in single quotes: whatever follows, its list of
  subjects is NULL, and reading its first element is undefined behaviour.
\<close>

theorem empty_authority_undefined:
  assumes "plain r" "length r \<le> 8000" "terminated policies"
  shows "parse_signing_file (''access_id_CA X509 '' @ CHR 0x27 # CHR 0x27 # CHR 0x0A # r) policies = Some None"
  using empty_authority [OF assms] by (simp add: keyword_def signing_tokens)

lemma empty_authority_undefined_witness:
  "parse_signing_file (''access_id_CA X509 '' @ CHR 0x27 # CHR 0x27 # CHR 0x0A # ''pos_rights'') None = Some None"
  by (rule empty_authority_undefined) (simp_all add: no_policies of_char_def NUL_def)

end
