(* ===== verification/VomsParser.thy ===== *)
theory VomsParser
  imports Bison Prelude
begin

text \<open>
  The parser of the options of voms-proxy-fake (src/src/utils/vomsparser.c, generated from vomsfake.y
  and kept in the repository; the types are those of fakeparsertypes.h): its tables, its actions and
  \<open>convertparam\<close>. It makes the list of VOs whose attributes are to be put into a proxy.

  The strings of the tokens are copies. Arrays are made for MAX_SIZE pointers and are not grown: a
  write past them is \<open>None\<close>, and so is a number of hours that does not fit an \<open>int\<close> of seconds. The
  calls for memory are not tested by the code and succeed. The strings of a parameter are freed when
  it is converted, then they are \<open>None\<close>.
\<close>

section \<open>Data\<close>

record param =
  pm_name :: "cstring option"
  pm_value :: "cstring option"

record vo =
  vo_name :: cstring
  vo_hostcert :: "cstring option"
  vo_hostkey :: "cstring option"
  vo_fqans :: "cstring list"
  vo_gas :: "cstring list"
  vo_vomslife :: int
  vo_targets :: "cstring option"
  vo_uri :: "cstring option"
  vo_newformat :: int
  vo_pastac :: "cstring option"
  vo_params :: "param list"
  vo_extensions :: "cstring list"

text \<open>The union of the semantic values.\<close>

datatype vval = X_none | X_string cstring | X_param param | X_params "param list" | X_vo vo | X_vos "vo list"

definition MAX_SIZE :: nat where "MAX_SIZE = 200"

section \<open>Tokens and tables\<close>

definition STRING :: int where "STRING = 258"
definition ID :: int where "ID = 259"

definition voms_yytranslate :: "int \<Rightarrow> int" where
  "voms_yytranslate t =
     (if 0 \<le> t \<and> t \<le> 259 then
        (if t = 0 then 0 else if t = 40 then 8 else if t = 41 then 9 else if t = 61 then 7 else if t = 91 then 5
         else if t = 93 then 6 else if t = 256 then 1 else if t = 258 then 3 else if t = 259 then 4 else 2)
      else 2)"

definition voms_tables :: yytables where
  "voms_tables =
     \<lparr>yypact = [-3, 4, 0, -16, -2, -16, -16, 5, 6, 5, -16, 3, -16, -16, -16, 7, 3, 2, 3, 8, -16],
      yypact_ninf = -16,
      yydefact = [0, 0, 0, 2, 0, 1, 3, 5, 0, 4, 6, 0, 7, 12, 11, 8, 0, 9, 0, 0, 10],
      yytable = [5, 17, 1, 19, 7, 1, 13, 14, 4, 8, 18, 6, 0, 11, 16, 0, 0, 20, 0, 12],
      yytable_ninf = -1,
      yycheck = [0, 16, 5, 18, 6, 5, 3, 4, 4, 4, 8, 2, -1, 7, 7, -1, -1, 9, -1, 9],
      yylast = 19, yyfinal = 5,
      yypgoto = [-16, -16, 9, -16, 10, -15],
      yydefgoto = [-1, 2, 3, 9, 10, 15],
      yyr1 = [0, 10, 11, 11, 12, 12, 13, 13, 14, 14, 14, 15, 15],
      yyr2 = [0, 2, 1, 2, 4, 3, 1, 2, 3, 5, 8, 1, 1],
      yyntokens = 10, yytranslate = voms_yytranslate\<rparr>"

section \<open>Actions\<close>

text \<open>\<open>strdup\<close> and a pointer to it at the end of an array.\<close>

definition put_at_end :: "'a list \<Rightarrow> 'a \<Rightarrow> 'a list option" where
  "put_at_end xs x = (if length xs < MAX_SIZE then Some (xs @ [x]) else None)"

definition int_range :: "int \<Rightarrow> bool" where
  "int_range i \<longleftrightarrow> - 2147483648 \<le> i \<and> i \<le> 2147483647"

definition convert_value :: "vo \<Rightarrow> cstring \<Rightarrow> cstring \<Rightarrow> vo option" where
  "convert_value v name val =
     (if strcmp name ''-hostcert'' = 0 then Some (v\<lparr>vo_hostcert := Some val\<rparr>)
      else if strcmp name ''-hostkey'' = 0 then Some (v\<lparr>vo_hostkey := Some val\<rparr>)
      else if strcmp name ''-fqan'' = 0 then map_option (\<lambda>xs. v\<lparr>vo_fqans := xs\<rparr>) (put_at_end (vo_fqans v) val)
      else if strcmp name ''-vomslife'' = 0 then
        (let hours = atoi val
         in if int_range hours \<and> int_range (hours * 3600) then Some (v\<lparr>vo_vomslife := hours * 3600\<rparr>) else None)
      else if strcmp name ''-pastac'' = 0 then Some (v\<lparr>vo_pastac := Some val\<rparr>)
      else if strcmp name ''-target'' = 0 then
        Some (v\<lparr>vo_targets := Some (case vo_targets v of None \<Rightarrow> val | Some t \<Rightarrow> t @ '','' @ val)\<rparr>)
      else if strcmp name ''-uri'' = 0 then Some (v\<lparr>vo_uri := Some val\<rparr>)
      else if strcmp name ''-ga'' = 0 then
        (case put_at_end (vo_gas v) val of
           None \<Rightarrow> None
         | Some xs \<Rightarrow> if length xs < MAX_SIZE then Some (v\<lparr>vo_gas := xs\<rparr>) else None)
      else if strcmp name ''-acextension'' = 0 then
        map_option (\<lambda>xs. v\<lparr>vo_extensions := xs\<rparr>) (put_at_end (vo_extensions v) val)
      else Some v)"

definition convertparam :: "vo \<Rightarrow> param \<Rightarrow> (vo \<times> param) option" where
  "convertparam v p =
     (case (pm_name p, pm_value p) of
        (Some name, Some val) \<Rightarrow> map_option (\<lambda>v. (v, \<lparr>pm_name = None, pm_value = None\<rparr>)) (convert_value v name val)
      | _ \<Rightarrow> None)"

text \<open>The loop of rule 4 over the parameters.\<close>

fun convert_loop_params :: "vo \<Rightarrow> param list \<Rightarrow> vo option" where
  "convert_loop_params v [] = Some v"
| "convert_loop_params v (p # ps) =
     (case convertparam v p of
        None \<Rightarrow> None
      | Some (v, p) \<Rightarrow> convert_loop_params (v\<lparr>vo_params := vo_params v @ [p]\<rparr>) ps)"

definition new_vo :: "cstring \<Rightarrow> vo" where
  "new_vo name =
     \<lparr>vo_name = name, vo_hostcert = None, vo_hostkey = None, vo_fqans = [], vo_gas = [], vo_vomslife = 0,
      vo_targets = None, vo_uri = None, vo_newformat = 0, vo_pastac = None, vo_params = [], vo_extensions = []\<rparr>"

definition new_param :: "cstring \<Rightarrow> cstring \<Rightarrow> param" where
  "new_param name val = \<lparr>pm_name = Some name, pm_value = Some val\<rparr>"

text \<open>The values of rules 9 and 10: an attribute with its qualifier in front.\<close>

definition generic_attribute :: "cstring \<Rightarrow> cstring \<Rightarrow> cstring \<Rightarrow> cstring" where
  "generic_attribute qualifier name val = qualifier @ ''::'' @ name @ ''='' @ val"

text \<open>The environment is the global \<open>volist\<close>.\<close>

definition voms_action :: "(vval, 's, vo list option) yyactions" where
  "voms_action r vals sc volist =
     (if r = 2 then (case vals of [X_vo v] \<Rightarrow> Some (X_vos [v], Some [v]) | _ \<Rightarrow> None)
      else if r = 3 then
        (case vals of [X_vos vs, X_vo v] \<Rightarrow> map_option (\<lambda>vs. (X_vos vs, Some vs)) (put_at_end vs v) | _ \<Rightarrow> None)
      else if r = 4 then
        (case vals of [_, X_string n, _, X_params ps] \<Rightarrow> map_option (\<lambda>v. (X_vo v, volist)) (convert_loop_params (new_vo n) ps)
         | _ \<Rightarrow> None)
      else if r = 5 then (case vals of [_, X_string n, _] \<Rightarrow> Some (X_vo (new_vo n), volist) | _ \<Rightarrow> None)
      else if r = 6 then (case vals of [X_param p] \<Rightarrow> Some (X_params [p], volist) | _ \<Rightarrow> None)
      else if r = 7 then
        (case vals of [X_params ps, X_param p] \<Rightarrow> map_option (\<lambda>ps. (X_params ps, volist)) (put_at_end ps p) | _ \<Rightarrow> None)
      else if r = 8 then
        (case vals of [X_string n, _, X_string x] \<Rightarrow> Some (X_param (new_param n x), volist) | _ \<Rightarrow> None)
      else if r = 9 then
        (case vals of [X_string n, _, X_string x, _, X_string y] \<Rightarrow>
           Some (X_param (new_param n (generic_attribute [] x y)), volist) | _ \<Rightarrow> None)
      else if r = 10 then
        (case vals of [X_string n, _, X_string x, _, X_string y, _, X_string z, _] \<Rightarrow>
           Some (X_param (new_param n (generic_attribute z x y)), volist) | _ \<Rightarrow> None)
      else if r = 11 \<or> r = 12 then (case vals of [X_string s] \<Rightarrow> Some (X_string s, volist) | _ \<Rightarrow> None)
      else Some (hd vals, volist))"

definition voms_yyparse :: "(nat \<Rightarrow> bool) \<Rightarrow> (vval, 's) lexed list \<Rightarrow> 's \<Rightarrow> vo list option \<Rightarrow> (int \<times> vo list option) option option" where
  "voms_yyparse stack input sc volist = yyparse voms_tables voms_action stack input sc volist"

end
