(* ===== verification/VomsScanner.thy ===== *)
theory VomsScanner
  imports Flex VomsParser
begin

text \<open>
  The scanner of the options of voms-proxy-fake (src/src/utils/lex.yy.c, generated from vomsparser.l and kept
  in the repository). Its skeleton is that of Flex with compressed tables: characters have classes, a
  state looks for its entry through the chain of its defaults, and the last accepting state is
  noted before a character is read, not after. The buffer is handled as in theory Flex.
\<close>

section \<open>Compressed tables\<close>

record packed_tables =
  pt_accept :: "nat list"
  pt_ec :: "nat list"
  pt_meta :: "nat list"
  pt_base :: "nat list"
  pt_def :: "nat list"
  pt_nxt :: "nat list"
  pt_chk :: "nat list"
  pt_jam :: nat
  pt_jambase :: nat
  pt_templates :: nat
  pt_eob :: nat

definition pt_accepting :: "packed_tables \<Rightarrow> nat \<Rightarrow> nat" where
  "pt_accepting T s = (if s < length (pt_accept T) then pt_accept T ! s else 0)"

text \<open>The loop through the defaults; \<open>None\<close> outside the tables, or when it does not end.\<close>

partial_function (option) packed_next :: "packed_tables \<Rightarrow> nat \<Rightarrow> nat \<Rightarrow> nat option" where
  "packed_next T s c =
     (case entry (pt_base T) (int s) of None \<Rightarrow> None
      | Some b \<Rightarrow>
          (case entry (pt_chk T) (int (b + c)) of None \<Rightarrow> None
           | Some k \<Rightarrow>
               if k = s then entry (pt_nxt T) (int (b + c))
               else (case entry (pt_def T) (int s) of None \<Rightarrow> None
                     | Some d \<Rightarrow>
                         if d \<ge> pt_templates T
                         then (case entry (pt_meta T) (int c) of None \<Rightarrow> None | Some c \<Rightarrow> packed_next T d c)
                         else packed_next T d c)))"

definition char_class :: "packed_tables \<Rightarrow> char \<Rightarrow> nat option" where
  "char_class T c = entry (pt_ec T) (int (of_char c))"

definition note_accepting :: "packed_tables \<Rightarrow> nat \<Rightarrow> nat \<Rightarrow> (nat \<times> nat) option \<Rightarrow> (nat \<times> nat) option" where
  "note_accepting T s p last1 = (if pt_accepting T s \<noteq> 0 then Some (s, p) else last1)"

section \<open>Matching\<close>

function packed_match ::
  "packed_tables \<Rightarrow> char list \<Rightarrow> nat \<Rightarrow> nat \<Rightarrow> (nat \<times> nat) option \<Rightarrow> (nat \<times> nat \<times> (nat \<times> nat) option) option" where
  "packed_match T buf s p last1 =
     (if p < length buf then
        (case char_class T (buf ! p) of
           None \<Rightarrow> None
         | Some c \<Rightarrow>
             (case packed_next T s c of
                None \<Rightarrow> None
              | Some t \<Rightarrow>
                  if entry (pt_base T) (int t) \<noteq> Some (pt_jambase T)
                  then packed_match T buf t (Suc p) (note_accepting T s p last1)
                  else Some (t, Suc p, note_accepting T s p last1)))
      else None)"
  by auto
termination by (relation "measure (\<lambda>(T, buf, s, p, l). length buf - p)") auto

declare packed_match.simps [simp del]

definition packed_find_action :: "packed_tables \<Rightarrow> nat \<Rightarrow> nat \<Rightarrow> (nat \<times> nat) option \<Rightarrow> (nat \<times> nat) option" where
  "packed_find_action T s cp last1 =
     (if pt_accepting T s \<noteq> 0 then Some (pt_accepting T s, cp)
      else (case last1 of
              None \<Rightarrow> None
            | Some (s, p) \<Rightarrow> if pt_accepting T s \<noteq> 0 then Some (pt_accepting T s, p) else None))"

fun packed_previous ::
  "packed_tables \<Rightarrow> char list \<Rightarrow> nat \<Rightarrow> nat \<Rightarrow> (nat \<times> nat) option \<Rightarrow> (nat \<times> (nat \<times> nat) option) option" where
  "packed_previous T [] s p last1 = Some (s, last1)"
| "packed_previous T (c # cs) s p last1 =
     (case (if c \<noteq> NUL then char_class T c else Some 1) of
        None \<Rightarrow> None
      | Some k \<Rightarrow>
          (case packed_next T s k of
             None \<Rightarrow> None
           | Some t \<Rightarrow> packed_previous T cs t (Suc p) (note_accepting T s p last1)))"

definition packed_again :: "packed_tables \<Rightarrow> nat \<Rightarrow> scan_state \<Rightarrow> (nat \<times> nat \<times> scan_state) option" where
  "packed_again T amount st =
     map_option (\<lambda>(s, last1). (s, sc_text st + amount, st\<lparr>sc_last := last1\<rparr>))
       (packed_previous T (take amount (drop (sc_text st) (sc_buf st))) (sc_start st) (sc_text st) (sc_last st))"

definition packed_settle :: "packed_tables \<Rightarrow> nat \<times> nat \<times> scan_state \<Rightarrow> matched" where
  "packed_settle T x =
     (case x of (s, p, st) \<Rightarrow>
        (case packed_find_action T s p (sc_last st) of None \<Rightarrow> No_match | Some (act, cp) \<Rightarrow> Matched act cp st))"

partial_function (option) packed_scan :: "packed_tables \<Rightarrow> nat \<Rightarrow> nat \<Rightarrow> scan_state \<Rightarrow> matched option" where
  "packed_scan T s p st =
     (case packed_match T (sc_buf st) s p (sc_last st) of
        None \<Rightarrow> Some No_match
      | Some (s, cp, last1) \<Rightarrow>
          (case packed_find_action T s cp last1 of
             None \<Rightarrow> Some No_match
           | Some (act, cp) \<Rightarrow>
               if act \<noteq> pt_eob T then Some (Matched act cp (st\<lparr>sc_last := last1\<rparr>))
               else if cp \<le> sc_n st then
                 (case packed_again T (cp - sc_text st - 1) (st\<lparr>sc_last := last1\<rparr>) of
                    None \<Rightarrow> Some No_match
                  | Some (s, p, st) \<Rightarrow>
                      (let st = st\<lparr>sc_last := note_accepting T s p (sc_last st)\<rparr>
                       in case packed_next T s 1 of
                            None \<Rightarrow> Some No_match
                          | Some t \<Rightarrow>
                              if t = pt_jam T then Some (packed_settle T (s, p, st))
                              else packed_scan T t (Suc p) st))
               else
                 (case yy_get_next_buffer cp (st\<lparr>sc_last := last1\<rparr>) of
                    None \<Rightarrow> Some No_match
                  | Some (End_of_file st) \<Rightarrow> Some (At_eof (st\<lparr>sc_pos := 0\<rparr>))
                  | Some (Continue_scan st') \<Rightarrow>
                      (case packed_again T (cp - sc_text st - 1) st' of
                         None \<Rightarrow> Some No_match
                       | Some (s, p, st) \<Rightarrow> packed_scan T s p st)
                  | Some (Last_match st) \<Rightarrow>
                      (case packed_again T (sc_n st) st of
                         None \<Rightarrow> Some No_match
                       | Some x \<Rightarrow> Some (packed_settle T x)))))"

partial_function (option) packed_lex_all ::
  "packed_tables \<Rightarrow> 'v rules \<Rightarrow> 'v \<Rightarrow> scan_state \<Rightarrow> ('v, scan_state) lexed list option" where
  "packed_lex_all T rule none st =
     (case packed_scan T (sc_start st) (sc_pos st) (begin_pass st) of
        None \<Rightarrow> None
      | Some No_match \<Rightarrow> Some [Lex_bad]
      | Some (At_eof st) \<Rightarrow> Some [Lexed 0 none st]
      | Some (Matched act cp st) \<Rightarrow>
          (case rule act (before_action cp st) of
             None \<Rightarrow> Some [Lex_bad]
           | Some (st, None) \<Rightarrow> packed_lex_all T rule none st
           | Some (st, Some (t, v)) \<Rightarrow> Option.bind (packed_lex_all T rule none st) (\<lambda>ts. Some (Lexed t v st # ts))))"

section \<open>The tables\<close>

definition voms_yy_accept :: "nat list" where
  "voms_yy_accept =
    [0, 4, 4, 2, 2, 9, 5, 7, 6, 1, 4, 2, 3, 4, 2, 0]"

definition voms_yy_ec :: "nat list" where
  "voms_yy_ec =
    [0, 1, 1, 1, 1, 1, 1, 1, 1, 2, 3, 1, 1, 1, 1, 1, 1, 1, 1, 1, 1, 1, 1, 1, 1, 1, 1, 1, 1, 1, 1, 1, 2, 1, 4,
     1, 1, 1, 1, 1, 1, 1, 1, 1, 1, 5, 5, 5, 5, 5, 5, 5, 5, 5, 5, 5, 5, 5, 5, 1, 1, 1, 1, 1, 1, 5, 5, 5, 5, 5,
     5, 5, 5, 5, 5, 5, 5, 5, 5, 5, 5, 5, 5, 5, 5, 5, 5, 5, 5, 5, 5, 1, 1, 1, 1, 5, 1, 5, 5, 5, 5, 5, 5, 5, 5,
     5, 5, 5, 5, 5, 5, 5, 5, 5, 5, 5, 5, 5, 5, 5, 5, 5, 5, 1, 1, 1, 1, 1, 1, 1, 1, 1, 1, 1, 1, 1, 1, 1, 1, 1,
     1, 1, 1, 1, 1, 1, 1, 1, 1, 1, 1, 1, 1, 1, 1, 1, 1, 1, 1, 1, 1, 1, 1, 1, 1, 1, 1, 1, 1, 1, 1, 1, 1, 1, 1,
     1, 1, 1, 1, 1, 1, 1, 1, 1, 1, 1, 1, 1, 1, 1, 1, 1, 1, 1, 1, 1, 1, 1, 1, 1, 1, 1, 1, 1, 1, 1, 1, 1, 1, 1,
     1, 1, 1, 1, 1, 1, 1, 1, 1, 1, 1, 1, 1, 1, 1, 1, 1, 1, 1, 1, 1, 1, 1, 1, 1, 1, 1, 1, 1, 1, 1, 1, 1, 1, 1,
     1, 1, 1, 1, 1, 1, 1, 1, 1, 1, 1]"

definition voms_yy_meta :: "nat list" where
  "voms_yy_meta =
    [0, 1, 1, 1, 2, 3]"

definition voms_yy_base :: "nat list" where
  "voms_yy_base =
    [0, 0, 0, 10, 9, 12, 15, 15, 15, 15, 0, 0, 15, 0, 0, 15, 5, 7, 8]"

definition voms_yy_def :: "nat list" where
  "voms_yy_def =
    [0, 15, 1, 16, 16, 15, 15, 15, 15, 15, 17, 18, 15, 17, 18, 0, 15, 15, 15]"

definition voms_yy_nxt :: "nat list" where
  "voms_yy_nxt =
    [0, 6, 7, 8, 9, 10, 11, 11, 11, 14, 13, 14, 15, 12, 12, 5, 15, 15, 15, 15, 15]"

definition voms_yy_chk :: "nat list" where
  "voms_yy_chk =
    [0, 1, 1, 1, 1, 1, 16, 16, 16, 18, 17, 18, 5, 4, 3, 15, 15, 15, 15, 15, 15]"

definition voms_packed :: packed_tables where
  "voms_packed =
     \<lparr>pt_accept = voms_yy_accept, pt_ec = voms_yy_ec, pt_meta = voms_yy_meta, pt_base = voms_yy_base,
      pt_def = voms_yy_def, pt_nxt = voms_yy_nxt, pt_chk = voms_yy_chk,
      pt_jam = 15, pt_jambase = 15, pt_templates = 16, pt_eob = 9\<rparr>"

section \<open>Rules\<close>

text \<open>A character as a number: \<open>char\<close> is signed.\<close>

definition signed_char :: "char \<Rightarrow> int" where
  "signed_char c = (let n = of_char c :: int in if n < 128 then n else n - 256)"

definition voms_rule :: "vval rules" where
  "voms_rule act st =
     (if act = 1 then Some (BEGIN 1 st, None)
      else if act = 2 then map_option (\<lambda>s. (st, Some (STRING, X_string s))) (read_text st (yytext st))
      else if act = 3 then Some (BEGIN 0 st, None)
      else if act = 4 then map_option (\<lambda>s. (st, Some (ID, X_string s))) (read_text st (yytext st))
      else if act = 5 then map_option (\<lambda>c. (st, Some (signed_char c, X_none))) (entry (sc_buf st) (int (sc_text st)))
      else if act = 6 \<or> act = 7 then Some (st, None)
      else if act = 8 then Some (ECHO st, None)
      else None)"

definition voms_yylex :: "cstring \<Rightarrow> (vval, scan_state) lexed list option" where
  "voms_yylex file = packed_lex_all voms_packed voms_rule X_none (yylex_init file)"

text \<open>The file of the options, parsed; \<open>stack n\<close> says whether the parser gets a larger stack at depth \<open>n\<close>.\<close>

definition parse_options :: "(nat \<Rightarrow> bool) \<Rightarrow> cstring \<Rightarrow> vo list option \<Rightarrow> (int \<times> vo list option) option option" where
  "parse_options stack file volist =
     (case voms_yylex file of
        None \<Rightarrow> None
      | Some tokens \<Rightarrow> voms_yyparse stack tokens (yylex_init file) volist)"

end
