(* ===== verification/VomsSpec.thy ===== *)
theory VomsSpec
  imports VomsParser ParserRun
begin

text \<open>
  The parser of the options of voms-proxy-fake against a parser by recursive descent, for all tokens and
  for any memory: the stack of the parser stays under its first size.
\<close>

section \<open>The reference\<close>

text \<open>A token is its number with its string, which only STRING and ID have.\<close>

type_synonym tok = "int \<times> cstring"

definition first_tok :: "tok list \<Rightarrow> int" where
  "first_tok its = (case its of [] \<Rightarrow> 0 | (t, _) # _ \<Rightarrow> t)"

definition tok_value :: "tok \<Rightarrow> vval" where
  "tok_value k = (if fst k = STRING \<or> fst k = ID then X_string (snd k) else X_none)"

text \<open>A value; then a parameter from its name on. \<open>None\<close> is a syntax error.\<close>

definition take_value :: "tok list \<Rightarrow> (cstring \<times> tok list) option" where
  "take_value its = (case its of [] \<Rightarrow> None | (t, s) # r \<Rightarrow> if t = STRING \<or> t = ID then Some (s, r) else None)"

definition take_mark :: "int \<Rightarrow> tok list \<Rightarrow> tok list option" where
  "take_mark c its = (case its of [] \<Rightarrow> None | (t, _) # r \<Rightarrow> if t = c then Some r else None)"

definition take_param :: "tok list \<Rightarrow> (param \<times> tok list) option" where
  "take_param its =
     (case its of
        [] \<Rightarrow> None
      | (_, n) # r \<Rightarrow>
          Option.bind (take_mark 61 r) (\<lambda>r. Option.bind (take_value r) (\<lambda>(x, r).
            if first_tok r \<noteq> 61 then Some (new_param n x, r)
            else Option.bind (take_value (tl r)) (\<lambda>(y, r).
              if first_tok r \<noteq> 40 then Some (new_param n (generic_attribute [] x y), r)
              else Option.bind (take_value (tl r)) (\<lambda>(z, r). Option.bind (take_mark 41 r) (\<lambda>r.
                Some (new_param n (generic_attribute z x y), r)))))))"

lemma take_value_shorter: "take_value its = Some (x, r) \<Longrightarrow> length r < length its"
  by (auto simp: take_value_def split: list.splits if_splits)

lemma take_mark_shorter: "take_mark c its = Some r \<Longrightarrow> length r < length its"
  by (auto simp: take_mark_def split: list.splits if_splits)

lemma take_param_shorter: "take_param its = Some (p, r) \<Longrightarrow> length r < length its"
  by (auto simp: take_param_def Option.bind_eq_Some_conv split: list.splits if_splits
      dest!: take_value_shorter take_mark_shorter)

text \<open>Parameters up to the first token that is no ID: overrun, an error, or the parameters.\<close>

datatype 'a took = Overrun | Bad | Took 'a "tok list"

function take_params :: "param list \<Rightarrow> tok list \<Rightarrow> param list took" where
  "take_params ps its =
     (if first_tok its \<noteq> ID then Took ps its
      else (case take_param its of
              None \<Rightarrow> Bad
            | Some (p, r) \<Rightarrow> if length ps < MAX_SIZE then take_params (ps @ [p]) r else Overrun))"
  by auto
termination by (relation "measure (\<lambda>(ps, its). length its)") (auto dest: take_param_shorter)

declare take_params.simps [simp del]

definition take_vo :: "tok list \<Rightarrow> vo took" where
  "take_vo its =
     (case take_mark 91 its of
        Some ((t, n) # r) \<Rightarrow>
          if t \<noteq> ID then Bad
          else (case take_mark 93 r of
                  None \<Rightarrow> Bad
                | Some r \<Rightarrow>
                    (case take_params [] r of
                       Overrun \<Rightarrow> Overrun | Bad \<Rightarrow> Bad
                     | Took ps r \<Rightarrow>
                         (case convert_loop_params (new_vo n) ps of None \<Rightarrow> Overrun | Some v \<Rightarrow> Took v r)))
      | _ \<Rightarrow> Bad)"

lemma take_params_shorter: "take_params ps its = Took qs r \<Longrightarrow> length r \<le> length its"
proof (induction ps its rule: take_params.induct)
  case (1 ps its)
  from "1.prems" show ?case
    by (subst (asm) take_params.simps) (use "1.IH" in \<open>fastforce split: if_splits option.splits dest: take_param_shorter\<close>)
qed

lemma take_vo_shorter: "take_vo its = Took v r \<Longrightarrow> length r < length its"
  by (auto simp: take_vo_def split: option.splits list.splits if_splits took.splits
      dest!: take_mark_shorter take_params_shorter)

text \<open>The answer and the global list: the VOs before the first error.\<close>

function take_vos :: "vo list option \<Rightarrow> vo list \<Rightarrow> tok list \<Rightarrow> (int \<times> vo list option) option" where
  "take_vos volist vs its =
     (case take_vo its of
        Overrun \<Rightarrow> None
      | Bad \<Rightarrow> Some (1, volist)
      | Took v r \<Rightarrow>
          if vs = [] \<or> length vs < MAX_SIZE then
            (if r = [] then Some (0, Some (vs @ [v])) else take_vos (Some (vs @ [v])) (vs @ [v]) r)
          else None)"
  by auto
termination by (relation "measure (\<lambda>(e, vs, its). length its)") (auto dest: take_vo_shorter)

declare take_vos.simps [simp del]

section \<open>The tables\<close>

text \<open>The symbol of a token; what a state does on each of the ten symbols.\<close>

definition sym :: "int \<Rightarrow> int" where
  "sym t = (if t \<le> 0 then 0 else voms_yytranslate t)"

lemma sym_range: "sym t \<in> set [0..9]"
  unfolding set_upto by (simp add: sym_def voms_yytranslate_def)

lemma sym_cases:
  "sym t = 0 \<longleftrightarrow> t \<le> 0" "sym t = 3 \<longleftrightarrow> t = STRING" "sym t = 4 \<longleftrightarrow> t = ID" "sym t = 5 \<longleftrightarrow> t = 91" "sym t = 6 \<longleftrightarrow> t = 93"
  "sym t = 7 \<longleftrightarrow> t = 61" "sym t = 8 \<longleftrightarrow> t = 40" "sym t = 9 \<longleftrightarrow> t = 41"
  by (auto simp: sym_def voms_yytranslate_def STRING_def ID_def)

lemma voms_decision: "decision voms_tables s t = yydecide voms_tables s (sym t)"
  by (simp add: decision_def sym_def voms_tables_def)

definition row_goes :: "nat \<Rightarrow> (int \<times> nat) list \<Rightarrow> yyact \<Rightarrow> bool" where
  "row_goes s shifts other \<longleftrightarrow> list_all (\<lambda>c. yydecide voms_tables s c =
     Some (case map_of shifts c of Some s' \<Rightarrow> Shift s' | None \<Rightarrow> other)) [0..9]"

lemma row_goesD: "row_goes s shifts other \<Longrightarrow> decision voms_tables s t =
    Some (case map_of shifts (sym t) of Some s' \<Rightarrow> Shift s' | None \<Rightarrow> other)"
  using sym_range [of t] by (simp add: row_goes_def voms_decision list_all_iff del: set_upto)

lemma voms_rows:
  "row_goes 0 [(5, 1)] Fail" "row_goes 1 [(4, 4)] Fail" "row_goes 2 [(0, 5), (5, 1)] Fail" "row_goes 4 [(6, 7)] Fail"
  "row_goes 7 [(4, 8)] (Reduce 5)" "row_goes 8 [(7, 11)] Fail" "row_goes 9 [(4, 8)] (Reduce 4)"
  "row_goes 11 [(3, 13), (4, 14)] Fail" "row_goes 15 [(7, 16)] (Reduce 8)" "row_goes 16 [(3, 13), (4, 14)] Fail"
  "row_goes 17 [(8, 18)] (Reduce 9)" "row_goes 18 [(3, 13), (4, 14)] Fail" "row_goes 19 [(9, 20)] Fail"
  unfolding row_goes_def by code_simp+

lemma voms_waits: "list_all (waits voms_tables) [0, 1, 2, 4, 7, 8, 9, 11, 15, 16, 17, 18, 19]"
  by code_simp

lemma voms_reduces:
  "reduces voms_tables 3 2" "reduces voms_tables 6 3" "reduces voms_tables 10 6" "reduces voms_tables 12 7"
  "reduces voms_tables 13 12" "reduces voms_tables 14 11" "reduces voms_tables 20 10"
  by code_simp+

lemma voms_no_error: "no_error_rule voms_tables"
  by code_simp

lemma voms_final [simp]: "yyfinal voms_tables = 5"
  by code_simp

section \<open>Steps\<close>

text \<open>A stream that carries the tokens, and a parser that may have read the first of them.\<close>

fun carries :: "tok list \<Rightarrow> (vval, 's) lexed list \<Rightarrow> bool" where
  "carries [] ys \<longleftrightarrow> (case ys of Lexed t _ _ # _ \<Rightarrow> t \<le> 0 | _ \<Rightarrow> False)"
| "carries (k # its) ys \<longleftrightarrow>
     (case ys of Lexed t v _ # ys \<Rightarrow> t = fst k \<and> 0 < t \<and> v = tok_value k \<and> carries its ys | _ \<Rightarrow> False)"

fun stands :: "int option \<Rightarrow> vval option \<Rightarrow> (vval, 's) lexed list \<Rightarrow> tok list \<Rightarrow> bool" where
  "stands None lv inp its \<longleftrightarrow> carries its inp"
| "stands (Some t) lv inp [] \<longleftrightarrow> t = 0 \<and> lv \<noteq> None"
| "stands (Some t) lv inp (k # its) \<longleftrightarrow> t = fst k \<and> 0 < t \<and> lv = Some (tok_value k) \<and> carries its inp"

lemma first_tok_simps [simp]: "first_tok [] = 0" "first_tok ((t, x) # its) = t"
  by (simp_all add: first_tok_def)

lemma yyread_stands:
  assumes "stands ch lv inp its"
  shows "\<exists>lv' sc' inp'. yyread (conf ss ch lv sc inp env) =
      Some (first_tok its, conf ss (Some (first_tok its)) lv' sc' inp' env) \<and>
    stands (Some (first_tok its)) lv' inp' its"
proof (cases ch)
  case (Some t)
  then show ?thesis using assms by (cases its) (auto simp: yyread_def first_tok_def)
next
  case None
  show ?thesis
  proof (cases its)
    case Nil
    then show ?thesis using assms None by (auto simp: yyread_def split: list.splits lexed.splits)
  next
    case (Cons k r)
    then show ?thesis using assms None by (cases k) (auto simp: yyread_def split: list.splits lexed.splits)
  qed
qed

text \<open>The answer from a stack and the tokens that are left, for every scanner and any memory.\<close>

definition gets :: "'s itself \<Rightarrow> (nat \<times> vval) list \<Rightarrow> tok list \<Rightarrow> vo list option \<Rightarrow> (int \<times> vo list option) option \<Rightarrow> bool" where
  "gets ty ss its env R \<longleftrightarrow>
     (\<forall>ch lv (sc :: 's) inp mem. stands ch lv inp its \<longrightarrow> yyrun voms_tables voms_action mem (conf ss ch lv sc inp env) = Some R)"

lemma full_low: "n < 199 \<Longrightarrow> \<not> full_at n"
proof
  assume "n < 199" "full_at n"
  then obtain k where k: "n = 200 * 2 ^ k - 1" by (auto simp: full_at_def YYINITDEPTH_def)
  have "(1 :: nat) \<le> 2 ^ k" by simp
  then show False using k \<open>n < 199\<close> by linarith
qed

lemma run_decided:
  assumes "stands ch lv inp its" "waits voms_tables (top_state ss)"
  shows "\<exists>lv' sc' inp'. stands (Some (first_tok its)) lv' inp' its \<and>
    yyrun voms_tables act mem (conf ss ch lv sc inp env) =
      (case yyperform voms_tables act mem (decision voms_tables (top_state ss) (first_tok its))
              (conf ss (Some (first_tok its)) lv' sc' inp' env) of
         Undef \<Rightarrow> Some None
       | Return r e \<Rightarrow> Some (Some (r, e))
       | Continue c \<Rightarrow> yyrun voms_tables act mem c)"
proof -
  obtain lv' sc' inp' where r: "yyread (conf ss ch lv sc inp env) =
      Some (first_tok its, conf ss (Some (first_tok its)) lv' sc' inp' env)"
    and f: "stands (Some (first_tok its)) lv' inp' its"
    using yyread_stands [OF assms(1), where ss = ss and env = env] by blast
  have "yybackup voms_tables act mem (conf ss ch lv sc inp env) =
      yyperform voms_tables act mem (decision voms_tables (top_state ss) (first_tok its)) (conf ss (Some (first_tok its)) lv' sc' inp' env)"
    using r assms(2) by (auto simp: yybackup_def decision_def waits_def split: option.splits)
  then show ?thesis using f by (subst yyrun.simps) auto
qed

definition low :: "(nat \<times> vval) list \<Rightarrow> bool" where
  "low ss \<longleftrightarrow> length ss < 198"

lemma pushed:
  assumes "low ss" "s \<noteq> 5"
  shows "yynewstate voms_tables mem s v (conf ss ch lv sc inp env) = Continue (conf ((s, v) # ss) ch lv sc inp env)"
  using assms full_low [of "Suc (length ss)"] by (simp add: yynewstate_def low_def YYMAXDEPTH_def)

lemma gets_shift:
  fixes ty :: "'s itself"
  assumes "decision voms_tables (top_state ss) t = Some (Shift s)" "waits voms_tables (top_state ss)" "s \<noteq> 5" "low ss"
    "gets ty ((s, tok_value (t, x)) # ss) its env R"
  shows "gets ty ss ((t, x) # its) env R"
  unfolding gets_def
proof (intro allI impI)
  fix ch lv mem and inp :: "(vval, 's) lexed list" and sc :: 's
  assume "stands ch lv inp ((t, x) # its)"
  from run_decided [OF this assms(2), of voms_action mem sc env] obtain lv' and sc' :: 's and inp' where
    st: "stands (Some (first_tok ((t, x) # its))) lv' inp' ((t, x) # its)" and
    r: "yyrun voms_tables voms_action mem (conf ss ch lv sc inp env) =
      (case yyperform voms_tables voms_action mem (decision voms_tables (top_state ss) (first_tok ((t, x) # its)))
              (conf ss (Some (first_tok ((t, x) # its))) lv' sc' inp' env) of
         Undef \<Rightarrow> Some None
       | Return r e \<Rightarrow> Some (Some (r, e))
       | Continue c \<Rightarrow> yyrun voms_tables voms_action mem c)" by blast
  have "yyrun voms_tables voms_action mem (conf ss ch lv sc inp env) =
      yyrun voms_tables voms_action mem (conf ((s, tok_value (t, x)) # ss) None lv' sc' inp' env)"
    using r st assms(1) pushed [OF assms(4,3), where mem = mem and v = "tok_value (t, x)" and ch = None and lv = lv' and sc = sc' and inp = inp' and env = env]
    by (simp add: yyperform_def yyshift_def)
  moreover have "stands None lv' inp' its" using st by simp
  ultimately show "yyrun voms_tables voms_action mem (conf ss ch lv sc inp env) = Some R"
    using assms(5) by (simp add: gets_def)
qed

lemma reduce_step:
  assumes "low ss"
  shows "yyreduce voms_tables voms_action mem r (conf ss ch lv sc inp env) =
    (case reduced voms_tables voms_action r ss sc env of
       None \<Rightarrow> Undef
     | Some (ss', e) \<Rightarrow> if top_state ss' = 5 then Return 0 e else Continue (conf ss' ch lv sc inp e))"
proof (cases "reduced voms_tables voms_action r ss sc env")
  case None
  then show ?thesis
    by (auto simp: reduced_def yyreduce_def Let_def split: option.splits if_splits prod.splits)
next
  case (Some x)
  obtain ss' e where x: "x = (ss', e)" by (cases x)
  have "length ss' < 199" using reduced_length [of voms_tables voms_action r ss sc env ss' e] Some x assms by (simp add: low_def)
  then have "length ss' \<noteq> YYMAXDEPTH - 1" "\<not> full_at (length ss')" using full_low by (simp_all add: YYMAXDEPTH_def)
  then show ?thesis using Some x
    by (auto simp: reduced_def yyreduce_def yynewstate_def top_state_def Let_def split: option.splits if_splits prod.splits)
qed

text \<open>A reduction, by default or after a look at the next token.\<close>

definition ready_for :: "nat \<Rightarrow> tok list \<Rightarrow> nat \<Rightarrow> bool" where
  "ready_for s its r \<longleftrightarrow> reduces voms_tables s r \<or>
     waits voms_tables s \<and> decision voms_tables s (first_tok its) = Some (Reduce r)"

lemma run_reduction:
  fixes sc :: 's
  assumes "stands ch lv inp its" "ready_for (top_state ss) its r" "low ss"
  shows "\<exists>ch' lv' (sc' :: 's) inp'. stands ch' lv' inp' its \<and>
    yyrun voms_tables voms_action mem (conf ss ch lv sc inp env) =
      (case reduced voms_tables voms_action r ss sc' env of
         None \<Rightarrow> Some None
       | Some (ss', e) \<Rightarrow> if top_state ss' = 5 then Some (Some (0, e)) else yyrun voms_tables voms_action mem (conf ss' ch' lv' sc' inp' e))"
  using assms(2) unfolding ready_for_def
proof (elim disjE conjE)
  assume "reduces voms_tables (top_state ss) r"
  then have "yyrun voms_tables voms_action mem (conf ss ch lv sc inp env) =
      (case reduced voms_tables voms_action r ss sc env of
         None \<Rightarrow> Some None
       | Some (ss', e) \<Rightarrow> if top_state ss' = 5 then Some (Some (0, e)) else yyrun voms_tables voms_action mem (conf ss' ch lv sc inp e))"
    by (subst yyrun.simps, cases "reduced voms_tables voms_action r ss sc env")
      (auto simp: yybackup_def yyperform_def reduces_def reduce_step [OF assms(3)])
  with assms(1) show ?thesis by blast
next
  assume w: "waits voms_tables (top_state ss)" and d: "decision voms_tables (top_state ss) (first_tok its) = Some (Reduce r)"
  obtain lv' and sc' :: 's and inp' where st: "stands (Some (first_tok its)) lv' inp' its" and
    "yyrun voms_tables voms_action mem (conf ss ch lv sc inp env) =
      (case yyreduce voms_tables voms_action mem r (conf ss (Some (first_tok its)) lv' sc' inp' env) of
         Undef \<Rightarrow> Some None
       | Return r e \<Rightarrow> Some (Some (r, e))
       | Continue c \<Rightarrow> yyrun voms_tables voms_action mem c)"
    using run_decided [OF assms(1) w, of voms_action mem sc env] d by (auto simp: yyperform_def)
  then have "yyrun voms_tables voms_action mem (conf ss ch lv sc inp env) =
      (case reduced voms_tables voms_action r ss sc' env of
         None \<Rightarrow> Some None
       | Some (ss', e) \<Rightarrow> if top_state ss' = 5 then Some (Some (0, e))
           else yyrun voms_tables voms_action mem (conf ss' (Some (first_tok its)) lv' sc' inp' e))"
    by (cases "reduced voms_tables voms_action r ss sc' env") (auto simp: reduce_step [OF assms(3)])
  with st show ?thesis by blast
qed

lemma gets_reduce:
  fixes ty :: "'s itself"
  assumes "ready_for (top_state ss) its r" "low ss" "\<And>sc :: 's. reduced voms_tables voms_action r ss sc env = Some (ss', e)"
    "top_state ss' \<noteq> 5" "gets ty ss' its e R"
  shows "gets ty ss its env R"
  unfolding gets_def
proof (intro allI impI)
  fix ch lv mem and inp :: "(vval, 's) lexed list" and sc :: 's
  assume "stands ch lv inp its"
  from run_reduction [OF this assms(1,2), of mem sc env] assms(3-5)
  show "yyrun voms_tables voms_action mem (conf ss ch lv sc inp env) = Some R"
    by (auto simp: gets_def)
qed

lemma gets_undefined:
  fixes ty :: "'s itself"
  assumes "ready_for (top_state ss) its r" "low ss" "\<And>sc :: 's. reduced voms_tables voms_action r ss sc env = None"
  shows "gets ty ss its env None"
  unfolding gets_def
proof (intro allI impI)
  fix ch lv mem and inp :: "(vval, 's) lexed list" and sc :: 's
  assume "stands ch lv inp its"
  from run_reduction [OF this assms(1,2), of mem sc env] assms(3)
  show "yyrun voms_tables voms_action mem (conf ss ch lv sc inp env) = Some None"
    by auto
qed

lemma gets_error:
  fixes ty :: "'s itself"
  assumes "decision voms_tables (top_state ss) (first_tok its) = Some Fail" "waits voms_tables (top_state ss)"
  shows "gets ty ss its env (Some (1, env))"
  unfolding gets_def
proof (intro allI impI)
  fix ch lv mem and inp :: "(vval, 's) lexed list" and sc :: 's
  assume "stands ch lv inp its"
  from run_decided [OF this assms(2), of voms_action mem sc env] assms(1)
  show "yyrun voms_tables voms_action mem (conf ss ch lv sc inp env) = Some (Some (1, env))"
    by (auto simp: yyperform_def yyerrlab_def pops_no_error [OF voms_no_error])
qed

lemma gets_accept:
  fixes ty :: "'s itself"
  assumes "decision voms_tables (top_state ss) 0 = Some (Shift 5)" "waits voms_tables (top_state ss)" "low ss"
  shows "gets ty ss [] env (Some (0, env))"
  unfolding gets_def
proof (intro allI impI)
  fix ch lv mem and inp :: "(vval, 's) lexed list" and sc :: 's
  assume "stands ch lv inp []"
  from run_decided [OF this assms(2), of voms_action mem sc env] obtain lv' and sc' :: 's and inp' where
    "lv' \<noteq> None" and r: "yyrun voms_tables voms_action mem (conf ss ch lv sc inp env) =
      (case yyperform voms_tables voms_action mem (decision voms_tables (top_state ss) 0)
              (conf ss (Some 0) lv' sc' inp' env) of
         Undef \<Rightarrow> Some None
       | Return r e \<Rightarrow> Some (Some (r, e))
       | Continue c \<Rightarrow> yyrun voms_tables voms_action mem c)" by auto
  then show "yyrun voms_tables voms_action mem (conf ss ch lv sc inp env) = Some (Some (0, env))"
    using assms(1,3) full_low [of "Suc (length ss)"]
    by (auto simp: yyperform_def yyshift_def yynewstate_def low_def YYMAXDEPTH_def)
qed

section \<open>Runs\<close>

lemma voms_gotos:
  "yygoto voms_tables 11 15 = Some 15" "yygoto voms_tables 16 15 = Some 17" "yygoto voms_tables 18 15 = Some 19"
  "yygoto voms_tables 7 14 = Some 10" "yygoto voms_tables 9 14 = Some 12" "yygoto voms_tables 7 13 = Some 9"
  "yygoto voms_tables 0 12 = Some 3" "yygoto voms_tables 2 12 = Some 6" "yygoto voms_tables 0 11 = Some 2"
  by code_simp+

lemma voms_rules:
  "entry (yyr2 voms_tables) 2 = Some 1" "entry (yyr1 voms_tables) 2 = Some 11"
  "entry (yyr2 voms_tables) 3 = Some 2" "entry (yyr1 voms_tables) 3 = Some 11"
  "entry (yyr2 voms_tables) 4 = Some 4" "entry (yyr1 voms_tables) 4 = Some 12"
  "entry (yyr2 voms_tables) 5 = Some 3" "entry (yyr1 voms_tables) 5 = Some 12"
  "entry (yyr2 voms_tables) 6 = Some 1" "entry (yyr1 voms_tables) 6 = Some 13"
  "entry (yyr2 voms_tables) 7 = Some 2" "entry (yyr1 voms_tables) 7 = Some 13"
  "entry (yyr2 voms_tables) 8 = Some 3" "entry (yyr1 voms_tables) 8 = Some 14"
  "entry (yyr2 voms_tables) 9 = Some 5" "entry (yyr1 voms_tables) 9 = Some 14"
  "entry (yyr2 voms_tables) 10 = Some 8" "entry (yyr1 voms_tables) 10 = Some 14"
  "entry (yyr2 voms_tables) 11 = Some 1" "entry (yyr1 voms_tables) 11 = Some 15"
  "entry (yyr2 voms_tables) 12 = Some 1" "entry (yyr1 voms_tables) 12 = Some 15"
  by code_simp+

lemma waits_in: "s \<in> {0, 1, 2, 4, 7, 8, 9, 11, 15, 16, 17, 18, 19} \<Longrightarrow> waits voms_tables s"
  using voms_waits by auto

lemma voms_top_Cons' [simp]: "top_state ((s, v) # ss) = s"
  by (simp add: top_state_def)

text \<open>One expected token.\<close>

lemma gets_mark:
  assumes "row_goes (top_state ss) [(sym c, s)] Fail" "waits voms_tables (top_state ss)" "s \<noteq> 5" "low ss"
    "\<And>t. sym t = sym c \<longleftrightarrow> t = c" "take_mark c its = None \<Longrightarrow> R = Some (1, env)"
    "\<And>x r. its = (c, x) # r \<Longrightarrow> gets ty ((s, tok_value (c, x)) # ss) r env R" "0 < c"
  shows "gets ty ss its env R"
proof (cases "first_tok its = c")
  case True
  then obtain x r where its: "its = (c, x) # r" using assms(8) by (cases its) (auto simp: first_tok_def)
  show ?thesis unfolding its
    using row_goesD [OF assms(1), of c] by (intro gets_shift [OF _ assms(2,3,4) assms(7) [OF its]]) simp
next
  case False
  then have "take_mark c its = None" by (auto simp: take_mark_def first_tok_def split: list.splits)
  moreover have "decision voms_tables (top_state ss) (first_tok its) = Some Fail"
    using row_goesD [OF assms(1), of "first_tok its"] False assms(5) by simp
  ultimately show ?thesis using gets_error [OF _ assms(2)] assms(6) by simp
qed

text \<open>A value, after an equality sign or a parenthesis.\<close>

fun value_goto :: "nat \<Rightarrow> nat" where
  "value_goto s = (if s = 11 then 15 else if s = 16 then 17 else 19)"

lemma gets_value:
  fixes ty :: "'s itself"
  assumes "top_state ss \<in> {11, 16, 18}" "length ss < 190" "take_value its = None \<Longrightarrow> R = Some (1, env)"
    "\<And>x r. take_value its = Some (x, r) \<Longrightarrow> gets ty ((value_goto (top_state ss), X_string x) # ss) r env R"
  shows "gets ty ss its env R"
proof (cases "take_value its")
  case None
  then have "first_tok its \<noteq> STRING \<and> first_tok its \<noteq> ID"
    by (auto simp: take_value_def first_tok_def STRING_def ID_def split: list.splits if_splits)
  then have "decision voms_tables (top_state ss) (first_tok its) = Some Fail"
    using row_goesD [OF voms_rows(8), of "first_tok its"] row_goesD [OF voms_rows(10), of "first_tok its"]
      row_goesD [OF voms_rows(12), of "first_tok its"] assms(1) sym_cases(2,3) [of "first_tok its"] by auto
  then show ?thesis using gets_error [OF _ waits_in] assms(1,3) None by auto
next
  case (Some y)
  obtain x r where y: "y = (x, r)" by (cases y)
  obtain t where its: "its = (t, x) # r" and t: "t = STRING \<or> t = ID"
    using Some y by (auto simp: take_value_def split: list.splits if_splits)
  define s where "s = (if t = STRING then 13 else 14 :: nat)"
  have d: "decision voms_tables (top_state ss) t = Some (Shift s)"
    using row_goesD [OF voms_rows(8), of t] row_goesD [OF voms_rows(10), of t]
      row_goesD [OF voms_rows(12), of t] assms(1) sym_cases(2,3) [of t] t by (auto simp: s_def STRING_def ID_def)
  have w: "waits voms_tables (top_state ss)" using assms(1) by (intro waits_in) auto
  have v: "tok_value (t, x) = X_string x" using t by (simp add: tok_value_def)
  have "gets ty ((s, X_string x) # ss) r env R"
  proof (rule gets_reduce)
    show "ready_for (top_state ((s, X_string x) # ss)) r (if t = STRING then 12 else 11)"
      using voms_reduces by (simp add: ready_for_def s_def)
    show "reduced voms_tables voms_action (if t = STRING then 12 else 11) ((s, X_string x) # ss) sc env =
        Some ((value_goto (top_state ss), X_string x) # ss, env)" for sc :: 's
      using assms(1) by (auto simp: reduced_def voms_rules voms_action_def voms_gotos)
  qed (use assms Some y in \<open>auto simp: low_def\<close>)
  then show ?thesis unfolding its
    using d w v assms(2) by (intro gets_shift [where s = s]) (auto simp: low_def s_def)
qed

text \<open>A parameter after its name.\<close>

fun param_goto :: "nat \<Rightarrow> nat" where
  "param_goto s = (if s = 7 then 10 else 12)"

lemma reduced_param:
  assumes "top_state ss = 7 \<or> top_state ss = 9"
  shows "reduced voms_tables voms_action 8 ((15, X_string x) # (11, a) # (8, X_string n) # ss) sc env =
      Some ((param_goto (top_state ss), X_param (new_param n x)) # ss, env)"
    "reduced voms_tables voms_action 9 ((17, X_string y) # (16, b) # (15, X_string x) # (11, a) # (8, X_string n) # ss) sc env =
      Some ((param_goto (top_state ss), X_param (new_param n (generic_attribute [] x y))) # ss, env)"
    "reduced voms_tables voms_action 10 ((20, d) # (19, X_string z) # (18, c) # (17, X_string y) # (16, b) # (15, X_string x) #
        (11, a) # (8, X_string n) # ss) sc env =
      Some ((param_goto (top_state ss), X_param (new_param n (generic_attribute z x y))) # ss, env)"
  using assms by (auto simp: reduced_def voms_rules voms_action_def voms_gotos)

lemma gets_parenthesis:
  fixes ty :: "'s itself"
  assumes "top_state ss = 7 \<or> top_state ss = 9" "length ss < 100"
    "Option.bind (take_value its) (\<lambda>(z, r). take_mark 41 r) = None \<Longrightarrow> R = Some (1, env)"
    "\<And>z r r'. take_value its = Some (z, r) \<Longrightarrow> take_mark 41 r = Some r' \<Longrightarrow>
       gets ty ((param_goto (top_state ss), X_param (new_param n (generic_attribute z x y))) # ss) r' env R"
  shows "gets ty ((18, c) # (17, X_string y) # (16, b) # (15, X_string x) # (11, a) # (8, X_string n) # ss) its env R"
proof (rule gets_value)
  fix z r
  assume v: "take_value its = Some (z, r)"
  let ?ss = "(19, X_string z) # (18, c) # (17, X_string y) # (16, b) # (15, X_string x) # (11, a) # (8, X_string n) # ss"
  have "gets ty ?ss r env R"
  proof (rule gets_mark [where c = 41 and s = 20])
    show "row_goes (top_state ?ss) [(sym 41, 20)] Fail" using voms_rows(13) by (simp add: sym_def voms_yytranslate_def)
    show "(sym t = sym 41) = (t = 41)" for t using sym_cases(8) [of t] by (simp add: sym_def voms_yytranslate_def)
    show "R = Some (1, env)" if "take_mark 41 r = None" using that v assms(3) by simp
    show "gets ty ((20, tok_value (41, w)) # ?ss) r' env R" if "r = (41, w) # r'" for w r'
    proof (rule gets_reduce)
      show "ready_for (top_state ((20, tok_value (41, w)) # ?ss)) r' 10" using voms_reduces(7) by (simp add: ready_for_def)
      show "reduced voms_tables voms_action 10 ((20, tok_value (41, w)) # ?ss) sc env =
          Some ((param_goto (top_state ss), X_param (new_param n (generic_attribute z x y))) # ss, env)" for sc :: 's
        by (rule reduced_param(3) [OF assms(1)])
      show "gets ty ((param_goto (top_state ss), X_param (new_param n (generic_attribute z x y))) # ss) r' env R"
        using assms(4) [OF v, of r'] that by (simp add: take_mark_def)
    qed (use assms(2) in \<open>simp_all add: low_def\<close>)
  qed (use assms(2) in \<open>simp_all add: low_def waits_in\<close>)
  then show "gets ty ((value_goto (top_state ((18, c) # (17, X_string y) # (16, b) # (15, X_string x) # (11, a) # (8, X_string n) # ss)),
      X_string z) # (18, c) # (17, X_string y) # (16, b) # (15, X_string x) # (11, a) # (8, X_string n) # ss) r env R" by simp
qed (use assms(2,3) in simp_all)

lemma gets_second:
  fixes ty :: "'s itself"
  assumes "top_state ss = 7 \<or> top_state ss = 9" "length ss < 100" "take_value its = None \<Longrightarrow> R = Some (1, env)"
    "\<And>y r. take_value its = Some (y, r) \<Longrightarrow> first_tok r \<noteq> 40 \<Longrightarrow>
       gets ty ((param_goto (top_state ss), X_param (new_param n (generic_attribute [] x y))) # ss) r env R"
    "\<And>y r. take_value its = Some (y, r) \<Longrightarrow> first_tok r = 40 \<Longrightarrow>
       Option.bind (take_value (tl r)) (\<lambda>(z, r). take_mark 41 r) = None \<Longrightarrow> R = Some (1, env)"
    "\<And>y z r r' r''. take_value its = Some (y, r) \<Longrightarrow> first_tok r = 40 \<Longrightarrow> take_value (tl r) = Some (z, r') \<Longrightarrow>
       take_mark 41 r' = Some r'' \<Longrightarrow>
       gets ty ((param_goto (top_state ss), X_param (new_param n (generic_attribute z x y))) # ss) r'' env R"
  shows "gets ty ((16, b) # (15, X_string x) # (11, a) # (8, X_string n) # ss) its env R"
proof (rule gets_value)
  fix y r
  assume v: "take_value its = Some (y, r)"
  let ?ss = "(17, X_string y) # (16, b) # (15, X_string x) # (11, a) # (8, X_string n) # ss"
  have row: "decision voms_tables 17 t = Some (if t = 40 then Shift 18 else Reduce 9)" for t
    using row_goesD [OF voms_rows(11), of t] sym_cases(7) [of t] by auto
  have "gets ty ?ss r env R"
  proof (cases "first_tok r = 40")
    case True
    then obtain w r1 where r: "r = (40, w) # r1" by (cases r) (auto simp: first_tok_def)
    have "gets ty ((18, tok_value (40, w)) # ?ss) r1 env R"
      using assms(5,6) [OF v True] r by (intro gets_parenthesis [OF assms(1,2)]) simp_all
    then show ?thesis unfolding r
      using row [of 40] assms(2) by (intro gets_shift [where s = 18]) (simp_all add: low_def waits_in)
  next
    case False
    show ?thesis
      using row [of "first_tok r"] False assms(1,2)
      by (intro gets_reduce [OF _ _ reduced_param(2) [OF assms(1)] _ assms(4) [OF v False]])
        (auto simp: ready_for_def waits_in low_def)
  qed
  then show "gets ty ((value_goto (top_state ((16, b) # (15, X_string x) # (11, a) # (8, X_string n) # ss)), X_string y) #
      (16, b) # (15, X_string x) # (11, a) # (8, X_string n) # ss) r env R" by simp
qed (use assms(2,3) in simp_all)

text \<open>A parameter, from the states 7 and 9.\<close>

lemma gets_param:
  fixes ty :: "'s itself"
  assumes "top_state ss = 7 \<or> top_state ss = 9" "length ss < 100" "first_tok its = ID"
    "take_param its = None \<Longrightarrow> R = Some (1, env)"
    "\<And>p r. take_param its = Some (p, r) \<Longrightarrow> gets ty ((param_goto (top_state ss), X_param p) # ss) r env R"
  shows "gets ty ss its env R"
proof -
  obtain n r where its: "its = (ID, n) # r" using assms(3) by (cases its) (auto simp: first_tok_def ID_def)
  have row: "decision voms_tables (top_state ss) ID = Some (Shift 8)"
    using row_goesD [OF voms_rows(5), of ID] row_goesD [OF voms_rows(7), of ID] assms(1) sym_cases(3) [of ID] by auto
  have row15: "decision voms_tables 15 t = Some (if t = 61 then Shift 16 else Reduce 8)" for t
    using row_goesD [OF voms_rows(9), of t] sym_cases(6) [of t] by auto
  have first: "gets ty ((15, X_string x) # (11, a) # (8, X_string n) # ss) r2 env R"
    if r2: "take_mark 61 r = Some r1" "take_value r1 = Some (x, r2)" for a x r1 r2
  proof (cases "first_tok r2 = 61")
    case True
    then obtain w r3 where r3: "r2 = (61, w) # r3" by (cases r2) (auto simp: first_tok_def)
    have "gets ty ((16, tok_value (61, w)) # (15, X_string x) # (11, a) # (8, X_string n) # ss) r3 env R"
    proof (rule gets_second [OF assms(1,2)])
      show "R = Some (1, env)" if "take_value r3 = None"
        using that r2 r3 assms(4) by (simp add: its take_param_def)
      show "gets ty ((param_goto (top_state ss), X_param (new_param n (generic_attribute [] x y))) # ss) r' env R"
        if "take_value r3 = Some (y, r')" "first_tok r' \<noteq> 40" for y r'
        using that r2 r3 assms(5) by (simp add: its take_param_def)
      show "R = Some (1, env)" if "take_value r3 = Some (y, r')" "first_tok r' = 40"
        "Option.bind (take_value (tl r')) (\<lambda>(z, r). take_mark 41 r) = None" for y r'
        using that r2 r3 assms(4) by (auto simp: its take_param_def Option.bind_eq_None_conv split: prod.splits option.splits)
      show "gets ty ((param_goto (top_state ss), X_param (new_param n (generic_attribute z x y))) # ss) r'' env R"
        if "take_value r3 = Some (y, ra)" "first_tok ra = 40" "take_value (tl ra) = Some (z, r')"
          "take_mark 41 r' = Some r''" for y z ra r' r''
        using that r2 r3 assms(5) by (simp add: its take_param_def)
    qed
    then show ?thesis unfolding r3
      using row15 [of 61] assms(2) by (intro gets_shift [where s = 16]) (simp_all add: low_def waits_in)
  next
    case False
    have "gets ty ((param_goto (top_state ss), X_param (new_param n x)) # ss) r2 env R"
      using r2 False by (intro assms(5)) (simp add: its take_param_def)
    then show ?thesis
      using row15 [of "first_tok r2"] False assms(1,2)
      by (elim gets_reduce [OF _ _ reduced_param(1) [OF assms(1)], rotated 3])
        (auto simp: ready_for_def waits_in low_def)
  qed
  have "gets ty ((8, X_string n) # ss) r env R"
  proof (rule gets_mark [where c = 61 and s = 11])
    show "row_goes (top_state ((8, X_string n) # ss)) [(sym 61, 11)] Fail" using voms_rows(6) by (simp add: sym_def voms_yytranslate_def)
    show "(sym t = sym 61) = (t = 61)" for t using sym_cases(6) [of t] by (simp add: sym_def voms_yytranslate_def)
    show "R = Some (1, env)" if "take_mark 61 r = None" using that assms(4) by (simp add: its take_param_def)
    show "gets ty ((11, tok_value (61, w)) # (8, X_string n) # ss) r1 env R" if r: "r = (61, w) # r1" for w r1
    proof (rule gets_value)
      show "R = Some (1, env)" if "take_value r1 = None" using that r assms(4) by (simp add: its take_param_def take_mark_def)
      show "gets ty ((value_goto (top_state ((11, tok_value (61, w)) # (8, X_string n) # ss)), X_string x) #
          (11, tok_value (61, w)) # (8, X_string n) # ss) r2 env R" if "take_value r1 = Some (x, r2)" for x r2
        using first [of r1 x r2] that r by (simp add: take_mark_def)
    qed (use assms(2) in simp_all)
  qed (use assms(2) in \<open>simp_all add: low_def waits_in\<close>)
  then show ?thesis unfolding its
    using row assms(1,2) by (intro gets_shift [where s = 8]) (auto simp: low_def waits_in tok_value_def)
qed

text \<open>The parameters of a VO.\<close>

definition took_then :: "'a took \<Rightarrow> (int \<times> vo list option) option \<Rightarrow> vo list option \<Rightarrow> ('a \<Rightarrow> tok list \<Rightarrow> bool) \<Rightarrow> bool" where
  "took_then x R env P = (case x of Overrun \<Rightarrow> R = None | Bad \<Rightarrow> R = Some (1, env) | Took y r \<Rightarrow> P y r)"

lemma took_then_simps [simp]:
  "took_then Overrun R env P \<longleftrightarrow> R = None" "took_then Bad R env P \<longleftrightarrow> R = Some (1, env)" "took_then (Took y r) R env P \<longleftrightarrow> P y r"
  by (simp_all add: took_then_def)

lemma gets_params:
  fixes ty :: "'s itself"
  assumes "top_state ss = 7" "length ss < 90"
    "took_then (take_params ps its) R env (\<lambda>qs r. first_tok r \<noteq> ID \<longrightarrow> gets ty ((9, X_params qs) # ss) r env R)"
  shows "gets ty ((9, X_params ps) # ss) its env R"
  using assms(3)
proof (induction ps its rule: take_params.induct)
  case (1 ps its)
  note step = take_params.simps [of ps its]
  show ?case
  proof (cases "first_tok its = ID")
    case False
    then show ?thesis using "1.prems" by (simp add: step)
  next
    case True
    show ?thesis
    proof (rule gets_param)
      show "R = Some (1, env)" if "take_param its = None" using "1.prems" True that by (simp add: step)
      fix p r
      assume p: "take_param its = Some (p, r)"
      let ?ss = "(12, X_param p) # (9, X_params ps) # ss"
      have rd: "ready_for (top_state ?ss) r 7" using voms_reduces(4) by (simp add: ready_for_def)
      have low: "low ?ss" using assms(2) by (simp add: low_def)
      have "gets ty ?ss r env R"
      proof (cases "length ps < MAX_SIZE")
        case True
        then have red: "reduced voms_tables voms_action 7 ?ss sc env = Some ((9, X_params (ps @ [p])) # ss, env)" for sc :: 's
          using assms(1) by (simp add: reduced_def voms_rules voms_action_def voms_gotos put_at_end_def)
        have "gets ty ((9, X_params (ps @ [p])) # ss) r env R"
          using "1.IH" [OF _ p _ True] "1.prems" \<open>first_tok its = ID\<close> True p by (simp add: step)
        then show ?thesis by (intro gets_reduce [OF rd low red]) simp_all
      next
        case False
        then have red: "reduced voms_tables voms_action 7 ?ss sc env = None" for sc :: 's
          by (simp add: reduced_def voms_rules voms_action_def put_at_end_def)
        have "R = None" using "1.prems" \<open>first_tok its = ID\<close> False p by (simp add: step)
        then show ?thesis using gets_undefined [OF rd low red, of ty] by simp
      qed
      then show "gets ty ((param_goto (top_state ((9, X_params ps) # ss)), X_param p) # (9, X_params ps) # ss) r env R" by simp
    qed (use True assms(2) in simp_all)
  qed
qed

text \<open>A VO, from the states 0 and 2.\<close>

fun vo_goto :: "nat \<Rightarrow> nat" where
  "vo_goto s = (if s = 0 then 3 else 6)"

lemma gets_body:
  fixes ty :: "'s itself"
  assumes "top_state ss = 0 \<or> top_state ss = 2" "length ss < 10"
    "took_then (take_params [] its) R env (\<lambda>ps r. case convert_loop_params (new_vo n) ps of None \<Rightarrow> R = None
       | Some v \<Rightarrow> gets ty ((vo_goto (top_state ss), X_vo v) # ss) r env R)"
  shows "gets ty ((7, c) # (4, X_string n) # (1, a) # ss) its env R"
proof (cases "first_tok its = ID")
  case False
  let ?ss = "(7, c) # (4, X_string n) # (1, a) # ss"
  have "decision voms_tables 7 (first_tok its) = Some (Reduce 5)"
    using row_goesD [OF voms_rows(5), of "first_tok its"] False sym_cases(3) [of "first_tok its"] by simp
  then have rd: "ready_for (top_state ?ss) its 5" by (simp add: ready_for_def waits_in)
  have low: "low ?ss" using assms(2) by (simp add: low_def)
  have red: "reduced voms_tables voms_action 5 ?ss sc env = Some ((vo_goto (top_state ss), X_vo (new_vo n)) # ss, env)" for sc :: 's
    using assms(1) by (auto simp: reduced_def voms_rules voms_action_def voms_gotos)
  have "gets ty ((vo_goto (top_state ss), X_vo (new_vo n)) # ss) its env R"
    using assms(3) False by (simp add: take_params.simps)
  then show ?thesis using assms(1) by (intro gets_reduce [OF rd low red]) auto
next
  case True
  let ?ss = "(7, c) # (4, X_string n) # (1, a) # ss"
  note step = take_params.simps [of "[]" its]
  show ?thesis
  proof (rule gets_param)
    show "R = Some (1, env)" if "take_param its = None" using assms(3) True that by (simp add: step)
    fix p r
    assume p: "take_param its = Some (p, r)"
    have params: "gets ty ((9, X_params [p]) # ?ss) r env R"
    proof (rule gets_params)
      have "took_then (take_params [p] r) R env (\<lambda>ps r. case convert_loop_params (new_vo n) ps of None \<Rightarrow> R = None
       | Some v \<Rightarrow> gets ty ((vo_goto (top_state ss), X_vo v) # ss) r env R)"
        using assms(3) True p by (simp add: step MAX_SIZE_def)
      moreover have "gets ty ((9, X_params qs) # ?ss) r' env R"
        if c: "case convert_loop_params (new_vo n) qs of None \<Rightarrow> R = None
          | Some v \<Rightarrow> gets ty ((vo_goto (top_state ss), X_vo v) # ss) r' env R" "first_tok r' \<noteq> ID" for qs r'
      proof -
        have "decision voms_tables 9 (first_tok r') = Some (Reduce 4)"
          using row_goesD [OF voms_rows(7), of "first_tok r'"] that sym_cases(3) [of "first_tok r'"] by simp
        then have rd: "ready_for (top_state ((9, X_params qs) # ?ss)) r' 4" by (simp add: ready_for_def waits_in)
        have low: "low ((9, X_params qs) # ?ss)" using assms(2) by (simp add: low_def)
        show ?thesis
        proof (cases "convert_loop_params (new_vo n) qs")
          case None
          then have red: "reduced voms_tables voms_action 4 ((9, X_params qs) # ?ss) sc env = None" for sc :: 's
            by (simp add: reduced_def voms_rules voms_action_def)
          show ?thesis using gets_undefined [OF rd low red, of ty] c None by simp
        next
          case (Some v)
          then have red: "reduced voms_tables voms_action 4 ((9, X_params qs) # ?ss) sc env =
              Some ((vo_goto (top_state ss), X_vo v) # ss, env)" for sc :: 's
            using assms(1) by (auto simp: reduced_def voms_rules voms_action_def voms_gotos)
          show ?thesis using c Some assms(1) by (intro gets_reduce [OF rd low red]) auto
        qed
      qed
      ultimately show "took_then (take_params [p] r) R env (\<lambda>qs r. first_tok r \<noteq> ID \<longrightarrow> gets ty ((9, X_params qs) # ?ss) r env R)"
        by (cases "take_params [p] r") auto
    qed (use assms(2) in simp_all)
    have red: "reduced voms_tables voms_action 6 ((10, X_param p) # ?ss) sc env = Some ((9, X_params [p]) # ?ss, env)" for sc :: 's
      by (simp add: reduced_def voms_rules voms_action_def voms_gotos)
    have rd: "ready_for (top_state ((10, X_param p) # ?ss)) r 6" using voms_reduces(3) by (simp add: ready_for_def)
    have low: "low ((10, X_param p) # ?ss)" using assms(2) by (simp add: low_def)
    have "gets ty ((10, X_param p) # ?ss) r env R"
      by (rule gets_reduce [OF rd low red _ params]) simp
    then show "gets ty ((param_goto (top_state ?ss), X_param p) # ?ss) r env R" by simp
  qed (use assms(2) True in simp_all)
qed

lemma gets_vo:
  fixes ty :: "'s itself"
  assumes "top_state ss = 0 \<or> top_state ss = 2" "length ss < 10" "top_state ss = 2 \<longrightarrow> 0 < first_tok its"
    "took_then (take_vo its) R env (\<lambda>v r. gets ty ((vo_goto (top_state ss), X_vo v) # ss) r env R)"
  shows "gets ty ss its env R"
proof -
  have w: "waits voms_tables (top_state ss)" using assms(1) by (intro waits_in) auto
  have row: "decision voms_tables (top_state ss) (first_tok its) = Some (if first_tok its = 91 then Shift 1 else Fail)"
    using row_goesD [OF voms_rows(1), of "first_tok its"] row_goesD [OF voms_rows(3), of "first_tok its"] assms(1,3)
      sym_cases(1,4) [of "first_tok its"] by auto
  show ?thesis
  proof (cases "first_tok its = 91")
    case False
    then have "take_vo its = Bad" by (auto simp: take_vo_def take_mark_def first_tok_def split: list.splits)
    then show ?thesis using gets_error [OF _ w] row False assms(4) by simp
  next
    case True
    then obtain x r where its: "its = (91, x) # r" by (cases its) (auto simp: first_tok_def)
    have "gets ty ((1, tok_value (91, x)) # ss) r env R"
    proof (rule gets_mark [where c = ID and s = 4])
      show "row_goes (top_state ((1, tok_value (91, x)) # ss)) [(sym ID, 4)] Fail"
        using voms_rows(2) by (simp add: sym_def voms_yytranslate_def ID_def)
      show "(sym t = sym ID) = (t = ID)" for t using sym_cases(3) [of t] by (simp add: sym_def voms_yytranslate_def ID_def)
      show "R = Some (1, env)" if "take_mark ID r = None"
        using that assms(4) by (auto simp: its take_vo_def take_mark_def split: list.splits if_splits)
      show "gets ty ((4, tok_value (ID, n)) # (1, tok_value (91, x)) # ss) r1 env R" if r: "r = (ID, n) # r1" for n r1
      proof (rule gets_mark [where c = 93 and s = 7])
        let ?ss = "(4, tok_value (ID, n)) # (1, tok_value (91, x)) # ss"
        show "row_goes (top_state ?ss) [(sym 93, 7)] Fail" using voms_rows(4) by (simp add: sym_def voms_yytranslate_def)
        show "(sym t = sym 93) = (t = 93)" for t using sym_cases(5) [of t] by (simp add: sym_def voms_yytranslate_def)
        show "R = Some (1, env)" if "take_mark 93 r1 = None"
          using that assms(4) r by (simp add: its take_vo_def take_mark_def)
        show "gets ty ((7, tok_value (93, y)) # ?ss) r2 env R" if r1: "r1 = (93, y) # r2" for y r2
        proof -
          have "took_then (take_params [] r2) R env (\<lambda>ps r. case convert_loop_params (new_vo n) ps of None \<Rightarrow> R = None
             | Some v \<Rightarrow> gets ty ((vo_goto (top_state ss), X_vo v) # ss) r env R)"
            using assms(4) r r1
            by (cases "take_params [] r2") (auto simp: its take_vo_def take_mark_def split: option.splits)
          from gets_body [OF assms(1,2) this] show ?thesis by (simp add: tok_value_def ID_def)
        qed
      qed (use assms(2) in \<open>simp_all add: low_def waits_in\<close>)
    qed (use assms(2) in \<open>simp_all add: low_def waits_in ID_def\<close>)
    then show ?thesis unfolding its
      using row True its assms(2) by (intro gets_shift [where s = 1]) (simp_all add: low_def w)
  qed
qed

text \<open>The VOs: the list so far lies on the stack when there is one.\<close>

definition vos_stack :: "vo list \<Rightarrow> (nat \<times> vval) list" where
  "vos_stack vs = (if vs = [] then [] else [(2, X_vos vs)])"

text \<open>No stream carries other numbers.\<close>

lemma gets_positive:
  assumes "its \<noteq> [] \<Longrightarrow> 0 < first_tok its \<Longrightarrow> gets ty ss its env R" "its \<noteq> []"
  shows "gets ty ss its env R"
proof (cases "0 < first_tok its")
  case False
  obtain k r where its: "its = k # r" using assms(2) by (cases its) auto
  have "\<not> stands ch lv inp its" for ch lv and inp :: "(vval, 'a) lexed list"
    using False its by (cases ch; cases k) (auto simp: first_tok_def split: list.splits lexed.splits)
  then show ?thesis by (simp add: gets_def)
qed (rule assms(1) [OF assms(2)])

lemma gets_vos:
  fixes ty :: "'s itself"
  assumes "vs \<noteq> [] \<longrightarrow> its \<noteq> []"
  shows "gets ty (vos_stack vs) its env (take_vos env vs its)"
  using assms
proof (induction env vs its rule: take_vos.induct)
  case (1 env vs its)
  let ?R = "take_vos env vs its" and ?ss = "vos_stack vs"
  have top: "top_state ?ss = 0 \<or> top_state ?ss = 2" "length ?ss < 10" "top_state ?ss = 2 \<longleftrightarrow> vs \<noteq> []"
    by (simp_all add: vos_stack_def top_state_def)
  note step = take_vos.simps [of env vs its]
  have "gets ty ?ss its env ?R" if pos: "top_state ?ss = 2 \<longrightarrow> 0 < first_tok its"
  proof (rule gets_vo [OF top(1,2) pos])
    show "took_then (take_vo its) ?R env (\<lambda>v r. gets ty ((vo_goto (top_state ?ss), X_vo v) # ?ss) r env ?R)"
    proof (cases "take_vo its")
      case (Took v r)
      let ?top = "(vo_goto (top_state ?ss), X_vo v) # ?ss" and ?r = "if vs = [] then 2 else 3 :: nat"
      have rd: "ready_for (top_state ?top) r ?r"
        using voms_reduces(1,2) by (simp add: ready_for_def vos_stack_def top_state_def)
      have low: "low ?top" by (simp add: low_def vos_stack_def)
      have "gets ty ?top r env ?R"
      proof (cases "vs = [] \<or> length vs < MAX_SIZE")
        case True
        have red: "reduced voms_tables voms_action ?r ?top sc env = Some ([(2, X_vos (vs @ [v]))], Some (vs @ [v]))" for sc :: 's
          using True
          by (auto simp: reduced_def voms_rules voms_action_def voms_gotos vos_stack_def put_at_end_def top_state_def)
        have "gets ty [(2, X_vos (vs @ [v]))] r (Some (vs @ [v])) ?R"
        proof (cases "r = []")
          case True
          have "decision voms_tables 2 0 = Some (Shift 5)"
            using row_goesD [OF voms_rows(3), of 0] by (simp add: sym_def)
          then show ?thesis using True Took \<open>vs = [] \<or> length vs < MAX_SIZE\<close> gets_accept [of "[(2, X_vos (vs @ [v]))]" ty]
            by (simp add: step low_def waits_in)
        next
          case False
          then show ?thesis
            using "1.IH" [OF Took True False] Took True by (simp add: step vos_stack_def)
        qed
        then show ?thesis by (intro gets_reduce [OF rd low red]) simp_all
      next
        case False
        then have red: "reduced voms_tables voms_action ?r ?top sc env = None" for sc :: 's
          by (simp add: reduced_def voms_rules voms_action_def vos_stack_def put_at_end_def)
        have "?R = None" using Took False by (simp add: step)
        then show ?thesis using gets_undefined [OF rd low red, of ty] by simp
      qed
      then show ?thesis using Took by simp
    qed (simp_all add: step)
  qed
  then show ?case using gets_positive [of its ty ?ss env ?R] top(1,3) "1.prems" by (cases "vs = []") simp_all
qed

text \<open>The parser answers as the parser by recursive descent does.\<close>

lemma voms_parse_answers:
  assumes "carries its inp"
  shows "voms_yyparse mem inp sc volist = Some (take_vos volist [] its)"
  using gets_vos [of "[]" its "TYPE('a)" volist] assms
  by (simp add: gets_def voms_yyparse_def yyparse_def vos_stack_def)

end
