(* ===== verification/VomsTokens.thy ===== *)
theory VomsTokens
  imports VomsScanner FlexBuffer VomsSpec
begin

text \<open>
  The scanner of the options of voms-proxy-fake against a lexer on lists of characters, for files without
  zeros that are read in one piece.
\<close>

section \<open>The reference\<close>

definition quote_mark :: char where "quote_mark = CHR 0x22"

definition word_char :: "char \<Rightarrow> bool" where
  "word_char c \<longleftrightarrow>
     (let n = of_char c :: nat in 45 \<le> n \<and> n \<le> 58 \<or> 65 \<le> n \<and> n \<le> 90 \<or> n = 95 \<or> 97 \<le> n \<and> n \<le> 122)"

definition blank_char :: "char \<Rightarrow> bool" where
  "blank_char c \<longleftrightarrow> (let n = of_char c :: nat in n = 9 \<or> n = 10 \<or> n = 32)"

lemma dropWhile_shorter: "length (dropWhile P xs) \<le> length xs"
  by (rule length_dropWhile_le)

text \<open>The tokens of a text, between quotes or not. A character above 127 ends them.\<close>

function voms_tokens :: "bool \<Rightarrow> cstring \<Rightarrow> tok list" where
  "voms_tokens q [] = []"
| "voms_tokens q (c # cs) =
     (if q then
        (if c = quote_mark then voms_tokens False cs
         else (STRING, c # takeWhile (\<lambda>c. c \<noteq> quote_mark) cs) # voms_tokens True (dropWhile (\<lambda>c. c \<noteq> quote_mark) cs))
      else if word_char c then (ID, c # takeWhile word_char cs) # voms_tokens False (dropWhile word_char cs)
      else if blank_char c then voms_tokens False cs
      else if c = quote_mark then voms_tokens True cs
      else if 127 < (of_char c :: nat) then []
      else (of_char c, []) # voms_tokens False cs)"
  by pat_completeness auto
termination
  by (relation "measure (\<lambda>(q, cs). length cs)") (auto simp: less_Suc_eq_le dropWhile_shorter)

declare voms_tokens.simps(2) [simp del]

section \<open>Classes and states\<close>

lemmas [code] = packed_next.simps

definition vclass :: "char \<Rightarrow> nat" where
  "vclass c = voms_yy_ec ! of_char c"

definition class_of_code :: "nat \<Rightarrow> nat" where
  "class_of_code n =
     (if n = 0 then 0 else if n = 9 \<or> n = 32 then 2 else if n = 10 then 3 else if n = 34 then 4
      else if 45 \<le> n \<and> n \<le> 58 \<or> 65 \<le> n \<and> n \<le> 90 \<or> n = 95 \<or> 97 \<le> n \<and> n \<le> 122 then 5 else 1)"

lemma ec_classes: "voms_yy_ec = map class_of_code [0..<256]"
  by code_simp

lemma char_below: "(of_char c :: nat) < 256"
  by (rule nat_of_char_less_256)

lemma vclass_code: "vclass c = class_of_code (of_char c)"
  using char_below [of c] by (simp add: vclass_def ec_classes)

lemma char_class_voms: "char_class voms_packed c = Some (vclass c)"
  using char_below [of c] by (simp add: char_class_def entry_def voms_packed_def vclass_def ec_classes)

lemma quote_code: "c = quote_mark \<longleftrightarrow> (of_char c :: nat) = 34"
  by (simp add: quote_mark_def flip: of_char_eq_iff [where ?'a = nat])

lemma classes:
  assumes "c \<noteq> NUL"
  shows "vclass c = (if word_char c then 5 else if c = quote_mark then 4 else if of_char c = (10 :: nat) then 3
    else if blank_char c then 2 else 1)"
  using of_char_nonzero [OF assms] by (auto simp: vclass_code class_of_code_def word_char_def blank_char_def quote_code Let_def)

lemma vclass_NUL: "vclass NUL = 0"
  by (simp add: vclass_code class_of_code_def)

definition row_leads :: "nat \<Rightarrow> nat list \<Rightarrow> bool" where
  "row_leads s ts \<longleftrightarrow> list_all (\<lambda>k. packed_next voms_packed s k = Some (ts ! k)) [0..<6]"

lemma voms_leads:
  "row_leads 1 [5, 6, 7, 8, 9, 10]" "row_leads 3 [5, 11, 11, 11, 12, 11]" "row_leads 5 [15, 15, 15, 15, 15, 15]"
  "row_leads 10 [5, 15, 15, 15, 15, 13]" "row_leads 13 [5, 15, 15, 15, 15, 13]"
  "row_leads 11 [5, 14, 14, 14, 15, 14]" "row_leads 14 [5, 14, 14, 14, 15, 14]"
  unfolding row_leads_def by code_simp+

section \<open>One match\<close>

lemma leads: "row_leads s ts \<Longrightarrow> k < 6 \<Longrightarrow> packed_next voms_packed s k = Some (ts ! k)"
  by (auto simp: row_leads_def list_all_iff)

lemma vclass_small: "vclass c < 6"
  by (simp add: vclass_code class_of_code_def)

abbreviation vmatch where "vmatch \<equiv> packed_match voms_packed"

abbreviation vnote where "vnote \<equiv> note_accepting voms_packed"

lemma packed_fields [simp]:
  "pt_base voms_packed = voms_yy_base" "pt_jambase voms_packed = 15" "pt_eob voms_packed = 9"
  by (simp_all add: voms_packed_def)

lemma match_one:
  assumes "drop p buf = c # r" "row_leads s ts"
  shows "vmatch buf s p l =
    (let t = ts ! vclass c
     in if t < length voms_yy_base \<and> voms_yy_base ! t = 15 then Some (t, Suc p, vnote s p l)
        else vmatch buf t (Suc p) (vnote s p l))"
  using drop_ConsD [OF assms(1)] leads [OF assms(2) vclass_small]
  by (subst packed_match.simps) (simp add: char_class_voms Let_def entry_def)

lemma bases:
  "length voms_yy_base = 19" "voms_yy_base ! 5 = 12" "voms_yy_base ! 6 = 15" "voms_yy_base ! 7 = 15"
  "voms_yy_base ! 8 = 15" "voms_yy_base ! 9 = 15" "voms_yy_base ! 10 = 0" "voms_yy_base ! 11 = 0" "voms_yy_base ! 12 = 15"
  "voms_yy_base ! 13 = 0" "voms_yy_base ! 14 = 0" "voms_yy_base ! 15 = 15"
  by (simp_all add: voms_yy_base_def)

lemma accepts:
  "pt_accepting voms_packed 1 = 4" "pt_accepting voms_packed 3 = 2" "pt_accepting voms_packed 5 = 9"
  "pt_accepting voms_packed 6 = 5" "pt_accepting voms_packed 7 = 7" "pt_accepting voms_packed 8 = 6"
  "pt_accepting voms_packed 9 = 1" "pt_accepting voms_packed 10 = 4" "pt_accepting voms_packed 11 = 2"
  "pt_accepting voms_packed 12 = 3" "pt_accepting voms_packed 13 = 4" "pt_accepting voms_packed 14 = 2"
  "pt_accepting voms_packed 15 = 0"
  by (simp_all add: pt_accepting_def voms_packed_def voms_yy_accept_def)

text \<open>The end of the buffer, seen by a state that is not the one for it.\<close>

lemma match_end:
  assumes "drop p buf = NUL # NUL # junk" "row_leads s (5 # ts)"
  shows "vmatch buf s p l = Some (15, Suc (Suc p), Some (5, Suc p))"
proof -
  have p: "drop (Suc p) buf = NUL # junk" using drop_ConsD [OF assms(1)] by simp
  show ?thesis
    by (simp add: match_one [OF assms] match_one [OF p voms_leads(3)] vclass_NUL bases accepts note_accepting_def)
qed

text \<open>
  Words and strings: from the start a character of the kind leads to states that stay as long as the
  kind does and accept with the same action.
\<close>

locale token_run =
  fixes start :: nat and S :: "nat set" and P :: "char \<Rightarrow> bool" and act :: nat
  assumes first: "\<exists>ts. row_leads start (5 # ts) \<and> (\<forall>c. P c \<longrightarrow> c \<noteq> NUL \<longrightarrow> (5 # ts) ! vclass c \<in> S)"
    and stay: "\<And>s. s \<in> S \<Longrightarrow> \<exists>ts. row_leads s (5 # ts) \<and>
      (\<forall>c. c \<noteq> NUL \<longrightarrow> (if P c then (5 # ts) ! vclass c \<in> S else (5 # ts) ! vclass c = 15))"
    and state: "\<And>s. s \<in> S \<Longrightarrow> pt_accepting voms_packed s = act \<and> s < 19 \<and> voms_yy_base ! s \<noteq> 15"
    and act: "act \<noteq> 0" "act \<noteq> 9"
begin

lemma note_stay: "s \<in> S \<Longrightarrow> vnote s p l = Some (s, p)"
  using state [of s] act by (simp add: note_accepting_def)

lemma match_stays:
  assumes "s \<in> S" "list_all (\<lambda>c. P c \<and> c \<noteq> NUL) w" "drop p buf = w @ r"
  shows "\<exists>t l'. t \<in> S \<and> vmatch buf s p l = vmatch buf t (p + length w) l'"
  using assms
proof (induction w arbitrary: s p l)
  case Nil
  then show ?case by auto
next
  case (Cons c w)
  obtain ts where ts: "row_leads s (5 # ts)" "(5 # ts) ! vclass c \<in> S" using stay [OF Cons.prems(1)] Cons.prems(2) by auto
  have d: "drop p buf = c # (w @ r)" using Cons.prems(3) by simp
  have p: "drop (Suc p) buf = w @ r" using drop_ConsD [OF d] by simp
  have step: "vmatch buf s p l = vmatch buf ((5 # ts) ! vclass c) (Suc p) (Some (s, p))"
    using match_one [OF d ts(1), of l] state [OF ts(2)] note_stay [OF Cons.prems(1)] by (simp add: Let_def bases(1))
  have "list_all (\<lambda>c. P c \<and> c \<noteq> NUL) w" using Cons.prems(2) by simp
  from Cons.IH [OF ts(2) this p, of "Some (s, p)"] obtain t l' where
    "t \<in> S" "vmatch buf ((5 # ts) ! vclass c) (Suc p) (Some (s, p)) = vmatch buf t (Suc p + length w) l'" by blast
  with step have "t \<in> S \<and> vmatch buf s p l = vmatch buf t (p + length (c # w)) l'" by simp
  then show ?case by blast
qed

lemma match_starts:
  assumes "w \<noteq> []" "list_all (\<lambda>c. P c \<and> c \<noteq> NUL) w" "drop p buf = w @ r"
  shows "\<exists>t l'. t \<in> S \<and> vmatch buf start p l = vmatch buf t (p + length w) l'"
proof -
  obtain c v where w: "w = c # v" using assms(1) by (cases w) auto
  obtain ts where ts: "row_leads start (5 # ts)" "(5 # ts) ! vclass c \<in> S" using first assms(2) w by auto
  have d: "drop p buf = c # (v @ r)" using assms(3) w by simp
  have p: "drop (Suc p) buf = v @ r" using drop_ConsD [OF d] by simp
  have step: "vmatch buf start p l = vmatch buf ((5 # ts) ! vclass c) (Suc p) (vnote start p l)"
    using match_one [OF d ts(1), of l] state [OF ts(2)] by (simp add: Let_def bases(1))
  have "list_all (\<lambda>c. P c \<and> c \<noteq> NUL) v" using assms(2) w by simp
  from match_stays [OF ts(2) this p, of "vnote start p l"] obtain t l' where
    "t \<in> S" "vmatch buf ((5 # ts) ! vclass c) (Suc p) (vnote start p l) = vmatch buf t (Suc p + length v) l'" by blast
  with step have "t \<in> S \<and> vmatch buf start p l = vmatch buf t (p + length w) l'" by (simp add: w)
  then show ?thesis by blast
qed

lemma match_inside:
  assumes "w \<noteq> []" "list_all (\<lambda>c. P c \<and> c \<noteq> NUL) w" "\<not> P c" "c \<noteq> NUL" "drop p buf = w @ c # r"
  shows "\<exists>t. t \<in> S \<and> vmatch buf start p l = Some (15, Suc (p + length w), Some (t, p + length w))"
proof -
  obtain t l' where t: "t \<in> S" "vmatch buf start p l = vmatch buf t (p + length w) l'"
    using match_starts [OF assms(1,2,5)] by blast
  obtain ts where ts: "row_leads t (5 # ts)" "(5 # ts) ! vclass c = 15" using stay [OF t(1)] assms(3,4) by auto
  have d: "drop (p + length w) buf = c # r"
    using arg_cong [OF assms(5), of "drop (length w)"] by (simp add: add.commute)
  have "vmatch buf t (p + length w) l' = Some (15, Suc (p + length w), Some (t, p + length w))"
    using match_one [OF d ts(1), of l'] ts(2) by (simp add: bases note_stay [OF t(1)])
  then show ?thesis using t by auto
qed

lemma match_last:
  assumes "w \<noteq> []" "list_all (\<lambda>c. P c \<and> c \<noteq> NUL) w" "drop p buf = w @ NUL # NUL # junk"
  shows "vmatch buf start p l = Some (15, Suc (Suc (p + length w)), Some (5, Suc (p + length w)))"
proof -
  obtain t l' where t: "t \<in> S" "vmatch buf start p l = vmatch buf t (p + length w) l'"
    using match_starts [OF assms(1,2,3)] by blast
  obtain ts where ts: "row_leads t (5 # ts)" using stay [OF t(1)] by auto
  have d: "drop (p + length w) buf = NUL # NUL # junk"
    using arg_cong [OF assms(3), of "drop (length w)"] by (simp add: add.commute)
  show ?thesis using match_end [OF d ts, of l'] t(2) by simp
qed

text \<open>The state again, from the start of the token.\<close>

lemma previous_stays:
  assumes "s \<in> S" "list_all (\<lambda>c. P c \<and> c \<noteq> NUL) w"
  shows "\<exists>t l'. t \<in> S \<and> packed_previous voms_packed w s p l = Some (t, l')"
  using assms
proof (induction w arbitrary: s p l)
  case (Cons c w)
  obtain ts where ts: "row_leads s (5 # ts)" "(5 # ts) ! vclass c \<in> S" using stay [OF Cons.prems(1)] Cons.prems(2) by auto
  have "list_all (\<lambda>c. P c \<and> c \<noteq> NUL) w" "c \<noteq> NUL" using Cons.prems(2) by simp_all
  then show ?case using Cons.IH [OF ts(2)] leads [OF ts(1) vclass_small, of c] by (simp add: char_class_voms)
qed simp

lemma previous_starts:
  assumes "w \<noteq> []" "list_all (\<lambda>c. P c \<and> c \<noteq> NUL) w"
  shows "\<exists>t l'. t \<in> S \<and> packed_previous voms_packed w start p l = Some (t, l')"
proof -
  obtain c v where w: "w = c # v" "c \<noteq> NUL" "list_all (\<lambda>c. P c \<and> c \<noteq> NUL) v" using assms by (cases w) auto
  obtain ts where ts: "row_leads start (5 # ts)" "(5 # ts) ! vclass c \<in> S" using first assms(2) w by auto
  show ?thesis using previous_stays [OF ts(2) w(3)] leads [OF ts(1) vclass_small, of c] w(1,2)
    by (simp add: char_class_voms)
qed

end

interpretation words: token_run 1 "{10, 13}" word_char 4
proof
  show "\<exists>ts. row_leads 1 (5 # ts) \<and> (\<forall>c. word_char c \<longrightarrow> c \<noteq> NUL \<longrightarrow> (5 # ts) ! vclass c \<in> {10, 13})"
    by (rule exI [of _ "[6, 7, 8, 9, 10]"]) (use voms_leads(1) in \<open>simp add: classes\<close>)
  show "\<exists>ts. row_leads s (5 # ts) \<and> (\<forall>c. c \<noteq> NUL \<longrightarrow> (if word_char c then (5 # ts) ! vclass c \<in> {10, 13} else (5 # ts) ! vclass c = 15))"
    if "s \<in> {10, 13}" for s
    by (rule exI [of _ "[15, 15, 15, 15, 13]"]) (use voms_leads(4,5) that in \<open>auto simp: classes\<close>)
qed (auto simp: accepts bases)

interpretation strings: token_run 3 "{11, 14}" "\<lambda>c. c \<noteq> quote_mark" 2
proof
  have q: "\<not> word_char quote_mark" by (simp add: word_char_def quote_mark_def)
  show "\<exists>ts. row_leads 3 (5 # ts) \<and> (\<forall>c. c \<noteq> quote_mark \<longrightarrow> c \<noteq> NUL \<longrightarrow> (5 # ts) ! vclass c \<in> {11, 14})"
    by (rule exI [of _ "[11, 11, 11, 12, 11]"]) (use voms_leads(2) in \<open>simp add: classes\<close>)
  show "\<exists>ts. row_leads s (5 # ts) \<and> (\<forall>c. c \<noteq> NUL \<longrightarrow> (if c \<noteq> quote_mark then (5 # ts) ! vclass c \<in> {11, 14} else (5 # ts) ! vclass c = 15))"
    if "s \<in> {11, 14}" for s
    by (rule exI [of _ "[14, 14, 14, 15, 14]"]) (use voms_leads(6,7) that q in \<open>auto simp: classes\<close>)
qed (auto simp: accepts bases)

section \<open>Tokens in the buffer\<close>

text \<open>A match of the first characters, with the text still in the buffer.\<close>

definition found :: "nat \<Rightarrow> cstring \<Rightarrow> nat \<Rightarrow> nat \<Rightarrow> matched option \<Rightarrow> bool" where
  "found a cs m s R \<longleftrightarrow>
     (\<exists>st'. R = Some (Matched a (sc_text st' + m) st') \<and> loaded cs st' \<and> sc_start st' = s)"

abbreviation vscan where "vscan st \<equiv> packed_scan voms_packed (sc_start st) (sc_text st) st"

lemma found_inside:
  assumes "loaded cs st" "vmatch (sc_buf st) (sc_start st) (sc_text st) (sc_last st) = Some (t, cp, l)"
    "packed_find_action voms_packed t cp l = Some (a, sc_text st + m)" "a \<noteq> 9"
  shows "found a cs m (sc_start st) (vscan st)"
proof -
  have "vscan st = Some (Matched a (sc_text (st\<lparr>sc_last := l\<rparr>) + m) (st\<lparr>sc_last := l\<rparr>))"
    using assms(2-4) by (subst packed_scan.simps) simp
  then show ?thesis using assms(1) unfolding found_def by (intro exI [of _ "st\<lparr>sc_last := l\<rparr>"]) (simp add: loaded_def)
qed

lemma found_last:
  assumes "loaded cs st" "cs \<noteq> []"
    "vmatch (sc_buf st) (sc_start st) (sc_text st) (sc_last st) =
      Some (15, Suc (Suc (sc_text st + length cs)), Some (5, Suc (sc_text st + length cs)))"
    "\<And>l. \<exists>t l'. pt_accepting voms_packed t = a \<and> packed_previous voms_packed cs (sc_start st) 0 l = Some (t, l')" "a \<noteq> 0"
  shows "found a cs (length cs) (sc_start st) (vscan st)"
proof -
  let ?k = "length cs"
  let ?st = "st\<lparr>sc_last := Some (5, Suc (sc_text st + ?k))\<rparr>"
  obtain junk where j: "drop (sc_text st) (sc_buf st) = cs @ NUL # NUL # junk" using assms(1) by (auto simp: loaded_def)
  have n: "sc_n ?st = sc_text st + ?k" "sc_text ?st = sc_text st" "sc_size ?st = YY_BUF_SIZE" "sc_file ?st = []"
      "?k \<le> YY_READ_BUF_SIZE"
    using assms(1) by (simp_all add: loaded_def)
  obtain st' where g: "yy_get_next_buffer (Suc (sc_text st + ?k)) ?st = Some (Last_match st')"
    and st': "sc_text st' = 0" "sc_buf st' = cs @ NUL # NUL # drop (?k + 2) (sc_buf st)" "sc_n st' = ?k"
      "sc_size st' = YY_BUF_SIZE" "sc_file st' = []" "sc_start st' = sc_start st"
    using n j assms(2) room_enough [OF n(5)]
    by (simp add: yy_get_next_buffer_def Let_def overwrite_front_def)
  obtain t l' where t: "pt_accepting voms_packed t = a"
      "packed_previous voms_packed cs (sc_start st) 0 (sc_last st') = Some (t, l')"
    using assms(4) by blast
  have "vscan st = Some (Matched a (sc_text (st'\<lparr>sc_last := l'\<rparr>) + ?k) (st'\<lparr>sc_last := l'\<rparr>))"
    using assms(3,5) g n(1,2) st' t
    by (subst packed_scan.simps) (simp add: packed_find_action_def accepts packed_again_def packed_settle_def)
  moreover have "loaded cs (st'\<lparr>sc_last := l'\<rparr>)" using st' n(5) by (simp add: loaded_def)
  ultimately show ?thesis using st'(6) unfolding found_def by (intro exI [of _ "st'\<lparr>sc_last := l'\<rparr>"]) simp
qed

lemma packed_scan_eof:
  assumes "loaded [] st" "row_leads (sc_start st) (5 # ts)"
  shows "\<exists>st'. vscan st = Some (At_eof st')"
proof -
  obtain junk where "drop (sc_text st) (sc_buf st) = NUL # NUL # junk" using assms(1) by (auto simp: loaded_def)
  then show ?thesis
    using match_end [OF _ assms(2)] assms(1) room_enough [of 0]
    by (subst packed_scan.simps)
      (simp add: packed_find_action_def accepts yy_get_next_buffer_def loaded_def Let_def YY_READ_BUF_SIZE_def)
qed

text \<open>A single character.\<close>

lemma found_one:
  assumes "loaded (c # r) st" "row_leads (sc_start st) ts" "ts ! vclass c = t" "t < 19" "voms_yy_base ! t = 15"
    "pt_accepting voms_packed t = a" "a \<noteq> 0" "a \<noteq> 9"
  shows "found a (c # r) 1 (sc_start st) (vscan st)"
proof -
  obtain junk where "drop (sc_text st) (sc_buf st) = c # (r @ NUL # NUL # junk)" using assms(1) by (auto simp: loaded_def)
  from match_one [OF this assms(2)] show ?thesis using assms
    by (intro found_inside [OF assms(1)]) (auto simp: bases(1) packed_find_action_def)
qed

context token_run begin

lemma found_run:
  assumes "loaded (w @ r) st" "sc_start st = start" "w \<noteq> []" "list_all (\<lambda>c. P c \<and> c \<noteq> NUL) w"
    "r = [] \<or> (\<exists>c r'. r = c # r' \<and> \<not> P c \<and> c \<noteq> NUL)"
  shows "found act (w @ r) (length w) start (vscan st)"
proof (cases r)
  case Nil
  have l: "loaded w st" using assms(1) Nil by simp
  then obtain junk where d: "drop (sc_text st) (sc_buf st) = w @ NUL # NUL # junk" by (auto simp: loaded_def)
  have p: "\<exists>t l'. pt_accepting voms_packed t = act \<and> packed_previous voms_packed w (sc_start st) 0 l = Some (t, l')" for l
    using previous_starts [OF assms(3,4), of 0 l] state assms(2) by blast
  show ?thesis using found_last [OF l assms(3) _ p act(1)] match_last [OF assms(3,4) d] assms(2) Nil by simp
next
  case (Cons c r')
  obtain junk where d: "drop (sc_text st) (sc_buf st) = w @ c # (r' @ NUL # NUL # junk)"
    using assms(1) Cons by (auto simp: loaded_def)
  obtain t where t: "t \<in> S" "vmatch (sc_buf st) start (sc_text st) (sc_last st) =
      Some (15, Suc (sc_text st + length w), Some (t, sc_text st + length w))"
    using match_inside [OF assms(3,4) _ _ d] assms(5) Cons by blast
  show ?thesis using found_inside [OF assms(1)] t state [OF t(1)] act assms(2)
    by (simp add: packed_find_action_def accepts)
qed

end

section \<open>The stream\<close>

definition start_of :: "bool \<Rightarrow> nat" where
  "start_of q = (if q then 3 else 1)"

lemma start_row: "\<exists>ts. row_leads (start_of q) (5 # ts)"
  using voms_leads(1,2) by (auto simp: start_of_def)

lemma after_run: "dropWhile P cs = [] \<or> (\<exists>c r. dropWhile P cs = c # r \<and> \<not> P c \<and> (NUL \<notin> set cs \<longrightarrow> c \<noteq> NUL))"
proof (cases "dropWhile P cs")
  case (Cons c r)
  then have "\<not> P c" using hd_dropWhile [of P cs] by simp
  moreover have "c \<in> set cs" using set_dropWhileD [of c P cs] Cons by simp
  ultimately show ?thesis using Cons by auto
qed simp

lemma after_run_free: "NUL \<notin> set cs \<Longrightarrow> NUL \<notin> set (dropWhile P cs)" "NUL \<notin> set cs \<Longrightarrow> NUL \<notin> set (takeWhile P cs)"
  by (auto dest: set_dropWhileD set_takeWhileD)

lemma run_of_kind: "P c \<Longrightarrow> c \<noteq> NUL \<Longrightarrow> NUL \<notin> set cs \<Longrightarrow> list_all (\<lambda>c. P c \<and> c \<noteq> NUL) (c # takeWhile P cs)"
  using after_run_free(2) [of cs P] by (auto simp: list_all_iff dest: set_takeWhileD)

text \<open>What the scanner finds first.\<close>

lemma found_first:
  assumes "loaded (c # cs) st" "sc_start st = start_of q" "NUL \<notin> set (c # cs)"
  shows "\<exists>a. found a (c # cs)
      (if q \<and> c \<noteq> quote_mark then Suc (length (takeWhile (\<lambda>c. c \<noteq> quote_mark) cs))
       else if \<not> q \<and> word_char c then Suc (length (takeWhile word_char cs)) else 1) (start_of q) (vscan st) \<and>
    (if q then if c = quote_mark then a = 3 else a = 2
     else if word_char c then a = 4 else if blank_char c then a = 6 \<or> a = 7 else if c = quote_mark then a = 1 else a = 5)"
proof -
  have nn: "c \<noteq> NUL" "NUL \<notin> set cs" using assms(3) by auto
  have qw: "\<not> word_char quote_mark" "\<not> blank_char quote_mark" by (simp_all add: word_char_def blank_char_def quote_mark_def)
  consider "q" "c \<noteq> quote_mark" | "q" "c = quote_mark" | "\<not> q" "word_char c" | "\<not> q" "\<not> word_char c" by blast
  then show ?thesis
  proof cases
    case 1
    have "found 2 (c # takeWhile (\<lambda>c. c \<noteq> quote_mark) cs @ dropWhile (\<lambda>c. c \<noteq> quote_mark) cs)
        (length (c # takeWhile (\<lambda>c. c \<noteq> quote_mark) cs)) 3 (vscan st)"
      using strings.found_run [of "c # takeWhile (\<lambda>c. c \<noteq> quote_mark) cs" "dropWhile (\<lambda>c. c \<noteq> quote_mark) cs" st]
        run_of_kind [of "\<lambda>c. c \<noteq> quote_mark", OF 1(2) nn] after_run [of "\<lambda>c. c \<noteq> quote_mark" cs] assms(1,2) nn(2) 1
      by (simp add: start_of_def)
    then show ?thesis using 1 by (simp add: start_of_def)
  next
    case 2
    then have "vclass c = 4" using nn qw by (simp add: classes)
    then show ?thesis using found_one [OF assms(1), of "[5, 11, 11, 11, 12, 11]" 12 3] voms_leads(2) assms(2) 2
      by (simp add: start_of_def bases accepts)
  next
    case 3
    have "found 4 (c # takeWhile word_char cs @ dropWhile word_char cs) (length (c # takeWhile word_char cs)) 1 (vscan st)"
      using words.found_run [of "c # takeWhile word_char cs" "dropWhile word_char cs" st]
        run_of_kind [of word_char, OF 3(2) nn] after_run [of word_char cs] assms(1,2) nn(2) 3
      by (simp add: start_of_def)
    then show ?thesis using 3 by (simp add: start_of_def)
  next
    case 4
    have one: "found a (c # cs) 1 1 (vscan st)"
      if "[5, 6, 7, 8, 9, 10] ! vclass c = t" "t < 19" "voms_yy_base ! t = 15" "pt_accepting voms_packed t = a" "a \<noteq> 0" "a \<noteq> 9" for t a
      using found_one [OF assms(1), of "[5, 6, 7, 8, 9, 10]" t a] voms_leads(1) assms(2) 4 that by (simp add: start_of_def)
    have "vclass c = (if c = quote_mark then 4 else if of_char c = (10 :: nat) then 3 else if blank_char c then 2 else 1)"
      using 4(2) nn(1) by (simp add: classes)
    then show ?thesis
      using one [of 6 5] one [of 7 7] one [of 8 6] one [of 9 1] 4 qw
      by (auto simp: bases accepts start_of_def blank_char_def split: if_splits)
  qed
qed

lemma found_token:
  assumes "found a cs m s R" "m \<le> length cs"
  shows "\<exists>cp st1. R = Some (Matched a cp st1) \<and> ready (drop m cs) (before_action cp st1) \<and>
    whole (take m cs) (before_action cp st1) \<and> sc_start (before_action cp st1) = s"
proof -
  from assms(1) obtain st1 where st1: "R = Some (Matched a (sc_text st1 + m) st1)" "loaded cs st1" "sc_start st1 = s"
    by (auto simp: found_def)
  then obtain junk where "drop (sc_text st1) (sc_buf st1) = cs @ NUL # NUL # junk" by (auto simp: loaded_def)
  then show ?thesis using before_action_token [of st1 cs junk m] st1 assms(2)
    by (auto simp: loaded_def before_action_def)
qed

lemma whole_string: "whole w st \<Longrightarrow> NUL \<notin> set w \<Longrightarrow> read_text st (yytext st) = Some w"
  using read_prefix [of w "drop (sc_text st) (sc_buf st)"]
  by (simp add: whole_def yytext_def read_text_def Let_def)

lemma whole_first:
  assumes "whole (c # w) st"
  shows "entry (sc_buf st) (int (sc_text st)) = Some c"
proof -
  have "take (Suc (Suc (length w))) (drop (sc_text st) (sc_buf st)) = c # (w @ [NUL])"
    using assms by (simp add: whole_def)
  then obtain d where "drop (sc_text st) (sc_buf st) = c # d" by (cases "drop (sc_text st) (sc_buf st)") auto
  then show ?thesis using drop_ConsD by (fastforce simp: entry_def)
qed

lemma code_of_sign:
  assumes "c \<noteq> NUL"
  shows "if 127 < (of_char c :: nat) then signed_char c < 0
    else signed_char c = of_char c \<and> 0 < (of_char c :: int) \<and> (of_char c :: int) < 128"
proof -
  have i: "(of_char c :: int) = int (of_char c :: nat)" by (rule of_nat_of_char [symmetric])
  show ?thesis unfolding signed_char_def Let_def i using of_char_nonzero [OF assms] char_below [of c] by auto
qed

theorem lexes_tokens:
  assumes "NUL \<notin> set cs" "loaded cs st0" "sc_start st0 = start_of q"
    "packed_scan voms_packed (sc_start st) (sc_pos st) (begin_pass st) = vscan st0"
  shows "\<exists>ys. packed_lex_all voms_packed voms_rule X_none st = Some ys \<and> carries (voms_tokens q cs) ys"
  using assms
proof (induction "length cs" arbitrary: cs q st st0 rule: less_induct)
  case less
  show ?case
  proof (cases cs)
    case Nil
    then obtain st' where "vscan st0 = Some (At_eof st')" using packed_scan_eof start_row less.prems(2,3) by metis
    then show ?thesis using less.prems(4) Nil by (subst packed_lex_all.simps) simp
  next
    case (Cons c r)
    let ?m = "if q \<and> c \<noteq> quote_mark then Suc (length (takeWhile (\<lambda>c. c \<noteq> quote_mark) r))
       else if \<not> q \<and> word_char c then Suc (length (takeWhile word_char r)) else 1"
    obtain a where f: "found a cs ?m (start_of q) (vscan st0)"
      and a: "if q then if c = quote_mark then a = 3 else a = 2
         else if word_char c then a = 4 else if blank_char c then a = 6 \<or> a = 7 else if c = quote_mark then a = 1 else a = 5"
      using found_first [of c r st0 q] less.prems(1-3) Cons by blast
    have m: "?m \<le> length cs" "0 < ?m" using Cons length_takeWhile_le by auto
    obtain cp st1 where sc: "vscan st0 = Some (Matched a cp st1)"
      and st': "ready (drop ?m cs) (before_action cp st1)" "whole (take ?m cs) (before_action cp st1)"
        "sc_start (before_action cp st1) = start_of q"
      using found_token [OF f m(1)] by blast
    let ?st = "before_action cp st1"
    have step: "packed_lex_all voms_packed voms_rule X_none st =
      (case voms_rule a ?st of
         None \<Rightarrow> Some [Lex_bad]
       | Some (st, None) \<Rightarrow> packed_lex_all voms_packed voms_rule X_none st
       | Some (st, Some (t, v)) \<Rightarrow> Option.bind (packed_lex_all voms_packed voms_rule X_none st) (\<lambda>ts. Some (Lexed t v st # ts)))"
      using sc less.prems(4) by (subst packed_lex_all.simps) simp
    have hyp: "\<exists>ys. packed_lex_all voms_packed voms_rule X_none st2 = Some ys \<and> carries (voms_tokens q' (drop ?m cs)) ys"
      if "ready (drop ?m cs) st2" "sc_start st2 = start_of q'" for st2 q'
      using that m Cons less.prems(1)
      by (intro less.hyps [of "drop ?m cs" "begin_pass st2"]) (auto simp: ready_def dest: in_set_dropD)
    have free: "NUL \<notin> set (take ?m cs)" using less.prems(1) by (auto dest: in_set_takeD)
    note str = whole_string [OF st'(2) free]
    note here = hyp [OF st'(1,3)]
    note moved = hyp [of "BEGIN 1 ?st" True] hyp [of "BEGIN 0 ?st" False]
    have cut: "drop (length (takeWhile P r)) r = dropWhile P r" "take (length (takeWhile P r)) r = takeWhile P r" for P
      by (metis append_eq_conv_conj takeWhile_dropWhile_id)+
    have qw: "\<not> word_char quote_mark" "\<not> blank_char quote_mark" by (simp_all add: word_char_def blank_char_def quote_mark_def)
    consider (strings) "q" "c \<noteq> quote_mark" | (from_quotes) "q" "c = quote_mark" | (words) "\<not> q" "word_char c"
      | (blanks) "\<not> q" "\<not> word_char c" "blank_char c" | (to_quotes) "\<not> q" "c = quote_mark"
      | (others) "\<not> q" "\<not> word_char c" "\<not> blank_char c" "c \<noteq> quote_mark" by blast
    then show ?thesis
    proof cases
      case strings
      then show ?thesis using here step a str
        by (auto simp: Cons voms_tokens.simps(2) voms_rule_def cut tok_value_def STRING_def)
    next
      case from_quotes
      then show ?thesis using moved(2) step a st'(1)
        by (simp add: Cons voms_tokens.simps(2) voms_rule_def start_of_def)
    next
      case words
      then show ?thesis using here step a str
        by (auto simp: Cons voms_tokens.simps(2) voms_rule_def cut tok_value_def ID_def)
    next
      case blanks
      then show ?thesis using here step a
        by (auto simp: Cons voms_tokens.simps(2) voms_rule_def)
    next
      case to_quotes
      then show ?thesis using moved(1) step a st'(1) qw
        by (simp add: Cons voms_tokens.simps(2) voms_rule_def start_of_def)
    next
      case others
      have e: "entry (sc_buf ?st) (int (sc_text ?st)) = Some c" using whole_first [of c "[]" ?st] st'(2) others Cons by simp
      have "c \<noteq> NUL" using less.prems(1) Cons by auto
      from code_of_sign [OF this] show ?thesis using here step a others e
        by (auto simp: Cons voms_tokens.simps(2) voms_rule_def tok_value_def STRING_def ID_def split: if_splits)
    qed
  qed
qed

text \<open>A file that is read in one piece.\<close>

theorem lexes_options:
  assumes "NUL \<notin> set file" "length file \<le> YY_READ_BUF_SIZE"
  shows "\<exists>ys. voms_yylex file = Some ys \<and> carries (voms_tokens False file) ys"
proof -
  let ?st = "yylex_init file"
  have bp: "begin_pass ?st = ?st" by (simp add: begin_pass_def yylex_init_def NUL_def)
  have m0: "vmatch (sc_buf ?st) 1 0 None = Some (15, 2, Some (5, 1))"
    using match_end [OF _ voms_leads(1), of 0 "sc_buf ?st" "[]" None] by (simp add: yylex_init_def numeral_2_eq_2)
  show ?thesis
  proof (cases "file = []")
    case True
    then have "packed_scan voms_packed 1 0 ?st = Some (At_eof (?st\<lparr>sc_last := Some (5, 1)\<rparr>))"
      using m0 room_enough [of 0]
      by (subst packed_scan.simps)
        (simp add: yylex_init_def packed_find_action_def accepts yy_get_next_buffer_def Let_def overwrite_front_def YY_READ_BUF_SIZE_def)
    then show ?thesis using True bp
      unfolding voms_yylex_def by (subst packed_lex_all.simps) (auto simp: yylex_init_def)
  next
    case False
    define st0 where "st0 = ?st\<lparr>sc_last := Some (5, 1), sc_buf := file @ [NUL, NUL], sc_n := length file, sc_file := []\<rparr>"
    have "yy_get_next_buffer 1 (?st\<lparr>sc_last := Some (5, 1)\<rparr>) = Some (Continue_scan st0)"
      using assms(2) False room_enough [of 0]
      by (simp add: yylex_init_def st0_def yy_get_next_buffer_def Let_def overwrite_front_def YY_READ_BUF_SIZE_def
          YY_BUF_SIZE_def)
    then have "packed_scan voms_packed 1 0 ?st = packed_scan voms_packed 1 0 st0"
      using m0 by (subst packed_scan.simps) (simp add: yylex_init_def packed_find_action_def accepts packed_again_def st0_def)
    moreover have "loaded file st0" using assms(2) by (auto simp: loaded_def st0_def yylex_init_def)
    ultimately show ?thesis
      using lexes_tokens [OF assms(1), of st0 False ?st] bp by (simp add: voms_yylex_def st0_def yylex_init_def start_of_def)
  qed
qed

text \<open>The answer for a file of options.\<close>

lemma parse_options_answer:
  assumes "NUL \<notin> set file" "length file \<le> YY_READ_BUF_SIZE"
  shows "parse_options stack file volist = Some (take_vos volist [] (voms_tokens False file))"
  using lexes_options [OF assms] voms_parse_answers by (auto simp: parse_options_def)

end
