(* ===== verification/VomsFile.thy ===== *)
theory VomsFile
  imports VomsTokens
begin

text \<open>
  Files of options from the characters to the VOs: what is written is read back, and what overruns the
  arrays of the parser.
\<close>

section \<open>Writing options\<close>

type_synonym vo_section = "cstring \<times> (cstring \<times> cstring) list"

definition written_option :: "cstring \<times> cstring \<Rightarrow> cstring" where
  "written_option x = fst x @ CHR ''='' # quote_mark # snd x @ [quote_mark, CHR 0x0A]"

definition written_vo :: "vo_section \<Rightarrow> cstring" where
  "written_vo w = CHR ''['' # fst w @ CHR '']'' # CHR 0x0A # concat (map written_option (snd w))"

definition written_vos :: "vo_section list \<Rightarrow> cstring" where
  "written_vos ws = concat (map written_vo ws)"

definition word :: "cstring \<Rightarrow> bool" where
  "word w \<longleftrightarrow> w \<noteq> [] \<and> list_all word_char w"

text \<open>What can be written: words as names, values without quotes that are not empty.\<close>

definition option_writable :: "cstring \<times> cstring \<Rightarrow> bool" where
  "option_writable x \<longleftrightarrow> word (fst x) \<and> snd x \<noteq> [] \<and> quote_mark \<notin> set (snd x) \<and> NUL \<notin> set (snd x)"

definition vo_writable :: "vo_section \<Rightarrow> bool" where
  "vo_writable w \<longleftrightarrow> word (fst w) \<and> list_all option_writable (snd w)"

section \<open>The tokens of the text\<close>

definition option_tokens :: "cstring \<times> cstring \<Rightarrow> tok list" where
  "option_tokens x = [(ID, fst x), (61, []), (STRING, snd x)]"

definition vo_tokens :: "vo_section \<Rightarrow> tok list" where
  "vo_tokens w = [(91, []), (ID, fst w), (93, [])] @ concat (map option_tokens (snd w))"

abbreviation (input) toks where "toks \<equiv> voms_tokens False"

lemma marks:
  "\<not> word_char (CHR ''='')" "\<not> word_char (CHR ''['')" "\<not> word_char (CHR '']'')" "\<not> word_char (CHR 0x0A)"
  "\<not> word_char quote_mark" "\<not> blank_char (CHR ''='')" "\<not> blank_char (CHR ''['')" "\<not> blank_char (CHR '']'')"
  "blank_char (CHR 0x0A)" "\<not> blank_char quote_mark" "CHR ''='' \<noteq> quote_mark" "CHR ''['' \<noteq> quote_mark"
  "CHR '']'' \<noteq> quote_mark"
  by (simp_all add: word_char_def blank_char_def quote_mark_def)

lemma toks_word:
  assumes "word w" "\<not> word_char c"
  shows "toks (w @ c # r) = (ID, w) # toks (c # r)"
proof -
  obtain d v where w: "w = d # v" "word_char d" "list_all word_char v" using assms(1) by (cases w) (auto simp: word_def)
  have "takeWhile word_char (v @ c # r) = v" "dropWhile word_char (v @ c # r) = c # r"
    using w(3) assms(2) by (simp_all add: takeWhile_append2 dropWhile_append2 list_all_iff)
  then show ?thesis using w by (simp add: voms_tokens.simps(2))
qed

lemma toks_string:
  assumes "w \<noteq> []" "quote_mark \<notin> set w"
  shows "toks (quote_mark # w @ quote_mark # r) = (STRING, w) # toks r"
proof -
  obtain d v where w: "w = d # v" "d \<noteq> quote_mark" "quote_mark \<notin> set v" using assms by (cases w) auto
  have "\<forall>x\<in>set v. x \<noteq> quote_mark" using w(3) by auto
  then have "takeWhile (\<lambda>c. c \<noteq> quote_mark) (v @ quote_mark # r) = v" "dropWhile (\<lambda>c. c \<noteq> quote_mark) (v @ quote_mark # r) = quote_mark # r"
    by (simp_all add: takeWhile_append2 dropWhile_append2)
  then show ?thesis using w by (simp add: voms_tokens.simps(2) marks)
qed

lemma toks_marks:
  "toks (CHR ''='' # r) = (61, []) # toks r" "toks (CHR ''['' # r) = (91, []) # toks r"
  "toks (CHR '']'' # r) = (93, []) # toks r" "toks (CHR 0x0A # r) = toks r"
  by (simp_all add: voms_tokens.simps(2) marks)

lemma toks_option:
  assumes "option_writable x"
  shows "toks (written_option x @ r) = option_tokens x @ toks r"
  using assms toks_word [of "fst x" "CHR ''=''"] toks_string [of "snd x"]
  by (simp add: option_writable_def written_option_def option_tokens_def marks toks_marks)

lemma toks_options:
  "list_all option_writable ps \<Longrightarrow> toks (concat (map written_option ps) @ r) = concat (map option_tokens ps) @ toks r"
  by (induction ps) (simp_all add: toks_option)

lemma toks_vos:
  "list_all vo_writable ws \<Longrightarrow> toks (written_vos ws) = concat (map vo_tokens ws)"
proof (induction ws)
  case (Cons w ws)
  then show ?case
    using toks_word [of "fst w" "CHR '']''"]
    by (simp add: written_vos_def written_vo_def vo_tokens_def vo_writable_def toks_marks toks_options marks)
qed (simp add: written_vos_def)

section \<open>The parameters of the tokens\<close>

definition option_param :: "cstring \<times> cstring \<Rightarrow> param" where
  "option_param x = new_param (fst x) (snd x)"

lemma take_option:
  "first_tok r \<noteq> 61 \<Longrightarrow> take_param (option_tokens x @ r) = Some (option_param x, r)"
  by (simp add: option_tokens_def take_param_def take_mark_def take_value_def option_param_def)

lemma first_options:
  "first_tok r \<noteq> 61 \<Longrightarrow> first_tok (concat (map option_tokens ps) @ r) \<noteq> 61"
  by (cases ps) (simp_all add: option_tokens_def ID_def)

lemma take_options:
  assumes "first_tok r \<noteq> ID" "first_tok r \<noteq> 61"
  shows "take_params qs (concat (map option_tokens ps) @ r) =
    (if ps = [] \<or> length qs + length ps \<le> MAX_SIZE then Took (qs @ map option_param ps) r else Overrun)"
proof (induction ps arbitrary: qs)
  case Nil
  then show ?case using assms(1) by (simp add: take_params.simps)
next
  case (Cons x ps)
  have "take_params qs (concat (map option_tokens (x # ps)) @ r) =
    (if length qs < MAX_SIZE then take_params (qs @ [option_param x]) (concat (map option_tokens ps) @ r) else Overrun)"
    using take_option [OF first_options [OF assms(2)], of x ps]
    by (subst take_params.simps) (simp add: first_tok_def option_tokens_def)
  then show ?case using Cons.IH [of "qs @ [option_param x]"] by (cases ps) simp_all
qed

lemma take_written:
  assumes "first_tok r \<noteq> ID" "first_tok r \<noteq> 61"
  shows "take_vo (vo_tokens w @ r) =
    (if length (snd w) \<le> MAX_SIZE then
       (case convert_loop_params (new_vo (fst w)) (map option_param (snd w)) of None \<Rightarrow> Overrun | Some v \<Rightarrow> Took v r)
     else Overrun)"
  using take_options [OF assms, of "[]" "snd w"] by (simp add: take_vo_def vo_tokens_def take_mark_def)

section \<open>What is configured\<close>

definition values_of :: "cstring \<Rightarrow> (cstring \<times> cstring) list \<Rightarrow> cstring list" where
  "values_of name ps = map snd (filter (\<lambda>x. fst x = name) ps)"

definition last_of :: "cstring \<Rightarrow> (cstring \<times> cstring) list \<Rightarrow> cstring option" where
  "last_of name ps = (if values_of name ps = [] then None else Some (last (values_of name ps)))"

fun joined :: "cstring list \<Rightarrow> cstring option" where
  "joined [] = None"
| "joined (x # xs) = Some (foldl (\<lambda>t y. t @ '','' @ y) x xs)"

definition configured :: "vo_section \<Rightarrow> vo" where
  "configured w =
     \<lparr>vo_name = fst w, vo_hostcert = last_of ''-hostcert'' (snd w), vo_hostkey = last_of ''-hostkey'' (snd w),
      vo_fqans = values_of ''-fqan'' (snd w), vo_gas = values_of ''-ga'' (snd w),
      vo_vomslife = (case last_of ''-vomslife'' (snd w) of None \<Rightarrow> 0 | Some h \<Rightarrow> atoi h * 3600),
      vo_targets = joined (values_of ''-target'' (snd w)), vo_uri = last_of ''-uri'' (snd w), vo_newformat = 0,
      vo_pastac = last_of ''-pastac'' (snd w), vo_params = map (\<lambda>_. \<lparr>pm_name = None, pm_value = None\<rparr>) (snd w),
      vo_extensions = values_of ''-acextension'' (snd w)\<rparr>"

text \<open>Fewer parameters than the arrays have places, hours whose seconds fit.\<close>

definition vo_fits :: "vo_section \<Rightarrow> bool" where
  "vo_fits w \<longleftrightarrow> vo_writable w \<and> length (snd w) < MAX_SIZE \<and>
     list_all (\<lambda>h. int_range (atoi h) \<and> int_range (atoi h * 3600)) (values_of ''-vomslife'' (snd w))"

lemma values_of_simps [simp]:
  "values_of n [] = []" "values_of n (ps @ [(m, x)]) = values_of n ps @ (if m = n then [x] else [])"
  by (simp_all add: values_of_def)

lemma last_of_simps [simp]:
  "last_of n [] = None" "last_of n (ps @ [(m, x)]) = (if m = n then Some x else last_of n ps)"
  by (simp_all add: last_of_def)

lemma joined_snoc: "joined (xs @ [x]) = Some (case joined xs of None \<Rightarrow> x | Some t \<Rightarrow> t @ '','' @ x)"
  by (cases xs) simp_all

lemma values_of_length: "length (values_of n ps) \<le> length ps"
  by (simp add: values_of_def)

lemma values_of_Cons: "values_of n (x # ps) = (if fst x = n then [snd x] else []) @ values_of n ps"
  by (simp add: values_of_def)

lemma convert_step:
  assumes "Suc (length ps) < MAX_SIZE" "m = ''-vomslife'' \<Longrightarrow> int_range (atoi x) \<and> int_range (atoi x * 3600)"
  shows "\<exists>v. convertparam (configured (n, ps)) (option_param (m, x)) = Some (v, \<lparr>pm_name = None, pm_value = None\<rparr>) \<and>
    v\<lparr>vo_params := vo_params v @ [\<lparr>pm_name = None, pm_value = None\<rparr>]\<rparr> = configured (n, ps @ [(m, x)])"
proof -
  have room: "length (values_of k ps) < MAX_SIZE" "Suc (length (values_of k ps)) < MAX_SIZE" for k
    using values_of_length [of k ps] assms(1) by (simp_all add: MAX_SIZE_def)
  have "\<exists>v. convert_value (configured (n, ps)) m x = Some v \<and>
    v\<lparr>vo_params := vo_params v @ [\<lparr>pm_name = None, pm_value = None\<rparr>]\<rparr> = configured (n, ps @ [(m, x)])"
    using assms(2) room by (simp add: convert_value_def put_at_end_def configured_def joined_snoc Let_def)
  then show ?thesis by (auto simp: convertparam_def option_param_def new_param_def)
qed

lemma convert_options:
  assumes "length ps0 + length ps < MAX_SIZE"
    "list_all (\<lambda>h. int_range (atoi h) \<and> int_range (atoi h * 3600)) (values_of ''-vomslife'' ps)"
  shows "convert_loop_params (configured (n, ps0)) (map option_param ps) = Some (configured (n, ps0 @ ps))"
  using assms
proof (induction ps arbitrary: ps0)
  case (Cons y ps)
  obtain m x where y: "y = (m, x)" by (cases y)
  obtain v where v: "convertparam (configured (n, ps0)) (option_param (m, x)) = Some (v, \<lparr>pm_name = None, pm_value = None\<rparr>)"
    "v\<lparr>vo_params := vo_params v @ [\<lparr>pm_name = None, pm_value = None\<rparr>]\<rparr> = configured (n, ps0 @ [(m, x)])"
    using convert_step [of ps0 m x n] Cons.prems y by (auto simp: values_of_Cons split: if_splits)
  have "convert_loop_params (configured (n, ps0 @ [y])) (map option_param ps) = Some (configured (n, (ps0 @ [y]) @ ps))"
    using Cons.prems by (intro Cons.IH) (auto simp: values_of_Cons split: if_splits)
  then show ?case using v y by simp
qed simp

lemma configured_new: "configured (n, []) = new_vo n"
  by (simp add: configured_def new_vo_def)

lemma take_fitting:
  assumes "vo_fits w" "first_tok r \<noteq> ID" "first_tok r \<noteq> 61"
  shows "take_vo (vo_tokens w @ r) = Took (configured w) r"
proof -
  obtain n ps where w: "w = (n, ps)" by (cases w)
  have "convert_loop_params (new_vo n) (map option_param ps) = Some (configured w)"
    using convert_options [of "[]" ps n] assms(1) w by (simp add: vo_fits_def configured_new)
  then show ?thesis using take_written [OF assms(2,3), of w] assms(1) w by (simp add: vo_fits_def)
qed

lemma first_vos: "first_tok (concat (map vo_tokens ws) @ r) = (if ws = [] then first_tok r else 91)"
  by (cases ws) (simp_all add: vo_tokens_def)

lemma vo_tokens_nonempty [simp]: "vo_tokens w \<noteq> []" "concat (map vo_tokens (w # ws)) \<noteq> []"
  by (simp_all add: vo_tokens_def)

lemma take_fitting_vos:
  assumes "list_all vo_fits ws" "ws \<noteq> []" "length vs + length ws \<le> MAX_SIZE" "first_tok r \<noteq> ID" "first_tok r \<noteq> 61"
  shows "take_vos volist vs (concat (map vo_tokens ws) @ r) =
    (if r = [] then Some (0, Some (vs @ map configured ws))
     else take_vos (Some (vs @ map configured ws)) (vs @ map configured ws) r)"
  using assms(1-3)
proof (induction ws arbitrary: volist vs)
  case (Cons w ws)
  have ne: "first_tok (concat (map vo_tokens ws) @ r) \<noteq> ID" "first_tok (concat (map vo_tokens ws) @ r) \<noteq> 61"
    using assms(4,5) by (simp_all add: first_vos ID_def)
  have t: "take_vo (concat (map vo_tokens (w # ws)) @ r) = Took (configured w) (concat (map vo_tokens ws) @ r)"
    using take_fitting [OF _ ne] Cons.prems(1) by simp
  show ?case
  proof (cases "ws = []")
    case True
    then show ?thesis using t Cons.prems(3) by (subst take_vos.simps) simp
  next
    case False
    then show ?thesis using t Cons.prems Cons.IH [of "vs @ [configured w]" "Some (vs @ [configured w])"]
      by (subst take_vos.simps) (cases ws; simp)
  qed
qed simp

section \<open>The answers\<close>

lemma written_free:
  assumes "list_all vo_writable ws"
  shows "NUL \<notin> set (written_vos ws)"
proof -
  have w: "NUL \<notin> set w" if "word w" for w
    using that by (auto simp: word_def list_all_iff word_char_def)
  have "NUL \<notin> set (written_option x)" if "option_writable x" for x
    using that w [of "fst x"] by (auto simp: option_writable_def written_option_def NUL_def quote_mark_def)
  then have "NUL \<notin> set (written_vo v)" if "vo_writable v" for v
    using that w [of "fst v"] by (auto simp: vo_writable_def written_vo_def list_all_iff NUL_def)
  then show ?thesis using assms by (auto simp: written_vos_def list_all_iff)
qed

lemma written_answer:
  assumes "list_all vo_writable ws" "length (written_vos ws) \<le> YY_READ_BUF_SIZE"
  shows "parse_options stack (written_vos ws) volist = Some (take_vos volist [] (concat (map vo_tokens ws)))"
  using parse_options_answer [OF written_free [OF assms(1)] assms(2)] toks_vos [OF assms(1)] by simp

text \<open>A section whose parameters do not fit, after sections that do.\<close>

lemma take_overrun:
  assumes "list_all vo_fits ws" "length ws \<le> MAX_SIZE" "take_vo (vo_tokens w @ concat (map vo_tokens us)) = Overrun"
  shows "take_vos volist [] (concat (map vo_tokens (ws @ w # us))) = None"
proof (cases "ws = []")
  case True
  then show ?thesis using assms(3) by (simp add: take_vos.simps)
next
  case False
  let ?r = "vo_tokens w @ concat (map vo_tokens us)"
  have f: "first_tok ?r \<noteq> ID" "first_tok ?r \<noteq> 61" by (simp_all add: vo_tokens_def ID_def)
  have "take_vos volist [] (concat (map vo_tokens ws) @ ?r) = take_vos (Some (map configured ws)) (map configured ws) ?r"
    using take_fitting_vos [OF assms(1) False _ f, of "[]" volist] assms(2) by simp
  also have "\<dots> = None" using assms(3) by (subst take_vos.simps) simp
  finally show ?thesis by simp
qed

lemma overruns:
  assumes "MAX_SIZE < length (snd w)"
  shows "take_vo (vo_tokens w @ concat (map vo_tokens us)) = Overrun"
proof -
  have "first_tok (concat (map vo_tokens us)) \<noteq> ID" "first_tok (concat (map vo_tokens us)) \<noteq> 61"
    using first_vos [of us "[]"] by (simp_all add: ID_def)
  then show ?thesis using take_written [of "concat (map vo_tokens us)" w] assms by simp
qed

text \<open>An empty value: no token stands for it, and the next line becomes the value.\<close>

definition swallowed :: "cstring \<times> cstring \<Rightarrow> cstring" where
  "swallowed y = generic_attribute [] (fst y) (snd y)"

lemma toks_empty: "word x \<Longrightarrow> toks (written_option (x, []) @ r) = (ID, x) # (61, []) # toks r"
  using toks_word [of x "CHR ''=''" "quote_mark # quote_mark # CHR 0x0A # r"]
  by (simp add: written_option_def toks_marks voms_tokens.simps(2) [of False quote_mark]
      voms_tokens.simps(2) [of True quote_mark] marks)

lemma take_options_then:
  assumes "first_tok r \<noteq> 61" "length qs + length ps \<le> MAX_SIZE"
  shows "take_params qs (concat (map option_tokens ps) @ r) = take_params (qs @ map option_param ps) r"
  using assms(2)
proof (induction ps arbitrary: qs)
  case (Cons x ps)
  have "first_tok (option_tokens x @ concat (map option_tokens ps) @ r) = ID" by (simp add: option_tokens_def)
  then show ?case
    using take_option [OF first_options [OF assms(1)], of x ps] Cons.IH [of "qs @ [option_param x]"] Cons.prems
    by (subst take_params.simps) simp
qed simp

lemma take_swallowed:
  assumes "first_tok r \<noteq> 40" "length qs < MAX_SIZE"
  shows "take_params qs ((ID, x) # (61, []) # option_tokens y @ r) = take_params (qs @ [option_param (x, swallowed y)]) r"
  using assms
  by (subst take_params.simps)
    (simp add: option_tokens_def take_param_def take_mark_def take_value_def option_param_def swallowed_def)

lemma swallowing_section:
  assumes "vo_fits (n, ps @ (x, swallowed y) # qs)"
  shows "take_vo (vo_tokens (n, ps) @ (ID, x) # (61, []) # option_tokens y @ concat (map option_tokens qs)) =
    Took (configured (n, ps @ (x, swallowed y) # qs)) []"
proof -
  let ?w = "(n, ps @ (x, swallowed y) # qs)"
  have len: "Suc (length ps + length qs) < MAX_SIZE" using assms by (simp add: vo_fits_def)
  have f: "first_tok (concat (map option_tokens qs)) \<noteq> 40"
    by (cases qs) (simp_all add: option_tokens_def ID_def)
  have e: "take_params us (concat (map option_tokens qs)) = Took (us @ map option_param qs) []"
    if "length us + length qs \<le> MAX_SIZE" for us
    using take_options [of "[]" us qs] that by (simp add: ID_def)
  have p: "take_params [] (concat (map option_tokens ps) @ (ID, x) # (61, []) # option_tokens y @ concat (map option_tokens qs)) =
      Took (map option_param (ps @ (x, swallowed y) # qs)) []"
    using take_options_then [of "(ID, x) # (61, []) # option_tokens y @ concat (map option_tokens qs)" "[]" ps]
      take_swallowed [OF f, of "map option_param ps" x y] e [of "map option_param ps @ [option_param (x, swallowed y)]"] len
    by (simp add: ID_def)
  have "convert_loop_params (new_vo n) (map option_param (ps @ (x, swallowed y) # qs)) = Some (configured ?w)"
    using convert_options [of "[]" "ps @ (x, swallowed y) # qs" n] assms by (simp add: vo_fits_def configured_new)
  then show ?thesis using p by (simp add: take_vo_def vo_tokens_def take_mark_def)
qed

section \<open>Claims\<close>

text \<open>
  C6: for every file without zeros of at most 8192 characters the scanner and the parser of the options of
  voms-proxy-fake, with their tables, their buffer and their stacks, answer what a parser by recursive descent
  answers on the tokens of a lexer on the characters: the same result, the same list of VOs, and undefined
  where an array of the parser is overrun, whether or not there is memory for a larger stack. The calls
  for memory whose result the code does not test (the copies of the tokens among them) succeed.
\<close>

theorem options_file_answer:
  assumes "NUL \<notin> set file" "length file \<le> YY_READ_BUF_SIZE"
  shows "parse_options stack file volist = Some (take_vos volist [] (voms_tokens False file))"
  by (rule parse_options_answer [OF assms])

text \<open>
  C16: options that are written to a file, a section for every VO and a line with a quoted value for every
  parameter, are read back: the last certificate, key, URI and start of the certificate, all FQANs, attributes and
  extensions in their order, the targets joined with commas, and hours as seconds. Parameters with
  other names are skipped without a message. At most 200 VOs, fewer than 200 parameters each, and
  lifetimes whose seconds fit an \<open>int\<close>.
\<close>

theorem options_file_roundtrip:
  assumes "ws \<noteq> []" "list_all vo_fits ws" "length ws \<le> MAX_SIZE" "length (written_vos ws) \<le> YY_READ_BUF_SIZE"
  shows "parse_options stack (written_vos ws) volist = Some (Some (0, Some (map configured ws)))"
proof -
  have "list_all vo_writable ws" using assms(2) by (auto simp: vo_fits_def list_all_iff)
  from written_answer [OF this assms(4)] show ?thesis
    using take_fitting_vos [OF assms(2,1), of "[]" "[]" volist] assms(3) by (simp add: ID_def)
qed

text \<open>
  C39: a section with more than 200 parameters makes the parser write past the end of an array, wherever it stands
  and whatever follows it.
\<close>

theorem options_overrun:
  assumes "list_all vo_fits ws" "length ws \<le> MAX_SIZE" "list_all vo_writable (w # us)" "MAX_SIZE < length (snd w)"
    "length (written_vos (ws @ w # us)) \<le> YY_READ_BUF_SIZE"
  shows "parse_options stack (written_vos (ws @ w # us)) volist = Some None"
proof -
  have "list_all vo_writable (ws @ w # us)" using assms(1,3) by (auto simp: vo_fits_def list_all_iff)
  from written_answer [OF this assms(5)] show ?thesis
    using take_overrun [OF assms(1,2) overruns [OF assms(4)]] by simp
qed

text \<open>
  C40: an empty quoted value is no value: the line after it becomes the value, as if it were an attribute with
  its own value, and the parameter of that line is lost.
\<close>

theorem options_empty_value:
  assumes "vo_fits (n, ps @ (x, swallowed y) # qs)" "vo_writable (n, ps @ y # qs)" "word x"
    "length (written_vo (n, ps @ (x, []) # y # qs)) \<le> YY_READ_BUF_SIZE"
  shows "parse_options stack (written_vo (n, ps @ (x, []) # y # qs)) volist =
    Some (Some (0, Some [configured (n, ps @ (x, swallowed y) # qs)]))"
proof -
  let ?f = "written_vo (n, ps @ (x, []) # y # qs)"
  have x: "NUL \<notin> set (written_option (x, []))"
    using assms(3) by (auto simp: written_option_def word_def list_all_iff word_char_def quote_mark_def NUL_def)
  have "NUL \<notin> set ?f"
    using written_free [of "[(n, ps @ y # qs)]"] assms(2) x by (auto simp: written_vos_def written_vo_def)
  moreover have "toks ?f = vo_tokens (n, ps) @ (ID, x) # (61, []) # option_tokens y @ concat (map option_tokens qs)"
    using assms(2) toks_word [of n "CHR '']''"] toks_options [of ps] toks_empty [OF assms(3)] toks_option [of y]
      toks_options [of qs "[]"]
    by (simp add: written_vo_def vo_tokens_def vo_writable_def toks_marks marks)
  ultimately show ?thesis
    using parse_options_answer [OF _ assms(4)] swallowing_section [OF assms(1)] by (simp add: take_vos.simps)
qed

section \<open>Witnesses\<close>

definition sample_section :: vo_section where
  "sample_section =
     (''cms'', [(''-hostcert'', ''/tmp/a b.pem''), (''-fqan'', ''/cms''), (''-vomslife'', ''12''), (''-target'', ''a''),
        (''-fqan'', ''/cms/x''), (''-target'', ''b''), (''-other'', ''c'')])"

lemma sample_fits: "vo_fits sample_section"
  by code_simp

lemma options_file_answer_witness:
  "parse_options (\<lambda>n. n < 5) ''[cms] -fqan=/cms'' None = Some (take_vos None [] (voms_tokens False ''[cms] -fqan=/cms''))"
  by (rule options_file_answer) (simp_all add: NUL_def YY_READ_BUF_SIZE_def)

lemma sample_configured:
  "configured sample_section =
     (new_vo ''cms'')\<lparr>vo_hostcert := Some ''/tmp/a b.pem'', vo_fqans := [''/cms'', ''/cms/x''], vo_vomslife := 43200,
       vo_targets := Some ''a,b'', vo_params := replicate 7 \<lparr>pm_name = None, pm_value = None\<rparr>\<rparr>"
  by code_simp

lemma options_file_roundtrip_witness:
  "parse_options (\<lambda>n. n < 5) (written_vos [sample_section, (''dteam'', [])]) None =
     Some (Some (0, Some (map configured [sample_section, (''dteam'', [])])))"
  by (rule options_file_roundtrip) (simp, code_simp, code_simp, code_simp)

lemma options_overrun_witness:
  "parse_options (\<lambda>n. n < 5) (written_vos ([sample_section] @ (''a'', replicate 201 (''-fqan'', ''b'')) # [])) None = Some None"
  by (rule options_overrun)
    (code_simp, simp add: MAX_SIZE_def,
     simp add: vo_writable_def option_writable_def word_def word_char_def quote_mark_def NUL_def list_all_iff,
     simp add: MAX_SIZE_def,
     simp add: written_vos_def written_vo_def written_option_def sample_section_def YY_READ_BUF_SIZE_def length_concat
       sum_list_replicate)

lemma options_empty_value_witness:
  "parse_options (\<lambda>n. n < 5) (written_vo (''cms'', [(''-hostkey'', ''k'')] @ (''-uri'', []) # (''-fqan'', ''/cms'') # [])) None =
     Some (Some (0, Some [configured (''cms'', [(''-hostkey'', ''k'')] @ (''-uri'', swallowed (''-fqan'', ''/cms'')) # [])]))"
  by (rule options_empty_value) (code_simp, code_simp, code_simp, code_simp)

lemma swallowed_sample: "swallowed (''-fqan'', ''/cms'') = ''::-fqan=/cms''"
  by code_simp

end
