(* ===== verification/Spec2Isabelle.thy ===== *)
theory Spec2Isabelle
  imports CList Normalize Policy UtcTime Verify DistName ProxySign FileNames MakeProxy Credentials WriteAC Uuid LogFile LogSyslog LogSystem PolicyVerdict VomsFile
begin

text \<open>
  A verification library for VOMS, the Virtual Organization Membership Service: the C code of the
  server and of the client tools that makes, names, dates, checks and reports X.509 proxy
  certificates. All paths below are under src/src.

  \<^bold>\<open>The program's parts and the theories that model them.\<close>

  \<^item> Prelude: C strings and the string functions of the C library, with the results of the "C"
    locale; reading past a string or through NULL is \<open>None\<close>. Step: functions that leave through a
    label \<open>err\<close>. X509Model: certificates, names, extensions and keys as far as the sources read
    them, and the record \<open>ossl\<close> of what OpenSSL answers.
  \<^item> CList: the NULL-terminated arrays of common/list.c (\<open>listadd\<close>, \<open>listfree\<close>). The namespaces and
    policies of sslutils and the attributes of ac are kept in them.
  \<^item> Normalize: the rewriting of name aliases, common/normalize.c, and the printing of
    common/doio.c. The name checks of the policies compare normalised names.
  \<^item> Policy: sslutils/evaluate.c with the types of sslutils/parsertypes.h: the namespaces and
    signing policies installed beside the certificates of the authorities, their reading, renaming
    and evaluation along a chain.
  \<^item> Bison, Flex: the driver of the parsers (signing_policy.c, with the same text in namespaces.c) and of
    the scanners (lex.signing.c, with the same text in lex.namespaces.c), over records of tables;
    the stack of the parser, the buffer of the scanner and the pointers into it are their states.
  \<^item> SigningScanner, SigningParser, NamespaceScanner, NamespaceParser: the tables, rules and actions of
    lex.signing.c, signing_policy.c, lex.namespaces.c and namespaces.c, with \<open>parse_subjects\<close>.
  \<^item> FlexBuffer, FlexSpec, FlexText: the scanners against a longest-match lexer on lists. ParserRun,
    SigningSpec, NamespaceSpec: the parsers against parsers by recursive descent. SigningFile,
    NamespaceFile: whole files, and files that were written. PolicyFiles, PolicyVerdict: the parsers
    in the reading of Policy, from the characters of a file to the verdict on a certificate.
  \<^item> VomsParser, VomsScanner: the options of voms-proxy-fake, utils/vomsparser.c with the same driver of
    parsers and utils/lex.yy.c, whose tables are compressed. VomsSpec, VomsTokens: the two against a
    parser by recursive descent and a lexer on lists. VomsFile: whole files, and files that were written.
  \<^item> UtcTime: \<open>ASN1_UTCTIME_mktime\<close> of sslutils/sslutils.c with the calendar of the C library.
  \<^item> ProxyName: which certificate is a proxy, which name a proxy gets, the comparison of names, the
    issuer check and the critical extensions, all of sslutils/sslutils.c.
  \<^item> Verify: the callback OpenSSL calls for each certificate of a chain, with its descriptors
    (include/sslutils.h), and the set-up of a verification. It uses Policy, ProxyName and UtcTime.
  \<^item> DistName: \<open>make_DN\<close> of sslutils/sslutils.c, the parser of slash-separated names.
  \<^item> ProxySign: \<open>proxy_sign\<close>, \<open>proxy_sign_ext\<close> and \<open>proxy_genreq\<close> of sslutils/sslutils.c.
  \<^item> CertInfo: sslutils/proxycertinfo.c, the ProxyCertInfo extension and its two encodings.
  \<^item> MakeProxy: sslutils/proxy.c, which collects the extensions of a proxy and has it signed; it
    uses DistName, ProxySign and CertInfo, and what it makes is what ProxyName recognises.
  \<^item> FileNames: where certificates, keys and proxies are looked for, sslutils/sslutils.c.
  \<^item> Credentials: proxies written to files (sslutils/proxy.c, sslutils/sslutils.c) and credentials
    loaded from them (sslutils/sslutils.c) with OpenSSL's error queue as state, and the helpers of
    common/credentials.c. What MakeProxy makes is written and loaded here; the names are those of
    FileNames.
  \<^item> Der: writers and readers of tagged parts, the macros of OpenSSL the next theories are written
    with. AttrCert: the attribute certificates of ac/newformat.c, one writer, reader and constructor
    for each type. AcExts: the extensions of attribute certificates, ac/extensions.c, and the
    objects ac/init.c registers.
  \<^item> WriteAC: \<open>writeac\<close> of ac/write.c, which makes the certificate the server hands out; it uses AcExts
    and AttrCert, and what it makes is what the readers of AttrCert read.
  \<^item> Uuid: the identifiers of server/uuid.c.
  \<^item> LogCore, LogFile, LogSyslog, LogSystem: the logger of log/log.c, its streams to a file
    (log/fs.c, with the rotation of files) and to syslog (log/sl.c), and the two together.

  \<^bold>\<open>Interfaces.\<close> Two comparisons of names are instances of the locale of comparisons (ProxyName);
  the single-pass specification of the alias rewriting is a locale over the two strings of a
  rewriting (Normalize); the loop over the subjects of a policy has the contract of its matcher as a
  locale (Policy); a log stream owes the logger the laws of the locale of LogSystem, and both
  streams are interpretations of it; what the tables of a scanner promise to its driver is the locale
  \<open>scanner\<close> (FlexSpec), interpreted on both scanners; words and strings of the options are instances
  of the locale of the runs of one kind of characters (VomsTokens).

  \<^bold>\<open>What the lemmas show.\<close> Each theory first translates its code, then proves the helper lemmas
  for the loops, and then states the properties of the component, each with an application at a
  concrete input. Among them: the callback accepts only chains whose errors it is meant to forgive
  and keeps its bookkeeping sound through every run; certificates signed as proxies are recognised as
  proxies of their user; a proxy ends with the user's certificate at the latest, but for the seconds by
  which its start was moved to the past; policies are decided as
  the sources document them, and where they are not, how; the files of policies are read as a reference lexer
  and a reference parser read them, what was written is read back, and the verdict is that of the
  first rule in the file that applies; times are converted to the right second
  and in order; names, key usages, ProxyCertInfo values, attribute certificates and their
  extensions survive writing and reading; what the server writes is what a client reads; a proxy
  that was written is loaded, from PEM files only with a key that fits and is private to the user; a log line
  is one line, is appended, and old log files are only shifted; errors in the making of an attribute
  certificate free every block once, but for one case.

  \<^bold>\<open>Undefined behaviour and errors.\<close> Every raise, early return and queued error of the sources is a
  branch of the model. Memory that is read out of bounds, freed twice or used after it was freed,
  NULL that is dereferenced and a signed \<open>int\<close> that overflows are \<open>None\<close>, \<open>Wild\<close> or \<open>Crash\<close>. Where
  the calls for memory are tested by the sources, the environment says which of them fail, but for the strings
  of the logger (its lines, the names of its files and the copies of option values), which are made;
  where the sources do not test them, they succeed. The error queue is state wherever it is written
  or emptied (ProxyName, Verify, Credentials); in \<open>writeac\<close> the pointers that are not NULL, the blocks
  that are allocated and those that hang in others are state, so that a block freed twice is found by
  running the code.

  \<^bold>\<open>Numbers.\<close> Integers have their width where the sources may reach it: flags, key usages and hashes are words, dates,
  offsets and lifetimes are checked against the range of \<open>int\<close>. Without bounds are those that count
  what is in memory or in a directory: the depths of a descriptor of a verification, the number of a
  rotated file, the level of the logger, an enumeration that is compared as an \<open>int\<close>.

  \<^bold>\<open>Loops.\<close> The loops over strings, names, chains and policies are recursions with a termination
  proof, on the characters or elements left. The loop that loads a chain is a partial function
  too, and returns when every certificate that is read takes something off the file. The expansion
  of the dates in a log line need not end: it is a partial function whose value \<open>None\<close> is a loop
  that does not end, and it is proved to end for dates that bring no new directive, and not to end
  for dates that do. The loops of the driver of the parsers and of the scanners are partial functions
  over arbitrary tables; for the tables of the program and files of 7-bit characters they are proved to
  return. No fuel is used. The theorems about files are for files of at most 8192 characters, which
  one call reads: then a file has fewer tokens than the parser's stack has room for.

  \<^bold>\<open>Not modelled.\<close> The functions of OpenSSL (with its codecs of integers, names, keys and
  certificates, which the record \<open>prims\<close> of AttrCert names and \<open>prims_ok\<close> requires to read back
  what they write, the flags OpenSSL keeps beside a certificate included, and its PEM and PKCS#12 routines) and the C library's files and clocks are
  parameters. Of the scanners, \<open>input\<close>, \<open>unput\<close> and the functions for several buffers, which nothing
  calls, and of the parsers the texts of messages are left out. The C++ parts (server, client, the C++
  API, socklib, the callers of \<open>writeac\<close> and the validation of attribute certificates), the gSOAP
  runtime and stubs (server/stdsoap2.c, server/soapC.c), the portability copies of library functions
  (replib) and the smart cards of sslutils/scutils.c are left out.
\<close>

end
